(* ===== verification/Prelude.thy ===== *)
theory Prelude
  imports Complex_Main "HOL-Library.Multiset"
begin

text \<open>
  The shared base of the development: the names of the model's basic types, the collections the
  component proofs draw on, the interface of a typed vocabulary (an enumeration stored as a string),
  and generic facts on lists, options and strings that several components use.

  Conventions.  A \<open>Uuid\<close> is a natural number (only equality and the total order of the source are
  used).  An instant (\<open>DateTime<Utc>\<close>, or \<open>now()\<close> in SQL) is an integer number of seconds and is
  always an explicit argument, because the code reads it from the clock or from the transaction.  A
  Rust \<open>String\<close> is a list of characters.
\<close>

type_synonym uuid = nat
type_synonym instant = int

named_theorems steps "what one operation does to each part of the state"
named_theorems keeps "an operation keeps an invariant of its component"

section \<open>Typed vocabularies\<close>

text \<open>
  Every enumeration of the code that reaches the database has an \<open>as_str\<close> and a \<open>parse\<close>.  What the
  callers rely on is stated once here: the two are inverse to each other, so a value survives the
  round trip and nothing but the listed words parses.
\<close>

locale vocabulary =
  fixes as_str :: "'a \<Rightarrow> string"
    and parse :: "string \<Rightarrow> 'a option"
  assumes parse_as_str: "parse (as_str x) = Some x"
    and parse_sound: "parse s = Some x \<Longrightarrow> as_str x = s"
begin

lemma parse_eq_Some_iff: "parse s = Some x \<longleftrightarrow> s = as_str x"
  using parse_as_str parse_sound by blast

lemma parse_eq_None_iff: "parse s = None \<longleftrightarrow> s \<notin> range as_str"
proof -
  have "parse s \<noteq> None \<longleftrightarrow> (\<exists>x. s = as_str x)"
    using parse_eq_Some_iff by (auto simp: not_None_eq)
  then show ?thesis by auto
qed

lemma as_str_inj: "as_str x = as_str y \<longleftrightarrow> x = y"
  by (metis option.inject parse_as_str)

lemma parse_inj: "parse s = Some x \<Longrightarrow> parse t = Some x \<Longrightarrow> s = t"
  by (simp add: parse_eq_Some_iff)

end

section \<open>Sorting by a comparator\<close>

text \<open>
  \<open>sort_by\<close> of the source takes a closure and is stable.  \<open>insort_by\<close> puts an element before the
  first one it is not greater than, so elements the comparator holds equal keep their input order.
\<close>

primrec insort_by :: "('a \<Rightarrow> 'a \<Rightarrow> bool) \<Rightarrow> 'a \<Rightarrow> 'a list \<Rightarrow> 'a list" where
  "insort_by le x [] = [x]"
| "insort_by le x (y # ys) = (if le x y then x # y # ys else y # insort_by le x ys)"

definition sort_by :: "('a \<Rightarrow> 'a \<Rightarrow> bool) \<Rightarrow> 'a list \<Rightarrow> 'a list" where
  "sort_by le xs = foldr (insort_by le) xs []"

lemma mset_insort_by [simp]: "mset (insort_by le x xs) = add_mset x (mset xs)"
  by (induction xs) auto

lemma mset_sort_by [simp]: "mset (sort_by le xs) = mset xs"
proof -
  have "mset (foldr (insort_by le) xs ys) = mset xs + mset ys" for ys
    by (induction xs) auto
  then show ?thesis by (simp add: sort_by_def)
qed

lemma set_sort_by [simp]: "set (sort_by le xs) = set xs"
  by (metis mset_sort_by set_mset_mset)

lemma length_sort_by [simp]: "length (sort_by le xs) = length xs"
  by (metis mset_sort_by size_mset)

lemma distinct_sort_by [simp]: "distinct (sort_by le xs) = distinct xs"
  by (metis mset_sort_by mset_eq_imp_distinct_iff)

lemma distinct_map_sort_by [simp]: "distinct (map f (sort_by le xs)) = distinct (map f xs)"
  by (metis mset_map mset_sort_by mset_eq_imp_distinct_iff)

lemma sort_by_simps [simp]: "sort_by le [] = []" "sort_by le (x # xs) = insort_by le x (sort_by le xs)"
  by (simp_all add: sort_by_def)

lemma set_insort_by [simp]: "set (insort_by le x xs) = insert x (set xs)"
  by (induction xs) auto

text \<open>The two laws of a comparator, needed only on the elements being sorted.\<close>

locale comparator =
  fixes le :: "'a \<Rightarrow> 'a \<Rightarrow> bool"
    and D :: "'a set"
  assumes total: "x \<in> D \<Longrightarrow> y \<in> D \<Longrightarrow> le x y \<or> le y x"
    and transitive: "x \<in> D \<Longrightarrow> y \<in> D \<Longrightarrow> z \<in> D \<Longrightarrow> le x y \<Longrightarrow> le y z \<Longrightarrow> le x z"
begin

lemma insort_by_sorted:
  "x \<in> D \<Longrightarrow> set xs \<subseteq> D \<Longrightarrow> sorted_wrt le xs \<Longrightarrow> sorted_wrt le (insort_by le x xs)"
proof (induction xs)
  case (Cons y ys)
  show ?case
  proof (cases "le x y")
    case True
    then show ?thesis using Cons.prems transitive [of x y] by auto
  next
    case False
    then have "le y x" using Cons.prems total [of x y] by auto
    then show ?thesis using Cons False by auto
  qed
qed simp

lemma sort_by_sorted: "set xs \<subseteq> D \<Longrightarrow> sorted_wrt le (sort_by le xs)"
  by (induction xs) (simp_all add: insort_by_sorted)

lemma sort_by_nth:
  "set xs \<subseteq> D \<Longrightarrow> i < j \<Longrightarrow> j < length xs \<Longrightarrow> le (sort_by le xs ! i) (sort_by le xs ! j)"
  using sort_by_sorted sorted_wrt_nth_less [of le "sort_by le xs" i j] by simp

text \<open>Truncating the sorted list keeps the best: nothing dropped beats anything kept.\<close>

lemma take_best:
  assumes "set xs \<subseteq> D" "x \<in> set (take n (sort_by le xs))" "y \<in> set xs"
    "y \<notin> set (take n (sort_by le xs))"
  shows "le x y"
proof -
  define s where "s = sort_by le xs"
  have s: "sorted_wrt le s" "set s = set xs" using assms(1) sort_by_sorted by (auto simp: s_def)
  have "s = take n s @ drop n s" by simp
  then have "sorted_wrt le (take n s @ drop n s)" "y \<in> set (take n s) \<union> set (drop n s)"
    using s assms(3) by (simp, metis set_append)
  then have "y \<in> set (drop n s)" "\<forall>a\<in>set (take n s). \<forall>b\<in>set (drop n s). le a b"
    using assms(4) by (auto simp: sorted_wrt_append s_def simp del: append_take_drop_id)
  then show ?thesis using assms(2) by (simp add: s_def)
qed

end

text \<open>A comparator under which only equal elements tie: then the sorted list is unique.\<close>

locale order_comparator = comparator +
  assumes antisym: "x \<in> D \<Longrightarrow> y \<in> D \<Longrightarrow> le x y \<Longrightarrow> le y x \<Longrightarrow> x = y"
begin

lemma sorted_unique:
  "set xs \<subseteq> D \<Longrightarrow> sorted_wrt le xs \<Longrightarrow> sorted_wrt le ys \<Longrightarrow> mset xs = mset ys \<Longrightarrow> xs = ys"
proof (induction xs arbitrary: ys)
  case (Cons x xs)
  then obtain y zs where ys: "ys = y # zs" by (cases ys) auto
  have sets: "set (x # xs) = set (y # zs)" using Cons.prems(4) ys by (metis set_mset_mset)
  have "le x y \<or> x = y" using Cons.prems(2) sets by (auto simp: set_eq_iff)
  moreover have "le y x \<or> x = y" using Cons.prems(3) ys sets by (auto simp: set_eq_iff)
  moreover have "x \<in> D" "y \<in> D" using Cons.prems(1) sets by auto
  ultimately have "x = y" using antisym by blast
  then show ?case using Cons ys by auto
qed simp

lemma sort_by_unique: "set xs \<subseteq> D \<Longrightarrow> mset xs = mset ys \<Longrightarrow> sort_by le xs = sort_by le ys"
  using sorted_unique [of "sort_by le xs" "sort_by le ys"] sort_by_sorted
  by (metis mset_sort_by set_mset_mset set_sort_by)

end

end
