(* ===== verification/Types.thy ===== *)
theory Types
  imports Prelude
begin

text \<open>
  The data model of \<open>brainiac-core\<close>: the enumerations of \<open>types.rs\<close> and \<open>library.rs\<close> with their
  string vocabulary, the caller identity and the single visibility rule, and the records the store
  keeps its rows in.  Constructors carry a prefix naming their enumeration, because the source
  reuses words such as \<open>Draft\<close> and \<open>Rejected\<close> in several of them.
\<close>

section \<open>The vocabulary of \<open>types.rs\<close>\<close>

text \<open>\<open>MemoryStatus\<close>: the governance status of a knowledge unit.\<close>

datatype memory_status =
  MS_Raw | MS_Candidate | MS_Canonical | MS_Deprecated | MS_Rejected

fun memory_status_as_str :: "memory_status \<Rightarrow> string" where
  "memory_status_as_str MS_Raw = ''raw''"
| "memory_status_as_str MS_Candidate = ''candidate''"
| "memory_status_as_str MS_Canonical = ''canonical''"
| "memory_status_as_str MS_Deprecated = ''deprecated''"
| "memory_status_as_str MS_Rejected = ''rejected''"

definition memory_status_parse :: "string \<Rightarrow> memory_status option" where
  "memory_status_parse s =
    (if s = ''raw'' then Some MS_Raw
     else if s = ''candidate'' then Some MS_Candidate
     else if s = ''canonical'' then Some MS_Canonical
     else if s = ''deprecated'' then Some MS_Deprecated
     else if s = ''rejected'' then Some MS_Rejected
     else None)"

text \<open>\<open>Visibility\<close>: the three-tier visibility.\<close>

datatype visibility =
  Vis_Private | Vis_Team | Vis_Org

fun visibility_as_str :: "visibility \<Rightarrow> string" where
  "visibility_as_str Vis_Private = ''private''"
| "visibility_as_str Vis_Team = ''team''"
| "visibility_as_str Vis_Org = ''org''"

definition visibility_parse :: "string \<Rightarrow> visibility option" where
  "visibility_parse s =
    (if s = ''private'' then Some Vis_Private
     else if s = ''team'' then Some Vis_Team
     else if s = ''org'' then Some Vis_Org
     else None)"

text \<open>\<open>MemoryKind\<close>: what sort of claim a memory makes.\<close>

datatype memory_kind =
  MK_Fact | MK_Decision | MK_Pattern | MK_Pitfall | MK_Howto

fun memory_kind_as_str :: "memory_kind \<Rightarrow> string" where
  "memory_kind_as_str MK_Fact = ''fact''"
| "memory_kind_as_str MK_Decision = ''decision''"
| "memory_kind_as_str MK_Pattern = ''pattern''"
| "memory_kind_as_str MK_Pitfall = ''pitfall''"
| "memory_kind_as_str MK_Howto = ''howto''"

definition memory_kind_parse :: "string \<Rightarrow> memory_kind option" where
  "memory_kind_parse s =
    (if s = ''fact'' then Some MK_Fact
     else if s = ''decision'' then Some MK_Decision
     else if s = ''pattern'' then Some MK_Pattern
     else if s = ''pitfall'' then Some MK_Pitfall
     else if s = ''howto'' then Some MK_Howto
     else None)"

text \<open>\<open>Lifecycle\<close>: where the claim sits relative to shipped reality.\<close>

datatype lifecycle =
  LC_Shipped | LC_InFlight | LC_Proposed

fun lifecycle_as_str :: "lifecycle \<Rightarrow> string" where
  "lifecycle_as_str LC_Shipped = ''shipped''"
| "lifecycle_as_str LC_InFlight = ''in_flight''"
| "lifecycle_as_str LC_Proposed = ''proposed''"

definition lifecycle_parse :: "string \<Rightarrow> lifecycle option" where
  "lifecycle_parse s =
    (if s = ''shipped'' then Some LC_Shipped
     else if s = ''in_flight'' then Some LC_InFlight
     else if s = ''proposed'' then Some LC_Proposed
     else None)"

definition lifecycle_default :: lifecycle where
  "lifecycle_default = LC_Shipped"

text \<open>\<open>ActorKind\<close>: who produced an artifact.\<close>

datatype actor_kind =
  AK_Human | AK_Agent | AK_Pipeline

fun actor_kind_as_str :: "actor_kind \<Rightarrow> string" where
  "actor_kind_as_str AK_Human = ''human''"
| "actor_kind_as_str AK_Agent = ''agent''"
| "actor_kind_as_str AK_Pipeline = ''pipeline''"

definition actor_kind_parse :: "string \<Rightarrow> actor_kind option" where
  "actor_kind_parse s =
    (if s = ''human'' then Some AK_Human
     else if s = ''agent'' then Some AK_Agent
     else if s = ''pipeline'' then Some AK_Pipeline
     else None)"

text \<open>\<open>EntityKind\<close>: the kind of a graph entity; Concept is the permissive fallback.\<close>

datatype entity_kind =
  EK_Service | EK_Repo | EK_Tech | EK_Feature | EK_Concept | EK_Team

fun entity_kind_as_str :: "entity_kind \<Rightarrow> string" where
  "entity_kind_as_str EK_Service = ''service''"
| "entity_kind_as_str EK_Repo = ''repo''"
| "entity_kind_as_str EK_Tech = ''tech''"
| "entity_kind_as_str EK_Feature = ''feature''"
| "entity_kind_as_str EK_Concept = ''concept''"
| "entity_kind_as_str EK_Team = ''team''"

definition entity_kind_parse :: "string \<Rightarrow> entity_kind option" where
  "entity_kind_parse s =
    (if s = ''service'' then Some EK_Service
     else if s = ''repo'' then Some EK_Repo
     else if s = ''tech'' then Some EK_Tech
     else if s = ''feature'' then Some EK_Feature
     else if s = ''concept'' then Some EK_Concept
     else if s = ''team'' then Some EK_Team
     else None)"

definition entity_kind_default :: entity_kind where
  "entity_kind_default = EK_Concept"

text \<open>\<open>EdgeRelation\<close>: a directed relation between entities.\<close>

datatype edge_relation =
  ER_Uses | ER_DependsOn | ER_Owns | ER_Deprecates | ER_RelatesTo

fun edge_relation_as_str :: "edge_relation \<Rightarrow> string" where
  "edge_relation_as_str ER_Uses = ''uses''"
| "edge_relation_as_str ER_DependsOn = ''depends_on''"
| "edge_relation_as_str ER_Owns = ''owns''"
| "edge_relation_as_str ER_Deprecates = ''deprecates''"
| "edge_relation_as_str ER_RelatesTo = ''relates_to''"

definition edge_relation_parse :: "string \<Rightarrow> edge_relation option" where
  "edge_relation_parse s =
    (if s = ''uses'' then Some ER_Uses
     else if s = ''depends_on'' then Some ER_DependsOn
     else if s = ''owns'' then Some ER_Owns
     else if s = ''deprecates'' then Some ER_Deprecates
     else if s = ''relates_to'' then Some ER_RelatesTo
     else None)"

text \<open>\<open>SourceKind\<close>: the origin of a source.\<close>

datatype source_kind =
  SK_SessionTranscript | SK_Repo | SK_Doc | SK_Manual

fun source_kind_as_str :: "source_kind \<Rightarrow> string" where
  "source_kind_as_str SK_SessionTranscript = ''session_transcript''"
| "source_kind_as_str SK_Repo = ''repo''"
| "source_kind_as_str SK_Doc = ''doc''"
| "source_kind_as_str SK_Manual = ''manual''"

definition source_kind_parse :: "string \<Rightarrow> source_kind option" where
  "source_kind_parse s =
    (if s = ''session_transcript'' then Some SK_SessionTranscript
     else if s = ''repo'' then Some SK_Repo
     else if s = ''doc'' then Some SK_Doc
     else if s = ''manual'' then Some SK_Manual
     else None)"

text \<open>\<open>DocKind\<close>: the kind of a document.\<close>

datatype doc_kind =
  DK_EntityPage | DK_TopicPage | DK_Runbook | DK_Onboarding | DK_Digest | DK_StandardsPage

fun doc_kind_as_str :: "doc_kind \<Rightarrow> string" where
  "doc_kind_as_str DK_EntityPage = ''entity_page''"
| "doc_kind_as_str DK_TopicPage = ''topic_page''"
| "doc_kind_as_str DK_Runbook = ''runbook''"
| "doc_kind_as_str DK_Onboarding = ''onboarding''"
| "doc_kind_as_str DK_Digest = ''digest''"
| "doc_kind_as_str DK_StandardsPage = ''standards_page''"

definition doc_kind_parse :: "string \<Rightarrow> doc_kind option" where
  "doc_kind_parse s =
    (if s = ''entity_page'' then Some DK_EntityPage
     else if s = ''topic_page'' then Some DK_TopicPage
     else if s = ''runbook'' then Some DK_Runbook
     else if s = ''onboarding'' then Some DK_Onboarding
     else if s = ''digest'' then Some DK_Digest
     else if s = ''standards_page'' then Some DK_StandardsPage
     else None)"

definition doc_kind_default :: doc_kind where
  "doc_kind_default = DK_TopicPage"

text \<open>\<open>DocStatus\<close>: a document's publication status.\<close>

datatype doc_status =
  DS_Draft | DS_Published | DS_Archived

fun doc_status_as_str :: "doc_status \<Rightarrow> string" where
  "doc_status_as_str DS_Draft = ''draft''"
| "doc_status_as_str DS_Published = ''published''"
| "doc_status_as_str DS_Archived = ''archived''"

definition doc_status_parse :: "string \<Rightarrow> doc_status option" where
  "doc_status_parse s =
    (if s = ''draft'' then Some DS_Draft
     else if s = ''published'' then Some DS_Published
     else if s = ''archived'' then Some DS_Archived
     else None)"

definition doc_status_default :: doc_status where
  "doc_status_default = DS_Draft"

text \<open>\<open>SectionMode\<close>: composed (machine-owned) or pinned (human-owned).\<close>

datatype section_mode =
  SM_Composed | SM_Pinned

fun section_mode_as_str :: "section_mode \<Rightarrow> string" where
  "section_mode_as_str SM_Composed = ''composed''"
| "section_mode_as_str SM_Pinned = ''pinned''"

definition section_mode_parse :: "string \<Rightarrow> section_mode option" where
  "section_mode_parse s =
    (if s = ''composed'' then Some SM_Composed
     else if s = ''pinned'' then Some SM_Pinned
     else None)"

text \<open>\<open>RevisionPolicy\<close>: the decision on a freshly composed revision.\<close>

datatype revision_policy =
  RP_AutoPublished | RP_NeedsReview | RP_Rejected

fun revision_policy_as_str :: "revision_policy \<Rightarrow> string" where
  "revision_policy_as_str RP_AutoPublished = ''auto_published''"
| "revision_policy_as_str RP_NeedsReview = ''needs_review''"
| "revision_policy_as_str RP_Rejected = ''rejected''"

definition revision_policy_parse :: "string \<Rightarrow> revision_policy option" where
  "revision_policy_parse s =
    (if s = ''auto_published'' then Some RP_AutoPublished
     else if s = ''needs_review'' then Some RP_NeedsReview
     else if s = ''rejected'' then Some RP_Rejected
     else None)"

text \<open>\<open>LinkMethod\<close>: how an entity link was established.\<close>

datatype link_method =
  LM_EmbeddingBlock | LM_LlmAdjudicated | LM_Human

fun link_method_as_str :: "link_method \<Rightarrow> string" where
  "link_method_as_str LM_EmbeddingBlock = ''embedding_block''"
| "link_method_as_str LM_LlmAdjudicated = ''llm_adjudicated''"
| "link_method_as_str LM_Human = ''human''"

definition link_method_parse :: "string \<Rightarrow> link_method option" where
  "link_method_parse s =
    (if s = ''embedding_block'' then Some LM_EmbeddingBlock
     else if s = ''llm_adjudicated'' then Some LM_LlmAdjudicated
     else if s = ''human'' then Some LM_Human
     else None)"

text \<open>\<open>PolicyDecision\<close>: the decision on a promotion.\<close>

datatype policy_decision =
  PD_AutoApproved | PD_NeedsReview | PD_Denied

fun policy_decision_as_str :: "policy_decision \<Rightarrow> string" where
  "policy_decision_as_str PD_AutoApproved = ''auto_approved''"
| "policy_decision_as_str PD_NeedsReview = ''needs_review''"
| "policy_decision_as_str PD_Denied = ''denied''"

definition policy_decision_parse :: "string \<Rightarrow> policy_decision option" where
  "policy_decision_parse s =
    (if s = ''auto_approved'' then Some PD_AutoApproved
     else if s = ''needs_review'' then Some PD_NeedsReview
     else if s = ''denied'' then Some PD_Denied
     else None)"

text \<open>\<open>ContradictionStatus\<close>: the state of a contradiction.\<close>

datatype contradiction_status =
  CS_Open | CS_ResolvedSupersede | CS_ResolvedCoexist | CS_Dismissed

fun contradiction_status_as_str :: "contradiction_status \<Rightarrow> string" where
  "contradiction_status_as_str CS_Open = ''open''"
| "contradiction_status_as_str CS_ResolvedSupersede = ''resolved_supersede''"
| "contradiction_status_as_str CS_ResolvedCoexist = ''resolved_coexist''"
| "contradiction_status_as_str CS_Dismissed = ''dismissed''"

definition contradiction_status_parse :: "string \<Rightarrow> contradiction_status option" where
  "contradiction_status_parse s =
    (if s = ''open'' then Some CS_Open
     else if s = ''resolved_supersede'' then Some CS_ResolvedSupersede
     else if s = ''resolved_coexist'' then Some CS_ResolvedCoexist
     else if s = ''dismissed'' then Some CS_Dismissed
     else None)"

text \<open>The freshness budget of a kind, in days.\<close>

fun default_ttl_days :: "memory_kind \<Rightarrow> nat" where
  "default_ttl_days MK_Fact = 365"
| "default_ttl_days MK_Decision = 540"
| "default_ttl_days MK_Pattern = 540"
| "default_ttl_days MK_Pitfall = 365"
| "default_ttl_days MK_Howto = 180"

section \<open>The vocabulary of \<open>library.rs\<close>\<close>

text \<open>\<open>Enforcement\<close>: how strongly a standard binds.\<close>

datatype enforcement =
  Enf_Mandatory | Enf_Recommended | Enf_Experimental

fun enforcement_as_str :: "enforcement \<Rightarrow> string" where
  "enforcement_as_str Enf_Mandatory = ''mandatory''"
| "enforcement_as_str Enf_Recommended = ''recommended''"
| "enforcement_as_str Enf_Experimental = ''experimental''"

definition enforcement_parse :: "string \<Rightarrow> enforcement option" where
  "enforcement_parse s =
    (if s = ''mandatory'' then Some Enf_Mandatory
     else if s = ''recommended'' then Some Enf_Recommended
     else if s = ''experimental'' then Some Enf_Experimental
     else None)"

definition enforcement_default :: enforcement where
  "enforcement_default = Enf_Recommended"

text \<open>\<open>StandardLifecycle\<close>: the lifecycle of a standard.\<close>

datatype standard_lifecycle =
  SL_Proposed | SL_Adopted | SL_Deprecated | SL_Rejected

fun standard_lifecycle_as_str :: "standard_lifecycle \<Rightarrow> string" where
  "standard_lifecycle_as_str SL_Proposed = ''proposed''"
| "standard_lifecycle_as_str SL_Adopted = ''adopted''"
| "standard_lifecycle_as_str SL_Deprecated = ''deprecated''"
| "standard_lifecycle_as_str SL_Rejected = ''rejected''"

definition standard_lifecycle_parse :: "string \<Rightarrow> standard_lifecycle option" where
  "standard_lifecycle_parse s =
    (if s = ''proposed'' then Some SL_Proposed
     else if s = ''adopted'' then Some SL_Adopted
     else if s = ''deprecated'' then Some SL_Deprecated
     else if s = ''rejected'' then Some SL_Rejected
     else None)"

definition standard_lifecycle_default :: standard_lifecycle where
  "standard_lifecycle_default = SL_Proposed"

text \<open>\<open>StandardProvenanceKind\<close>: what a provenance row points at.\<close>

datatype standard_provenance_kind =
  SPK_Memory | SPK_Divergence

fun standard_provenance_kind_as_str :: "standard_provenance_kind \<Rightarrow> string" where
  "standard_provenance_kind_as_str SPK_Memory = ''memory''"
| "standard_provenance_kind_as_str SPK_Divergence = ''divergence''"

definition standard_provenance_kind_parse :: "string \<Rightarrow> standard_provenance_kind option" where
  "standard_provenance_kind_parse s =
    (if s = ''memory'' then Some SPK_Memory
     else if s = ''divergence'' then Some SPK_Divergence
     else None)"

text \<open>\<open>StandardOrigin\<close>: who created a standard.\<close>

datatype standard_origin =
  SO_Human | SO_Sweep | SO_Agent

fun standard_origin_as_str :: "standard_origin \<Rightarrow> string" where
  "standard_origin_as_str SO_Human = ''human''"
| "standard_origin_as_str SO_Sweep = ''sweep''"
| "standard_origin_as_str SO_Agent = ''agent''"

definition standard_origin_parse :: "string \<Rightarrow> standard_origin option" where
  "standard_origin_parse s =
    (if s = ''human'' then Some SO_Human
     else if s = ''sweep'' then Some SO_Sweep
     else if s = ''agent'' then Some SO_Agent
     else None)"

definition standard_origin_default :: standard_origin where
  "standard_origin_default = SO_Human"

text \<open>\<open>SkillMaturity\<close>: a skill's catalogue maturity.\<close>

datatype skill_maturity =
  SkM_Draft | SkM_Published | SkM_Deprecated

fun skill_maturity_as_str :: "skill_maturity \<Rightarrow> string" where
  "skill_maturity_as_str SkM_Draft = ''draft''"
| "skill_maturity_as_str SkM_Published = ''published''"
| "skill_maturity_as_str SkM_Deprecated = ''deprecated''"

definition skill_maturity_parse :: "string \<Rightarrow> skill_maturity option" where
  "skill_maturity_parse s =
    (if s = ''draft'' then Some SkM_Draft
     else if s = ''published'' then Some SkM_Published
     else if s = ''deprecated'' then Some SkM_Deprecated
     else None)"

definition skill_maturity_default :: skill_maturity where
  "skill_maturity_default = SkM_Draft"

text \<open>\<open>LibraryArtifactKind\<close>: what a usage event is about.\<close>

datatype library_artifact_kind =
  LAK_Standard | LAK_Skill

fun library_artifact_kind_as_str :: "library_artifact_kind \<Rightarrow> string" where
  "library_artifact_kind_as_str LAK_Standard = ''standard''"
| "library_artifact_kind_as_str LAK_Skill = ''skill''"

definition library_artifact_kind_parse :: "string \<Rightarrow> library_artifact_kind option" where
  "library_artifact_kind_parse s =
    (if s = ''standard'' then Some LAK_Standard
     else if s = ''skill'' then Some LAK_Skill
     else None)"

text \<open>\<open>LibraryUsageEvent\<close>: a usage signal.\<close>

datatype library_usage_event =
  LUE_Fetch | LUE_Check | LUE_Apply

fun library_usage_event_as_str :: "library_usage_event \<Rightarrow> string" where
  "library_usage_event_as_str LUE_Fetch = ''fetch''"
| "library_usage_event_as_str LUE_Check = ''check''"
| "library_usage_event_as_str LUE_Apply = ''apply''"

definition library_usage_event_parse :: "string \<Rightarrow> library_usage_event option" where
  "library_usage_event_parse s =
    (if s = ''fetch'' then Some LUE_Fetch
     else if s = ''check'' then Some LUE_Check
     else if s = ''apply'' then Some LUE_Apply
     else None)"

section \<open>Every enumeration is a vocabulary\<close>

interpretation memory_status_voc: vocabulary memory_status_as_str memory_status_parse
proof
  fix x show "memory_status_parse (memory_status_as_str x) = Some x" by (cases x) (simp_all add: memory_status_parse_def)
next
  fix s x assume "memory_status_parse s = Some x"
  then show "memory_status_as_str x = s" by (auto simp: memory_status_parse_def split: if_splits)
qed

interpretation visibility_voc: vocabulary visibility_as_str visibility_parse
proof
  fix x show "visibility_parse (visibility_as_str x) = Some x" by (cases x) (simp_all add: visibility_parse_def)
next
  fix s x assume "visibility_parse s = Some x"
  then show "visibility_as_str x = s" by (auto simp: visibility_parse_def split: if_splits)
qed

interpretation memory_kind_voc: vocabulary memory_kind_as_str memory_kind_parse
proof
  fix x show "memory_kind_parse (memory_kind_as_str x) = Some x" by (cases x) (simp_all add: memory_kind_parse_def)
next
  fix s x assume "memory_kind_parse s = Some x"
  then show "memory_kind_as_str x = s" by (auto simp: memory_kind_parse_def split: if_splits)
qed

interpretation lifecycle_voc: vocabulary lifecycle_as_str lifecycle_parse
proof
  fix x show "lifecycle_parse (lifecycle_as_str x) = Some x" by (cases x) (simp_all add: lifecycle_parse_def)
next
  fix s x assume "lifecycle_parse s = Some x"
  then show "lifecycle_as_str x = s" by (auto simp: lifecycle_parse_def split: if_splits)
qed

interpretation actor_kind_voc: vocabulary actor_kind_as_str actor_kind_parse
proof
  fix x show "actor_kind_parse (actor_kind_as_str x) = Some x" by (cases x) (simp_all add: actor_kind_parse_def)
next
  fix s x assume "actor_kind_parse s = Some x"
  then show "actor_kind_as_str x = s" by (auto simp: actor_kind_parse_def split: if_splits)
qed

interpretation entity_kind_voc: vocabulary entity_kind_as_str entity_kind_parse
proof
  fix x show "entity_kind_parse (entity_kind_as_str x) = Some x" by (cases x) (simp_all add: entity_kind_parse_def)
next
  fix s x assume "entity_kind_parse s = Some x"
  then show "entity_kind_as_str x = s" by (auto simp: entity_kind_parse_def split: if_splits)
qed

interpretation edge_relation_voc: vocabulary edge_relation_as_str edge_relation_parse
proof
  fix x show "edge_relation_parse (edge_relation_as_str x) = Some x" by (cases x) (simp_all add: edge_relation_parse_def)
next
  fix s x assume "edge_relation_parse s = Some x"
  then show "edge_relation_as_str x = s" by (auto simp: edge_relation_parse_def split: if_splits)
qed

interpretation source_kind_voc: vocabulary source_kind_as_str source_kind_parse
proof
  fix x show "source_kind_parse (source_kind_as_str x) = Some x" by (cases x) (simp_all add: source_kind_parse_def)
next
  fix s x assume "source_kind_parse s = Some x"
  then show "source_kind_as_str x = s" by (auto simp: source_kind_parse_def split: if_splits)
qed

interpretation doc_kind_voc: vocabulary doc_kind_as_str doc_kind_parse
proof
  fix x show "doc_kind_parse (doc_kind_as_str x) = Some x" by (cases x) (simp_all add: doc_kind_parse_def)
next
  fix s x assume "doc_kind_parse s = Some x"
  then show "doc_kind_as_str x = s" by (auto simp: doc_kind_parse_def split: if_splits)
qed

interpretation doc_status_voc: vocabulary doc_status_as_str doc_status_parse
proof
  fix x show "doc_status_parse (doc_status_as_str x) = Some x" by (cases x) (simp_all add: doc_status_parse_def)
next
  fix s x assume "doc_status_parse s = Some x"
  then show "doc_status_as_str x = s" by (auto simp: doc_status_parse_def split: if_splits)
qed

interpretation section_mode_voc: vocabulary section_mode_as_str section_mode_parse
proof
  fix x show "section_mode_parse (section_mode_as_str x) = Some x" by (cases x) (simp_all add: section_mode_parse_def)
next
  fix s x assume "section_mode_parse s = Some x"
  then show "section_mode_as_str x = s" by (auto simp: section_mode_parse_def split: if_splits)
qed

interpretation revision_policy_voc: vocabulary revision_policy_as_str revision_policy_parse
proof
  fix x show "revision_policy_parse (revision_policy_as_str x) = Some x" by (cases x) (simp_all add: revision_policy_parse_def)
next
  fix s x assume "revision_policy_parse s = Some x"
  then show "revision_policy_as_str x = s" by (auto simp: revision_policy_parse_def split: if_splits)
qed

interpretation link_method_voc: vocabulary link_method_as_str link_method_parse
proof
  fix x show "link_method_parse (link_method_as_str x) = Some x" by (cases x) (simp_all add: link_method_parse_def)
next
  fix s x assume "link_method_parse s = Some x"
  then show "link_method_as_str x = s" by (auto simp: link_method_parse_def split: if_splits)
qed

interpretation policy_decision_voc: vocabulary policy_decision_as_str policy_decision_parse
proof
  fix x show "policy_decision_parse (policy_decision_as_str x) = Some x" by (cases x) (simp_all add: policy_decision_parse_def)
next
  fix s x assume "policy_decision_parse s = Some x"
  then show "policy_decision_as_str x = s" by (auto simp: policy_decision_parse_def split: if_splits)
qed

interpretation contradiction_status_voc: vocabulary contradiction_status_as_str contradiction_status_parse
proof
  fix x show "contradiction_status_parse (contradiction_status_as_str x) = Some x" by (cases x) (simp_all add: contradiction_status_parse_def)
next
  fix s x assume "contradiction_status_parse s = Some x"
  then show "contradiction_status_as_str x = s" by (auto simp: contradiction_status_parse_def split: if_splits)
qed

interpretation enforcement_voc: vocabulary enforcement_as_str enforcement_parse
proof
  fix x show "enforcement_parse (enforcement_as_str x) = Some x" by (cases x) (simp_all add: enforcement_parse_def)
next
  fix s x assume "enforcement_parse s = Some x"
  then show "enforcement_as_str x = s" by (auto simp: enforcement_parse_def split: if_splits)
qed

interpretation standard_lifecycle_voc: vocabulary standard_lifecycle_as_str standard_lifecycle_parse
proof
  fix x show "standard_lifecycle_parse (standard_lifecycle_as_str x) = Some x" by (cases x) (simp_all add: standard_lifecycle_parse_def)
next
  fix s x assume "standard_lifecycle_parse s = Some x"
  then show "standard_lifecycle_as_str x = s" by (auto simp: standard_lifecycle_parse_def split: if_splits)
qed

interpretation standard_provenance_kind_voc: vocabulary standard_provenance_kind_as_str standard_provenance_kind_parse
proof
  fix x show "standard_provenance_kind_parse (standard_provenance_kind_as_str x) = Some x" by (cases x) (simp_all add: standard_provenance_kind_parse_def)
next
  fix s x assume "standard_provenance_kind_parse s = Some x"
  then show "standard_provenance_kind_as_str x = s" by (auto simp: standard_provenance_kind_parse_def split: if_splits)
qed

interpretation standard_origin_voc: vocabulary standard_origin_as_str standard_origin_parse
proof
  fix x show "standard_origin_parse (standard_origin_as_str x) = Some x" by (cases x) (simp_all add: standard_origin_parse_def)
next
  fix s x assume "standard_origin_parse s = Some x"
  then show "standard_origin_as_str x = s" by (auto simp: standard_origin_parse_def split: if_splits)
qed

interpretation skill_maturity_voc: vocabulary skill_maturity_as_str skill_maturity_parse
proof
  fix x show "skill_maturity_parse (skill_maturity_as_str x) = Some x" by (cases x) (simp_all add: skill_maturity_parse_def)
next
  fix s x assume "skill_maturity_parse s = Some x"
  then show "skill_maturity_as_str x = s" by (auto simp: skill_maturity_parse_def split: if_splits)
qed

interpretation library_artifact_kind_voc: vocabulary library_artifact_kind_as_str library_artifact_kind_parse
proof
  fix x show "library_artifact_kind_parse (library_artifact_kind_as_str x) = Some x" by (cases x) (simp_all add: library_artifact_kind_parse_def)
next
  fix s x assume "library_artifact_kind_parse s = Some x"
  then show "library_artifact_kind_as_str x = s" by (auto simp: library_artifact_kind_parse_def split: if_splits)
qed

interpretation library_usage_event_voc: vocabulary library_usage_event_as_str library_usage_event_parse
proof
  fix x show "library_usage_event_parse (library_usage_event_as_str x) = Some x" by (cases x) (simp_all add: library_usage_event_parse_def)
next
  fix s x assume "library_usage_event_parse s = Some x"
  then show "library_usage_event_as_str x = s" by (auto simp: library_usage_event_parse_def split: if_splits)
qed

section \<open>Identity and visibility\<close>

record principal =
  p_org_id :: uuid
  p_user_id :: uuid
  p_team_ids :: "uuid list"
  p_project_id :: "uuid option"

definition can_read ::
  "principal \<Rightarrow> uuid \<Rightarrow> uuid option \<Rightarrow> uuid option \<Rightarrow> visibility \<Rightarrow> bool" where
  "can_read p org team owner vis =
    (if org \<noteq> p_org_id p then False
     else case vis of
       Vis_Org \<Rightarrow> True
     | Vis_Team \<Rightarrow> (case team of None \<Rightarrow> False | Some t \<Rightarrow> t \<in> set (p_team_ids p))
     | Vis_Private \<Rightarrow> (case owner of None \<Rightarrow> False | Some u \<Rightarrow> u = p_user_id p))"

section \<open>Records\<close>

text \<open>\<open>Memory\<close>.  The confidence is an \<open>f32\<close> the code only stores and passes on to the policy.\<close>

record memory =
  m_id :: uuid
  m_org_id :: uuid
  m_team_id :: "uuid option"
  m_owner_user_id :: "uuid option"
  m_visibility :: visibility
  m_status :: memory_status
  m_kind :: memory_kind
  m_content :: string
  m_lifecycle :: lifecycle
  m_detail_md :: "string option"
  m_valid_from :: "instant option"
  m_valid_to :: "instant option"
  m_superseded_by :: "uuid option"
  m_confidence :: "rat option"
  m_provenance_id :: "uuid option"
  m_project_id :: "uuid option"
  m_created_at :: instant

record section_binding =
  b_entities :: "uuid list"
  b_kinds :: "memory_kind list"
  b_lifecycle :: "lifecycle list"
  b_query :: string
  b_window_days :: "int option"
  b_stack :: "string option"
  b_max_items :: nat

definition default_max_items :: nat where
  "default_max_items = 12"

definition section_binding_default :: section_binding where
  "section_binding_default =
    \<lparr> b_entities = [], b_kinds = [], b_lifecycle = [], b_query = [], b_window_days = None,
      b_stack = None, b_max_items = default_max_items \<rparr>"

record document =
  d_id :: uuid
  d_org_id :: uuid
  d_team_id :: "uuid option"
  d_slug :: string
  d_title :: string
  d_visibility :: visibility
  d_doc_kind :: doc_kind
  d_status :: doc_status
  d_current_revision :: "uuid option"
  d_project_id :: "uuid option"
  d_dirty_at :: "instant option"
  d_updated_at :: instant

record document_section =
  ds_id :: uuid
  ds_document_id :: uuid
  ds_position :: int
  ds_heading :: string
  ds_mode :: section_mode
  ds_binding :: "section_binding option"
  ds_pinned_content :: "string option"

text \<open>\<open>DocumentRevision\<close>; the optional faithfulness verdicts are an opaque JSON text.\<close>

record document_revision =
  r_id :: uuid
  r_document_id :: uuid
  r_content_md :: string
  r_composed_from :: "uuid list"
  r_trigger :: string
  r_policy_decision :: revision_policy
  r_reviewed_by :: "uuid option"
  r_published_at :: "instant option"
  r_created_at :: instant
  r_faithfulness :: "string option"

record standard =
  st_id :: uuid
  st_org_id :: uuid
  st_origin :: standard_origin
  st_stack :: string
  st_category :: string
  st_slug :: string
  st_statement :: string
  st_rationale :: "string option"
  st_detail_md :: "string option"
  st_enforcement :: enforcement
  st_lifecycle :: standard_lifecycle
  st_adopted_by :: "uuid option"
  st_adopted_at :: "instant option"
  st_decreed_by :: "uuid option"
  st_updated_at :: instant

record standard_provenance =
  sp_standard_id :: uuid
  sp_kind :: standard_provenance_kind
  sp_ref_id :: uuid

record skill =
  sk_id :: uuid
  sk_org_id :: uuid
  sk_slug :: string
  sk_name :: string
  sk_description :: "string option"
  sk_domain :: "string option"
  sk_maturity :: skill_maturity
  sk_current_version :: "uuid option"
  sk_updated_at :: instant

section \<open>The visibility rule\<close>

lemma can_read_other_org [simp]: "org \<noteq> p_org_id p \<Longrightarrow> \<not> can_read p org team owner vis"
  by (simp add: can_read_def)

lemma can_read_iff:
  "can_read p org team owner vis \<longleftrightarrow>
     org = p_org_id p \<and>
     (vis = Vis_Org \<or> (vis = Vis_Team \<and> (\<exists>t\<in>set (p_team_ids p). team = Some t))
        \<or> (vis = Vis_Private \<and> owner = Some (p_user_id p)))"
  by (auto simp: can_read_def split: visibility.splits option.splits)

end
