(* ===== verification/Temporal.thy ===== *)
theory Temporal
  imports Types "HOL-Library.Sublist"
begin

text \<open>
  \<open>brainiac-core/src/temporal.rs\<close>: validity windows and supersession chains.  \<open>chain_head\<close> follows
  the \<open>superseded_by\<close> pointers inside a pool of memories with an explicit \<open>seen\<close> list, as the loop
  of the source does, and \<open>dedupe_for_time\<close> keeps one member per chain.  The contract is stated over
  the graph of the pool: a head is reachable and is either terminal or the least member of the cycle
  it lies on, which makes it unique, so every member of a chain resolves to the same head.
\<close>

section \<open>The code\<close>

definition valid_at :: "memory \<Rightarrow> instant \<Rightarrow> bool" where
  "valid_at m t =
    (if (case m_valid_from m of Some from \<Rightarrow> from > t | None \<Rightarrow> False) then False
     else if (case m_valid_to m of Some to \<Rightarrow> to \<le> t | None \<Rightarrow> False) then False
     else True)"

text \<open>The \<open>HashMap\<close> of the pool is an association list looked up with \<open>map_of\<close>.\<close>

type_synonym pool = "(uuid \<times> memory) list"

text \<open>
  One turn of the \<open>while let\<close> loop.  \<open>seen[pos..]\<close> is the suffix that starts at the first occurrence
  of the revisited id.
\<close>

function chain_walk :: "pool \<Rightarrow> memory \<Rightarrow> uuid list \<Rightarrow> memory" where
  "chain_walk p current seen =
    (case m_superseded_by current of
       None \<Rightarrow> current
     | Some next_id \<Rightarrow>
         (if next_id \<in> set seen then
            (case map_of p (min_list (dropWhile (\<lambda>i. i \<noteq> next_id) seen)) of
               Some rep \<Rightarrow> rep | None \<Rightarrow> current)
          else case map_of p next_id of
                 Some nxt \<Rightarrow> chain_walk p nxt (seen @ [next_id])
               | None \<Rightarrow> current))"
  by pat_completeness auto
termination
proof (relation "measure (\<lambda>(p, _, seen). card (set (map fst p) - set seen))", goal_cases)
  case (2 p current seen n nxt)
  then have "n \<in> set (map fst p)" by (force dest: map_of_SomeD)
  then have "set (map fst p) - set (seen @ [n]) \<subset> set (map fst p) - set seen"
    using 2(2) by auto
  then have "card (set (map fst p) - set (seen @ [n])) < card (set (map fst p) - set seen)"
    by (intro psubset_card_mono) auto
  then show ?case by simp
qed simp

declare chain_walk.simps [simp del]

definition chain_head :: "memory \<Rightarrow> pool \<Rightarrow> memory" where
  "chain_head start p = chain_walk p start [m_id start]"

text \<open>Collecting into a \<open>HashMap\<close>: a later entry with the same key replaces an earlier one.\<close>

definition pool_of :: "memory list \<Rightarrow> pool" where
  "pool_of ms = rev (map (\<lambda>m. (m_id m, m)) ms)"

definition chain_of :: "memory list \<Rightarrow> (uuid \<times> uuid) list" where
  "chain_of ms = rev (map (\<lambda>m. (m_id m, m_id (chain_head m (pool_of ms)))) ms)"

definition newer_than :: "memory \<Rightarrow> memory \<Rightarrow> bool" where
  "newer_than m existing =
    (case (m_valid_from m, m_valid_from existing) of
       (Some a, Some b) \<Rightarrow> a > b
     | (Some _, None) \<Rightarrow> True
     | _ \<Rightarrow> False)"

definition winner_step ::
  "memory list \<Rightarrow> instant \<Rightarrow> memory \<Rightarrow> (uuid \<rightharpoonup> uuid) \<Rightarrow> (uuid \<rightharpoonup> uuid)" where
  "winner_step ms as_of m winners =
    (if \<not> valid_at m as_of then winners
     else let chain = the (map_of (chain_of ms) (m_id m)) in
       case winners chain of
         None \<Rightarrow> winners(chain \<mapsto> m_id m)
       | Some existing_id \<Rightarrow>
           (if newer_than m (the (map_of (pool_of ms) existing_id))
            then winners(chain \<mapsto> m_id m) else winners))"

definition winner_of_chain :: "memory list \<Rightarrow> instant \<Rightarrow> (uuid \<rightharpoonup> uuid)" where
  "winner_of_chain ms as_of = fold (winner_step ms as_of) ms Map.empty"

definition dedupe_for_time :: "memory list \<Rightarrow> instant \<Rightarrow> memory list" where
  "dedupe_for_time ms as_of =
    filter (\<lambda>m. winner_of_chain ms as_of (the (map_of (chain_of ms) (m_id m))) = Some (m_id m)) ms"

section \<open>The graph of a pool\<close>

definition nxt :: "pool \<Rightarrow> uuid \<Rightarrow> uuid option" where
  "nxt p k =
    (case map_of p k of
       None \<Rightarrow> None
     | Some m \<Rightarrow> (case m_superseded_by m of
         None \<Rightarrow> None
       | Some n \<Rightarrow> (if map_of p n = None then None else Some n)))"

definition edges :: "pool \<Rightarrow> (uuid \<times> uuid) set" where
  "edges p = {(k, n). nxt p k = Some n}"

definition pool_wf :: "pool \<Rightarrow> bool" where
  "pool_wf p \<longleftrightarrow> (\<forall>k m. map_of p k = Some m \<longrightarrow> m_id m = k)"

definition is_head :: "pool \<Rightarrow> uuid \<Rightarrow> uuid \<Rightarrow> bool" where
  "is_head p s h \<longleftrightarrow> (s, h) \<in> (edges p)\<^sup>* \<and>
     (nxt p h = None \<or> (h, h) \<in> (edges p)\<^sup>+ \<and> (\<forall>k. (h, k) \<in> (edges p)\<^sup>* \<longrightarrow> h \<le> k))"

lemma edges_functional: "(k, a) \<in> edges p \<Longrightarrow> (k, b) \<in> edges p \<Longrightarrow> a = b"
  by (simp add: edges_def)

lemma edges_linear:
  "(s, a) \<in> (edges p)\<^sup>* \<Longrightarrow> (s, b) \<in> (edges p)\<^sup>* \<Longrightarrow> (a, b) \<in> (edges p)\<^sup>* \<or> (b, a) \<in> (edges p)\<^sup>*"
proof (induction arbitrary: b rule: converse_rtrancl_induct)
  case (step s c)
  note IH = step.IH and e = step.hyps
  from step.prems show ?case
  proof (cases rule: converse_rtranclE)
    case base
    then show ?thesis using e by (meson converse_rtrancl_into_rtrancl)
  next
    case (step c')
    then have "c' = c" using e(1) edges_functional by blast
    then show ?thesis using step IH by blast
  qed
qed blast

lemma edges_terminal: "nxt p h = None \<Longrightarrow> (h, k) \<in> (edges p)\<^sup>* \<Longrightarrow> k = h"
  by (auto simp: edges_def elim: converse_rtranclE)

lemma cycle_returns:
  assumes "(h, h) \<in> (edges p)\<^sup>+" "(h, k) \<in> (edges p)\<^sup>*"
  shows "(k, h) \<in> (edges p)\<^sup>*"
  using assms(2)
proof (induction rule: rtrancl_induct)
  case (step y z)
  note e = step.hyps(2)
  from step.IH show ?case
  proof (cases rule: converse_rtranclE)
    case base
    obtain c where "(h, c) \<in> edges p" "(c, h) \<in> (edges p)\<^sup>*"
      using assms(1) by (meson tranclD)
    then show ?thesis using base e edges_functional by metis
  next
    case (step c)
    then show ?thesis using e edges_functional by metis
  qed
qed simp

lemma is_head_unique:
  assumes "is_head p s h" "is_head p s h'"
  shows "h = h'"
proof -
  have key: "a = b" if ab: "is_head p s a" "is_head p s b" "(a, b) \<in> (edges p)\<^sup>*" for a b
  proof (cases "nxt p a = None")
    case True
    then show ?thesis using ab(3) edges_terminal by blast
  next
    case False
    then have a: "(a, a) \<in> (edges p)\<^sup>+" "a \<le> b" using ab by (auto simp: is_head_def)
    have ba: "(b, a) \<in> (edges p)\<^sup>*" using cycle_returns a(1) ab(3) by blast
    show ?thesis
      using ab(2) ba a(2) edges_terminal unfolding is_head_def by (metis order_antisym)
  qed
  show ?thesis
    using edges_linear [of s h p h'] key assms by (metis is_head_def)
qed

lemma is_head_step: "(s, n) \<in> edges p \<Longrightarrow> is_head p n h \<Longrightarrow> is_head p s h"
  by (auto simp: is_head_def)

section \<open>The walk finds the head\<close>

definition on_path :: "pool \<Rightarrow> uuid list \<Rightarrow> bool" where
  "on_path p xs \<longleftrightarrow> (\<forall>i. Suc i < length xs \<longrightarrow> (xs ! i, xs ! Suc i) \<in> edges p)"

lemma on_path_reach:
  "on_path p xs \<Longrightarrow> i \<le> j \<Longrightarrow> j < length xs \<Longrightarrow> (xs ! i, xs ! j) \<in> (edges p)\<^sup>*"
proof (induction j)
  case (Suc j)
  show ?case
  proof (cases "i = Suc j")
    case False
    then have "(xs ! i, xs ! j) \<in> (edges p)\<^sup>*" using Suc by auto
    moreover have "(xs ! j, xs ! Suc j) \<in> edges p" using Suc.prems by (simp add: on_path_def)
    ultimately show ?thesis by (rule rtrancl_into_rtrancl)
  qed simp
qed simp

lemma on_path_snoc:
  assumes "on_path p xs" "xs \<noteq> []" "(last xs, n) \<in> edges p"
  shows "on_path p (xs @ [n])"
  unfolding on_path_def
proof (intro allI impI)
  fix i assume "Suc i < length (xs @ [n])"
  then consider "Suc i < length xs" | "Suc i = length xs" by force
  then show "((xs @ [n]) ! i, (xs @ [n]) ! Suc i) \<in> edges p"
  proof cases
    case 1 then show ?thesis using assms(1) by (simp add: on_path_def nth_append)
  next
    case 2
    then have "last xs = xs ! i" using assms(2) by (metis 2 diff_Suc_1 last_conv_nth)
    then show ?thesis using 2 assms(3) by (auto simp: nth_append)
  qed
qed

lemma cycle_closed:
  assumes path: "on_path p xs" "xs \<noteq> []" and wrap: "(last xs, hd xs) \<in> edges p"
    and k: "x \<in> set xs" "(x, k) \<in> (edges p)\<^sup>*"
  shows "k \<in> set xs"
  using k(2)
proof (induction rule: rtrancl_induct)
  case (step y z)
  then obtain i where i: "i < length xs" "xs ! i = y" by (auto simp: in_set_conv_nth)
  show ?case
  proof (cases "Suc i < length xs")
    case True
    then have "(y, xs ! Suc i) \<in> edges p" using path i by (auto simp: on_path_def)
    then have "z = xs ! Suc i" using step.hyps(2) edges_functional by blast
    then show ?thesis using True by simp
  next
    case False
    then have "i = length xs - 1" using i(1) by linarith
    then have "y = last xs" using i path(2) by (simp add: last_conv_nth)
    then have "z = hd xs" using wrap step.hyps(2) edges_functional by blast
    then show ?thesis using path(2) by simp
  qed
qed (rule k(1))

lemma cycle_round:
  assumes path: "on_path p xs" "xs \<noteq> []" and wrap: "(last xs, hd xs) \<in> edges p"
    and x: "x \<in> set xs"
  shows "(x, x) \<in> (edges p)\<^sup>+"
proof -
  obtain i where i: "i < length xs" "xs ! i = x" using x by (auto simp: in_set_conv_nth)
  have "(x, last xs) \<in> (edges p)\<^sup>*"
    using on_path_reach [OF path(1), of i "length xs - 1"] i path(2) by (simp add: last_conv_nth)
  moreover have "(hd xs, x) \<in> (edges p)\<^sup>*"
    using on_path_reach [OF path(1), of 0 i] i path(2) by (simp add: hd_conv_nth)
  ultimately show ?thesis using wrap by (meson rtrancl_into_trancl1 trancl_rtrancl_trancl)
qed

lemma on_path_suffix: "on_path p (xs @ ys) \<Longrightarrow> on_path p ys"
  unfolding on_path_def
proof (intro allI impI)
  fix i assume "\<forall>i. Suc i < length (xs @ ys) \<longrightarrow> ((xs @ ys) ! i, (xs @ ys) ! Suc i) \<in> edges p"
    and "Suc i < length ys"
  then show "(ys ! i, ys ! Suc i) \<in> edges p"
    using nth_append_length_plus [of xs ys i] nth_append_length_plus [of xs ys "Suc i"]
    by (metis add_Suc_right length_append nat_add_left_cancel_less)
qed

lemma chain_walk_head:
  assumes "pool_wf p" "map_of p (m_id current) = Some current"
    "on_path p seen" "seen \<noteq> []" "last seen = m_id current" "set seen \<subseteq> set (map fst p)"
  shows "is_head p (hd seen) (m_id (chain_walk p current seen)) \<and>
         map_of p (m_id (chain_walk p current seen)) = Some (chain_walk p current seen)"
  using assms
proof (induction p current seen rule: chain_walk.induct)
  case (1 p current seen)
  have reach: "(hd seen, m_id current) \<in> (edges p)\<^sup>*"
    using on_path_reach [OF "1.prems"(3), of 0 "length seen - 1"] "1.prems"(4,5)
    by (simp add: hd_conv_nth last_conv_nth)
  show ?case
  proof (cases "m_superseded_by current")
    case None
    then have "nxt p (m_id current) = None" using "1.prems"(2) by (simp add: nxt_def)
    then show ?thesis
      using None reach "1.prems"(2) by (simp add: chain_walk.simps [of p current] is_head_def)
  next
    case (Some n)
    show ?thesis
    proof (cases "n \<in> set seen")
      case True
      define pre post where "pre = takeWhile (\<lambda>i. i \<noteq> n) seen"
        and "post = dropWhile (\<lambda>i. i \<noteq> n) seen"
      have seen: "seen = pre @ post" by (simp add: pre_def post_def)
      have post: "post \<noteq> []" using True by (auto simp: post_def)
      then have hd: "hd post = n" unfolding post_def by (metis (mono_tags) hd_dropWhile)
      have path: "on_path p post" using "1.prems"(3) seen on_path_suffix by metis
      have "map_of p n \<noteq> None" using True "1.prems"(6) by (auto simp: map_of_eq_None_iff)
      then have edge: "(m_id current, n) \<in> edges p"
        using Some "1.prems"(2) by (simp add: edges_def nxt_def)
      then have wrap: "(last post, hd post) \<in> edges p"
        using "1.prems"(5) seen post hd by simp
      define r where "r = min_list post"
      have r: "r = Min (set post)" using post by (simp add: r_def min_list_Min)
      then have r_in: "r \<in> set post" using post by simp
      then obtain rep where rep: "map_of p r = Some rep"
        using "1.prems"(6) seen by (fastforce simp: map_of_eq_None_iff)
      have res: "chain_walk p current seen = rep"
        using Some True rep by (simp add: chain_walk.simps [of p current] r_def post_def)
      have id: "m_id rep = r" using rep "1.prems"(1) by (simp add: pool_wf_def)
      have "is_head p (hd seen) r"
        unfolding is_head_def
      proof (intro conjI disjI2 allI impI)
        have "(n, r) \<in> (edges p)\<^sup>*"
          using cycle_closed [OF path post wrap] on_path_reach [OF path, of 0] r_in hd post
          by (metis hd_conv_nth in_set_conv_nth le0)
        then show "(hd seen, r) \<in> (edges p)\<^sup>*"
          using reach edge by (meson rtrancl.rtrancl_into_rtrancl rtrancl_trans)
      next
        show "(r, r) \<in> (edges p)\<^sup>+" using cycle_round [OF path post wrap r_in] .
      next
        fix k assume "(r, k) \<in> (edges p)\<^sup>*"
        then have "k \<in> set post" using cycle_closed [OF path post wrap r_in] by blast
        then show "r \<le> k" using r by simp
      qed
      then show ?thesis using res id rep by simp
    next
      case False
      show ?thesis
      proof (cases "map_of p n")
        case None
        then have "nxt p (m_id current) = None" using Some "1.prems"(2) by (simp add: nxt_def)
        then show ?thesis
          using Some False None reach "1.prems"(2)
          by (simp add: chain_walk.simps [of p current] is_head_def)
      next
        case (Some m')
        have id: "m_id m' = n" using Some "1.prems"(1) by (simp add: pool_wf_def)
        have edge: "(last seen, n) \<in> edges p"
          using \<open>m_superseded_by current = Some n\<close> Some "1.prems"(2,5)
          by (simp add: edges_def nxt_def)
        have dom: "n \<in> set (map fst p)" using Some by (force dest: map_of_SomeD)
        have "is_head p (hd (seen @ [n])) (m_id (chain_walk p m' (seen @ [n]))) \<and>
              map_of p (m_id (chain_walk p m' (seen @ [n]))) = Some (chain_walk p m' (seen @ [n]))"
          using "1.IH" [OF \<open>m_superseded_by current = Some n\<close> False Some] "1.prems" id Some
            on_path_snoc [OF "1.prems"(3,4) edge] dom
          by simp
        then show ?thesis
          using \<open>m_superseded_by current = Some n\<close> False Some "1.prems"(4)
          by (simp add: chain_walk.simps [of p current])
      qed
    qed
  qed
qed

lemma chain_head_is_head:
  assumes "pool_wf p" "map_of p (m_id m) = Some m"
  shows "is_head p (m_id m) (m_id (chain_head m p))"
    and "map_of p (m_id (chain_head m p)) = Some (chain_head m p)"
proof -
  have "m_id m \<in> set (map fst p)" using assms(2) by (force dest: map_of_SomeD)
  then show "is_head p (m_id m) (m_id (chain_head m p))"
    and "map_of p (m_id (chain_head m p)) = Some (chain_head m p)"
    using chain_walk_head [OF assms, of "[m_id m]"] by (simp_all add: chain_head_def on_path_def)
qed

lemma chain_head_step:
  assumes "pool_wf p" "map_of p (m_id m) = Some m"
    "m_superseded_by m = Some (m_id m')" "map_of p (m_id m') = Some m'"
  shows "chain_head m p = chain_head m' p"
proof -
  have "(m_id m, m_id m') \<in> edges p" using assms by (simp add: edges_def nxt_def)
  then have "m_id (chain_head m p) = m_id (chain_head m' p)"
    using is_head_unique is_head_step chain_head_is_head(1) assms by meson
  then show ?thesis
    using chain_head_is_head(2) [OF assms(1,2)] chain_head_is_head(2) [OF assms(1,4)]
    by (metis option.inject)
qed

section \<open>Deduplication\<close>

abbreviation chain_id :: "memory list \<Rightarrow> memory \<Rightarrow> uuid" where
  "chain_id ms m \<equiv> m_id (chain_head m (pool_of ms))"

lemma map_of_rev_distinct:
  assumes "distinct (map f ms)" "m \<in> set ms"
  shows "map_of (rev (map (\<lambda>m. (f m, g m)) ms)) (f m) = Some (g m)"
  by (rule map_of_is_SomeI) (use assms in \<open>auto simp: rev_map [symmetric] comp_def\<close>)

lemma pool_of_lookup [simp]:
  "distinct (map m_id ms) \<Longrightarrow> m \<in> set ms \<Longrightarrow> map_of (pool_of ms) (m_id m) = Some m"
  unfolding pool_of_def by (rule map_of_rev_distinct)

lemma pool_of_SomeD: "map_of (pool_of ms) k = Some m \<Longrightarrow> m \<in> set ms \<and> m_id m = k"
  by (auto simp: pool_of_def dest: map_of_SomeD)

lemma pool_of_wf [simp]: "pool_wf (pool_of ms)"
  by (simp add: pool_wf_def pool_of_SomeD)

lemma chain_of_lookup [simp]:
  "distinct (map m_id ms) \<Longrightarrow> m \<in> set ms \<Longrightarrow> map_of (chain_of ms) (m_id m) = Some (chain_id ms m)"
  unfolding chain_of_def by (rule map_of_rev_distinct)

lemma same_id: "distinct (map m_id ms) \<Longrightarrow> a \<in> set ms \<Longrightarrow> b \<in> set ms \<Longrightarrow> m_id a = m_id b \<Longrightarrow> a = b"
  by (auto simp: distinct_map inj_on_def)

lemma newer_than_irrefl [simp]: "\<not> newer_than m m"
  by (auto simp: newer_than_def split: option.splits)

lemma newer_than_trans: "newer_than a b \<Longrightarrow> newer_than b c \<Longrightarrow> newer_than a c"
  by (auto simp: newer_than_def split: option.splits)

definition rivals :: "memory list \<Rightarrow> instant \<Rightarrow> memory set \<Rightarrow> uuid \<Rightarrow> memory set" where
  "rivals ms t seen c = {m \<in> seen. valid_at m t \<and> chain_id ms m = c}"

definition winner_at :: "memory list \<Rightarrow> instant \<Rightarrow> memory set \<Rightarrow> uuid \<Rightarrow> uuid option \<Rightarrow> bool" where
  "winner_at ms t seen c r =
    (case r of
       None \<Rightarrow> rivals ms t seen c = {}
     | Some w \<Rightarrow> (\<exists>m\<in>rivals ms t seen c. m_id m = w \<and> (\<forall>m'\<in>rivals ms t seen c. \<not> newer_than m' m)))"

definition winner_ok :: "memory list \<Rightarrow> instant \<Rightarrow> memory set \<Rightarrow> (uuid \<rightharpoonup> uuid) \<Rightarrow> bool" where
  "winner_ok ms t seen ws \<longleftrightarrow> (\<forall>c. winner_at ms t seen c (ws c))"

lemma rivals_insert:
  "rivals ms t (insert m seen) c =
    (if valid_at m t \<and> chain_id ms m = c then insert m (rivals ms t seen c) else rivals ms t seen c)"
  by (auto simp: rivals_def)

lemma winner_step_ok:
  assumes "distinct (map m_id ms)" "seen \<subseteq> set ms" "m \<in> set ms" "winner_ok ms t seen ws"
  shows "winner_ok ms t (insert m seen) (winner_step ms t m ws)"
  unfolding winner_ok_def
proof
  fix c
  have ok: "winner_at ms t seen c (ws c)" using assms(4) by (simp add: winner_ok_def)
  show "winner_at ms t (insert m seen) c (winner_step ms t m ws c)"
  proof (cases "valid_at m t \<and> chain_id ms m = c")
    case False
    then have "winner_step ms t m ws c = ws c"
      using assms(1,3) by (auto simp: winner_step_def Let_def split: option.splits)
    then show ?thesis using ok False unfolding winner_at_def rivals_insert if_not_P [OF False] by simp
  next
    case True
    show ?thesis
    proof (cases "ws c")
      case None
      then show ?thesis
        using ok True assms(1,3) by (simp add: winner_step_def winner_at_def rivals_insert)
    next
      case (Some e)
      then obtain x where x: "x \<in> rivals ms t seen c" "m_id x = e"
          "\<forall>m'\<in>rivals ms t seen c. \<not> newer_than m' x"
        using ok by (auto simp: winner_at_def)
      have "x \<in> set ms" using x(1) assms(2) by (auto simp: rivals_def)
      then have "winner_step ms t m ws c = (if newer_than m x then Some (m_id m) else Some e)"
        using True Some assms(1,3) x(2) by (auto simp: winner_step_def Let_def)
      moreover have "newer_than m x \<Longrightarrow> \<forall>m'\<in>rivals ms t seen c. \<not> newer_than m' m"
        using x(3) newer_than_trans by blast
      ultimately show ?thesis using True x by (auto simp: winner_at_def rivals_insert)
    qed
  qed
qed

lemma winner_of_chain_ok:
  assumes "distinct (map m_id ms)"
  shows "winner_ok ms t (set ms) (winner_of_chain ms t)"
proof -
  have "winner_ok ms t (S \<union> set xs) (fold (winner_step ms t) xs ws)"
    if "winner_ok ms t S ws" "S \<subseteq> set ms" "set xs \<subseteq> set ms" for S xs ws
    using that
  proof (induction xs arbitrary: S ws)
    case (Cons x xs)
    have "winner_ok ms t (insert x S) (winner_step ms t x ws)"
      using winner_step_ok [OF assms] Cons.prems by simp
    then have "winner_ok ms t (insert x S \<union> set xs) (fold (winner_step ms t) xs (winner_step ms t x ws))"
      using Cons by (intro Cons.IH) auto
    then show ?case by (simp add: Un_commute)
  qed simp
  from this [of "{}" Map.empty ms] show ?thesis
    by (simp add: winner_of_chain_def winner_ok_def winner_at_def rivals_def)
qed

lemma winner_of_chain_at:
  "distinct (map m_id ms) \<Longrightarrow> winner_at ms t (set ms) c (winner_of_chain ms t c)"
  using winner_of_chain_ok by (simp add: winner_ok_def)

lemma dedupe_for_time_iff:
  assumes "distinct (map m_id ms)"
  shows "m \<in> set (dedupe_for_time ms t) \<longleftrightarrow>
         m \<in> set ms \<and> winner_of_chain ms t (chain_id ms m) = Some (m_id m)"
  using assms by (auto simp: dedupe_for_time_def)

lemma dedupe_winner:
  assumes "distinct (map m_id ms)" "m \<in> set (dedupe_for_time ms t)"
  shows "m \<in> set ms" "valid_at m t"
    "\<forall>m'\<in>set ms. valid_at m' t \<longrightarrow> chain_id ms m' = chain_id ms m \<longrightarrow> \<not> newer_than m' m"
proof -
  have m: "m \<in> set ms" "winner_of_chain ms t (chain_id ms m) = Some (m_id m)"
    using assms dedupe_for_time_iff by blast+
  moreover obtain x where "x \<in> set ms" "m_id x = m_id m" "valid_at x t"
     "\<forall>m'\<in>set ms. valid_at m' t \<longrightarrow> chain_id ms m' = chain_id ms m \<longrightarrow> \<not> newer_than m' x"
    using winner_of_chain_at [OF assms(1), of t "chain_id ms m"] m(2)
    by (auto simp: winner_at_def rivals_def)
  ultimately show "m \<in> set ms" "valid_at m t"
    "\<forall>m'\<in>set ms. valid_at m' t \<longrightarrow> chain_id ms m' = chain_id ms m \<longrightarrow> \<not> newer_than m' m"
    using same_id [OF assms(1), of x m] by auto
qed

lemma dedupe_one_per_chain:
  assumes "distinct (map m_id ms)" "a \<in> set (dedupe_for_time ms t)" "b \<in> set (dedupe_for_time ms t)"
    "chain_id ms a = chain_id ms b"
  shows "a = b"
  using assms dedupe_for_time_iff [OF assms(1)] same_id [OF assms(1)] by auto

lemma dedupe_covers:
  assumes "distinct (map m_id ms)" "m \<in> set ms" "valid_at m t"
  shows "\<exists>w\<in>set (dedupe_for_time ms t). chain_id ms w = chain_id ms m"
proof -
  obtain w where w: "w \<in> set ms" "winner_of_chain ms t (chain_id ms m) = Some (m_id w)"
      "chain_id ms w = chain_id ms m"
    using winner_of_chain_at [OF assms(1), of t "chain_id ms m"] assms(2,3)
    by (auto simp: winner_at_def rivals_def split: option.splits)
  then have "w \<in> set (dedupe_for_time ms t)" using dedupe_for_time_iff [OF assms(1)] by metis
  then show ?thesis using w(3) by blast
qed

lemma dedupe_subseq: "subseq (dedupe_for_time ms t) ms"
  by (simp add: dedupe_for_time_def subseq_filter)

lemma chain_id_step:
  assumes "distinct (map m_id ms)" "a \<in> set ms" "b \<in> set ms" "m_superseded_by a = Some (m_id b)"
  shows "chain_id ms a = chain_id ms b"
  using chain_head_step [of "pool_of ms" a b] assms by simp

text \<open>A smaller pool splits chains but never joins two of them.\<close>

lemma edges_subset:
  assumes "set xs \<subseteq> set ms" "distinct (map m_id ms)"
  shows "edges (pool_of xs) \<subseteq> edges (pool_of ms)"
proof
  fix e assume "e \<in> edges (pool_of xs)"
  then obtain k n where e: "e = (k, n)" "nxt (pool_of xs) k = Some n" by (auto simp: edges_def)
  then obtain a b where ab: "map_of (pool_of xs) k = Some a" "m_superseded_by a = Some n"
      "map_of (pool_of xs) n = Some b"
    by (auto simp: nxt_def split: option.splits if_splits)
  then have "a \<in> set ms" "m_id a = k" "b \<in> set ms" "m_id b = n"
    using pool_of_SomeD assms(1) by blast+
  then have "map_of (pool_of ms) k = Some a" "map_of (pool_of ms) n = Some b"
    using pool_of_lookup assms(2) by blast+
  then show "e \<in> edges (pool_of ms)" using e ab by (simp add: edges_def nxt_def)
qed

lemma reach_same_chain:
  assumes "distinct (map m_id ms)" "a \<in> set ms" "b \<in> set ms"
    "(m_id a, m_id b) \<in> (edges (pool_of ms))\<^sup>*"
  shows "chain_id ms a = chain_id ms b"
proof -
  have "is_head (pool_of ms) (m_id b) (chain_id ms b)" "is_head (pool_of ms) (m_id a) (chain_id ms a)"
    using chain_head_is_head(1) assms by simp_all
  then have "is_head (pool_of ms) (m_id a) (chain_id ms b)"
    using assms(4) unfolding is_head_def by (meson rtrancl_trans)
  then show ?thesis using \<open>is_head (pool_of ms) (m_id a) (chain_id ms a)\<close> is_head_unique by blast
qed

lemma dedupe_chain_separate:
  assumes "distinct (map m_id ms)" "xs = dedupe_for_time ms t"
    "a \<in> set xs" "b \<in> set xs" "chain_id xs a = chain_id xs b"
  shows "a = b"
proof -
  have d: "distinct (map m_id xs)"
    using assms(1,2) by (simp add: dedupe_for_time_def distinct_map_filter)
  have sub: "set xs \<subseteq> set ms" using assms(2) by (auto simp: dedupe_for_time_def)
  have to_head: "chain_id ms x = chain_id ms (chain_head x (pool_of xs)) \<and> chain_head x (pool_of xs) \<in> set xs"
    if "x \<in> set xs" for x
  proof -
    have h: "is_head (pool_of xs) (m_id x) (chain_id xs x)"
        "map_of (pool_of xs) (chain_id xs x) = Some (chain_head x (pool_of xs))"
      using chain_head_is_head [of "pool_of xs" x] d that by simp_all
    then have "chain_head x (pool_of xs) \<in> set xs" using pool_of_SomeD by blast
    moreover have "(m_id x, chain_id xs x) \<in> (edges (pool_of ms))\<^sup>*"
      using h(1) edges_subset [OF sub assms(1)] unfolding is_head_def by (meson rtrancl_mono subsetD)
    ultimately show ?thesis
      using reach_same_chain [OF assms(1), of x "chain_head x (pool_of xs)"] that sub by blast
  qed
  have heads: "chain_head a (pool_of xs) = chain_head b (pool_of xs)"
    using to_head assms(3,4,5) same_id [OF d] by blast
  have "chain_id ms a = chain_id ms b" using to_head [OF assms(3)] to_head [OF assms(4)] heads by simp
  then show ?thesis using dedupe_one_per_chain [OF assms(1)] assms(2,3,4) by blast
qed

lemma dedupe_idem:
  assumes "distinct (map m_id ms)"
  shows "dedupe_for_time (dedupe_for_time ms t) t = dedupe_for_time ms t"
proof -
  define xs where "xs = dedupe_for_time ms t"
  have d: "distinct (map m_id xs)"
    using assms by (simp add: xs_def dedupe_for_time_def distinct_map_filter)
  have "x \<in> set (dedupe_for_time xs t)" if x: "x \<in> set xs" for x
  proof -
    have "valid_at x t" using dedupe_winner(2) [OF assms] x by (simp add: xs_def)
    then obtain w where w: "w \<in> set (dedupe_for_time xs t)" "chain_id xs w = chain_id xs x"
      using dedupe_covers [OF d x] by blast
    then have "w \<in> set xs" using dedupe_winner(1) [OF d] by blast
    then have "w = x" using dedupe_chain_separate [OF assms xs_def] x w(2) by blast
    then show ?thesis using w(1) by simp
  qed
  then have "\<forall>m\<in>set xs. winner_of_chain xs t (the (map_of (chain_of xs) (m_id m))) = Some (m_id m)"
    by (auto simp: dedupe_for_time_def)
  then have "dedupe_for_time xs t = xs" by (simp add: dedupe_for_time_def filter_id_conv)
  then show ?thesis by (simp add: xs_def)
qed

section \<open>Properties\<close>

definition example_memory :: "uuid \<Rightarrow> instant \<Rightarrow> instant option \<Rightarrow> uuid option \<Rightarrow> memory" where
  "example_memory k from to next =
    \<lparr> m_id = k, m_org_id = 1, m_team_id = None, m_owner_user_id = None, m_visibility = Vis_Org,
      m_status = MS_Canonical, m_kind = MK_Decision, m_content = ''x'', m_lifecycle = LC_Shipped,
      m_detail_md = None, m_valid_from = Some from, m_valid_to = to, m_superseded_by = next,
      m_confidence = None, m_provenance_id = None, m_project_id = None, m_created_at = 0 \<rparr>"

text \<open>C29: Following \<open>superseded_by\<close> always ends, on corrupt (cyclic) data too, in the chain's one
  representative: a member reachable from the start that is either terminal in the pool or the least id
  of the cycle.  No other id qualifies, so a memory and its successor get the same head.\<close>

theorem chain_head_is_canonical:
  assumes "pool_wf p" and "map_of p (m_id m) = Some m"
  shows "(is_head p (m_id m) h \<longleftrightarrow> h = m_id (chain_head m p)) \<and>
    (m_superseded_by m = Some (m_id m') \<longrightarrow> map_of p (m_id m') = Some m' \<longrightarrow> chain_head m p = chain_head m' p)"
  using chain_head_is_head(1) [OF assms] is_head_unique chain_head_step [OF assms] by blast+

lemma chain_head_is_canonical_witness:
  "\<forall>h. is_head (pool_of [example_memory 1 0 None (Some 2), example_memory 2 0 None (Some 1)]) 1 h \<longleftrightarrow> h = 1"
proof -
  let ?p = "pool_of [example_memory 1 0 None (Some 2), example_memory 2 0 None (Some 1)]"
  let ?m = "example_memory 1 0 None (Some 2)"
  have "pool_wf ?p" by simp
  moreover have "map_of ?p (m_id ?m) = Some ?m" by code_simp
  moreover have "m_id ?m = 1" "m_id (chain_head ?m ?p) = 1" by code_simp+
  ultimately show ?thesis using chain_head_is_canonical by metis
qed

text \<open>C8: The point-in-time view keeps, in the input order, only members valid at \<open>as_of\<close>, never two of
  one supersession chain (so never a memory together with its successor), always one for a chain that
  has a valid member, and that one is not beaten by a newer valid member.  Deduplicating again changes
  nothing.\<close>

theorem dedupe_for_time_spec:
  assumes "distinct (map m_id ms)"
  shows "subseq (dedupe_for_time ms t) ms \<and>
    (\<forall>m\<in>set (dedupe_for_time ms t). valid_at m t \<and>
       (\<forall>m'\<in>set ms. valid_at m' t \<longrightarrow> chain_id ms m' = chain_id ms m \<longrightarrow> \<not> newer_than m' m)) \<and>
    (\<forall>a\<in>set (dedupe_for_time ms t). \<forall>b\<in>set (dedupe_for_time ms t).
       m_superseded_by a = Some (m_id b) \<or> chain_id ms a = chain_id ms b \<longrightarrow> a = b) \<and>
    (\<forall>m\<in>set ms. valid_at m t \<longrightarrow> (\<exists>w\<in>set (dedupe_for_time ms t). chain_id ms w = chain_id ms m)) \<and>
    dedupe_for_time (dedupe_for_time ms t) t = dedupe_for_time ms t"
proof (intro conjI ballI impI)
  show "a = b" if "a \<in> set (dedupe_for_time ms t)" "b \<in> set (dedupe_for_time ms t)"
    "m_superseded_by a = Some (m_id b) \<or> chain_id ms a = chain_id ms b" for a b
    using that chain_id_step [OF assms] dedupe_winner(1) [OF assms] dedupe_one_per_chain [OF assms] by metis
qed (use dedupe_subseq dedupe_winner [OF assms] dedupe_one_per_chain [OF assms] dedupe_covers [OF assms]
       dedupe_idem [OF assms] in blast)+

lemma dedupe_for_time_spec_witness:
  "\<exists>w\<in>set (dedupe_for_time [example_memory 1 0 (Some 5) (Some 2), example_memory 2 5 None None] 7).
     chain_id [example_memory 1 0 (Some 5) (Some 2), example_memory 2 5 None None] w
       = chain_id [example_memory 1 0 (Some 5) (Some 2), example_memory 2 5 None None] (example_memory 2 5 None None)"
  using dedupe_for_time_spec [of "[example_memory 1 0 (Some 5) (Some 2), example_memory 2 5 None None]" 7]
  by (simp_all add: example_memory_def valid_at_def)

end
