(* ===== verification/Text.thy ===== *)
theory Text
  imports Prelude
begin

text \<open>
  The string operations of the Rust standard library that the components use, over character lists:
  character classes, trimming, splitting, searching and replacing.  The classes are those of ASCII;
  the text of the model is ASCII, so byte offsets and character offsets agree.
\<close>

section \<open>Characters\<close>

abbreviation code :: "char \<Rightarrow> nat" where
  "code c \<equiv> of_char c"

definition is_digit :: "char \<Rightarrow> bool" where
  "is_digit c = (48 \<le> code c \<and> code c \<le> 57)"

definition is_upper :: "char \<Rightarrow> bool" where
  "is_upper c = (65 \<le> code c \<and> code c \<le> 90)"

definition is_lower :: "char \<Rightarrow> bool" where
  "is_lower c = (97 \<le> code c \<and> code c \<le> 122)"

definition is_alpha :: "char \<Rightarrow> bool" where
  "is_alpha c = (is_upper c \<or> is_lower c)"

definition is_alnum :: "char \<Rightarrow> bool" where
  "is_alnum c = (is_alpha c \<or> is_digit c)"

definition is_ws :: "char \<Rightarrow> bool" where
  "is_ws c = (code c = 32 \<or> (9 \<le> code c \<and> code c \<le> 13))"

definition to_lower :: "char \<Rightarrow> char" where
  "to_lower c = (if is_upper c then char_of (code c + 32) else c)"

abbreviation newline :: char where
  "newline \<equiv> CHR 0x0A"

abbreviation quote_char :: char where
  "quote_char \<equiv> CHR 0x22"

abbreviation backslash :: char where
  "backslash \<equiv> CHR 0x5C"

lemma code_to_lower: "is_upper c \<Longrightarrow> code (to_lower c) = code c + 32"
  by (simp add: to_lower_def is_upper_def)

lemma to_lower_not_upper [simp]: "\<not> is_upper (to_lower c)"
proof (cases "is_upper c")
  case True
  then show ?thesis using code_to_lower [OF True] by (simp add: is_upper_def)
qed (simp add: to_lower_def)

lemma to_lower_id: "\<not> is_upper c \<Longrightarrow> to_lower c = c"
  by (simp add: to_lower_def)

lemma to_lower_idem [simp]: "to_lower (to_lower c) = to_lower c"
  by (simp add: to_lower_id)

lemma is_alnum_to_lower [simp]: "is_alnum (to_lower c) = is_alnum c"
proof (cases "is_upper c")
  case True
  then have "is_lower (to_lower c)"
    using code_to_lower [OF True] by (simp add: is_lower_def is_upper_def)
  then show ?thesis using True by (simp add: is_alnum_def is_alpha_def)
qed (simp add: to_lower_id)

definition lowercase :: "string \<Rightarrow> string" where
  "lowercase s = map to_lower s"

section \<open>Trimming and splitting\<close>

text \<open>\<open>trim_matches\<close>, \<open>trim_start_matches\<close>, \<open>trim_end_matches\<close> on a character predicate.\<close>

definition trim_start_by :: "('a \<Rightarrow> bool) \<Rightarrow> 'a list \<Rightarrow> 'a list" where
  "trim_start_by p s = dropWhile p s"

definition trim_end_by :: "('a \<Rightarrow> bool) \<Rightarrow> 'a list \<Rightarrow> 'a list" where
  "trim_end_by p s = rev (dropWhile p (rev s))"

definition trim_by :: "('a \<Rightarrow> bool) \<Rightarrow> 'a list \<Rightarrow> 'a list" where
  "trim_by p s = trim_end_by p (trim_start_by p s)"

abbreviation trim :: "string \<Rightarrow> string" where
  "trim \<equiv> trim_by is_ws"

lemma trim_end_by_last: "trim_end_by p s \<noteq> [] \<Longrightarrow> \<not> p (last (trim_end_by p s))"
  unfolding trim_end_by_def using hd_dropWhile [of p "rev s"] by (simp add: last_rev)

lemma trim_start_by_hd: "trim_start_by p s \<noteq> [] \<Longrightarrow> \<not> p (hd (trim_start_by p s))"
  unfolding trim_start_by_def by (rule hd_dropWhile)

lemma trim_end_by_prefix: "\<exists>t. s = trim_end_by p s @ t \<and> (\<forall>c\<in>set t. p c)"
proof -
  have "rev s = takeWhile p (rev s) @ dropWhile p (rev s)" by simp
  then have "s = rev (dropWhile p (rev s)) @ rev (takeWhile p (rev s))"
    by (metis rev_append rev_rev_ident)
  then show ?thesis unfolding trim_end_by_def by (metis set_rev set_takeWhileD)
qed

lemma trim_by_ends:
  assumes "trim_by p s \<noteq> []"
  shows "\<not> p (hd (trim_by p s))" "\<not> p (last (trim_by p s))"
proof -
  show "\<not> p (last (trim_by p s))" using assms trim_end_by_last unfolding trim_by_def by blast
  obtain t where t: "trim_start_by p s = trim_by p s @ t"
    using trim_end_by_prefix [of "trim_start_by p s" p] by (auto simp: trim_by_def)
  then have "trim_start_by p s \<noteq> []" "hd (trim_start_by p s) = hd (trim_by p s)"
    using assms by auto
  then show "\<not> p (hd (trim_by p s))" using trim_start_by_hd [of p s] by simp
qed

lemma trim_start_by_id: "s = [] \<or> \<not> p (hd s) \<Longrightarrow> trim_start_by p s = s"
  by (cases s) (auto simp: trim_start_by_def)

lemma trim_end_by_id:
  assumes "s = [] \<or> \<not> p (last s)"
  shows "trim_end_by p s = s"
proof (cases s rule: rev_cases)
  case (snoc ys y)
  then show ?thesis using assms by (simp add: trim_end_by_def)
qed (simp add: trim_end_by_def)

lemma trim_by_id:
  assumes "s = [] \<or> (\<not> p (hd s) \<and> \<not> p (last s))"
  shows "trim_by p s = s"
  using assms trim_start_by_id [of s p] trim_end_by_id [of s p] by (auto simp: trim_by_def)

lemma trim_by_idem [simp]: "trim_by p (trim_by p s) = trim_by p s"
  by (rule trim_by_id) (metis trim_by_ends)

lemma set_trim_by: "set (trim_by p s) \<subseteq> set s"
  by (auto simp: trim_by_def trim_end_by_def trim_start_by_def dest!: set_dropWhileD)

lemma length_trim_by: "length (trim_by p s) \<le> length s"
  by (metis trim_by_def trim_end_by_def trim_start_by_def length_dropWhile_le length_rev le_trans)

text \<open>\<open>split(pred)\<close>: the pieces between the separators, empty ones included.\<close>

fun split_by :: "('a \<Rightarrow> bool) \<Rightarrow> 'a list \<Rightarrow> 'a list list" where
  "split_by p [] = [[]]"
| "split_by p (c # cs) =
    (if p c then [] # split_by p cs
     else case split_by p cs of
            [] \<Rightarrow> [[c]]
          | w # ws \<Rightarrow> (c # w) # ws)"

definition split_whitespace :: "string \<Rightarrow> string list" where
  "split_whitespace s = filter (\<lambda>w. w \<noteq> []) (split_by is_ws s)"

lemma split_by_not_Nil [simp]: "split_by p s \<noteq> []"
  by (cases s) (auto split: list.splits)

lemma split_by_no_sep: "w \<in> set (split_by p s) \<Longrightarrow> c \<in> set w \<Longrightarrow> \<not> p c \<and> c \<in> set s"
proof (induction s arbitrary: w)
  case (Cons d ds)
  obtain v vs where vs: "split_by p ds = v # vs"
    using split_by_not_Nil [of p ds] by (cases "split_by p ds") auto
  have "w = [] \<or> (w = d # v \<and> \<not> p d) \<or> w \<in> set (split_by p ds)"
    using Cons.prems(1) vs by (auto split: if_splits)
  then show ?case
  proof (elim disjE conjE)
    assume "w = d # v" "\<not> p d"
    then show ?thesis using Cons.IH [of v] Cons.prems(2) vs by auto
  qed (use Cons in auto)
qed simp

lemma split_by_none: "\<forall>c\<in>set s. \<not> p c \<Longrightarrow> split_by p s = [s]"
  by (induction p s rule: split_by.induct) auto

lemma split_by_append_sep:
  "\<forall>c\<in>set a. \<not> p c \<Longrightarrow> p x \<Longrightarrow> split_by p (a @ x # b) = a # split_by p b"
  by (induction a) auto

fun join :: "'a list \<Rightarrow> 'a list list \<Rightarrow> 'a list" where
  "join sep [] = []"
| "join sep [w] = w"
| "join sep (w # v # ws) = w @ sep @ join sep (v # ws)"

lemma join_split_by: "join [x] (split_by (\<lambda>c. c = x) s) = s"
proof (induction s)
  case (Cons c cs)
  obtain w ws where "split_by (\<lambda>c. c = x) cs = w # ws"
    using split_by_not_Nil [of "\<lambda>c. c = x" cs] by (cases "split_by (\<lambda>c. c = x) cs") auto
  then show ?case using Cons by (cases ws) auto
qed simp

section \<open>Searching and replacing\<close>

fun starts_with :: "'a list \<Rightarrow> 'a list \<Rightarrow> bool" where
  "starts_with s [] = True"
| "starts_with [] (p # ps) = False"
| "starts_with (c # cs) (p # ps) = (c = p \<and> starts_with cs ps)"

definition ends_with :: "'a list \<Rightarrow> 'a list \<Rightarrow> bool" where
  "ends_with s p = starts_with (rev s) (rev p)"

fun strip_prefix :: "'a list \<Rightarrow> 'a list \<Rightarrow> 'a list option" where
  "strip_prefix s [] = Some s"
| "strip_prefix [] (p # ps) = None"
| "strip_prefix (c # cs) (p # ps) = (if c = p then strip_prefix cs ps else None)"

definition strip_suffix :: "'a list \<Rightarrow> 'a list \<Rightarrow> 'a list option" where
  "strip_suffix s p = map_option rev (strip_prefix (rev s) (rev p))"

text \<open>\<open>find(needle)\<close>: the offset of the first occurrence.\<close>

fun find_sub :: "'a list \<Rightarrow> 'a list \<Rightarrow> nat option" where
  "find_sub [] n = (if n = [] then Some 0 else None)"
| "find_sub (c # cs) n =
    (if starts_with (c # cs) n then Some 0 else map_option Suc (find_sub cs n))"

definition contains :: "'a list \<Rightarrow> 'a list \<Rightarrow> bool" where
  "contains s n = (find_sub s n \<noteq> None)"

text \<open>\<open>replacen(n, r, 1)\<close>.\<close>

definition replace_first :: "'a list \<Rightarrow> 'a list \<Rightarrow> 'a list \<Rightarrow> 'a list" where
  "replace_first s n r =
    (case find_sub s n of
       None \<Rightarrow> s
     | Some i \<Rightarrow> take i s @ r @ drop (i + length n) s)"

lemma starts_with_iff: "starts_with s p \<longleftrightarrow> (\<exists>t. s = p @ t)"
  by (induction s p rule: starts_with.induct) auto

lemma strip_prefix_iff: "strip_prefix s p = Some t \<longleftrightarrow> s = p @ t"
  by (induction s p rule: strip_prefix.induct) auto

lemma strip_prefix_None_iff: "strip_prefix s p = None \<longleftrightarrow> \<not> starts_with s p"
  by (induction s p rule: strip_prefix.induct) auto

lemma strip_suffix_iff: "strip_suffix s p = Some t \<longleftrightarrow> s = t @ p"
proof -
  have "strip_suffix s p = Some t \<longleftrightarrow> strip_prefix (rev s) (rev p) = Some (rev t)"
    by (auto simp: strip_suffix_def map_option_case split: option.splits)
  then show ?thesis by (metis rev_append rev_rev_ident strip_prefix_iff)
qed

lemma ends_with_iff: "ends_with s p \<longleftrightarrow> (\<exists>t. s = t @ p)"
  unfolding ends_with_def starts_with_iff by (metis rev_append rev_rev_ident)

lemma find_sub_SomeD:
  "find_sub s n = Some i \<Longrightarrow> s = take i s @ n @ drop (i + length n) s \<and> i + length n \<le> length s"
proof (induction s n arbitrary: i rule: find_sub.induct)
  case (2 c cs n)
  show ?case
  proof (cases "starts_with (c # cs) n")
    case True
    then obtain t where t: "c # cs = n @ t" unfolding starts_with_iff by blast
    have "i = 0" using 2(2) True by simp
    then show ?thesis using t by simp
  next
    case False
    then obtain j where "find_sub cs n = Some j" "i = Suc j" using 2(2) by auto
    then show ?thesis using 2(1) [OF False, of j] by simp
  qed
qed (auto split: if_splits)

lemma find_sub_None_iff: "find_sub s n = None \<longleftrightarrow> (\<forall>a b. s \<noteq> a @ n @ b)"
proof (induction s n rule: find_sub.induct)
  case (2 c cs n)
  show ?case
  proof (cases "starts_with (c # cs) n")
    case True
    then have "\<exists>b. c # cs = [] @ n @ b" by (simp add: starts_with_iff)
    then show ?thesis using True by (metis find_sub.simps(2) option.distinct(1))
  next
    case False
    then have "(\<forall>a b. c # cs \<noteq> a @ n @ b) \<longleftrightarrow> (\<forall>a b. cs \<noteq> a @ n @ b)"
      unfolding starts_with_iff by (metis append_Cons append_Nil list.inject list.exhaust)
    then show ?thesis using 2(1) [OF False] False by simp
  qed
qed simp

lemma contains_iff: "contains s n \<longleftrightarrow> (\<exists>a b. s = a @ n @ b)"
  using find_sub_None_iff [of s n] by (auto simp: contains_def)

lemma contains_trans: "contains s t \<Longrightarrow> contains t u \<Longrightarrow> contains s u"
  unfolding contains_iff by (metis append.assoc)

lemma contains_self [simp]: "contains s s"
  unfolding contains_iff by (metis append_Nil append_Nil2)

end
