(* ===== verification/Fusion.thy ===== *)
theory Fusion
  imports Text "HOL-Library.AList"
begin

text \<open>
  \<open>brainiac-core/src/fusion.rs\<close>: reciprocal rank fusion, plain and weighted, and the detection of
  exact identifiers in a query.  The two hash maps of the source are association ranked and the
  counter \<open>order\<close> is carried along, so the tie-break by first appearance is the one of the code.
  Scores are exact reals (the code uses \<open>f64\<close>).
\<close>

section \<open>The code\<close>

record 'a fusing =
  scores :: "('a \<times> real) list"
  first_seen :: "('a \<times> nat) list"
  order :: nat

definition fusing_init :: "'a fusing" where
  "fusing_init = \<lparr> scores = [], first_seen = [], order = 0 \<rparr>"

definition score_of :: "('a \<times> real) list \<Rightarrow> 'a \<Rightarrow> real" where
  "score_of al x = (case map_of al x of Some v \<Rightarrow> v | None \<Rightarrow> 0)"

text \<open>The body of the inner loop: add the contribution, remember the first appearance.\<close>

definition fuse_item :: "real \<Rightarrow> 'a \<Rightarrow> 'a fusing \<Rightarrow> 'a fusing" where
  "fuse_item contribution item st =
    (let st' = st\<lparr> scores := AList.update item (score_of (scores st) item + contribution) (scores st) \<rparr> in
     if map_of (first_seen st') item = None
     then st'\<lparr> order := order st' + 1,
               first_seen := AList.update item (order st' + 1) (first_seen st') \<rparr>
     else st')"

definition fused_le :: "('a \<times> nat) list \<Rightarrow> ('a \<times> real) \<Rightarrow> ('a \<times> real) \<Rightarrow> bool" where
  "fused_le seen a b =
    (snd b < snd a \<or> (snd b = snd a \<and> the (map_of seen (fst a)) \<le> the (map_of seen (fst b))))"

definition fused_result :: "nat \<Rightarrow> 'a fusing \<Rightarrow> ('a \<times> real) list" where
  "fused_result top_n st = take top_n (sort_by (fused_le (first_seen st)) (scores st))"

definition reciprocal_rank_fusion :: "'a list list \<Rightarrow> real \<Rightarrow> nat \<Rightarrow> ('a \<times> real) list" where
  "reciprocal_rank_fusion ranked k top_n =
    fused_result top_n
      (fold (\<lambda>list. fold (\<lambda>(rank0, item). fuse_item (1 / (k + (real rank0 + 1))) item) (enumerate 0 list))
        ranked fusing_init)"

definition weight_at :: "real list \<Rightarrow> nat \<Rightarrow> real" where
  "weight_at weights li = (if li < length weights then weights ! li else 1)"

definition weighted_reciprocal_rank_fusion ::
  "'a list list \<Rightarrow> real list \<Rightarrow> real \<Rightarrow> nat \<Rightarrow> ('a \<times> real) list" where
  "weighted_reciprocal_rank_fusion ranked weights k top_n =
    fused_result top_n
      (fold (\<lambda>(li, list). fold (\<lambda>(rank0, item).
               fuse_item (weight_at weights li / (k + (real rank0 + 1))) item) (enumerate 0 list))
        (enumerate 0 ranked) fusing_init)"

text \<open>Identifier detection.  \<open>windows(2)\<close> is the list of adjacent pairs.\<close>

definition windows2 :: "'a list \<Rightarrow> ('a \<times> 'a) list" where
  "windows2 xs = zip xs (tl xs)"

definition is_separator :: "char \<Rightarrow> bool" where
  "is_separator c = (c = CHR ''-'' \<or> c = CHR ''_'' \<or> c = CHR ''.'')"

definition is_identifier_token :: "string \<Rightarrow> bool" where
  "is_identifier_token token =
    (let t = trim_by (\<lambda>c. \<not> is_alnum c) token in
     if length t < 2 \<or> \<not> list_ex is_alpha t then False
     else if list_ex (\<lambda>i. is_separator (t ! i) \<and> is_alnum (t ! (i - 1)) \<and> is_alnum (t ! (i + 1)))
               [1 ..< length t - 1] then True
     else if list_ex (\<lambda>(a, b). is_lower a \<and> is_upper b) (windows2 t) then True
     else if length t \<ge> 4 \<and> list_all is_alnum t \<and>
             list_ex (\<lambda>(a, b). is_alpha a \<and> is_digit b) (windows2 t) then True
     else False)"

definition query_is_identifier_heavy :: "string \<Rightarrow> bool" where
  "query_is_identifier_heavy query = list_ex is_identifier_token (split_whitespace query)"

section \<open>What the accumulation computes\<close>

text \<open>The contributions in the order the loops make them.\<close>

definition contributions :: "'a list list \<Rightarrow> real list \<Rightarrow> real \<Rightarrow> (real \<times> 'a) list" where
  "contributions ranked weights k =
    concat (map (\<lambda>(li, list). map (\<lambda>(r, x). (weight_at weights li / (k + (real r + 1)), x)) (enumerate 0 list))
      (enumerate 0 ranked))"

definition accumulated :: "(real \<times> 'a) list \<Rightarrow> 'a \<Rightarrow> real" where
  "accumulated evs x = (\<Sum>e\<leftarrow>evs. if snd e = x then fst e else 0)"

text \<open>The score one list gives an item, and the fused score.\<close>

definition list_score :: "real \<Rightarrow> real \<Rightarrow> 'a list \<Rightarrow> 'a \<Rightarrow> real" where
  "list_score w k list x = (\<Sum>(r, y)\<leftarrow>enumerate 0 list. if y = x then w / (k + (real r + 1)) else 0)"

definition fused_score :: "'a list list \<Rightarrow> real list \<Rightarrow> real \<Rightarrow> 'a \<Rightarrow> real" where
  "fused_score ranked weights k x =
    (\<Sum>(li, list)\<leftarrow>enumerate 0 ranked. list_score (weight_at weights li) k list x)"

lemma fold_concat_map: "fold (\<lambda>x. fold g (f x)) xs s = fold g (concat (map f xs)) s"
  by (induction xs arbitrary: s) auto

lemma weighted_as_events:
  fixes ranked :: "'a list list"
  shows "weighted_reciprocal_rank_fusion ranked weights k top_n =
     fused_result top_n (fold (\<lambda>(c, x). fuse_item c x) (contributions ranked weights k) fusing_init)"
proof -
  have "(\<lambda>(li, list). fold (\<lambda>(r, x). fuse_item (weight_at weights li / (k + (real r + 1))) x) (enumerate 0 (list :: 'a list)))
      = (\<lambda>p. fold (\<lambda>(c, x). fuse_item c x)
          ((\<lambda>(li, list). map (\<lambda>(r, x). (weight_at weights li / (k + (real r + 1)), x)) (enumerate 0 list)) p))"
    by (intro ext) (simp add: case_prod_unfold fold_map comp_def)
  then show ?thesis
    unfolding weighted_reciprocal_rank_fusion_def contributions_def fold_concat_map [symmetric]
    by (simp only:)
qed

lemma fold_enumerate_snd: "fold (\<lambda>(i, x). f x) (enumerate n xs) s = fold f xs s"
  by (induction xs arbitrary: n s) auto

lemma plain_is_weighted:
  assumes "\<forall>w\<in>set weights. w = 1"
  shows "weighted_reciprocal_rank_fusion ranked weights k top_n = reciprocal_rank_fusion ranked k top_n"
proof -
  have "weight_at weights li = 1" for li using assms by (auto simp: weight_at_def)
  then show ?thesis
    using fold_enumerate_snd [of "\<lambda>list. fold (\<lambda>(r, x). fuse_item (1 / (k + (real r + 1))) x) (enumerate 0 list)" 0 ranked]
    by (simp add: weighted_reciprocal_rank_fusion_def reciprocal_rank_fusion_def)
qed

text \<open>The invariant of the loops.\<close>

definition fusing_ok :: "(real \<times> 'a) list \<Rightarrow> 'a fusing \<Rightarrow> bool" where
  "fusing_ok evs st \<longleftrightarrow>
     distinct (map fst (scores st)) \<and> set (map fst (scores st)) = snd ` set evs \<and>
     (\<forall>x. score_of (scores st) x = accumulated evs x) \<and>
     dom (map_of (first_seen st)) = snd ` set evs \<and> inj_on (map_of (first_seen st)) (snd ` set evs) \<and>
     (\<forall>n\<in>ran (map_of (first_seen st)). n \<le> order st)"

lemma score_of_update: "score_of (AList.update x v al) y = (if y = x then v else score_of al y)"
  by (simp add: score_of_def update_conv)

lemma accumulated_snoc: "accumulated (evs @ [(c, x)]) y = accumulated evs y + (if y = x then c else 0)"
  by (simp add: accumulated_def)

lemma fuse_item_ok:
  assumes "fusing_ok evs st"
  shows "fusing_ok (evs @ [(c, x)]) (fuse_item c x st)"
proof (cases "map_of (first_seen st) x")
  case None
  then have new: "x \<notin> snd ` set evs" using assms by (metis domIff fusing_ok_def)
  have "inj_on (map_of (AList.update x (order st + 1) (first_seen st))) (insert x (snd ` set evs))"
  proof (rule inj_onI)
    fix a b assume ab: "a \<in> insert x (snd ` set evs)" "b \<in> insert x (snd ` set evs)"
      "map_of (AList.update x (order st + 1) (first_seen st)) a
        = map_of (AList.update x (order st + 1) (first_seen st)) b"
    have bound: "map_of (first_seen st) y \<noteq> Some (order st + 1)" for y
    proof
      assume "map_of (first_seen st) y = Some (order st + 1)"
      then have "order st + 1 \<in> ran (map_of (first_seen st))" by (rule ranI)
      then show False using assms by (force simp: fusing_ok_def)
    qed
    show "a = b"
      using ab bound bound [symmetric] assms
      by (auto simp: update_conv fusing_ok_def inj_on_def split: if_splits)
  qed
  moreover have "\<forall>n\<in>ran (map_of (AList.update x (order st + 1) (first_seen st))). n \<le> order st + 1"
    using assms by (auto simp: update_conv ran_def fusing_ok_def le_SucI)
  moreover have "fuse_item c x st =
      \<lparr> scores = AList.update x (score_of (scores st) x + c) (scores st),
        first_seen = AList.update x (order st + 1) (first_seen st), order = order st + 1 \<rparr>"
    using None by (simp add: fuse_item_def Let_def)
  moreover have "distinct (map fst (AList.update x (score_of (scores st) x + c) (scores st)))"
    and "fst ` set (AList.update x (score_of (scores st) x + c) (scores st)) = insert x (snd ` set evs)"
    and "dom (map_of (AList.update x (order st + 1) (first_seen st))) = insert x (snd ` set evs)"
    using assms by (simp_all add: fusing_ok_def distinct_update dom_update update_conv')
  moreover have "\<forall>y. score_of (AList.update x (score_of (scores st) x + c) (scores st)) y
      = accumulated (evs @ [(c, x)]) y"
    using assms by (simp add: fusing_ok_def score_of_update accumulated_snoc)
  ultimately show ?thesis by (simp add: fusing_ok_def)
next
  case (Some n)
  then have "x \<in> snd ` set evs" using assms by (auto simp: fusing_ok_def)
  then show ?thesis
    using assms Some
    by (auto simp: fusing_ok_def fuse_item_def distinct_update update_keys score_of_update
        accumulated_snoc insert_absorb)
qed

lemma fusing_ok_fold:
  "fusing_ok evs st \<Longrightarrow> fusing_ok (evs @ es) (fold (\<lambda>(c, x). fuse_item c x) es st)"
proof (induction es arbitrary: evs st)
  case (Cons e es)
  then show ?case
    using Cons.IH [OF fuse_item_ok [OF Cons.prems, of "fst e" "snd e"]] by (cases e) simp
qed simp

lemma fusing_ok_all:
  "fusing_ok evs (fold (\<lambda>(c, x). fuse_item c x) evs fusing_init)"
  using fusing_ok_fold [of "[]" fusing_init evs]
  by (simp add: fusing_ok_def fusing_init_def score_of_def accumulated_def)

lemma accumulated_append: "accumulated (es @ fs) x = accumulated es x + accumulated fs x"
  by (simp add: accumulated_def)

lemma accumulated_concat: "accumulated (concat ess) x = (\<Sum>es\<leftarrow>ess. accumulated es x)"
  by (induction ess) (simp_all add: accumulated_append, simp add: accumulated_def)

lemma accumulated_contributions: "accumulated (contributions ranked weights k) x = fused_score ranked weights k x"
proof -
  have "accumulated (map (\<lambda>(r, x). (w / (k + (real r + 1)), x)) xs) x
      = (\<Sum>(r, y)\<leftarrow>xs. if y = x then w / (k + (real r + 1)) else 0)" for w and xs :: "(nat \<times> 'a) list"
    by (induction xs) (auto simp: accumulated_def)
  then show ?thesis
    by (simp add: contributions_def accumulated_concat fused_score_def list_score_def comp_def case_prod_unfold)
qed

lemma snd_set_enumerate: "snd ` set (enumerate n xs) = set xs"
  by (metis list.set_map map_snd_enumerate)

lemma set_contributions: "snd ` set (contributions ranked weights k) = \<Union> (set ` set ranked)"
proof -
  have "snd ` set (contributions ranked weights k) = (\<Union>p\<in>set (enumerate 0 ranked). set (snd p))"
    by (auto simp: contributions_def image_UN image_image case_prod_beta snd_set_enumerate)
  also have "\<dots> = \<Union> (set ` snd ` set (enumerate 0 ranked))" by (simp add: image_image)
  finally show ?thesis by (simp add: snd_set_enumerate)
qed

lemma fused_comparator:
  "comparator (fused_le seen) (UNIV :: ('a \<times> real) set)"
  by unfold_locales (auto simp: fused_le_def)

interpretation fused: comparator "fused_le seen" UNIV for seen :: "('a \<times> nat) list"
  by (rule fused_comparator)

text \<open>Everything a caller may rely on, for the weighted form (the plain one is an instance).\<close>

lemma weighted_spec:
  assumes res_def: "res = weighted_reciprocal_rank_fusion ranked weights k top_n"
  shows weighted_distinct: "distinct (map fst res)"
    and weighted_items: "fst ` set res \<subseteq> \<Union> (set ` set ranked)"
    and weighted_scores: "(x, s) \<in> set res \<Longrightarrow> s = fused_score ranked weights k x"
    and weighted_length: "length res = min top_n (card (\<Union> (set ` set ranked)))"
    and weighted_sorted: "sorted_wrt (\<lambda>a b. snd b \<le> snd a) res"
    and weighted_best: "x \<in> \<Union> (set ` set ranked) \<Longrightarrow> x \<notin> fst ` set res \<Longrightarrow> (y, s) \<in> set res \<Longrightarrow>
      fused_score ranked weights k x \<le> s"
proof -
  define evs where "evs = contributions ranked weights k"
  define st where "st = fold (\<lambda>(c, x). fuse_item c x) evs fusing_init"
  have ok: "fusing_ok evs st" unfolding st_def by (rule fusing_ok_all)
  have res: "res = take top_n (sort_by (fused_le (first_seen st)) (scores st))"
    by (simp add: res_def weighted_as_events fused_result_def st_def evs_def)
  have sub: "set res \<subseteq> set (scores st)" using set_take_subset by (fastforce simp: res)
  have keys: "fst ` set (scores st) = \<Union> (set ` set ranked)"
    using ok by (simp add: fusing_ok_def evs_def set_contributions)
  have score: "s = fused_score ranked weights k x" if "(x, s) \<in> set (scores st)" for x s
  proof -
    have "map_of (scores st) x = Some s" using that ok by (simp add: fusing_ok_def)
    then have "score_of (scores st) x = s" by (simp add: score_of_def)
    then show ?thesis
      using ok accumulated_contributions [of ranked weights k x] by (simp add: fusing_ok_def evs_def)
  qed
  show "distinct (map fst res)"
    using ok by (simp add: fusing_ok_def res take_map [symmetric])
  show "fst ` set res \<subseteq> \<Union> (set ` set ranked)" using sub keys by blast
  show "(x, s) \<in> set res \<Longrightarrow> s = fused_score ranked weights k x" using sub score by blast
  have "length (scores st) = card (\<Union> (set ` set ranked))"
    using ok keys distinct_card [of "map fst (scores st)"] by (simp add: fusing_ok_def)
  then show "length res = min top_n (card (\<Union> (set ` set ranked)))" by (simp add: res)
  have "sorted_wrt (fused_le (first_seen st)) res"
    using fused.sort_by_sorted [of "scores st" "first_seen st"] by (simp add: res sorted_wrt_take)
  then show "sorted_wrt (\<lambda>a b. snd b \<le> snd a) res"
    by (rule sorted_wrt_mono_rel [rotated]) (auto simp: fused_le_def)
  show "fused_score ranked weights k x \<le> s"
    if x: "x \<in> \<Union> (set ` set ranked)" "x \<notin> fst ` set res" and y: "(y, s) \<in> set res"
  proof -
    obtain v where v: "(x, v) \<in> set (scores st)" using x(1) keys by force
    then have "(x, v) \<notin> set res" using x(2) by force
    then have "fused_le (first_seen st) (y, s) (x, v)"
      using fused.take_best [of "scores st" "(y, s)" top_n "first_seen st" "(x, v)"] v y by (simp add: res)
    then show ?thesis using score [OF v] by (auto simp: fused_le_def)
  qed
qed

section \<open>Better everywhere is better overall\<close>

lemma list_score_Nil [simp]: "list_score w k [] x = 0"
  by (simp add: list_score_def)

lemma list_score_from:
  "distinct xs \<Longrightarrow> r < length xs \<Longrightarrow> xs ! r = x \<Longrightarrow>
    (\<Sum>(r, y)\<leftarrow>enumerate n xs. if y = x then w / (k + (real r + 1)) else 0) = w / (k + (real (n + r) + 1))"
proof (induction xs arbitrary: n r)
  case (Cons y ys)
  show ?case
  proof (cases r)
    case 0
    have zero: "(\<Sum>(r, z)\<leftarrow>enumerate m zs. if z = x then w / (k + (real r + 1)) else 0) = 0"
      if "x \<notin> set zs" for m and zs :: "'a list"
      using that by (induction zs arbitrary: m) auto
    show ?thesis using 0 Cons.prems zero [of ys "Suc n"] by simp
  next
    case (Suc r')
    then have "y \<noteq> x" using Cons.prems by (auto simp: in_set_conv_nth)
    then show ?thesis using Suc Cons.prems Cons.IH [of r' "Suc n"] by simp
  qed
qed simp

lemma list_score_at:
  "distinct xs \<Longrightarrow> r < length xs \<Longrightarrow> xs ! r = x \<Longrightarrow> list_score w k xs x = w / (k + (real r + 1))"
  using list_score_from [where n = 0] by (simp add: list_score_def)

lemma list_score_absent: "x \<notin> set xs \<Longrightarrow> list_score w k xs x = 0"
proof -
  have "x \<notin> set zs \<Longrightarrow> (\<Sum>(r, z)\<leftarrow>enumerate m zs. if z = x then w / (k + (real r + 1)) else 0) = 0"
    for m and zs :: "'a list"
    by (induction zs arbitrary: m) auto
  then show "x \<notin> set xs \<Longrightarrow> list_score w k xs x = 0" by (simp add: list_score_def)
qed

lemma list_score_nonneg:
  assumes "0 \<le> w" "0 \<le> k"
  shows "0 \<le> list_score w k xs x"
  unfolding list_score_def using assms by (auto intro!: sum_list_nonneg)

text \<open>\<open>a\<close> is ahead of \<open>b\<close> in a list when the list mentions \<open>b\<close> only after \<open>a\<close>.\<close>

definition ahead :: "'a list \<Rightarrow> 'a \<Rightarrow> 'a \<Rightarrow> bool" where
  "ahead xs a b \<longleftrightarrow> (\<forall>j < length xs. xs ! j = b \<longrightarrow> (\<exists>i < j. xs ! i = a))"

lemma list_score_ahead:
  assumes "distinct xs" "ahead xs a b" "0 \<le> w" "0 \<le> k"
  shows "list_score w k xs b \<le> list_score w k xs a"
    and "b \<in> set xs \<Longrightarrow> 0 < w \<Longrightarrow> list_score w k xs b < list_score w k xs a"
proof -
  have *: "\<exists>i j. i < j \<and> list_score w k xs a = w / (k + (real i + 1)) \<and>
      list_score w k xs b = w / (k + (real j + 1))" if b: "b \<in> set xs"
  proof -
    obtain j where j: "j < length xs" "xs ! j = b" using b by (auto simp: in_set_conv_nth)
    then obtain i where i: "i < j" "xs ! i = a" using assms(2) by (auto simp: ahead_def)
    then show ?thesis
      using list_score_at [OF assms(1) _ i(2)] list_score_at [OF assms(1) j] j(1) by (metis less_trans)
  qed
  show strict: "list_score w k xs b < list_score w k xs a" if "b \<in> set xs" "0 < w"
    using * [OF that(1)] assms(4) that(2) by (auto intro!: divide_strict_left_mono mult_pos_pos add_nonneg_pos)
  show "list_score w k xs b \<le> list_score w k xs a"
  proof (cases "b \<in> set xs \<and> 0 < w")
    case False
    then consider "b \<notin> set xs" | "w = 0" using assms(3) by linarith
    then show ?thesis
    proof cases
      case 1
      then show ?thesis using list_score_absent list_score_nonneg assms(3,4) by metis
    next
      case 2
      have "list_score 0 k xs x = 0" for x
        unfolding list_score_def by (rule sum_list_0 [THEN subst]) (auto simp: case_prod_unfold cong: if_cong)
      then show ?thesis using 2 by simp
    qed
  qed (use strict in auto)
qed

lemma sum_list_strict:
  fixes f g :: "'b \<Rightarrow> real"
  assumes "\<forall>x\<in>set xs. f x \<le> g x" "\<exists>x\<in>set xs. f x < g x"
  shows "(\<Sum>x\<leftarrow>xs. f x) < (\<Sum>x\<leftarrow>xs. g x)"
  using assms
proof (induction xs)
  case (Cons y ys)
  have le: "(\<Sum>x\<leftarrow>ys. f x) \<le> (\<Sum>x\<leftarrow>ys. g x)" using Cons.prems(1) by (auto intro: sum_list_mono)
  show ?case
  proof (cases "f y < g y")
    case True
    then show ?thesis using le by simp
  next
    case False
    then have "(\<Sum>x\<leftarrow>ys. f x) < (\<Sum>x\<leftarrow>ys. g x)" using Cons by auto
    then show ?thesis using Cons.prems(1) by (simp add: add_le_less_mono)
  qed
qed simp

lemma fused_score_ahead:
  assumes "\<forall>xs\<in>set ranked. distinct xs \<and> ahead xs a b" "\<forall>w\<in>set weights. 0 < w" "0 \<le> k"
    "\<exists>xs\<in>set ranked. b \<in> set xs"
  shows "fused_score ranked weights k b < fused_score ranked weights k a"
proof -
  have w: "0 < weight_at weights li" for li using assms(2) by (auto simp: weight_at_def)
  have mem: "(li, xs) \<in> set (enumerate 0 ranked) \<Longrightarrow> xs \<in> set ranked" for li xs
    using snd_set_enumerate [of 0 ranked] by force
  obtain xs where "xs \<in> set ranked" "b \<in> set xs" using assms(4) by blast
  then obtain li where li: "(li, xs) \<in> set (enumerate 0 ranked)" "b \<in> set xs"
    using snd_set_enumerate [of 0 ranked] by force
  show ?thesis
    unfolding fused_score_def
  proof (rule sum_list_strict; clarsimp?)
    fix i ys assume "(i, ys) \<in> set (enumerate 0 ranked)"
    then show "list_score (weight_at weights i) k ys b \<le> list_score (weight_at weights i) k ys a"
      using list_score_ahead(1) assms(1,3) w mem by (metis less_imp_le)
  next
    show "\<exists>p\<in>set (enumerate 0 ranked).
        (case p of (li, list) \<Rightarrow> list_score (weight_at weights li) k list b)
        < (case p of (li, list) \<Rightarrow> list_score (weight_at weights li) k list a)"
      using li list_score_ahead(2) [of xs a b "weight_at weights li" k] assms(1,3) w [of li] mem [OF li(1)]
      by (intro bexI [OF _ li(1)]) auto
  qed
qed

text \<open>Position in the fused list: a strictly better score comes first.\<close>

lemma weighted_order:
  assumes res: "res = weighted_reciprocal_rank_fusion ranked weights k top_n"
    and ij: "i < length res" "j < length res" "fst (res ! i) = a" "fst (res ! j) = b"
    and lt: "fused_score ranked weights k b < fused_score ranked weights k a"
  shows "i < j"
proof (rule ccontr)
  assume "\<not> i < j"
  then have "j \<le> i" by simp
  then have "snd (res ! i) \<le> snd (res ! j)"
    using weighted_sorted [OF res] ij(1) by (cases "i = j") (auto simp: sorted_wrt_iff_nth_less)
  moreover have "snd (res ! i) = fused_score ranked weights k a" "snd (res ! j) = fused_score ranked weights k b"
    using weighted_scores [OF res] ij by (metis nth_mem prod.collapse)+
  ultimately show False using lt by simp
qed

section \<open>Identifiers\<close>

lemma identifier_has_letter:
  "is_identifier_token tok \<Longrightarrow> \<exists>c\<in>set tok. is_alpha c"
  using set_trim_by [of "\<lambda>c. \<not> is_alnum c" tok]
  by (auto simp: is_identifier_token_def Let_def list_ex_iff split: if_splits)

lemma identifier_trim:
  "is_identifier_token (trim_by (\<lambda>c. \<not> is_alnum c) tok) = is_identifier_token tok"
  by (simp add: is_identifier_token_def)

section \<open>Properties\<close>

text \<open>C32: Weighted fusion returns each item at most once, with exactly the sum over the lists of
  \<open>weight / (k + rank)\<close>, best first, as many as were asked for or exist, and never drops an item for a
  worse one.\<close>

theorem weighted_fusion_spec:
  assumes "res = weighted_reciprocal_rank_fusion ranked weights k top_n"
  shows "distinct (map fst res) \<and> length res = min top_n (card (\<Union> (set ` set ranked))) \<and>
    (\<forall>x s. (x, s) \<in> set res \<longrightarrow> x \<in> \<Union> (set ` set ranked) \<and> s = fused_score ranked weights k x) \<and>
    sorted_wrt (\<lambda>a b. snd b \<le> snd a) res \<and>
    (\<forall>x y s. x \<in> \<Union> (set ` set ranked) \<longrightarrow> x \<notin> fst ` set res \<longrightarrow> (y, s) \<in> set res \<longrightarrow>
      fused_score ranked weights k x \<le> s)"
proof (intro conjI allI impI)
  show "x \<in> \<Union> (set ` set ranked)" "s = fused_score ranked weights k x" if "(x, s) \<in> set res" for x s
    using weighted_items [OF assms] weighted_scores [OF assms that] that by force+
qed (use weighted_distinct [OF assms] weighted_length [OF assms] weighted_sorted [OF assms]
       weighted_best [OF assms] in blast)+

lemma weighted_fusion_spec_witness:
  "distinct (map fst (weighted_reciprocal_rank_fusion [[1::nat, 2], [2, 3]] [1, 2] 60 2))"
  by (rule weighted_fusion_spec [OF refl, THEN conjunct1])

text \<open>An item that every list ranks ahead of another is ranked ahead of it in the fusion, for any
  positive weights: fusion never inverts a unanimous preference.\<close>

theorem fusion_respects_unanimity:
  assumes "\<forall>xs\<in>set ranked. distinct xs \<and> ahead xs a b" and "\<exists>xs\<in>set ranked. b \<in> set xs"
    and "\<forall>w\<in>set weights. 0 < w" and "0 \<le> k"
    and "res = weighted_reciprocal_rank_fusion ranked weights k top_n"
    and "j < length res" and "fst (res ! j) = b"
  shows "\<exists>i < j. fst (res ! i) = a"
proof -
  have lt: "fused_score ranked weights k b < fused_score ranked weights k a"
    by (rule fused_score_ahead [OF assms(1,3,4,2)])
  have "(b, snd (res ! j)) \<in> set res" using assms(6,7) by (metis nth_mem prod.collapse)
  then have sb: "snd (res ! j) = fused_score ranked weights k b" by (rule weighted_scores [OF assms(5)])
  obtain xs where xs: "xs \<in> set ranked" "b \<in> set xs" using assms(2) by blast
  then obtain i where "i < length xs" "xs ! i = a"
    using assms(1) unfolding ahead_def by (metis in_set_conv_nth less_trans)
  then have "a \<in> \<Union> (set ` set ranked)" using xs(1) by (metis UN_I nth_mem)
  then have "a \<in> fst ` set res"
    using weighted_best [OF assms(5), of a b] \<open>(b, snd (res ! j)) \<in> set res\<close> sb lt by fastforce
  then obtain i where i: "i < length res" "fst (res ! i) = a" by (auto simp: in_set_conv_nth)
  then show ?thesis using weighted_order [OF assms(5) i(1) assms(6) i(2) assms(7) lt] by blast
qed

lemma fusion_respects_unanimity_witness:
  "\<exists>i < 1. fst (weighted_reciprocal_rank_fusion [[1::nat, 2], [1, 3]] [1, 2] 60 3 ! i) = 1"
proof -
  let ?r = "weighted_reciprocal_rank_fusion [[1::nat, 2], [1, 3]] [1, 2] 60 3"
  have r: "map fst ?r = [1, 3, 2]" by code_simp
  then have l: "length ?r = 3" by (metis length_map length_Cons list.size(3) numeral_3_eq_3)
  have "fst (?r ! 1) = map fst ?r ! 1" using l by (simp add: nth_map)
  then have j: "fst (?r ! 1) = 3" using r by simp
  have a: "ahead [1::nat, 2] 1 3" "ahead [1::nat, 3] 1 3"
    by (auto simp: ahead_def less_Suc_eq nth_Cons split: nat.splits)
  show ?thesis
    by (rule fusion_respects_unanimity [where b = 3 and ranked = "[[1, 2], [1, 3]]" and weights = "[1, 2]" and k = 60])
      (use a l j in simp_all)
qed

end
