(* ===== verification/Scoring.thy ===== *)
theory Scoring
  imports Prelude
begin

text \<open>
  \<open>brainiac-core/src/scoring.rs\<close>: the blended ranking key.  Scores are exact reals (the code uses
  \<open>f64\<close>).  The lemmas bound each nudge and give the module's dominance claim.
\<close>

section \<open>The code\<close>

definition RECENCY_HALF_LIFE_DAYS :: real where "RECENCY_HALF_LIFE_DAYS = 180"
definition RECENCY_WEIGHT :: real where "RECENCY_WEIGHT = 1 / 10000"
definition FEEDBACK_WEIGHT :: real where "FEEDBACK_WEIGHT = 1 / 10000"
definition PROJECT_AFFINITY_WEIGHT :: real where "PROJECT_AFFINITY_WEIGHT = 1 / 10000"

definition MAX_NUDGE_SWING :: real where
  "MAX_NUDGE_SWING = RECENCY_WEIGHT + 2 * FEEDBACK_WEIGHT + PROJECT_AFFINITY_WEIGHT"

definition FEEDBACK_SATURATION :: real where "FEEDBACK_SATURATION = 3"
definition GRAPH_HOP_DECAY :: real where "GRAPH_HOP_DECAY = 3 / 10"

definition recency_decay :: "real \<Rightarrow> real" where
  "recency_decay age_days =
    (let age = max age_days 0 in exp (- ln 2 * age / RECENCY_HALF_LIFE_DAYS))"

definition graph_relevance :: "real \<Rightarrow> real" where
  "graph_relevance anchor_score = anchor_score * GRAPH_HOP_DECAY"

record feedback_signal =
  helpful :: int
  wrong :: int
  outdated :: int

definition net :: "feedback_signal \<Rightarrow> int" where
  "net f = helpful f - wrong f - outdated f"

definition feedback_score :: "feedback_signal \<Rightarrow> real" where
  "feedback_score f = tanh (real_of_int (net f) / FEEDBACK_SATURATION)"

datatype project_affinity = NoLens | Shared | Own

fun project_affinity_score :: "project_affinity \<Rightarrow> real" where
  "project_affinity_score Own = 1"
| "project_affinity_score Shared = 0"
| "project_affinity_score NoLens = 0"

definition blended_score :: "real \<Rightarrow> real \<Rightarrow> feedback_signal \<Rightarrow> project_affinity \<Rightarrow> real" where
  "blended_score relevance age_days feedback affinity =
    relevance + RECENCY_WEIGHT * recency_decay age_days
      + FEEDBACK_WEIGHT * feedback_score feedback
      + PROJECT_AFFINITY_WEIGHT * project_affinity_score affinity"

lemmas weight_defs = RECENCY_WEIGHT_def FEEDBACK_WEIGHT_def PROJECT_AFFINITY_WEIGHT_def
  MAX_NUDGE_SWING_def

section \<open>Bounds of the nudges\<close>

lemma recency_decay_bounds: "0 < recency_decay a" "recency_decay a \<le> 1"
  by (auto simp: recency_decay_def RECENCY_HALF_LIFE_DAYS_def Let_def)

lemma recency_decay_fresh: "a \<le> 0 \<Longrightarrow> recency_decay a = 1"
  by (simp add: recency_decay_def max_def)

lemma recency_decay_half_life:
  assumes "0 \<le> a"
  shows "recency_decay (a + RECENCY_HALF_LIFE_DAYS) = recency_decay a / 2"
proof -
  have "- ln 2 * (a + 180) / 180 = - ln 2 * a / 180 - ln (2 :: real)"
    by (simp add: field_simps)
  then show ?thesis
    using assms by (simp add: recency_decay_def RECENCY_HALF_LIFE_DAYS_def exp_diff)
qed

lemma recency_decay_antimono: "a \<le> b \<Longrightarrow> recency_decay b \<le> recency_decay a"
  by (auto simp: recency_decay_def RECENCY_HALF_LIFE_DAYS_def Let_def intro!: mult_left_mono divide_right_mono)

lemma feedback_score_bounds: "- 1 < feedback_score f" "feedback_score f < 1"
  by (simp_all add: feedback_score_def tanh_real_gt_neg1 tanh_real_lt_1)

lemma feedback_score_mono: "net f \<le> net g \<Longrightarrow> feedback_score f \<le> feedback_score g"
  by (simp add: feedback_score_def FEEDBACK_SATURATION_def)

lemma feedback_score_symmetric: "net f = - net g \<Longrightarrow> feedback_score f = - feedback_score g"
  by (simp add: feedback_score_def flip: tanh_minus)

lemma project_affinity_score_bounds: "0 \<le> project_affinity_score p" "project_affinity_score p \<le> 1"
  by (cases p; simp)+

lemmas nudge_bounds = recency_decay_bounds feedback_score_bounds project_affinity_score_bounds

lemma blended_score_spread:
  "blended_score r a f p - blended_score r' a' f' p' < (r - r') + MAX_NUDGE_SWING"
  using nudge_bounds(1,2) [of a] nudge_bounds(1,2) [of a'] nudge_bounds(3,4) [of f] nudge_bounds(3,4) [of f']
    nudge_bounds(5,6) [of p] nudge_bounds(5,6) [of p']
  by (simp add: blended_score_def weight_defs)

lemma blended_score_dominance:
  "r + MAX_NUDGE_SWING \<le> r' \<Longrightarrow> blended_score r a f p < blended_score r' a' f' p'"
  using blended_score_spread [of r a f p r' a' f' p'] by simp

lemma blended_score_no_lens: "blended_score r a f Shared = blended_score r a f NoLens"
  by (simp add: blended_score_def)

lemma blended_score_mono:
  assumes "r \<le> r'" "a' \<le> a" "net f \<le> net f'" "project_affinity_score p \<le> project_affinity_score p'"
  shows "blended_score r a f p \<le> blended_score r' a' f' p'"
  unfolding blended_score_def
  using assms recency_decay_antimono feedback_score_mono
  by (intro add_mono mult_left_mono) (auto simp: weight_defs)

lemma graph_relevance_below: "0 < s \<Longrightarrow> 0 < graph_relevance s \<and> graph_relevance s < s"
  by (simp add: graph_relevance_def GRAPH_HOP_DECAY_def)

section \<open>Properties\<close>

text \<open>The nudges (recency, feedback, project affinity) never outweigh relevance: once two hits differ
  in relevance by \<open>MAX_NUDGE_SWING\<close> the more relevant one wins whatever its age, votes and project, and
  with everything else equal fresher, better rated and closer never score lower.\<close>

theorem relevance_dominates_nudges:
  "(r + MAX_NUDGE_SWING \<le> r' \<longrightarrow> blended_score r a f p < blended_score r' a' f' p') \<and>
   (r \<le> r' \<longrightarrow> a' \<le> a \<longrightarrow> net f \<le> net f' \<longrightarrow> project_affinity_score p \<le> project_affinity_score p' \<longrightarrow>
      blended_score r a f p \<le> blended_score r' a' f' p')"
  by (simp add: blended_score_dominance blended_score_mono)

lemma relevance_dominates_nudges_witness:
  "blended_score (1 / 100) 0 \<lparr> helpful = 9, wrong = 0, outdated = 0 \<rparr> Own
     < blended_score (2 / 100) 900 \<lparr> helpful = 0, wrong = 9, outdated = 0 \<rparr> Shared"
  by (rule relevance_dominates_nudges [THEN conjunct1, rule_format])
    (simp add: MAX_NUDGE_SWING_def RECENCY_WEIGHT_def FEEDBACK_WEIGHT_def PROJECT_AFFINITY_WEIGHT_def)

end
