(* ===== verification/Health.thy ===== *)
theory Health
  imports Prelude
begin

text \<open>
  \<open>brainiac-core/src/health.rs\<close>: the pillar formulas, the composite with its cross-team cap, the
  grade and the publish breaker.  \<open>i64\<close> counts are integers and the \<open>f64\<close> ratios exact reals rounded
  half away from zero, as \<open>f64::round\<close> does.  A block reason carries the offending pillar value; the
  prose around it is not modelled.
\<close>

section \<open>The code\<close>

definition clamp100 :: "int \<Rightarrow> int" where
  "clamp100 v = (if v < 0 then 0 else if v > 100 then 100 else v)"

definition round_away :: "real \<Rightarrow> int" where
  "round_away x = (if 0 \<le> x then \<lfloor>x + 1 / 2\<rfloor> else - \<lfloor>1 / 2 - x\<rfloor>)"

definition REVIEW_SLO_SECS :: int where "REVIEW_SLO_SECS = 48 * 3600"
definition LIBRARY_DORMANT_DAYS :: int where "LIBRARY_DORMANT_DAYS = 30"
definition LIBRARY_GATE_SLO_SECS :: int where "LIBRARY_GATE_SLO_SECS = 14 * 24 * 3600"

definition rule_is_dormant :: "int \<Rightarrow> int \<Rightarrow> bool" where
  "rule_is_dormant adopted_secs_ago uses_in_window =
    (adopted_secs_ago > LIBRARY_DORMANT_DAYS * 24 * 3600 \<and> uses_in_window = 0)"

definition consistency_pillar :: "int \<Rightarrow> int \<Rightarrow> int" where
  "consistency_pillar open_contradictions cross_team =
    (let intra = max (open_contradictions - cross_team) 0 in
     clamp100 (100 - (cross_team * 30 + intra * 10)))"

definition currency_pillar :: "int \<Rightarrow> int \<Rightarrow> int" where
  "currency_pillar all_n stale =
    (if all_n \<le> 0 then 100
     else clamp100 (round_away (real_of_int (all_n - stale) / real_of_int all_n * 100)))"

definition liquidity_pillar :: "int \<Rightarrow> int \<Rightarrow> int" where
  "liquidity_pillar canonical cross_team =
    (if canonical \<le> 0 then 0
     else clamp100 (round_away (real_of_int cross_team / real_of_int canonical * 100)))"

definition governance_pillar :: "int \<Rightarrow> int \<Rightarrow> int" where
  "governance_pillar backlog oldest_secs =
    (let age_penalty = round_away (real_of_int oldest_secs / real_of_int REVIEW_SLO_SECS * 40);
         depth_penalty = min (backlog * 3) 40
     in clamp100 (100 - age_penalty - depth_penalty))"

definition composite_score :: "int \<Rightarrow> int \<Rightarrow> int \<Rightarrow> int \<Rightarrow> int \<Rightarrow> int" where
  "composite_score consistency currency liquidity governance cross_team_contradictions =
    (let weighted = real_of_int consistency * (35 / 100) + real_of_int currency * (25 / 100)
           + real_of_int governance * (20 / 100) + real_of_int liquidity * (20 / 100);
         cross_cap = 100 - cross_team_contradictions * 22
     in clamp100 (min (round_away weighted) cross_cap))"

definition grade_of :: "int \<Rightarrow> string" where
  "grade_of score =
    (if 85 \<le> score \<and> score \<le> 100 then ''Healthy''
     else if 70 \<le> score \<and> score \<le> 84 then ''Watch''
     else if 50 \<le> score \<and> score \<le> 69 then ''At risk''
     else ''Critical'')"

definition PUBLISH_MIN_CURRENCY :: int where "PUBLISH_MIN_CURRENCY = 70"
definition PUBLISH_MIN_GOVERNANCE :: int where "PUBLISH_MIN_GOVERNANCE = 50"

datatype block_reason = CurrencyBelowFloor int | GovernanceBelowFloor int

definition publish_block_reason :: "int \<Rightarrow> int \<Rightarrow> block_reason option" where
  "publish_block_reason currency governance =
    (if currency < PUBLISH_MIN_CURRENCY then Some (CurrencyBelowFloor currency)
     else if governance < PUBLISH_MIN_GOVERNANCE then Some (GovernanceBelowFloor governance)
     else None)"

section \<open>Bounds and monotonicity\<close>

lemma clamp100_bounds [simp]: "0 \<le> clamp100 v" "clamp100 v \<le> 100"
  by (auto simp: clamp100_def)

lemma clamp100_mono: "v \<le> w \<Longrightarrow> clamp100 v \<le> clamp100 w"
  by (auto simp: clamp100_def)

lemma clamp100_le: "v \<le> n \<Longrightarrow> 0 \<le> n \<Longrightarrow> clamp100 v \<le> n"
  by (auto simp: clamp100_def)

lemma round_away_mono: "x \<le> y \<Longrightarrow> round_away x \<le> round_away y"
proof -
  assume xy: "x \<le> y"
  consider "0 \<le> x" | "x < 0" "0 \<le> y" | "y < 0" by linarith
  then show ?thesis
  proof cases
    case 1 then show ?thesis using xy by (simp add: round_away_def floor_mono)
  next
    case 2
    then have "0 \<le> \<lfloor>1 / 2 - x\<rfloor>" "0 \<le> \<lfloor>y + 1 / 2\<rfloor>" by simp_all
    moreover have "round_away x = - \<lfloor>1 / 2 - x\<rfloor>" "round_away y = \<lfloor>y + 1 / 2\<rfloor>"
      using 2 by (simp_all add: round_away_def)
    ultimately show ?thesis by linarith
  next
    case 3
    then have "\<lfloor>1 / 2 - y\<rfloor> \<le> \<lfloor>1 / 2 - x\<rfloor>" using xy by (intro floor_mono) simp
    then show ?thesis using xy 3 by (simp add: round_away_def)
  qed
qed

lemma round_away_int [simp]: "round_away (real_of_int n) = n"
proof (cases "0 \<le> n")
  case True
  have "\<lfloor>real_of_int n + 1 / 2\<rfloor> = n" by linarith
  then show ?thesis using True by (simp add: round_away_def)
next
  case False
  have "\<lfloor>1 / 2 - real_of_int n\<rfloor> = - n" by linarith
  then show ?thesis using False by (simp add: round_away_def)
qed

lemma consistency_antimono:
  "0 \<le> c \<Longrightarrow> c \<le> c' \<Longrightarrow> n \<le> n' \<Longrightarrow> consistency_pillar n' c' \<le> consistency_pillar n c"
  by (auto simp: consistency_pillar_def Let_def max_def intro!: clamp100_mono)

lemma currency_full: "0 < all_n \<Longrightarrow> currency_pillar all_n 0 = 100"
  using round_away_int [of 100] by (simp add: currency_pillar_def clamp100_def)

lemma currency_antimono: "stale \<le> stale' \<Longrightarrow> currency_pillar all_n stale' \<le> currency_pillar all_n stale"
  by (auto simp: currency_pillar_def intro!: clamp100_mono round_away_mono divide_right_mono)

lemma governance_antimono:
  "backlog \<le> backlog' \<Longrightarrow> oldest \<le> oldest' \<Longrightarrow>
    governance_pillar backlog' oldest' \<le> governance_pillar backlog oldest"
proof -
  assume *: "backlog \<le> backlog'" "oldest \<le> oldest'"
  have "round_away (real_of_int oldest / real_of_int REVIEW_SLO_SECS * 40)
      \<le> round_away (real_of_int oldest' / real_of_int REVIEW_SLO_SECS * 40)"
    using *(2) by (intro round_away_mono mult_right_mono divide_right_mono) (simp_all add: REVIEW_SLO_SECS_def)
  then show ?thesis using *(1) unfolding governance_pillar_def Let_def
    by (intro clamp100_mono) linarith
qed

lemma governance_at_slo:
  "governance_pillar 0 REVIEW_SLO_SECS = 60"
  using round_away_int [of 40] by (simp add: governance_pillar_def REVIEW_SLO_SECS_def clamp100_def Let_def)

lemma composite_bounds: "0 \<le> composite_score a b c d x" "composite_score a b c d x \<le> 100"
  by (simp_all add: composite_score_def Let_def)

lemma composite_cap: "0 \<le> 100 - x * 22 \<Longrightarrow> composite_score a b c d x \<le> 100 - x * 22"
  by (auto simp: composite_score_def Let_def intro!: clamp100_le)

lemma composite_zero_cap: "5 \<le> x \<Longrightarrow> composite_score a b c d x = 0"
  by (auto simp: composite_score_def Let_def clamp100_def)

lemma composite_mono:
  assumes "a \<le> a'" "b \<le> b'" "c \<le> c'" "d \<le> d'" "x' \<le> x"
  shows "composite_score a b c d x \<le> composite_score a' b' c' d' x'"
  unfolding composite_score_def Let_def
  using assms by (intro clamp100_mono min.mono round_away_mono add_mono) auto

lemma composite_perfect: "composite_score 100 100 100 100 0 = 100"
  using round_away_int [of 100] by (simp add: composite_score_def Let_def clamp100_def)

lemma grade_of_Healthy_iff: "grade_of s = ''Healthy'' \<longleftrightarrow> 85 \<le> s \<and> s \<le> 100"
  by (auto simp: grade_of_def)

lemma publish_block_reason_None_iff:
  "publish_block_reason c g = None \<longleftrightarrow> 70 \<le> c \<and> 50 \<le> g"
  by (auto simp: publish_block_reason_def PUBLISH_MIN_CURRENCY_def PUBLISH_MIN_GOVERNANCE_def)

lemma publish_block_mono:
  "publish_block_reason c g = None \<Longrightarrow> c \<le> c' \<Longrightarrow> g \<le> g' \<Longrightarrow> publish_block_reason c' g' = None"
  by (auto simp: publish_block_reason_None_iff)

lemma cross_team_never_healthy:
  assumes "1 \<le> x"
  shows "grade_of (composite_score a b c d x) \<noteq> ''Healthy''"
proof (cases "x \<le> 4")
  case True
  then show ?thesis using composite_cap [of x a b c d] assms by (auto simp: grade_of_Healthy_iff)
next
  case False
  then show ?thesis using composite_zero_cap [of x a b c d] by (simp add: grade_of_Healthy_iff)
qed

section \<open>Properties\<close>

text \<open>The health score stays in 0..100, never rises when a pillar falls or a cross-team contradiction
  is added, is capped by the open cross-team contradictions, and an organisation with even one of them
  is never graded Healthy.\<close>

theorem health_score_is_honest:
  "0 \<le> composite_score a b c d x \<and> composite_score a b c d x \<le> 100 \<and>
   (a \<le> a' \<longrightarrow> b \<le> b' \<longrightarrow> c \<le> c' \<longrightarrow> d \<le> d' \<longrightarrow> x' \<le> x \<longrightarrow>
      composite_score a b c d x \<le> composite_score a' b' c' d' x') \<and>
   (0 \<le> 100 - x * 22 \<longrightarrow> composite_score a b c d x \<le> 100 - x * 22) \<and>
   (1 \<le> x \<longrightarrow> grade_of (composite_score a b c d x) \<noteq> ''Healthy'')"
  by (simp_all add: composite_bounds composite_mono composite_cap cross_team_never_healthy)

lemma health_score_is_honest_witness: "grade_of (composite_score 100 100 100 100 1) \<noteq> ''Healthy''"
  using health_score_is_honest [of 100 100 100 100 1] by simp

end
