(* ===== verification/Lexical.thy ===== *)
theory Lexical
  imports Text "HOL-Library.Word"
begin

text \<open>
  The two model-free seams of \<open>brainiac-core\<close>: the lexical overlap reranker (\<open>rerank.rs\<close>) and the
  deterministic hashed bag-of-tokens embedder (\<open>embed.rs\<close>).  The hash keeps its 64-bit wrap-around;
  the vectors are exact reals.
\<close>

unbundle bit_operations_syntax

section \<open>The reranker\<close>

definition tokens :: "string \<Rightarrow> string list" where
  "tokens text = filter (\<lambda>t. length t > 1) (split_by (\<lambda>c. \<not> is_alnum c) (lowercase text))"

definition lexical_score :: "string \<Rightarrow> string \<Rightarrow> real" where
  "lexical_score query candidate =
    (let q = remdups (tokens query) in
     if q = [] then 0
     else let c = remdups (tokens candidate);
              overlap = length (filter (\<lambda>t. t \<in> set c) q)
          in real overlap / real (length q))"

definition lexical_rerank :: "string \<Rightarrow> (uuid \<times> string) list \<Rightarrow> real list option" where
  "lexical_rerank query candidates = Some (map (\<lambda>(_, text). lexical_score query text) candidates)"

text \<open>
  The \<open>Reranker\<close> trait: a call may fail, and a successful one returns one score per candidate in
  the order of the candidates.
\<close>

locale reranker =
  fixes rerank :: "string \<Rightarrow> (uuid \<times> string) list \<Rightarrow> real list option"
  assumes aligned: "rerank q cs = Some ss \<Longrightarrow> length ss = length cs"
begin

lemma empty_candidates: "rerank q [] = Some ss \<Longrightarrow> ss = []"
  using aligned by fastforce

lemma scores_zip: "rerank q cs = Some ss \<Longrightarrow> map fst (zip cs ss) = cs"
  using aligned by simp

end

interpretation lexical: reranker lexical_rerank
  by unfold_locales (auto simp: lexical_rerank_def)

section \<open>The embedder\<close>

definition fnv1a :: "string \<Rightarrow> 64 word" where
  "fnv1a bytes =
    foldl (\<lambda>hash b. (hash XOR word_of_nat (code b)) * 0x100000001B3) 0xcbf29ce484222325 bytes"

text \<open>
  One token: bucket \<open>h % dm\<close> (the remainder by zero panics when the dimension is 0) and a sign from
  the top bit.
\<close>

definition embed_bucket :: "nat \<Rightarrow> string \<Rightarrow> nat" where
  "embed_bucket dm token = unat (fnv1a token) mod dm"

definition embed_sign :: "string \<Rightarrow> real" where
  "embed_sign token = (if drop_bit 63 (fnv1a token) = 0 then 1 else - 1)"

definition embed_token :: "nat \<Rightarrow> string \<Rightarrow> real list \<Rightarrow> real list" where
  "embed_token dm token v =
    v[embed_bucket dm token := v ! embed_bucket dm token + embed_sign token]"

definition l2 :: "real list \<Rightarrow> real" where
  "l2 v = sqrt (\<Sum>x\<leftarrow>v. x * x)"

definition embed_sync :: "nat \<Rightarrow> string \<Rightarrow> real list option" where
  "embed_sync dm text =
    (if dm = 0 \<and> tokens text \<noteq> [] then None
     else let v = fold (embed_token dm) (tokens text) (replicate dm 0);
              norm = l2 v
          in Some (if norm > 0 then map (\<lambda>x. x / norm) v else v))"

definition cosine :: "real list \<Rightarrow> real list \<Rightarrow> real" where
  "cosine a b =
    (let dot = (\<Sum>(x, y)\<leftarrow>zip a b. x * y); na = l2 a; nb = l2 b
     in if na = 0 \<or> nb = 0 then 0 else dot / (na * nb))"

section \<open>Properties of the reranker\<close>

lemma lexical_score_bounds: "0 \<le> lexical_score q c" "lexical_score q c \<le> 1"
  by (auto simp: lexical_score_def Let_def divide_le_eq_1 length_filter_le)

lemma lexical_score_full:
  assumes "tokens q \<noteq> []"
  shows "lexical_score q c = 1 \<longleftrightarrow> set (tokens q) \<subseteq> set (tokens c)"
proof -
  let ?q = "remdups (tokens q)"
  have "lexical_score q c = 1 \<longleftrightarrow> length (filter (\<lambda>t. t \<in> set (tokens c)) ?q) = length ?q"
    using assms by (auto simp: lexical_score_def Let_def)
  also have "\<dots> \<longleftrightarrow> (\<forall>t\<in>set ?q. t \<in> set (tokens c))"
    by (metis filter_True length_filter_less nat_neq_iff)
  finally show ?thesis by auto
qed

lemma tokens_lowercase: "tokens (lowercase t) = tokens t"
  by (simp add: tokens_def lowercase_def comp_def)

lemma lexical_score_case: "lexical_score (lowercase q) c = lexical_score q c"
  by (simp add: lexical_score_def tokens_lowercase)

section \<open>Properties of the embedder\<close>

lemma embed_bucket_less: "0 < dm \<Longrightarrow> embed_bucket dm t < dm"
  by (simp add: embed_bucket_def)

lemma length_embed_fold: "length (fold (embed_token dm) ts v) = length v"
  by (induction ts arbitrary: v) (auto simp: embed_token_def)

lemma embed_length: "embed_sync dm text = Some v \<Longrightarrow> length v = dm"
  by (auto simp: embed_sync_def Let_def length_embed_fold split: if_splits)

lemma embed_token_commute: "embed_token dm s \<circ> embed_token dm t = embed_token dm t \<circ> embed_token dm s"
proof
  fix v
  show "(embed_token dm s \<circ> embed_token dm t) v = (embed_token dm t \<circ> embed_token dm s) v"
  proof (cases "embed_bucket dm s = embed_bucket dm t \<and> embed_bucket dm t < length v")
    case True
    then show ?thesis by (simp add: embed_token_def algebra_simps)
  next
    case False
    then show ?thesis
      by (auto simp: embed_token_def nth_list_update list_update_swap list_update_beyond)
  qed
qed

lemma embed_bag:
  assumes "mset (tokens s) = mset (tokens t)"
  shows "embed_sync dm s = embed_sync dm t"
proof -
  have "fold (embed_token dm) (tokens s) = fold (embed_token dm) (tokens t)"
    using assms embed_token_commute by (intro fold_multiset_equiv) auto
  moreover have "tokens s = [] \<longleftrightarrow> tokens t = []" using assms by (metis mset_zero_iff)
  ultimately show ?thesis by (simp add: embed_sync_def)
qed

lemma sum_sq_nonneg: "0 \<le> (\<Sum>x\<leftarrow>v. x * x :: real)"
  by (induction v) auto

lemma l2_nonneg [simp]: "0 \<le> l2 v"
  by (simp add: l2_def sum_sq_nonneg)

lemma l2_sq: "l2 v * l2 v = (\<Sum>x\<leftarrow>v. x * x)"
  by (simp add: l2_def sum_sq_nonneg)

lemma l2_scale: "l2 (map (\<lambda>x. x / c) v) = l2 v / \<bar>c\<bar>"
proof -
  have "(\<Sum>x\<leftarrow>map (\<lambda>x. x / c) v. x * x) = (\<Sum>x\<leftarrow>v. x * x) / (c * c)"
    by (induction v) (simp_all add: field_simps add_divide_distrib)
  then show ?thesis by (simp add: l2_def real_sqrt_divide)
qed

lemma embed_unit:
  assumes "embed_sync dm text = Some v"
  shows "l2 v = 1 \<or> (\<forall>x\<in>set v. x = 0)"
proof -
  define w where "w = fold (embed_token dm) (tokens text) (replicate dm 0)"
  have v: "v = (if l2 w > 0 then map (\<lambda>x. x / l2 w) w else w)"
    using assms by (auto simp: embed_sync_def Let_def w_def split: if_splits)
  show ?thesis
  proof (cases "l2 w > 0")
    case True
    then show ?thesis using v by (simp add: l2_scale)
  next
    case False
    have "sqrt (\<Sum>x\<leftarrow>w. x * x) \<le> 0" using False by (simp add: l2_def)
    then have "(\<Sum>x\<leftarrow>w. x * x) = 0" using sum_sq_nonneg [of w] by simp
    then have "\<forall>x\<in>set w. x = 0"
    proof (induction w)
      case (Cons a w)
      have "0 \<le> a * a" "0 \<le> (\<Sum>x\<leftarrow>w. x * x)" using sum_sq_nonneg by auto
      then have "a * a = 0" "(\<Sum>x\<leftarrow>w. x * x) = 0"
        using Cons.prems add_nonneg_eq_0_iff [of "a * a" "\<Sum>x\<leftarrow>w. x * x"] by simp_all
      then show ?case using Cons.IH by simp
    qed simp
    then show ?thesis using v False by simp
  qed
qed

lemma cauchy_schwarz_list:
  "length a = length b \<Longrightarrow>
    (\<Sum>(x, y)\<leftarrow>zip a b. x * y)\<^sup>2 \<le> (\<Sum>x\<leftarrow>a. x * x) * (\<Sum>x\<leftarrow>b. x * x :: real)"
proof (induction a b rule: list_induct2)
  case (Cons x xs y ys)
  define s p q where "s = (\<Sum>(x, y)\<leftarrow>zip xs ys. x * y)" and "p = (\<Sum>x\<leftarrow>xs. x * x)"
    and "q = (\<Sum>x\<leftarrow>ys. x * x)"
  have pq: "0 \<le> p" "0 \<le> q" "s\<^sup>2 \<le> p * q"
    using Cons.IH sum_sq_nonneg by (auto simp: p_def q_def s_def)
  have "(2 * (x * y) * s)\<^sup>2 \<le> 4 * (x\<^sup>2 * y\<^sup>2) * (p * q)"
    using pq(3) by (simp add: power_mult_distrib mult_left_mono)
  also have "\<dots> \<le> (p * y\<^sup>2 + q * x\<^sup>2)\<^sup>2"
  proof -
    have "0 \<le> (p * y\<^sup>2 - q * x\<^sup>2)\<^sup>2" by simp
    then show ?thesis by (simp add: power2_eq_square algebra_simps)
  qed
  finally have sq: "(2 * (x * y) * s)\<^sup>2 \<le> (p * y\<^sup>2 + q * x\<^sup>2)\<^sup>2" .
  have "0 \<le> p * y\<^sup>2 + q * x\<^sup>2" using pq by simp
  with sq have "2 * (x * y) * s \<le> p * y\<^sup>2 + q * x\<^sup>2" by (rule power2_le_imp_le)
  moreover have "(x * y + s)\<^sup>2 = (x * y)\<^sup>2 + 2 * (x * y) * s + s\<^sup>2" by (simp add: power2_sum)
  moreover have "(x * x + p) * (y * y + q) = (x * y)\<^sup>2 + (p * y\<^sup>2 + q * x\<^sup>2) + p * q"
    by (simp add: power2_eq_square algebra_simps)
  ultimately have "(x * y + s)\<^sup>2 \<le> (x * x + p) * (y * y + q)"
    using pq(3) by linarith
  then show ?case by (simp add: s_def p_def q_def)
qed simp

lemma cosine_bounds:
  assumes "length a = length b"
  shows "\<bar>cosine a b\<bar> \<le> 1"
proof (cases "l2 a = 0 \<or> l2 b = 0")
  case False
  define d where "d = (\<Sum>(x, y)\<leftarrow>zip a b. x * y)"
  have pos: "0 < l2 a * l2 b" using False by (simp add: less_le)
  have "(l2 a * l2 b)\<^sup>2 = (l2 a * l2 a) * (l2 b * l2 b)" by (simp add: power2_eq_square)
  then have "d\<^sup>2 \<le> (l2 a * l2 b)\<^sup>2"
    using cauchy_schwarz_list [OF assms] unfolding l2_sq d_def by simp
  then have "\<bar>d\<bar> \<le> l2 a * l2 b" using pos by (metis abs_le_square_iff abs_of_pos)
  then show ?thesis using False pos by (simp add: cosine_def d_def [symmetric] abs_divide)
qed (simp add: cosine_def Let_def)

lemma cosine_commute: "cosine a b = cosine b a"
proof -
  have "(\<Sum>(x, y)\<leftarrow>zip a b. x * y) = (\<Sum>(x, y)\<leftarrow>zip b a. x * y)"
    by (induction a arbitrary: b) (auto simp: zip_Cons1 split: list.splits)
  then show ?thesis by (simp add: cosine_def Let_def mult.commute disj_commute)
qed

end
