(* ===== verification/Metrics.thy ===== *)
theory Metrics
  imports Prelude "HOL-Library.AList"
begin

text \<open>
  \<open>brainiac-core/src/metrics.rs\<close>: the evaluation metrics.  A \<open>HashMap\<close> is an association list with
  distinct keys; ratios are exact reals.
\<close>

section \<open>Retrieval metrics\<close>

type_synonym 'a grades = "('a \<times> nat) list"

definition grade :: "'a grades \<Rightarrow> 'a \<Rightarrow> nat" where
  "grade grades item = (case map_of grades item of Some g \<Rightarrow> g | None \<Rightarrow> 0)"

definition dcg_at_k :: "'a list \<Rightarrow> 'a grades \<Rightarrow> nat \<Rightarrow> real" where
  "dcg_at_k ranked grades k =
    (\<Sum>(i, item)\<leftarrow>enumerate 0 (take k ranked).
       (2 ^ grade grades item - 1) / log 2 (real i + 2))"

definition ndcg_at_k :: "'a list \<Rightarrow> 'a grades \<Rightarrow> nat \<Rightarrow> real option" where
  "ndcg_at_k ranked grades k =
    (if list_all (\<lambda>(_, g). g = 0) grades \<or> grades = [] then None
     else let ideal = sort_by (\<lambda>a b. snd b \<le> snd a) (filter (\<lambda>(_, g). g > 0) grades);
              idcg = dcg_at_k (map fst ideal) grades k
          in if idcg = 0 then None else Some (dcg_at_k ranked grades k / idcg))"

fun rr_from :: "nat \<Rightarrow> 'a list \<Rightarrow> 'a grades \<Rightarrow> real" where
  "rr_from i [] grades = 0"
| "rr_from i (item # rest) grades =
    (if grade grades item > 0 then 1 / (real i + 1) else rr_from (Suc i) rest grades)"

definition reciprocal_rank :: "'a list \<Rightarrow> 'a grades \<Rightarrow> real" where
  "reciprocal_rank ranked grades = rr_from 0 ranked grades"

definition recall_at_k :: "'a list \<Rightarrow> 'a grades \<Rightarrow> nat \<Rightarrow> real option" where
  "recall_at_k ranked grades k =
    (let relevant = map fst (filter (\<lambda>(_, g). g > 0) grades) in
     if relevant = [] then None
     else Some (real (length (filter (\<lambda>i. i \<in> set relevant) (take k ranked))) / real (length relevant)))"

section \<open>Clustering metrics\<close>

type_synonym 'a clustering = "('a \<times> nat) list"

record precision_recall_f1 =
  precision :: real
  recall :: real
  f1_score :: real

definition f1 :: "real \<Rightarrow> real \<Rightarrow> real" where
  "f1 p r = (if p + r = 0 then 0 else 2 * p * r / (p + r))"

definition same_cluster :: "'a clustering \<Rightarrow> 'a \<Rightarrow> 'a \<Rightarrow> bool" where
  "same_cluster c a b =
    (case (map_of c a, map_of c b) of (Some x, Some y) \<Rightarrow> x = y | _ \<Rightarrow> False)"

text \<open>The unordered pairs \<open>i < j\<close> of the items.\<close>

fun pairs :: "'a list \<Rightarrow> ('a \<times> 'a) list" where
  "pairs [] = []"
| "pairs (x # xs) = map (Pair x) xs @ pairs xs"

definition pairwise_prf :: "'a clustering \<Rightarrow> 'a clustering \<Rightarrow> precision_recall_f1" where
  "pairwise_prf predicted gold =
    (let ps = pairs (map fst gold);
         gold_same = (\<lambda>(a, b). map_of gold a = map_of gold b);
         pred_same = (\<lambda>(a, b). same_cluster predicted a b);
         tp = length (filter (\<lambda>p. pred_same p \<and> gold_same p) ps);
         fp = length (filter (\<lambda>p. pred_same p \<and> \<not> gold_same p) ps);
         fn = length (filter (\<lambda>p. \<not> pred_same p \<and> gold_same p) ps);
         p = (if tp + fp = 0 then 1 else real tp / real (tp + fp));
         r = (if tp + fn = 0 then 1 else real tp / real (tp + fn))
     in \<lparr> precision = p, recall = r, f1_score = f1 p r \<rparr>)"

definition members :: "'a clustering \<Rightarrow> 'a list \<Rightarrow> nat \<Rightarrow> 'a list" where
  "members c items n = filter (\<lambda>x. map_of c x = Some n) items"

definition b_cubed_item :: "'a clustering \<Rightarrow> 'a clustering \<Rightarrow> 'a list \<Rightarrow> 'a \<Rightarrow> real \<times> real" where
  "b_cubed_item predicted gold items item =
    (case (map_of predicted item, map_of gold item) of
       (Some pc, Some gc) \<Rightarrow>
         (let ps = members predicted items pc; gs = members gold items gc;
              overlap = real (length (filter (\<lambda>x. x \<in> set gs) ps))
          in (overlap / real (length ps), overlap / real (length gs)))
     | (None, Some gc) \<Rightarrow> (1, 1 / real (length (members gold items gc)))
     | _ \<Rightarrow> (0, 0))"

definition b_cubed :: "'a clustering \<Rightarrow> 'a clustering \<Rightarrow> precision_recall_f1" where
  "b_cubed predicted gold =
    (let items = map fst gold in
     if items = [] then \<lparr> precision = 1, recall = 1, f1_score = 1 \<rparr>
     else let per_item = map (b_cubed_item predicted gold items) items;
              p = (\<Sum>s\<leftarrow>per_item. fst s) / real (length items);
              r = (\<Sum>s\<leftarrow>per_item. snd s) / real (length items)
          in \<lparr> precision = p, recall = r, f1_score = f1 p r \<rparr>)"

definition false_merge_count :: "'a clustering \<Rightarrow> ('a \<times> 'a) list \<Rightarrow> nat" where
  "false_merge_count predicted forbidden =
    length (filter (\<lambda>(a, b). same_cluster predicted a b) forbidden)"

section \<open>Bounds\<close>

lemma f1_bounds:
  assumes "0 \<le> p" "p \<le> 1" "0 \<le> r" "r \<le> 1"
  shows "0 \<le> f1 p r" "f1 p r \<le> 1"
proof -
  show "0 \<le> f1 p r" using assms by (simp add: f1_def)
  have "p * r \<le> p" "p * r \<le> r" using assms by (simp_all add: mult_left_le mult_left_le_one_le)
  then have "2 * p * r \<le> p + r" by simp
  then show "f1 p r \<le> 1" using assms by (auto simp: f1_def divide_le_eq_1)
qed

lemma ratio_bounds: "0 \<le> (if a + b = 0 then 1 else real a / real (a + b))"
  "(if a + b = 0 then 1 else real a / real (a + b)) \<le> (1 :: real)"
  by (auto simp: divide_le_eq_1)

lemma pairwise_prf_bounds:
  "0 \<le> precision (pairwise_prf c g)" "precision (pairwise_prf c g) \<le> 1"
  "0 \<le> recall (pairwise_prf c g)" "recall (pairwise_prf c g) \<le> 1"
  "0 \<le> f1_score (pairwise_prf c g)" "f1_score (pairwise_prf c g) \<le> 1"
  unfolding pairwise_prf_def Let_def precision_recall_f1.simps
  by (intro ratio_bounds f1_bounds)+

lemma same_cluster_self:
  "a \<in> fst ` set g \<Longrightarrow> b \<in> fst ` set g \<Longrightarrow> same_cluster g a b \<longleftrightarrow> map_of g a = map_of g b"
proof -
  assume "a \<in> fst ` set g" "b \<in> fst ` set g"
  then obtain x y where "map_of g a = Some x" "map_of g b = Some y"
    by (metis map_of_eq_None_iff not_None_eq)
  then show ?thesis by (simp add: same_cluster_def)
qed

lemma set_pairs: "(a, b) \<in> set (pairs xs) \<Longrightarrow> a \<in> set xs \<and> b \<in> set xs"
  by (induction xs) auto

lemma pairwise_perfect:
  "pairwise_prf g g = \<lparr> precision = 1, recall = 1, f1_score = 1 \<rparr>"
proof -
  have same: "same_cluster g a b \<longleftrightarrow> map_of g a = map_of g b" if "(a, b) \<in> set (pairs (map fst g))" for a b
    using set_pairs [OF that] same_cluster_self by (metis list.set_map)
  then have "filter (\<lambda>(a, b). same_cluster g a b \<and> map_of g a \<noteq> map_of g b) (pairs (map fst g)) = []"
    "filter (\<lambda>(a, b). \<not> same_cluster g a b \<and> map_of g a = map_of g b) (pairs (map fst g)) = []"
    by (auto simp: filter_empty_conv)
  then show ?thesis by (simp add: pairwise_prf_def Let_def f1_def case_prod_unfold)
qed

lemma rr_from_values: "rr_from i xs g = 0 \<or> (\<exists>n. i \<le> n \<and> n < i + length xs \<and> rr_from i xs g = 1 / (real n + 1))"
proof (induction xs arbitrary: i)
  case (Cons x xs)
  show ?case
  proof (cases "grade g x > 0")
    case True
    then show ?thesis by (intro disjI2 exI [of _ i]) simp
  next
    case False
    then show ?thesis using Cons.IH [of "Suc i"] by auto
  qed
qed simp

lemma reciprocal_rank_bounds: "0 \<le> reciprocal_rank xs g" "reciprocal_rank xs g \<le> 1"
  using rr_from_values [of 0 xs g] by (auto simp: reciprocal_rank_def)

lemma reciprocal_rank_zero_iff: "reciprocal_rank xs g = 0 \<longleftrightarrow> (\<forall>x\<in>set xs. grade g x = 0)"
proof -
  have "rr_from i xs g = 0 \<longleftrightarrow> (\<forall>x\<in>set xs. grade g x = 0)" for i
    by (induction xs arbitrary: i) (auto simp: add_eq_0_iff)
  then show ?thesis by (simp add: reciprocal_rank_def)
qed

text \<open>Recall is a share of the relevant items only when the output repeats none.\<close>

lemma recall_bounds:
  assumes "distinct (map fst g)" "distinct xs" "recall_at_k xs g k = Some r"
  shows "0 \<le> r" "r \<le> 1"
proof -
  define rel where "rel = map fst (filter (\<lambda>(_, g). g > 0) g)"
  have d: "distinct rel" using assms(1) by (simp add: rel_def distinct_map_filter)
  have r: "r = real (length (filter (\<lambda>i. i \<in> set rel) (take k xs))) / real (length rel)"
    using assms(3) by (auto simp: recall_at_k_def rel_def Let_def split: if_splits)
  have "length (filter (\<lambda>i. i \<in> set rel) (take k xs)) = card (set (filter (\<lambda>i. i \<in> set rel) (take k xs)))"
    using assms(2) by (intro distinct_card [symmetric]) simp
  also have "\<dots> \<le> card (set rel)" by (rule card_mono) auto
  also have "\<dots> = length rel" using d by (simp add: distinct_card)
  finally show "r \<le> 1" "0 \<le> r" unfolding r by (auto simp: divide_le_eq_1)
qed

lemma false_merge_none_iff:
  "false_merge_count p fs = 0 \<longleftrightarrow> (\<forall>(a, b)\<in>set fs. \<not> same_cluster p a b)"
  by (auto simp: false_merge_count_def filter_empty_conv)

end
