(* ===== verification/Redact.thy ===== *)
theory Redact
  imports Text
begin

text \<open>
  \<open>brainiac-core/src/redact.rs\<close>.  The regular expression engine is a parameter: a regex is the
  function that lists its non-overlapping matches in a text, left to right, each with its span and
  the text of its capture groups.  The rules are an argument of \<open>redact\<close>, because their meaning is
  that engine's.  Indexing a group that took no part in the match panics, which is \<open>None\<close>.
\<close>

definition MASK :: string where "MASK = ''[REDACTED]''"

record regex_match =
  rm_start :: nat
  rm_end :: nat
  rm_group :: "nat \<Rightarrow> string option"

type_synonym regex = "string \<Rightarrow> regex_match list"

record rule =
  re :: regex
  group :: "nat option"

definition matched :: "string \<Rightarrow> regex_match \<Rightarrow> string" where
  "matched s m = take (rm_end m - rm_start m) (drop (rm_start m) s)"

text \<open>\<open>replace_all\<close>: copy the gaps, replace each match.\<close>

fun replace_from :: "nat \<Rightarrow> string \<Rightarrow> (regex_match \<times> string) list \<Rightarrow> string" where
  "replace_from pos s [] = drop pos s"
| "replace_from pos s ((m, r) # ms) =
    take (rm_start m - pos) (drop pos s) @ r @ replace_from (rm_end m) s ms"

definition mask_match :: "nat option \<Rightarrow> string \<Rightarrow> regex_match \<Rightarrow> string option" where
  "mask_match g s m =
    (case g of
       None \<Rightarrow> Some MASK
     | Some n \<Rightarrow> (case rm_group m n of
         None \<Rightarrow> None
       | Some secret \<Rightarrow> Some (replace_first (matched s m) secret MASK)))"

definition apply_rule :: "rule \<Rightarrow> string \<Rightarrow> string option" where
  "apply_rule r s =
    (let ms = re r s; rs = map (mask_match (group r) s) ms in
     if None \<in> set rs then None
     else Some (replace_from 0 s (zip ms (map the rs))))"

fun redact :: "rule list \<Rightarrow> string \<Rightarrow> string option" where
  "redact [] s = Some s"
| "redact (r # rs) s = (case apply_rule r s of None \<Rightarrow> None | Some s' \<Rightarrow> redact rs s')"

definition contains_secret :: "rule list \<Rightarrow> string \<Rightarrow> bool" where
  "contains_secret rules s = list_ex (\<lambda>r. re r s \<noteq> []) rules"

lemma apply_rule_no_match: "re r s = [] \<Longrightarrow> apply_rule r s = Some s"
  by (simp add: apply_rule_def)

lemma redact_clean: "\<not> contains_secret rules s \<Longrightarrow> redact rules s = Some s"
  by (induction rules) (auto simp: contains_secret_def apply_rule_no_match)

text \<open>Only the secret is masked when its text does not occur earlier in the match.\<close>

lemma find_sub_first:
  assumes "s = a @ n @ b" "\<forall>a' b'. s = a' @ n @ b' \<longrightarrow> length a \<le> length a'"
  shows "find_sub s n = Some (length a)"
proof -
  obtain i where i: "find_sub s n = Some i"
    using assms(1) find_sub_None_iff [of s n] by (cases "find_sub s n") auto
  have "i \<le> length a'" if "s = a' @ n @ b'" for a' b'
    using i that
  proof (induction s n arbitrary: i a' rule: find_sub.induct)
    case (2 c cs n)
    show ?case
    proof (cases "starts_with (c # cs) n")
      case False
      then obtain j where j: "find_sub cs n = Some j" "i = Suc j" using False 2(2) by auto
      have "a' \<noteq> []" using False 2(3) by (metis append_Nil starts_with_iff)
      then obtain d a'' where "a' = d # a''" "cs = a'' @ n @ b'" using 2(3) by (cases a') auto
      then show ?thesis using 2(1) [OF False j(1)] j(2) by simp
    qed (use 2(2) in auto)
  qed (auto split: if_splits)
  moreover have "length a \<le> i"
    using assms(2) find_sub_SomeD [OF i] by (metis length_take min.absorb2 add_leD1)
  ultimately show ?thesis using i assms(1) by (metis le_antisym)
qed

lemma mask_first_occurrence:
  assumes "w = key @ secret @ rest" "\<forall>a b. w = a @ secret @ b \<longrightarrow> length key \<le> length a"
  shows "replace_first w secret MASK = key @ MASK @ rest"
  using find_sub_first [OF assms] assms(1) by (simp add: replace_first_def)

text \<open>A rule with no group masks every match whole.\<close>

lemma apply_rule_whole:
  "group r = None \<Longrightarrow> apply_rule r s = Some (replace_from 0 s (map (\<lambda>m. (m, MASK)) (re r s)))"
proof -
  assume g: "group r = None"
  have "mask_match None s = (\<lambda>_. Some MASK)"
    by (simp add: mask_match_def fun_eq_iff)
  moreover have "zip ms (map (\<lambda>_. MASK) ms) = map (\<lambda>m. (m, MASK)) ms" for ms :: "regex_match list"
    by (induction ms) auto
  ultimately show ?thesis using g by (auto simp: apply_rule_def Let_def comp_def)
qed

end
