(* ===== verification/Tables.thy ===== *)
theory Tables
  imports Types
begin

text \<open>
  The statements of SQL the store uses, over a table kept as the list of its rows.  \<open>UPDATE\<close> with a
  \<open>WHERE\<close> rewrites the rows that satisfy it and reports how many there were, \<open>DELETE\<close> drops them,
  \<open>INSERT ... ON CONFLICT DO NOTHING\<close> appends a row unless its key is taken, and \<open>ORDER BY\<close> with
  \<open>LIMIT\<close> and \<open>OFFSET\<close> is a sort with \<open>drop\<close> and \<open>take\<close>.
\<close>

definition update_where :: "('r \<Rightarrow> bool) \<Rightarrow> ('r \<Rightarrow> 'r) \<Rightarrow> 'r list \<Rightarrow> 'r list" where
  "update_where p f rows = map (\<lambda>r. if p r then f r else r) rows"

definition rows_affected :: "('r \<Rightarrow> bool) \<Rightarrow> 'r list \<Rightarrow> nat" where
  "rows_affected p rows = length (filter p rows)"

definition delete_where :: "('r \<Rightarrow> bool) \<Rightarrow> 'r list \<Rightarrow> 'r list" where
  "delete_where p rows = filter (\<lambda>r. \<not> p r) rows"

definition insert_or_ignore :: "('r \<Rightarrow> 'k) \<Rightarrow> 'r \<Rightarrow> 'r list \<Rightarrow> 'r list" where
  "insert_or_ignore key r rows = (if key r \<in> set (map key rows) then rows else rows @ [r])"

definition lookup :: "('r \<Rightarrow> 'k) \<Rightarrow> 'k \<Rightarrow> 'r list \<Rightarrow> 'r option" where
  "lookup key k rows = find (\<lambda>r. key r = k) rows"

definition page :: "nat \<Rightarrow> nat \<Rightarrow> 'r list \<Rightarrow> 'r list" where
  "page offset limit rows = take limit (drop offset rows)"

text \<open>\<open>LIMIT $1\<close> bound to \<open>limit.clamp(1, 200)\<close>, \<open>OFFSET $2\<close> bound to \<open>offset.max(0)\<close>.\<close>

definition clamp_limit :: "int \<Rightarrow> int \<Rightarrow> int \<Rightarrow> nat" where
  "clamp_limit lo hi n = nat (max lo (min hi n))"

lemma map_key_update_where [simp]:
  "(\<And>r. key (f r) = key r) \<Longrightarrow> map key (update_where p f rows) = map key rows"
  by (simp add: update_where_def)

lemma length_update_where [simp]: "length (update_where p f rows) = length rows"
  by (simp add: update_where_def)

lemma set_update_where: "set (update_where p f rows) = (\<lambda>r. if p r then f r else r) ` set rows"
  by (simp add: update_where_def)

lemma update_where_none: "\<forall>r\<in>set rows. \<not> p r \<Longrightarrow> update_where p f rows = rows"
  by (simp add: update_where_def map_idI)

lemma set_delete_where [simp]: "set (delete_where p rows) = {r \<in> set rows. \<not> p r}"
  by (simp add: delete_where_def)

lemma distinct_map_delete_where [simp]: "distinct (map key rows) \<Longrightarrow> distinct (map key (delete_where p rows))"
  by (simp add: delete_where_def distinct_map_filter)

lemma rows_affected_zero: "rows_affected p rows = 0 \<longleftrightarrow> (\<forall>r\<in>set rows. \<not> p r)"
  by (auto simp: rows_affected_def filter_empty_conv)

lemma keys_insert_or_ignore [simp]:
  "key ` set (insert_or_ignore key r rows) = insert (key r) (key ` set rows)"
  by (auto simp: insert_or_ignore_def)

lemma distinct_insert_or_ignore [simp]:
  "distinct (map key rows) \<Longrightarrow> distinct (map key (insert_or_ignore key r rows))"
  by (auto simp: insert_or_ignore_def)

lemma set_insert_or_ignore_subset: "set (insert_or_ignore key r rows) \<subseteq> insert r (set rows)"
  by (auto simp: insert_or_ignore_def)

lemma insert_or_ignore_new: "key r \<notin> key ` set rows \<Longrightarrow> insert_or_ignore key r rows = rows @ [r]"
  by (simp add: insert_or_ignore_def)

lemma insert_or_ignore_old: "key r \<in> key ` set rows \<Longrightarrow> insert_or_ignore key r rows = rows"
  by (simp add: insert_or_ignore_def)

lemma fold_insert_or_ignore_keys:
  "key ` set (fold (insert_or_ignore key) rs rows) = key ` set rs \<union> key ` set rows"
  by (induction rs arbitrary: rows) auto

lemma fold_insert_or_ignore_distinct:
  "distinct (map key rows) \<Longrightarrow> distinct (map key (fold (insert_or_ignore key) rs rows))"
  by (induction rs arbitrary: rows) auto

lemma fold_insert_or_ignore_new:
  "distinct (map key rs) \<Longrightarrow> key ` set rs \<inter> key ` set rows = {} \<Longrightarrow>
    fold (insert_or_ignore key) rs rows = rows @ rs"
  by (induction rs arbitrary: rows) (auto simp: insert_or_ignore_new)

lemma filter_id_eq:
  assumes "distinct (map key xs)" "x \<in> set xs"
  shows "filter (\<lambda>y. key y = key x) xs = [x]"
  using assms
proof (induction xs)
  case (Cons a xs)
  then show ?case by (auto simp: filter_empty_conv image_iff)
qed simp

lemma rows_affected_one:
  assumes "distinct (map key rows)" "r \<in> set rows" "P r"
  shows "rows_affected (\<lambda>x. P x \<and> key x = key r) rows = 1"
proof -
  have "filter (\<lambda>x. P x \<and> key x = key r) rows = filter P (filter (\<lambda>x. key x = key r) rows)"
    by (simp add: conj_commute)
  then show ?thesis using filter_id_eq [OF assms(1,2)] assms(3) by (simp add: rows_affected_def)
qed

lemma lookup_Some_iff:
  assumes "distinct (map key rows)"
  shows "lookup key k rows = Some r \<longleftrightarrow> r \<in> set rows \<and> key r = k"
proof
  assume "lookup key k rows = Some r"
  then show "r \<in> set rows \<and> key r = k" by (auto simp: lookup_def find_Some_iff)
next
  assume r: "r \<in> set rows \<and> key r = k"
  then obtain r' where r': "lookup key k rows = Some r'"
    by (cases "lookup key k rows") (auto simp: lookup_def find_None_iff)
  then have "r' \<in> set rows" "key r' = k" by (auto simp: lookup_def find_Some_iff)
  then have "r' = r" using r assms by (auto simp: distinct_map inj_on_def)
  then show "lookup key k rows = Some r" using r' by simp
qed

lemma lookup_SomeD: "lookup key k rows = Some r \<Longrightarrow> r \<in> set rows \<and> key r = k"
  by (auto simp: lookup_def find_Some_iff)

lemma lookup_None_iff: "lookup key k rows = None \<longleftrightarrow> k \<notin> key ` set rows"
  by (auto simp: lookup_def find_None_iff)

lemma lookup_update_where:
  assumes "\<And>r. key (f r) = key r"
  shows "lookup key k (update_where p f rows) = map_option (\<lambda>r. if p r then f r else r) (lookup key k rows)"
  using assms by (induction rows) (auto simp: lookup_def update_where_def)

lemma lookup_snoc:
  "lookup key k (rows @ [r]) = (case lookup key k rows of Some x \<Rightarrow> Some x | None \<Rightarrow> if key r = k then Some r else None)"
  by (induction rows) (auto simp: lookup_def)

lemma length_page: "length (page offset limit rows) \<le> limit"
  by (simp add: page_def)

lemma set_page_subset: "set (page offset limit rows) \<subseteq> set rows"
  unfolding page_def by (meson order_trans set_drop_subset set_take_subset)

text \<open>Consecutive pages partition the listing.\<close>

lemma page_append: "page o1 l1 rows @ page (o1 + l1) l2 rows = page o1 (l1 + l2) rows"
  by (simp add: page_def take_add drop_drop add.commute)

lemma clamp_limit_bounds: "0 \<le> lo \<Longrightarrow> lo \<le> hi \<Longrightarrow> nat lo \<le> clamp_limit lo hi n \<and> clamp_limit lo hi n \<le> nat hi"
  by (auto simp: clamp_limit_def)

end
