(* ===== verification/Queue.thy ===== *)
theory Queue
  imports Tables
begin

text \<open>
  \<open>brainiac-store/src/queue.rs\<close>: the job queue over the tables \<open>queue.jobs\<close> and \<open>queue.archive\<close>.
  Every operation takes the transaction's \<open>now\<close>.  \<open>read\<close> also takes the ids whose row lock another
  worker holds, because \<open>FOR UPDATE SKIP LOCKED\<close> passes over exactly those.  The rows returned by a
  claim come in table order (SQL leaves the order of \<open>RETURNING\<close> open).
\<close>

section \<open>The tables\<close>

text \<open>The two JSON fields of a payload that the queue reads, and the rest of the text.\<close>

record job_payload =
  jp_org_id :: "uuid option"
  jp_source_id :: "uuid option"
  jp_body :: string

record job =
  j_id :: nat
  j_queue_name :: string
  j_payload :: job_payload
  j_attempts :: int
  j_visible_at :: instant
  j_enqueued_at :: instant

record archived_job =
  a_id :: nat
  a_queue_name :: string
  a_payload :: job_payload
  a_attempts :: int
  a_enqueued_at :: instant
  a_archived_at :: instant
  a_outcome :: string

text \<open>\<open>next_id\<close> is the \<open>bigserial\<close> sequence, which never re-issues a value.\<close>

record queue_db =
  jobs :: "job list"
  archive :: "archived_job list"
  next_id :: nat

definition empty_queue :: queue_db where
  "empty_queue = \<lparr> jobs = [], archive = [], next_id = 1 \<rparr>"

definition MAX_ATTEMPTS :: int where "MAX_ATTEMPTS = 5"
definition BACKOFF_CAP_SECS :: int where "BACKOFF_CAP_SECS = 600"

section \<open>The operations\<close>

text \<open>\<open>saturating_mul\<close> on \<open>i64\<close>; the operands are not negative.\<close>

definition backoff_secs :: "int \<Rightarrow> int \<Rightarrow> int" where
  "backoff_secs base attempts =
    (if base \<le> 0 then 0
     else let shift = nat (min (max attempts 1 - 1) 16) in
       min (min (base * 2 ^ shift) (2 ^ 63 - 1)) BACKOFF_CAP_SECS)"

definition send :: "instant \<Rightarrow> string \<Rightarrow> job_payload \<Rightarrow> queue_db \<Rightarrow> nat \<times> queue_db" where
  "send now queue payload db =
    (next_id db,
     db\<lparr> jobs := jobs db @ [\<lparr> j_id = next_id db, j_queue_name = queue, j_payload = payload,
            j_attempts = 0, j_visible_at = now, j_enqueued_at = now \<rparr>],
         next_id := next_id db + 1 \<rparr>)"

definition ready :: "instant \<Rightarrow> string \<Rightarrow> job \<Rightarrow> bool" where
  "ready now queue j = (j_queue_name j = queue \<and> j_visible_at j \<le> now)"

definition exhausted :: "instant \<Rightarrow> string \<Rightarrow> job \<Rightarrow> bool" where
  "exhausted now queue j = (ready now queue j \<and> j_attempts j \<ge> MAX_ATTEMPTS)"

definition claimable :: "instant \<Rightarrow> string \<Rightarrow> job \<Rightarrow> bool" where
  "claimable now queue j = (ready now queue j \<and> j_attempts j < MAX_ATTEMPTS)"

definition archived :: "instant \<Rightarrow> string \<Rightarrow> job \<Rightarrow> archived_job" where
  "archived now outcome j =
    \<lparr> a_id = j_id j, a_queue_name = j_queue_name j, a_payload = j_payload j,
      a_attempts = j_attempts j, a_enqueued_at = j_enqueued_at j, a_archived_at = now,
      a_outcome = outcome \<rparr>"

definition reap :: "instant \<Rightarrow> string \<Rightarrow> queue_db \<Rightarrow> queue_db" where
  "reap now queue db =
    db\<lparr> jobs := delete_where (exhausted now queue) (jobs db),
        archive := fold (insert_or_ignore a_id)
          (map (archived now ''dead'') (filter (exhausted now queue) (jobs db))) (archive db) \<rparr>"

text \<open>\<open>ROW_NUMBER() OVER (PARTITION BY payload->>'org_id' ORDER BY id)\<close> within the candidates.\<close>

definition org_rank :: "job list \<Rightarrow> job \<Rightarrow> nat" where
  "org_rank cands j =
    length (filter (\<lambda>i. jp_org_id (j_payload i) = jp_org_id (j_payload j) \<and> j_id i \<le> j_id j) cands)"

definition fair_le :: "job list \<Rightarrow> job \<Rightarrow> job \<Rightarrow> bool" where
  "fair_le cands i j =
    (org_rank cands i < org_rank cands j \<or> (org_rank cands i = org_rank cands j \<and> j_id i \<le> j_id j))"

definition fair_top :: "instant \<Rightarrow> string \<Rightarrow> nat \<Rightarrow> job list \<Rightarrow> nat list" where
  "fair_top now queue n js =
    (let cands = filter (claimable now queue) js in
     map j_id (take n (sort_by (fair_le cands) cands)))"

definition claimed_ids :: "instant \<Rightarrow> string \<Rightarrow> nat \<Rightarrow> nat list \<Rightarrow> job list \<Rightarrow> nat list" where
  "claimed_ids now queue n locked js =
    map j_id (filter (\<lambda>j. claimable now queue j \<and> j_id j \<in> set (fair_top now queue n js)
                 \<and> j_id j \<notin> set locked) js)"

definition claim :: "instant \<Rightarrow> int \<Rightarrow> job \<Rightarrow> job" where
  "claim now visibility_secs j =
    j\<lparr> j_visible_at := now + visibility_secs, j_attempts := j_attempts j + 1 \<rparr>"

definition read ::
  "instant \<Rightarrow> string \<Rightarrow> nat \<Rightarrow> int \<Rightarrow> nat list \<Rightarrow> queue_db \<Rightarrow> job list \<times> queue_db" where
  "read now queue n visibility_secs locked db =
    (let db1 = reap now queue db;
         ids = claimed_ids now queue n locked (jobs db1);
         js = update_where (\<lambda>j. j_id j \<in> set ids) (claim now visibility_secs) (jobs db1)
     in (filter (\<lambda>j. j_id j \<in> set ids) js, db1\<lparr> jobs := js \<rparr>))"

definition archive_job :: "instant \<Rightarrow> job \<Rightarrow> string \<Rightarrow> queue_db \<Rightarrow> queue_db" where
  "archive_job now job outcome db =
    db\<lparr> archive := fold (insert_or_ignore a_id)
           (map (archived now outcome) (filter (\<lambda>j. j_id j = j_id job) (jobs db))) (archive db),
        jobs := delete_where (\<lambda>j. j_id j = j_id job) (jobs db) \<rparr>"

definition complete :: "instant \<Rightarrow> job \<Rightarrow> queue_db \<Rightarrow> queue_db" where
  "complete now job db = archive_job now job ''ok'' db"

definition fail :: "instant \<Rightarrow> job \<Rightarrow> int \<Rightarrow> queue_db \<Rightarrow> bool \<times> queue_db" where
  "fail now job base_backoff_secs db =
    (if j_attempts job \<ge> MAX_ATTEMPTS then (False, archive_job now job ''failed'' db)
     else let delay = backoff_secs base_backoff_secs (j_attempts job) in
       (True, db\<lparr> jobs := update_where (\<lambda>j. j_id j = j_id job)
                    (\<lambda>j. j\<lparr> j_visible_at := now + delay \<rparr>) (jobs db) \<rparr>))"

definition depth :: "string \<Rightarrow> queue_db \<Rightarrow> nat" where
  "depth queue db = length (filter (\<lambda>j. j_queue_name j = queue) (jobs db))"

definition is_dead_letter :: "archived_job \<Rightarrow> bool" where
  "is_dead_letter a = (a_outcome a = ''failed'' \<or> a_outcome a = ''dead'')"

definition dead_letters :: "string \<Rightarrow> int \<Rightarrow> int \<Rightarrow> queue_db \<Rightarrow> archived_job list" where
  "dead_letters queue limit offset db =
    page (nat (max offset 0)) (clamp_limit 1 200 limit)
      (sort_by (\<lambda>a b. a_archived_at b \<le> a_archived_at a)
        (filter (\<lambda>a. a_queue_name a = queue \<and> is_dead_letter a) (archive db)))"

definition dead_letters_count :: "string \<Rightarrow> queue_db \<Rightarrow> nat" where
  "dead_letters_count queue db =
    length (filter (\<lambda>a. a_queue_name a = queue \<and> is_dead_letter a) (archive db))"

definition job_id_for_source :: "uuid \<Rightarrow> queue_db \<Rightarrow> nat option" where
  "job_id_for_source source_id db =
    (case map j_id (filter (\<lambda>j. jp_source_id (j_payload j) = Some source_id) (jobs db))
        @ map a_id (filter (\<lambda>a. jp_source_id (a_payload a) = Some source_id) (archive db)) of
       [] \<Rightarrow> None
     | i # is \<Rightarrow> Some (fold min is i))"

definition requeue_dead :: "instant \<Rightarrow> nat \<Rightarrow> queue_db \<Rightarrow> bool \<times> queue_db" where
  "requeue_dead now k db =
    (let rows = map (\<lambda>a. \<lparr> j_id = a_id a, j_queue_name = a_queue_name a, j_payload = a_payload a,
                          j_attempts = 0, j_visible_at = now, j_enqueued_at = now \<rparr>)
                  (filter (\<lambda>a. a_id a = k \<and> is_dead_letter a) (archive db));
         fresh = filter (\<lambda>r. j_id r \<notin> j_id ` set (jobs db)) rows
     in if length fresh = 0 then (False, db)
        else (True, db\<lparr> jobs := fold (insert_or_ignore j_id) rows (jobs db),
                        archive := delete_where (\<lambda>a. a_id a = k) (archive db) \<rparr>))"

record queue_health =
  qh_ready :: nat
  qh_in_flight :: nat
  qh_oldest_ready_secs :: int
  qh_attempts_histogram :: "(int \<times> nat) list"
  qh_archived_ok :: nat
  qh_archived_failed :: nat
  qh_dead_letters :: nat

definition attempts_histogram :: "job list \<Rightarrow> (int \<times> nat) list" where
  "attempts_histogram js =
    map (\<lambda>a. (a, length (filter (\<lambda>j. j_attempts j = a) js)))
      (sort_by (\<le>) (remdups (map j_attempts js)))"

definition outcome_count :: "string \<Rightarrow> string \<Rightarrow> queue_db \<Rightarrow> nat" where
  "outcome_count queue outcome db =
    length (filter (\<lambda>a. a_queue_name a = queue \<and> a_outcome a = outcome) (archive db))"

definition health :: "instant \<Rightarrow> string \<Rightarrow> queue_db \<Rightarrow> queue_health" where
  "health now queue db =
    (let live = filter (\<lambda>j. j_queue_name j = queue) (jobs db);
         rdy = filter (\<lambda>j. j_visible_at j \<le> now) live
     in \<lparr> qh_ready = length rdy,
          qh_in_flight = length (filter (\<lambda>j. j_visible_at j > now) live),
          qh_oldest_ready_secs =
            (case map j_enqueued_at rdy of [] \<Rightarrow> 0 | t # ts \<Rightarrow> now - fold min ts t),
          qh_attempts_histogram = attempts_histogram live,
          qh_archived_ok = outcome_count queue ''ok'' db,
          qh_archived_failed = outcome_count queue ''failed'' db,
          qh_dead_letters = outcome_count queue ''dead'' db \<rparr>)"

section \<open>Backoff\<close>

lemma backoff_bounds: "0 \<le> backoff_secs b a" "backoff_secs b a \<le> 600"
proof -
  have "0 \<le> min (min (x :: int) (2 ^ 63 - 1)) 600" "min (min x (2 ^ 63 - 1)) 600 \<le> 600" if "0 \<le> x" for x
    using that by simp_all
  then show "0 \<le> backoff_secs b a" "backoff_secs b a \<le> 600"
    unfolding backoff_secs_def Let_def BACKOFF_CAP_SECS_def by simp_all
qed

lemma backoff_first: "0 < b \<Longrightarrow> b \<le> 600 \<Longrightarrow> backoff_secs b 1 = b"
  by (simp add: backoff_secs_def BACKOFF_CAP_SECS_def)

lemma backoff_doubles:
  assumes "0 < b" "1 \<le> a" "a \<le> 16"
  shows "backoff_secs b (a + 1) = min (2 * backoff_secs b a) 600"
proof -
  have "nat a = Suc (nat (a - 1))" using assms(2) by simp
  then have "(2 :: int) ^ nat a = 2 * 2 ^ nat (a - 1)" by simp
  then show ?thesis using assms by (simp add: backoff_secs_def Let_def BACKOFF_CAP_SECS_def min_def max_def)
qed

lemma backoff_mono:
  assumes "a \<le> a'"
  shows "backoff_secs b a \<le> backoff_secs b a'"
proof (cases "b \<le> 0")
  case False
  define m n where "m = nat (min (max a 1 - 1) 16)" and "n = nat (min (max a' 1 - 1) 16)"
  have "m \<le> n" using assms by (auto simp: m_def n_def)
  then have "b * 2 ^ m \<le> b * 2 ^ n" using False by (intro mult_left_mono power_increasing) auto
  then have "min (min (b * 2 ^ m) (2 ^ 63 - 1)) 600 \<le> min (min (b * 2 ^ n) (2 ^ 63 - 1)) (600 :: int)"
    by (intro min.mono) auto
  then show ?thesis using False unfolding backoff_secs_def Let_def BACKOFF_CAP_SECS_def m_def n_def by (simp only: if_False)
qed (simp add: backoff_secs_def)

section \<open>The invariant of the two tables\<close>

definition live_ids :: "queue_db \<Rightarrow> nat set" where
  "live_ids db = j_id ` set (jobs db)"

definition done_ids :: "queue_db \<Rightarrow> nat set" where
  "done_ids db = a_id ` set (archive db)"

text \<open>Every id issued so far is in exactly one of the tables, once, and budgets are respected.\<close>

definition queue_inv :: "queue_db \<Rightarrow> bool" where
  "queue_inv db \<longleftrightarrow>
     1 \<le> next_id db \<and> distinct (map j_id (jobs db)) \<and> distinct (map a_id (archive db)) \<and>
     live_ids db \<inter> done_ids db = {} \<and>
     live_ids db \<union> done_ids db = {i. 1 \<le> i \<and> i < next_id db} \<and>
     (\<forall>j\<in>set (jobs db). 0 \<le> j_attempts j \<and> j_attempts j \<le> MAX_ATTEMPTS)"

lemma archived_sel [simp]: "a_id (archived now out j) = j_id j" "a_outcome (archived now out j) = out"
  by (simp_all add: archived_def)

text \<open>Moving the rows that satisfy a predicate from the live table to the archive.\<close>

lemma move_to_archive:
  assumes "queue_inv db"
    and db': "db' = db\<lparr> jobs := delete_where p (jobs db),
        archive := fold (insert_or_ignore a_id) (map (archived now out) (filter p (jobs db))) (archive db) \<rparr>"
  shows "queue_inv db'"
    and "archive db' = archive db @ map (archived now out) (filter p (jobs db))"
proof -
  have disj: "live_ids db \<inter> done_ids db = {}" and dist: "distinct (map j_id (jobs db))"
    using assms(1) by (auto simp: queue_inv_def)
  have ids: "map a_id (map (archived now out) (filter p (jobs db))) = map j_id (filter p (jobs db))"
    by simp
  show arch: "archive db' = archive db @ map (archived now out) (filter p (jobs db))"
    unfolding db' using disj dist
    by (simp, intro fold_insert_or_ignore_new)
      (auto simp: ids comp_def distinct_map_filter live_ids_def done_ids_def)
  have live: "live_ids db' = j_id ` {j \<in> set (jobs db). \<not> p j}"
    by (simp add: db' live_ids_def)
  have gone: "done_ids db' = done_ids db \<union> j_id ` {j \<in> set (jobs db). p j}"
    unfolding done_ids_def arch by (simp add: image_Un image_image)
  have "inj_on j_id (set (jobs db))" using dist by (simp add: distinct_map)
  then have "live_ids db' \<inter> done_ids db' = {}"
    unfolding live gone using disj by (auto simp: live_ids_def inj_on_def)
  moreover have "live_ids db' \<union> done_ids db' = live_ids db \<union> done_ids db"
    unfolding live gone by (auto simp: live_ids_def)
  moreover have "distinct (map a_id (archive db'))"
    using assms(1) by (simp add: db' queue_inv_def fold_insert_or_ignore_distinct)
  ultimately show "queue_inv db'"
    using assms(1) by (simp add: queue_inv_def db')
qed

lemma queue_inv_update_jobs:
  assumes "queue_inv db" "\<And>j. j_id (f j) = j_id j"
    and "\<And>j. j \<in> set (jobs db) \<Longrightarrow> p j \<Longrightarrow> 0 \<le> j_attempts (f j) \<and> j_attempts (f j) \<le> MAX_ATTEMPTS"
  shows "queue_inv (db\<lparr> jobs := update_where p f (jobs db) \<rparr>)"
proof -
  have "j_id ` set (update_where p f (jobs db)) = j_id ` set (jobs db)"
    using map_key_update_where [of j_id f p "jobs db"] assms(2) by (metis list.set_map)
  then show ?thesis
    using assms by (auto simp: queue_inv_def live_ids_def done_ids_def set_update_where)
qed

lemma empty_queue_inv [simp]: "queue_inv empty_queue"
  by (auto simp: queue_inv_def empty_queue_def live_ids_def done_ids_def)

lemma send_inv [keeps]:
  assumes "queue_inv db"
  shows "queue_inv (snd (send now q p db))"
proof -
  have new: "next_id db \<notin> live_ids db \<union> done_ids db" using assms by (simp add: queue_inv_def)
  obtain j where db': "snd (send now q p db) = db\<lparr> jobs := jobs db @ [j], next_id := next_id db + 1 \<rparr>"
      and j: "j_id j = next_id db" "j_attempts j = 0"
    by (simp add: send_def)
  have "live_ids (snd (send now q p db)) = insert (next_id db) (live_ids db)"
    "done_ids (snd (send now q p db)) = done_ids db"
    by (simp_all add: db' j live_ids_def done_ids_def)
  moreover have "{i. 1 \<le> i \<and> i < next_id db + 1} = insert (next_id db) {i. 1 \<le> i \<and> i < next_id db}"
    using assms by (auto simp: queue_inv_def)
  moreover have "next_id db \<notin> j_id ` set (jobs db)" "next_id db \<notin> done_ids db"
    using new by (simp_all add: live_ids_def)
  ultimately show ?thesis
    using assms new unfolding queue_inv_def db' by (simp add: j MAX_ATTEMPTS_def)
qed

lemma reap_inv [keeps]: "queue_inv db \<Longrightarrow> queue_inv (reap now q db)"
  by (rule move_to_archive(1)) (simp_all add: reap_def)

lemma archive_job_eq:
  "archive_job now job out db =
    db\<lparr> jobs := delete_where (\<lambda>j. j_id j = j_id job) (jobs db),
        archive := fold (insert_or_ignore a_id)
          (map (archived now out) (filter (\<lambda>j. j_id j = j_id job) (jobs db))) (archive db) \<rparr>"
  by (cases db) (simp add: archive_job_def)

lemma archive_job_inv [keeps]: "queue_inv db \<Longrightarrow> queue_inv (archive_job now job out db)"
  by (rule move_to_archive(1) [OF _ archive_job_eq])

lemma complete_inv [keeps]: "queue_inv db \<Longrightarrow> queue_inv (complete now job db)"
  by (simp add: complete_def archive_job_inv)

lemma fail_inv [keeps]: "queue_inv db \<Longrightarrow> queue_inv (snd (fail now job b db))"
proof -
  assume inv: "queue_inv db"
  then have "0 \<le> j_attempts j \<and> j_attempts j \<le> MAX_ATTEMPTS" if "j \<in> set (jobs db)" for j
    using that by (simp add: queue_inv_def)
  then show ?thesis
    using inv by (simp add: fail_def Let_def archive_job_inv queue_inv_update_jobs)
qed

lemma reap_next_id [simp]: "next_id (reap now q db) = next_id db"
  by (simp add: reap_def)

lemma read_inv [keeps]:
  assumes "queue_inv db"
  shows "queue_inv (snd (read now q n v locked db))"
proof -
  let ?db = "reap now q db"
  have "queue_inv (?db\<lparr> jobs := update_where (\<lambda>j. j_id j \<in> set (claimed_ids now q n locked (jobs ?db)))
      (claim now v) (jobs ?db) \<rparr>)"
  proof (rule queue_inv_update_jobs)
    show inv: "queue_inv ?db" using assms by (rule reap_inv)
    fix j assume j: "j \<in> set (jobs ?db)" "j_id j \<in> set (claimed_ids now q n locked (jobs ?db))"
    have "distinct (map j_id (jobs ?db))" using inv by (simp add: queue_inv_def)
    then have "claimable now q j" using j
      by (auto simp: claimed_ids_def distinct_map inj_on_def)
    then show "0 \<le> j_attempts (claim now v j) \<and> j_attempts (claim now v j) \<le> MAX_ATTEMPTS"
      using inv j(1) by (auto simp: claim_def claimable_def queue_inv_def)
  qed (simp add: claim_def)
  then show ?thesis by (simp add: read_def Let_def)
qed

lemma requeue_dead_inv [keeps]:
  assumes "queue_inv db"
  shows "queue_inv (snd (requeue_dead now k db))"
proof -
  define rows where "rows = map (\<lambda>a. \<lparr> j_id = a_id a, j_queue_name = a_queue_name a, j_payload = a_payload a,
      j_attempts = 0, j_visible_at = now, j_enqueued_at = now \<rparr>) (filter (\<lambda>a. a_id a = k \<and> is_dead_letter a) (archive db))"
  show ?thesis
  proof (cases "filter (\<lambda>r. j_id r \<notin> j_id ` set (jobs db)) rows = []")
    case True
    then show ?thesis using assms by (simp add: requeue_dead_def Let_def rows_def)
  next
    case False
    then have k: "k \<in> done_ids db" "\<forall>r\<in>set rows. j_id r = k \<and> j_attempts r = 0" "rows \<noteq> []"
      by (auto simp: rows_def done_ids_def filter_empty_conv)
    then have ids: "j_id ` set rows = {k}"
      by (metis (no_types, lifting) image_cong image_constant_conv set_empty)
    have nk: "k \<notin> live_ids db" using assms k(1) by (auto simp: queue_inv_def)
    have "map j_id rows = map (\<lambda>_. k) rows" using k(2) by simp
    have dist: "distinct (map a_id (filter (\<lambda>a. a_id a = k \<and> is_dead_letter a) (archive db)))"
      using assms by (simp add: queue_inv_def distinct_map_filter)
    then have "distinct (map j_id rows)" by (simp add: rows_def comp_def)
    then have jobs': "fold (insert_or_ignore j_id) rows (jobs db) = jobs db @ rows"
      using ids nk by (intro fold_insert_or_ignore_new) (auto simp: live_ids_def)
    define db' where "db' = db\<lparr> jobs := jobs db @ rows, archive := delete_where (\<lambda>a. a_id a = k) (archive db) \<rparr>"
    have eq: "snd (requeue_dead now k db) = db'"
      using False jobs' by (simp add: requeue_dead_def Let_def rows_def db'_def)
    have live: "live_ids db' = insert k (live_ids db)" and gone: "done_ids db' = done_ids db - {k}"
      using ids by (auto simp: db'_def live_ids_def done_ids_def)
    have "distinct (map j_id (jobs db'))"
      using assms \<open>distinct (map j_id rows)\<close> ids nk by (auto simp: db'_def queue_inv_def live_ids_def)
    then have "queue_inv db'"
      using assms k live gone nk
      by (auto simp: queue_inv_def db'_def MAX_ATTEMPTS_def)
    then show ?thesis using eq by simp
  qed
qed

section \<open>What a claim delivers\<close>

interpretation fair: comparator "fair_le cands" UNIV for cands
  by unfold_locales (auto simp: fair_le_def)

lemma set_fair_top: "set (fair_top now q n js) \<subseteq> j_id ` {j \<in> set js. claimable now q j}"
  using set_take_subset by (fastforce simp: fair_top_def Let_def)

lemma claimed_ids_subset: "set (claimed_ids now q n locked js) \<subseteq> set (fair_top now q n js) - set locked"
  by (auto simp: claimed_ids_def)

text \<open>
  The fair order: whatever is claimed is not behind a claimable, unlocked job that was left out.
\<close>

lemma claim_is_fair:
  assumes dist: "distinct (map j_id js)"
    and c: "c \<in> set js" "j_id c \<in> set (claimed_ids now q n locked js)"
    and u: "u \<in> set js" "claimable now q u" "j_id u \<notin> set locked"
      "j_id u \<notin> set (claimed_ids now q n locked js)"
  shows "fair_le (filter (claimable now q) js) c u"
proof -
  let ?cands = "filter (claimable now q) js"
  let ?top = "take n (sort_by (fair_le ?cands) ?cands)"
  have top: "set (fair_top now q n js) = j_id ` set ?top" by (simp add: fair_top_def Let_def)
  have sub: "set ?top \<subseteq> set ?cands" using set_take_subset by fastforce
  have inj: "\<And>a b. a \<in> set js \<Longrightarrow> b \<in> set js \<Longrightarrow> j_id a = j_id b \<Longrightarrow> a = b"
    using dist by (auto simp: distinct_map inj_on_def)
  obtain c' where "c' \<in> set ?top" "j_id c' = j_id c"
    using c(2) claimed_ids_subset top by fastforce
  moreover then have "c' = c" using inj [of c' c] c(1) sub by (auto dest: subsetD)
  ultimately have "c \<in> set ?top" by blast
  moreover have "u \<notin> set ?top" using u top by (auto simp: claimed_ids_def)
  ultimately show ?thesis using fair.take_best [of ?cands c n ?cands u] u(1,2) by simp
qed

lemma org_rank_less:
  assumes "i \<in> set cands" "j \<in> set cands" "jp_org_id (j_payload i) = jp_org_id (j_payload j)" "j_id i < j_id j"
  shows "org_rank cands i < org_rank cands j"
proof -
  let ?o = "\<lambda>k. jp_org_id (j_payload k) = jp_org_id (j_payload j)"
  have "filter (\<lambda>k. ?o k \<and> j_id k \<le> j_id i) cands = filter (\<lambda>k. j_id k \<le> j_id i) (filter (\<lambda>k. ?o k \<and> j_id k \<le> j_id j) cands)"
    using assms(4) by (auto intro: filter_cong)
  moreover have "length (filter (\<lambda>k. j_id k \<le> j_id i) (filter (\<lambda>k. ?o k \<and> j_id k \<le> j_id j) cands))
      < length (filter (\<lambda>k. ?o k \<and> j_id k \<le> j_id j) cands)"
    by (rule length_filter_less [of j]) (use assms in auto)
  ultimately show ?thesis using assms(3) by (simp add: org_rank_def)
qed

lemma org_rank_head:
  assumes "j \<in> set cands" "distinct (map j_id cands)"
    "\<forall>k\<in>set cands. jp_org_id (j_payload k) = jp_org_id (j_payload j) \<longrightarrow> j_id j \<le> j_id k"
  shows "org_rank cands j = 1"
proof -
  have "filter (\<lambda>i. jp_org_id (j_payload i) = jp_org_id (j_payload j) \<and> j_id i \<le> j_id j) cands
      = filter (\<lambda>i. i = j) cands"
    using assms by (intro filter_cong) (auto simp: distinct_map inj_on_def)
  also have "length \<dots> = 1"
    using assms(1,2) by (simp add: distinct_length_filter distinct_map Int_insert_left)
  finally show ?thesis by (simp add: org_rank_def)
qed

lemma claim_fifo:
  assumes dist: "distinct (map j_id js)"
    and c: "c \<in> set js" "j_id c \<in> set (claimed_ids now q n locked js)"
    and u: "u \<in> set js" "claimable now q u" "j_id u \<notin> set locked"
    and older: "jp_org_id (j_payload u) = jp_org_id (j_payload c)" "j_id u < j_id c"
  shows "j_id u \<in> set (claimed_ids now q n locked js)"
proof (rule ccontr)
  assume "j_id u \<notin> set (claimed_ids now q n locked js)"
  then have le: "fair_le (filter (claimable now q) js) c u" using claim_is_fair assms by blast
  have "claimable now q c"
    using c dist by (auto simp: claimed_ids_def distinct_map inj_on_def)
  then have "org_rank (filter (claimable now q) js) u < org_rank (filter (claimable now q) js) c"
    using org_rank_less [of u _ c] u c(1) older by simp
  then show False using le by (simp add: fair_le_def)
qed

lemma claimed_count:
  "distinct (map j_id js) \<Longrightarrow> length (claimed_ids now q n locked js) \<le> n"
proof -
  assume dist: "distinct (map j_id js)"
  have "distinct (claimed_ids now q n locked js)"
    using dist by (simp add: claimed_ids_def distinct_map_filter)
  then have "length (claimed_ids now q n locked js) = card (set (claimed_ids now q n locked js))"
    by (simp add: distinct_card)
  also have "\<dots> \<le> card (set (fair_top now q n js))"
    using claimed_ids_subset by (intro card_mono) fastforce+
  also have "\<dots> \<le> length (fair_top now q n js)" by (rule card_length)
  also have "\<dots> \<le> n" by (simp add: fair_top_def Let_def)
  finally show ?thesis .
qed

lemma read_jobs:
  assumes "read now q n v locked db = (got, db')"
  shows "got = filter (\<lambda>j. j_id j \<in> set (claimed_ids now q n locked (jobs (reap now q db)))) (jobs db')"
    and "jobs db' = update_where (\<lambda>j. j_id j \<in> set (claimed_ids now q n locked (jobs (reap now q db))))
           (claim now v) (jobs (reap now q db))"
    and "archive db' = archive (reap now q db)" and "next_id db' = next_id db"
  using assms by (auto simp: read_def Let_def)

lemma read_got:
  assumes inv: "queue_inv db" and read: "read now q n v locked db = (got, db')"
  shows "length got \<le> n"
    and "\<forall>j\<in>set got. j_queue_name j = q \<and> 1 \<le> j_attempts j \<and> j_attempts j \<le> MAX_ATTEMPTS
           \<and> j_visible_at j = now + v \<and> j_id j \<notin> set locked"
    and "distinct (map j_id got)"
proof -
  let ?js = "jobs (reap now q db)"
  let ?ids = "claimed_ids now q n locked ?js"
  have inv1: "queue_inv (reap now q db)" using inv by (rule reap_inv)
  then have dist: "distinct (map j_id ?js)" by (simp add: queue_inv_def)
  have keys: "map j_id (jobs db') = map j_id ?js"
    unfolding read_jobs(2) [OF read] by (rule map_key_update_where) (simp add: claim_def)
  then have d': "distinct (map j_id (jobs db'))" using dist by simp
  then show dg: "distinct (map j_id got)" by (simp add: read_jobs(1) [OF read] distinct_map_filter)
  have "set (map j_id got) \<subseteq> set ?ids" by (auto simp: read_jobs(1) [OF read])
  moreover have "length got = card (set (map j_id got))"
    using dg distinct_card [of "map j_id got"] by simp
  ultimately have "length got \<le> card (set ?ids)" by (metis List.finite_set card_mono)
  also have "\<dots> \<le> length ?ids" by (rule card_length)
  also have "\<dots> \<le> n" by (rule claimed_count [OF dist])
  finally show "length got \<le> n" .
  show "\<forall>j\<in>set got. j_queue_name j = q \<and> 1 \<le> j_attempts j \<and> j_attempts j \<le> MAX_ATTEMPTS
      \<and> j_visible_at j = now + v \<and> j_id j \<notin> set locked"
  proof
    fix j assume "j \<in> set got"
    then obtain i where i: "i \<in> set ?js" "j_id i \<in> set ?ids" "j = claim now v i"
      by (auto simp: read_jobs(1,2) [OF read] set_update_where claim_def split: if_splits)
    then have "claimable now q i" "j_id i \<notin> set locked"
      using dist by (auto simp: claimed_ids_def distinct_map inj_on_def)
    moreover have "0 \<le> j_attempts i" using inv1 i(1) by (simp add: queue_inv_def)
    ultimately show "j_queue_name j = q \<and> 1 \<le> j_attempts j \<and> j_attempts j \<le> MAX_ATTEMPTS
        \<and> j_visible_at j = now + v \<and> j_id j \<notin> set locked"
      using i(3) by (simp add: claim_def claimable_def ready_def)
  qed
qed

text \<open>A claimed job stays invisible to every claim before its window closes.\<close>

lemma not_ready_not_claimed:
  assumes "distinct (map j_id js)" "j \<in> set js" "now < j_visible_at j"
  shows "j_id j \<notin> set (claimed_ids now q n locked js)"
  using assms by (auto simp: claimed_ids_def claimable_def ready_def distinct_map inj_on_def)

lemma no_double_claim:
  assumes inv: "queue_inv db" and r1: "read now q n v locked db = (got, db')"
    and r2: "read later q' n' v' locked' db' = (got', db'')" and win: "later < now + v"
  shows "j_id ` set got \<inter> j_id ` set got' = {}"
proof -
  have inv': "queue_inv db'" using read_inv [OF inv, of now q n v locked] r1 by simp
  have d: "distinct (map j_id (jobs (reap later q' db')))"
    using reap_inv [OF inv'] by (simp add: queue_inv_def)
  have "j_id j \<notin> set (claimed_ids later q' n' locked' (jobs (reap later q' db')))" if j: "j \<in> set got" for j
  proof -
    have vis: "later < j_visible_at j" using read_got(2) [OF inv r1] j win by auto
    have "j \<in> set (jobs db')" using j by (simp add: read_jobs(1) [OF r1])
    then have "j \<in> set (jobs (reap later q' db'))"
      using vis by (simp add: reap_def exhausted_def ready_def)
    then show ?thesis using not_ready_not_claimed [OF d] vis by blast
  qed
  then show ?thesis unfolding read_jobs(1) [OF r2] by (fastforce simp: image_iff)
qed

text \<open>A job that spent its budget without an acknowledgement is archived as \<open>dead\<close> by the next claim.\<close>

lemma read_reaps:
  assumes inv: "queue_inv db" and j: "j \<in> set (jobs db)" "exhausted now q j"
    and read: "read now q n v locked db = (got, db')"
  shows "archived now ''dead'' j \<in> set (archive db')" "j_id j \<notin> live_ids db'"
proof -
  have arch: "archive (reap now q db) = archive db @ map (archived now ''dead'') (filter (exhausted now q) (jobs db))"
    by (rule move_to_archive(2) [OF inv]) (simp add: reap_def)
  then show "archived now ''dead'' j \<in> set (archive db')" using j by (simp add: read_jobs(3) [OF read])
  then have "j_id j \<in> done_ids db'" by (force simp: done_ids_def)
  moreover have "queue_inv db'" using read_inv [OF inv, of now q n v locked] read by simp
  ultimately show "j_id j \<notin> live_ids db'" by (auto simp: queue_inv_def)
qed

section \<open>The queue as a system\<close>

text \<open>
  Any number of workers and producers interleave.  A worker calls \<open>complete\<close> and \<open>fail\<close> with a copy
  of the row it was handed, which may be stale by then, so the step takes any job value.
\<close>

inductive queue_step :: "queue_db \<Rightarrow> queue_db \<Rightarrow> bool" where
  Send: "queue_step db (snd (send now q p db))"
| Read: "queue_step db (snd (read now q n v locked db))"
| Complete: "queue_step db (complete now job db)"
| Fail: "queue_step db (snd (fail now job base db))"
| Requeue: "queue_step db (snd (requeue_dead now k db))"

inductive queue_reachable :: "queue_db \<Rightarrow> bool" where
  init: "queue_reachable empty_queue"
| step: "queue_reachable db \<Longrightarrow> queue_step db db' \<Longrightarrow> queue_reachable db'"

inductive_cases queue_stepE: "queue_step db db'"

lemma queue_step_inv: "queue_step db db' \<Longrightarrow> queue_inv db \<Longrightarrow> queue_inv db'"
  by (induction rule: queue_step.induct) (simp_all add: keeps)

lemma queue_reachable_inv: "queue_reachable db \<Longrightarrow> queue_inv db"
  by (induction rule: queue_reachable.induct) (auto intro: queue_step_inv)

lemma queue_next_id_mono: "queue_step db db' \<Longrightarrow> next_id db \<le> next_id db'"
  by (induction rule: queue_step.induct)
    (auto simp: send_def read_def complete_def archive_job_def fail_def requeue_dead_def Let_def)

section \<open>Acknowledgement and dead letters\<close>

lemma complete_moves:
  assumes inv: "queue_inv db" and j: "j \<in> set (jobs db)" "j_id j = j_id job"
  shows "jobs (complete now job db) = filter (\<lambda>i. j_id i \<noteq> j_id job) (jobs db)"
    and "archive (complete now job db) = archive db @ [archived now ''ok'' j]"
proof -
  have one: "filter (\<lambda>i. j_id i = j_id job) (jobs db) = [j]"
    using inv j filter_id_eq [of j_id "jobs db" j] by (simp add: queue_inv_def)
  show "archive (complete now job db) = archive db @ [archived now ''ok'' j]"
    using move_to_archive(2) [OF inv archive_job_eq, of now job "''ok''"] by (simp add: one complete_def)
  show "jobs (complete now job db) = filter (\<lambda>i. j_id i \<noteq> j_id job) (jobs db)"
    by (simp add: complete_def archive_job_def delete_where_def)
qed

text \<open>Acknowledging a job that is no longer live changes nothing: a second worker's late \<open>complete\<close>.\<close>

lemma complete_stale: "j_id job \<notin> live_ids db \<Longrightarrow> complete now job db = db"
proof -
  assume a: "j_id job \<notin> live_ids db"
  then have "\<forall>j\<in>set (jobs db). j_id j \<noteq> j_id job" by (metis imageI live_ids_def)
  then have "filter (\<lambda>j. j_id j = j_id job) (jobs db) = []" "filter (\<lambda>j. j_id j \<noteq> j_id job) (jobs db) = jobs db"
    by (simp_all add: filter_empty_conv filter_id_conv)
  then show ?thesis by (simp add: complete_def archive_job_def delete_where_def)
qed

lemma fail_retries_iff: "fst (fail now job b db) \<longleftrightarrow> j_attempts job < MAX_ATTEMPTS"
  by (simp add: fail_def Let_def)

lemma requeue_dead_iff:
  assumes inv: "queue_inv db"
  shows "fst (requeue_dead now k db) \<longleftrightarrow> (\<exists>a\<in>set (archive db). a_id a = k \<and> is_dead_letter a)"
    and "fst (requeue_dead now k db) \<Longrightarrow>
      k \<in> live_ids (snd (requeue_dead now k db)) \<and> k \<notin> done_ids (snd (requeue_dead now k db))"
proof -
  have disj: "a_id a \<notin> j_id ` set (jobs db)" if "a \<in> set (archive db)" for a
    using inv that by (force simp: queue_inv_def live_ids_def done_ids_def)
  let ?as = "filter (\<lambda>a. a_id a = k \<and> is_dead_letter a) (archive db)"
  let ?rows = "map (\<lambda>a. \<lparr> j_id = a_id a, j_queue_name = a_queue_name a, j_payload = a_payload a,
      j_attempts = 0, j_visible_at = now, j_enqueued_at = now \<rparr>) ?as"
  have all: "filter (\<lambda>r. j_id r \<notin> j_id ` set (jobs db)) ?rows = ?rows"
    using disj by (auto simp: filter_id_conv)
  then have eq: "requeue_dead now k db =
     (if ?as = [] then (False, db)
      else (True, db\<lparr> jobs := fold (insert_or_ignore j_id) ?rows (jobs db),
                      archive := delete_where (\<lambda>a. a_id a = k) (archive db) \<rparr>))"
    unfolding requeue_dead_def Let_def by simp
  show iff: "fst (requeue_dead now k db) \<longleftrightarrow> (\<exists>a\<in>set (archive db). a_id a = k \<and> is_dead_letter a)"
    unfolding eq by (auto simp: filter_empty_conv)
  assume t: "fst (requeue_dead now k db)"
  then have "k \<in> j_id ` set ?rows" using iff by force
  then show "k \<in> live_ids (snd (requeue_dead now k db)) \<and> k \<notin> done_ids (snd (requeue_dead now k db))"
    using t unfolding eq by (auto simp: live_ids_def done_ids_def fold_insert_or_ignore_keys split: if_splits)
qed

lemma dead_letters_sub:
  "a \<in> set (dead_letters q l o' db) \<Longrightarrow> a \<in> set (archive db) \<and> a_queue_name a = q \<and> is_dead_letter a"
  using set_page_subset by (fastforce simp: dead_letters_def)

lemma dead_letters_complete:
  assumes "dead_letters_count q db \<le> 200"
  shows "set (dead_letters q 200 0 db) = {a \<in> set (archive db). a_queue_name a = q \<and> is_dead_letter a}"
  using assms by (auto simp: dead_letters_def dead_letters_count_def page_def clamp_limit_def)

lemma health_dead_letters:
  "qh_archived_failed (health now q db) + qh_dead_letters (health now q db) = dead_letters_count q db"
proof -
  have "length (filter (\<lambda>a. P a \<and> (a_outcome a = ''failed'' \<or> a_outcome a = ''dead'')) xs)
      = length (filter (\<lambda>a. P a \<and> a_outcome a = ''failed'') xs) + length (filter (\<lambda>a. P a \<and> a_outcome a = ''dead'') xs)"
    for P and xs :: "archived_job list"
    by (induction xs) auto
  then show ?thesis
    by (simp add: health_def Let_def outcome_count_def dead_letters_count_def is_dead_letter_def)
qed

lemma health_depth: "qh_ready (health now q db) + qh_in_flight (health now q db) = depth q db"
proof -
  have "length (filter (\<lambda>j. j_visible_at j \<le> now) xs) + length (filter (\<lambda>j. j_visible_at j > now) xs) = length xs"
    for xs
    by (induction xs) auto
  then show ?thesis unfolding health_def Let_def depth_def by (simp del: filter_filter)
qed

lemma filter_update_where: "(\<And>j. p (f j) = p j) \<Longrightarrow> filter p (update_where p f js) = map f (filter p js)"
  by (induction js) (auto simp: update_where_def)

section \<open>A claim's window\<close>

text \<open>
  What the rest of the system may do while a worker holds job \<open>k\<close> until \<open>until\<close>: every operation, at
  any time before \<open>until\<close>, except releasing that very job early (a \<open>fail\<close> or an operator's requeue
  naming \<open>k\<close>).
\<close>

inductive bystander :: "nat \<Rightarrow> instant \<Rightarrow> queue_db \<Rightarrow> queue_db \<Rightarrow> bool" for k until where
  By_none: "bystander k until db db"
| By_send: "bystander k until db db' \<Longrightarrow> bystander k until db (snd (send now q p db'))"
| By_read: "bystander k until db db' \<Longrightarrow> now < until \<Longrightarrow> bystander k until db (snd (read now q n v locked db'))"
| By_complete: "bystander k until db db' \<Longrightarrow> bystander k until db (complete now job db')"
| By_fail: "bystander k until db db' \<Longrightarrow> j_id job \<noteq> k \<Longrightarrow> bystander k until db (snd (fail now job base db'))"
| By_requeue: "bystander k until db db' \<Longrightarrow> i \<noteq> k \<Longrightarrow> bystander k until db (snd (requeue_dead now i db'))"

definition held :: "nat \<Rightarrow> instant \<Rightarrow> queue_db \<Rightarrow> bool" where
  "held k until db \<longleftrightarrow>
     queue_inv db \<and> k < next_id db \<and> (\<forall>j\<in>set (jobs db). j_id j = k \<longrightarrow> until \<le> j_visible_at j)"

lemma held_not_claimed:
  assumes "held k until db" "now < until" "read now q n v locked db = (got, db')"
  shows "k \<notin> j_id ` set got"
proof -
  have inv: "queue_inv (reap now q db)" using assms(1) by (simp add: held_def keeps)
  have d: "distinct (map j_id (jobs (reap now q db)))" using inv by (simp add: queue_inv_def)
  have "k \<notin> set (claimed_ids now q n locked (jobs (reap now q db)))"
  proof (cases "\<exists>j\<in>set (jobs (reap now q db)). j_id j = k")
    case True
    then obtain j where j: "j \<in> set (jobs (reap now q db))" "j_id j = k" by blast
    then have "j \<in> set (jobs db)" by (simp add: reap_def delete_where_def)
    then have "now < j_visible_at j" using assms(1,2) j(2) by (force simp: held_def)
    then show ?thesis using not_ready_not_claimed [OF d j(1)] j(2) by simp
  next
    case False
    then show ?thesis by (auto simp: claimed_ids_def)
  qed
  then show ?thesis unfolding read_jobs(1) [OF assms(3)] by auto
qed

lemma held_read:
  assumes h: "held k until db" and now: "now < until"
  shows "held k until (snd (read now q n v locked db))"
proof -
  obtain got db' where r: "read now q n v locked db = (got, db')" by fastforce
  have inv: "queue_inv db'" using read_inv [of db now q n v locked] h r by (simp add: held_def)
  have k: "k \<notin> j_id ` set got" by (rule held_not_claimed [OF h now r])
  have "until \<le> j_visible_at j" if j: "j \<in> set (jobs db')" "j_id j = k" for j
  proof -
    have nk: "k \<notin> set (claimed_ids now q n locked (jobs (reap now q db)))"
      using k j read_jobs(1) [OF r] by force
    then have "j \<in> set (jobs (reap now q db))"
      using j unfolding read_jobs(2) [OF r] set_update_where by (auto simp: claim_def split: if_splits)
    then have "j \<in> set (jobs db)" by (simp add: reap_def delete_where_def)
    then show ?thesis using h j(2) by (simp add: held_def)
  qed
  then show ?thesis using inv h read_jobs(4) [OF r] r by (simp add: held_def)
qed

lemma requeue_dead_jobs:
  assumes "j \<in> set (jobs (snd (requeue_dead now i db)))"
  shows "j \<in> set (jobs db) \<or> j_id j = i"
proof -
  have sub: "set (fold (insert_or_ignore key) rs ts) \<subseteq> set ts \<union> set rs" for key :: "job \<Rightarrow> nat" and rs ts
  proof (induction rs arbitrary: ts)
    case (Cons r rs)
    show ?case using Cons.IH [of "insert_or_ignore key r ts"] by (auto simp: insert_or_ignore_def split: if_splits)
  qed simp
  show ?thesis
    using assms by (auto simp: requeue_dead_def Let_def split: if_splits dest!: subsetD [OF sub])
qed

lemma bystander_held: "bystander k until db db' \<Longrightarrow> held k until db \<Longrightarrow> held k until db'"
proof (induction rule: bystander.induct)
  case (By_send db db' now q p)
  then have h: "held k until db'" by simp
  then have "queue_inv (snd (send now q p db'))" by (simp add: held_def keeps)
  then show ?case using h by (auto simp: held_def send_def)
next
  case (By_read db db' now q n v locked)
  then show ?case by (simp add: held_read)
next
  case (By_complete db db' now job)
  then show ?case by (auto simp: held_def keeps) (auto simp: complete_def archive_job_def delete_where_def)
next
  case (By_fail db db' job now base)
  then have h: "held k until db'" by simp
  then have "queue_inv (snd (fail now job base db'))" by (simp add: held_def keeps)
  then show ?case using h By_fail.hyps(2)
    by (auto simp: held_def fail_def Let_def archive_job_def delete_where_def set_update_where split: if_splits)
next
  case (By_requeue db db' i now)
  then have h: "held k until db'" by simp
  then have "queue_inv (snd (requeue_dead now i db'))" by (simp add: held_def keeps)
  moreover have "next_id (snd (requeue_dead now i db')) = next_id db'" by (simp add: requeue_dead_def Let_def)
  ultimately show ?case using h By_requeue.hyps(2) requeue_dead_jobs by (fastforce simp: held_def)
qed simp

lemma read_holds:
  assumes inv: "queue_inv db" and r: "read now q n v locked db = (got, db')" and j: "j \<in> set got"
  shows "held (j_id j) (now + v) db'"
proof -
  have inv': "queue_inv db'" using read_inv [OF inv, of now q n v locked] r by simp
  have jin: "j \<in> set (jobs db')" using j by (simp add: read_jobs(1) [OF r])
  then have "j_id j \<in> live_ids db' \<union> done_ids db'" by (simp add: live_ids_def)
  moreover have "live_ids db' \<union> done_ids db' = {i. 1 \<le> i \<and> i < next_id db'}"
    using inv' unfolding queue_inv_def by blast
  ultimately have "j_id j < next_id db'" by simp
  moreover have "i = j" if "i \<in> set (jobs db')" "j_id i = j_id j" for i
    using inv' that jin by (auto simp: queue_inv_def distinct_map inj_on_def)
  moreover have "j_visible_at j = now + v" using read_got(2) [OF inv r] j by blast
  ultimately show ?thesis using inv' by (metis held_def order_refl)
qed

section \<open>Properties\<close>

definition sample_queue :: queue_db where
  "sample_queue =
    (let job_of = (\<lambda>org. \<lparr> jp_org_id = Some org, jp_source_id = Some 90, jp_body = ''x'' \<rparr>) in
     snd (send 0 ''extract'' (job_of 2) (snd (send 0 ''extract'' (job_of 1)
       (snd (send 0 ''extract'' (job_of 1) empty_queue))))))"

lemma sample_queue_reachable: "queue_reachable sample_queue"
  unfolding sample_queue_def Let_def
  by (intro queue_reachable.step [OF _ queue_step.Send] queue_reachable.init)

text \<open>C1: In every state the queue can reach, whatever producers, workers and operators interleave, the ids
  handed out by \<open>send\<close> so far are exactly the ids in the live table or the archive, no id is in both,
  no table holds an id twice, and no live job has more than \<open>MAX_ATTEMPTS\<close> attempts: a job is never
  lost, duplicated or resurrected beside its archived copy.\<close>

theorem queue_never_loses_a_job:
  assumes "queue_reachable db"
  shows "live_ids db \<union> done_ids db = {i. 1 \<le> i \<and> i < next_id db} \<and>
    live_ids db \<inter> done_ids db = {} \<and>
    distinct (map j_id (jobs db)) \<and> distinct (map a_id (archive db)) \<and>
    (\<forall>j\<in>set (jobs db). j_attempts j \<le> MAX_ATTEMPTS)"
  using queue_reachable_inv [OF assms] by (simp_all add: queue_inv_def)

lemma queue_never_loses_a_job_witness:
  "live_ids sample_queue \<union> done_ids sample_queue = {i. 1 \<le> i \<and> i < 4}"
proof -
  have "next_id sample_queue = 4" by code_simp
  then show ?thesis using queue_never_loses_a_job [OF sample_queue_reachable] by simp
qed


text \<open>C22: The claim is fair between organisations and first-in first-out within one.  When \<open>read\<close> hands
  out \<open>c\<close> and leaves an unlocked claimable job \<open>u\<close> behind, \<open>c\<close> stands no later than \<open>u\<close> in the
  round-robin order: \<open>c\<close>'s position within its organisation is at most \<open>u\<close>'s position within its
  own, so no backlog starves another tenant; and \<open>u\<close> is not an older job of the same organisation.\<close>

theorem queue_claim_is_fair:
  assumes "queue_reachable db" and "reap now q db = db1"
    and "c \<in> set (jobs db1)" "j_id c \<in> j_id ` set (fst (read now q n v locked db))"
    and "u \<in> set (jobs db1)" "claimable now q u" "j_id u \<notin> set locked"
    and "j_id u \<notin> j_id ` set (fst (read now q n v locked db))"
  shows "org_rank (filter (claimable now q) (jobs db1)) c \<le> org_rank (filter (claimable now q) (jobs db1)) u \<and>
    (jp_org_id (j_payload u) = jp_org_id (j_payload c) \<longrightarrow> j_id c \<le> j_id u)"
proof -
  have inv: "queue_inv db1" using queue_reachable_inv [OF assms(1)] assms(2) by (auto simp: keeps)
  then have d: "distinct (map j_id (jobs db1))" by (simp add: queue_inv_def)
  let ?ids = "claimed_ids now q n locked (jobs db1)"
  have got: "j_id ` set (fst (read now q n v locked db)) = set ?ids"
  proof -
    have "fst (read now q n v locked db) = map (claim now v) (filter (\<lambda>j. j_id j \<in> set ?ids) (jobs db1))"
      using assms(2) by (simp add: read_def Let_def filter_update_where claim_def)
    moreover have "set ?ids \<subseteq> j_id ` set (jobs db1)" by (auto simp: claimed_ids_def)
    moreover have "j_id (claim now v j) = j_id j" for j by (simp add: claim_def)
    ultimately show ?thesis by (force simp: image_iff)
  qed
  have le: "fair_le (filter (claimable now q) (jobs db1)) c u"
    by (rule claim_is_fair [OF d assms(3) _ assms(5,6,7)]) (use assms(4,8) got in auto)
  then have "org_rank (filter (claimable now q) (jobs db1)) c \<le> org_rank (filter (claimable now q) (jobs db1)) u"
    by (auto simp: fair_le_def)
  moreover have "j_id c \<le> j_id u" if "jp_org_id (j_payload u) = jp_org_id (j_payload c)"
    using that claim_fifo [OF d assms(3) _ assms(5,6,7)] assms(4,8) got by (metis not_less)
  ultimately show ?thesis by blast
qed

text \<open>A failed attempt either archives the job as \<open>failed\<close> (exactly when its attempts reached
  \<open>MAX_ATTEMPTS\<close>) or keeps it live, invisible for a delay that is never negative, never above ten
  minutes and never shorter than the previous attempt's.\<close>

theorem queue_fail_outcome:
  assumes "queue_reachable db" and "j \<in> set (jobs db)" and "fail now j base db = (retry, db')"
  shows "(retry \<longleftrightarrow> j_attempts j < MAX_ATTEMPTS) \<and>
    (\<not> retry \<longrightarrow> archived now ''failed'' j \<in> set (archive db') \<and> j_id j \<notin> live_ids db') \<and>
    (retry \<longrightarrow> j\<lparr> j_visible_at := now + backoff_secs base (j_attempts j) \<rparr> \<in> set (jobs db')) \<and>
    0 \<le> backoff_secs base (j_attempts j) \<and> backoff_secs base (j_attempts j) \<le> 600 \<and>
    backoff_secs base (j_attempts j - 1) \<le> backoff_secs base (j_attempts j)"
proof -
  have inv: "queue_inv db" using assms(1) by (rule queue_reachable_inv)
  have r: "retry \<longleftrightarrow> j_attempts j < MAX_ATTEMPTS" using fail_retries_iff [of now j base db] assms(3) by simp
  moreover have "archived now ''failed'' j \<in> set (archive db') \<and> j_id j \<notin> live_ids db'" if "\<not> retry"
  proof -
    have db': "db' = archive_job now j ''failed'' db" using assms(3) that r by (simp add: fail_def)
    have "archive db' = archive db @ map (archived now ''failed'') (filter (\<lambda>i. j_id i = j_id j) (jobs db))"
      by (rule move_to_archive(2) [OF inv]) (simp add: db' archive_job_eq)
    then show ?thesis
      using assms(2) by (auto simp: db' archive_job_def live_ids_def delete_where_def)
  qed
  moreover have "j\<lparr> j_visible_at := now + backoff_secs base (j_attempts j) \<rparr> \<in> set (jobs db')" if "retry"
    using assms(2,3) that r by (auto simp: fail_def Let_def set_update_where split: if_splits)
  ultimately show ?thesis by (simp add: backoff_bounds backoff_mono)
qed

text \<open>An operator's requeue succeeds exactly for a dead letter (a job archived as \<open>failed\<close> or
  \<open>dead\<close>); the job is then live again and gone from the archive, and any other id changes nothing.\<close>

theorem queue_requeue_dead:
  assumes "queue_reachable db" and "requeue_dead now k db = (ok, db')"
  shows "(ok \<longleftrightarrow> (\<exists>a\<in>set (archive db). a_id a = k \<and> is_dead_letter a)) \<and>
    (ok \<longrightarrow> k \<in> live_ids db' \<and> k \<notin> done_ids db') \<and> (\<not> ok \<longrightarrow> db' = db)"
  using requeue_dead_iff [OF queue_reachable_inv [OF assms(1)], of now k] assms(2)
  by (auto simp: requeue_dead_def Let_def split: if_splits)

section \<open>Instances\<close>


lemma queue_claim_is_fair_witness:
  "org_rank (filter (claimable 5 ''extract'') (jobs sample_queue)) (jobs sample_queue ! 2)
    \<le> org_rank (filter (claimable 5 ''extract'') (jobs sample_queue)) (jobs sample_queue ! 1)"
  by (rule queue_claim_is_fair [THEN conjunct1, OF sample_queue_reachable, of 5 "''extract''" _ _ 2 30 "[]"]; code_simp)

lemma queue_fail_outcome_witness:
  "backoff_secs 30 (j_attempts (hd (jobs sample_queue))) \<le> 600"
proof -
  have "hd (jobs sample_queue) \<in> set (jobs sample_queue)" by code_simp
  from queue_fail_outcome [OF sample_queue_reachable this surjective_pairing, of 0 30] show ?thesis by simp
qed

lemma queue_requeue_dead_witness:
  "\<not> fst (requeue_dead 0 7 sample_queue)"
  using queue_requeue_dead [OF sample_queue_reachable surjective_pairing, of 0 7] by code_simp

end
