(* ===== verification/Corpus.thy ===== *)
theory Corpus
  imports Tables
begin

text \<open>
  The tables of the knowledge layer and the row-level security every statement on them runs under.
  A row of \<open>memories\<close> and of \<open>documents\<close> extends the record of \<open>types.rs\<close> with the columns only the
  database has.  A session is the verified principal with the worker flag (\<open>app.worker\<close>); the team
  memberships the policies look up are the principal's.  A statement that reads a table in its
  \<open>WHERE\<close> clause sees only the rows the \<open>SELECT\<close> policy admits, updates included.
\<close>

section \<open>Rows\<close>

record mem_row = memory +
  mr_title :: "string option"
  mr_language :: string
  mr_updated_at :: instant
  mr_deleted_at :: "instant option"

record doc_row = document +
  dr_compose_attempts :: nat
  dr_compose_next_at :: "instant option"

record source_row =
  so_id :: uuid
  so_org_id :: uuid
  so_team_id :: "uuid option"
  so_kind :: string
  so_raw_text :: string
  so_created_by :: "uuid option"
  so_idempotency_key :: "string option"
  so_project_id :: "uuid option"

record provenance_row =
  pv_id :: uuid
  pv_org_id :: uuid
  pv_actor_kind :: string
  pv_actor_id :: string
  pv_model_ref :: "string option"
  pv_source_id :: "uuid option"
  pv_pipeline_run_id :: "uuid option"

record promotion_row =
  pr_id :: uuid
  pr_org_id :: uuid
  pr_memory_id :: uuid
  pr_from_status :: string
  pr_to_status :: string
  pr_policy_decision :: string
  pr_policy_rule :: string
  pr_reviewer_id :: "uuid option"
  pr_reviewed_at :: "instant option"

text \<open>The note of a dispute: free text, or one of the two notes the governance loop composes.\<close>

datatype dispute_note =
  NText string
| NMoot (moot_deprecated: uuid) (moot_winner: uuid) (moot_resolved: uuid) (moot_original: "dispute_note option")
| NInherited (inherited_from: uuid) (inherited_counterpart: uuid) (inherited_deprecated: uuid)
    (inherited_winner: uuid)

record contradiction_row =
  c_id :: uuid
  c_org_id :: uuid
  c_memory_a :: uuid
  c_memory_b :: uuid
  c_detected_by :: string
  c_status :: string
  c_resolved_by :: "uuid option"
  c_resolved_at :: "instant option"
  c_note :: "dispute_note option"

record doc_read_row =
  rd_org_id :: uuid
  rd_document_id :: uuid
  rd_via :: string
  rd_was_dirty :: bool

record corpus =
  memories :: "mem_row list"
  sources :: "source_row list"
  provenances :: "provenance_row list"
  promotions :: "promotion_row list"
  contradictions :: "contradiction_row list"
  documents :: "doc_row list"
  doc_sections :: "document_section list"
  doc_revisions :: "document_revision list"
  doc_deps :: "(uuid \<times> uuid) list"
  doc_reads :: "doc_read_row list"
  isolated_projects :: "uuid list"

section \<open>Row-level security\<close>

record session =
  s_principal :: principal
  s_worker :: bool

text \<open>The policies \<open>memories_read\<close> and \<open>memories_project_isolation\<close>.\<close>

definition memories_read :: "session \<Rightarrow> mem_row \<Rightarrow> bool" where
  "memories_read ses m =
    (let p = s_principal ses in
     m_org_id m = p_org_id p \<and> mr_deleted_at m = None \<and>
     (m_visibility m = Vis_Org
      \<or> (s_worker ses \<and> m_visibility m \<noteq> Vis_Private)
      \<or> (m_visibility m = Vis_Team \<and> (case m_team_id m of Some t \<Rightarrow> t \<in> set (p_team_ids p) | None \<Rightarrow> False))
      \<or> (m_visibility m = Vis_Private \<and> m_owner_user_id m = Some (p_user_id p))))"

definition project_isolation :: "uuid list \<Rightarrow> session \<Rightarrow> mem_row \<Rightarrow> bool" where
  "project_isolation isolated ses m =
    (s_worker ses \<or> m_project_id m = None \<or> m_project_id m = p_project_id (s_principal ses)
     \<or> (case m_project_id m of Some p \<Rightarrow> p \<notin> set isolated | None \<Rightarrow> True))"

definition sees_memory :: "corpus \<Rightarrow> session \<Rightarrow> mem_row \<Rightarrow> bool" where
  "sees_memory db ses m = (memories_read ses m \<and> project_isolation (isolated_projects db) ses m)"

text \<open>The policy \<open>documents_read\<close>.\<close>

definition sees_document :: "session \<Rightarrow> doc_row \<Rightarrow> bool" where
  "sees_document ses d =
    (let p = s_principal ses in
     d_org_id d = p_org_id p \<and>
     (d_visibility d = Vis_Org
      \<or> (d_visibility d = Vis_Team \<and> (case d_team_id d of Some t \<Rightarrow> t \<in> set (p_team_ids p) | None \<Rightarrow> False))
      \<or> s_worker ses))"

text \<open>
  \<open>Principal::can_read\<close> is documented as the single source of truth that the policy mirrors.  For a
  request session the two agree on every live row of a project that is not isolated.
\<close>

lemma memories_read_can_read:
  assumes "\<not> s_worker ses"
  shows "memories_read ses m \<longleftrightarrow>
    mr_deleted_at m = None \<and>
    can_read (s_principal ses) (m_org_id m) (m_team_id m) (m_owner_user_id m) (m_visibility m)"
  using assms by (auto simp: memories_read_def can_read_def Let_def split: visibility.splits option.splits)

lemma memories_read_worker:
  assumes "s_worker ses"
  shows "memories_read ses m \<longleftrightarrow> mr_deleted_at m = None \<and> m_org_id m = p_org_id (s_principal ses) \<and>
    (m_visibility m \<noteq> Vis_Private \<or> m_owner_user_id m = Some (p_user_id (s_principal ses)))"
  using assms by (cases "m_visibility m") (auto simp: memories_read_def Let_def)

lemma sees_memory_org: "sees_memory db ses m \<Longrightarrow> m_org_id m = p_org_id (s_principal ses)"
  by (simp add: sees_memory_def memories_read_def Let_def)

lemma sees_memory_live: "sees_memory db ses m \<Longrightarrow> mr_deleted_at m = None"
  by (simp add: sees_memory_def memories_read_def Let_def)

lemma sees_document_org: "sees_document ses d \<Longrightarrow> d_org_id d = p_org_id (s_principal ses)"
  by (simp add: sees_document_def Let_def)

lemma sees_document_worker:
  "s_worker ses \<Longrightarrow> sees_document ses d \<longleftrightarrow> d_org_id d = p_org_id (s_principal ses)"
  by (auto simp: sees_document_def Let_def)

section \<open>Well-formed tables\<close>

text \<open>The primary keys.\<close>

definition keys_ok :: "corpus \<Rightarrow> bool" where
  "keys_ok db \<longleftrightarrow> distinct (map m_id (memories db)) \<and> distinct (map c_id (contradictions db)) \<and>
     distinct (map d_id (documents db)) \<and> distinct (map r_id (doc_revisions db)) \<and> distinct (doc_deps db)"

lemma keys_okD [dest]:
  "keys_ok db \<Longrightarrow> distinct (map m_id (memories db))"
  "keys_ok db \<Longrightarrow> distinct (map c_id (contradictions db))"
  "keys_ok db \<Longrightarrow> distinct (map d_id (documents db))"
  "keys_ok db \<Longrightarrow> distinct (map r_id (doc_revisions db))"
  "keys_ok db \<Longrightarrow> distinct (doc_deps db)"
  by (simp_all add: keys_ok_def)

definition memory_at :: "corpus \<Rightarrow> uuid \<Rightarrow> mem_row option" where
  "memory_at db k = lookup m_id k (memories db)"

definition document_at :: "corpus \<Rightarrow> uuid \<Rightarrow> doc_row option" where
  "document_at db k = lookup d_id k (documents db)"

definition revision_at :: "corpus \<Rightarrow> uuid \<Rightarrow> document_revision option" where
  "revision_at db k = lookup r_id k (doc_revisions db)"

definition cites :: "corpus \<Rightarrow> uuid \<Rightarrow> uuid \<Rightarrow> bool" where
  "cites db doc mem \<longleftrightarrow> (doc, mem) \<in> set (doc_deps db)"

section \<open>An example corpus\<close>

text \<open>
  Three memories of one organisation, of which memory 2 is private to team 7; a published page that
  cites memory 1; two open disputes of memory 1, with 2 and with 3.
\<close>

definition example_row :: "uuid \<Rightarrow> visibility \<Rightarrow> memory_status \<Rightarrow> mem_row" where
  "example_row k vis status =
    \<lparr> m_id = k, m_org_id = 1, m_team_id = Some 7, m_owner_user_id = None, m_visibility = vis,
      m_status = status, m_kind = MK_Decision, m_content = ''claim'', m_lifecycle = LC_Shipped,
      m_detail_md = None, m_valid_from = Some 0, m_valid_to = None, m_superseded_by = None,
      m_confidence = None, m_provenance_id = None, m_project_id = None, m_created_at = int k,
      mr_title = None, mr_language = ''en'', mr_updated_at = int k, mr_deleted_at = None \<rparr>"

definition example_doc :: doc_row where
  "example_doc =
    \<lparr> d_id = 50, d_org_id = 1, d_team_id = None, d_slug = ''page'', d_title = ''Page'',
      d_visibility = Vis_Org, d_doc_kind = DK_EntityPage, d_status = DS_Published,
      d_current_revision = None, d_project_id = None, d_dirty_at = None, d_updated_at = 10,
      dr_compose_attempts = 0, dr_compose_next_at = None \<rparr>"

definition example_dispute :: "uuid \<Rightarrow> uuid \<Rightarrow> uuid \<Rightarrow> contradiction_row" where
  "example_dispute k a b =
    \<lparr> c_id = k, c_org_id = 1, c_memory_a = a, c_memory_b = b, c_detected_by = ''model'',
      c_status = ''open'', c_resolved_by = None, c_resolved_at = None, c_note = None \<rparr>"

definition example_corpus :: corpus where
  "example_corpus =
    \<lparr> memories = [example_row 1 Vis_Org MS_Canonical, example_row 2 Vis_Team MS_Canonical,
                  example_row 3 Vis_Org MS_Candidate],
      sources = [], provenances = [], promotions = [],
      contradictions = [example_dispute 60 1 2, example_dispute 61 1 3],
      documents = [example_doc], doc_sections = [], doc_revisions = [], doc_deps = [(50, 1)],
      doc_reads = [], isolated_projects = [] \<rparr>"

definition example_session :: session where
  "example_session =
    \<lparr> s_principal = \<lparr> p_org_id = 1, p_user_id = 5, p_team_ids = [7], p_project_id = None \<rparr>,
      s_worker = False \<rparr>"

lemma example_corpus_keys [simp]: "keys_ok example_corpus"
  by code_simp

section \<open>Properties\<close>

text \<open>The row-level security policies on memories agree with \<open>Principal::can_read\<close> on every live row of
  a request session, whatever the project; a worker session additionally reads team rows of its own
  organisation but never another user's private ones; nobody reads across organisations or deleted
  rows.\<close>

theorem rls_agrees_with_can_read:
  "(\<not> s_worker ses \<longrightarrow> (memories_read ses m \<longleftrightarrow> mr_deleted_at m = None \<and>
      can_read (s_principal ses) (m_org_id m) (m_team_id m) (m_owner_user_id m) (m_visibility m))) \<and>
   (s_worker ses \<longrightarrow> memories_read ses m \<longrightarrow> m_visibility m = Vis_Private \<longrightarrow>
      m_owner_user_id m = Some (p_user_id (s_principal ses))) \<and>
   (sees_memory db ses m \<longrightarrow> m_org_id m = p_org_id (s_principal ses) \<and> mr_deleted_at m = None)"
  using memories_read_can_read memories_read_worker sees_memory_org sees_memory_live by blast+

lemma rls_agrees_with_can_read_witness:
  "memories_read example_session (example_row 2 Vis_Team MS_Canonical) \<longleftrightarrow>
     mr_deleted_at (example_row 2 Vis_Team MS_Canonical) = None \<and>
     can_read (s_principal example_session) 1 (Some 7) None Vis_Team"
  using rls_agrees_with_can_read [of example_session "example_row 2 Vis_Team MS_Canonical"]
  by (simp add: example_session_def example_row_def)

end
