(* ===== verification/Documents.thy ===== *)
theory Documents
  imports Corpus
begin

text \<open>
  \<open>brainiac-store/src/documents.rs\<close>: pages, revisions and the dependency index.  Every operation is
  one transaction on the corpus, takes \<open>now\<close> and the session, and returns what the function returns.
\<close>

section \<open>Pages and sections\<close>

record new_document =
  nd_id :: uuid
  nd_org_id :: uuid
  nd_team_id :: "uuid option"
  nd_slug :: string
  nd_title :: string
  nd_visibility :: visibility
  nd_doc_kind :: doc_kind
  nd_project_id :: "uuid option"

text \<open>\<open>None\<close> is the unique violation on \<open>(org_id, slug)\<close> or on the primary key.\<close>

definition insert_document :: "instant \<Rightarrow> new_document \<Rightarrow> corpus \<Rightarrow> corpus option" where
  "insert_document now d db =
    (if list_ex (\<lambda>r. d_id r = nd_id d \<or> (d_org_id r = nd_org_id d \<and> d_slug r = nd_slug d)) (documents db)
     then None
     else Some (db\<lparr> documents := documents db @
       [\<lparr> d_id = nd_id d, d_org_id = nd_org_id d, d_team_id = nd_team_id d, d_slug = nd_slug d,
          d_title = nd_title d, d_visibility = nd_visibility d, d_doc_kind = nd_doc_kind d,
          d_status = DS_Draft, d_current_revision = None, d_project_id = nd_project_id d,
          d_dirty_at = None, d_updated_at = now, dr_compose_attempts = 0, dr_compose_next_at = None \<rparr>] \<rparr>))"

text \<open>The check \<open>document_sections_shape_check\<close>; \<open>None\<close> is its violation.\<close>

definition section_shape_ok :: "document_section \<Rightarrow> bool" where
  "section_shape_ok s =
    ((ds_mode s = SM_Composed \<and> ds_binding s \<noteq> None) \<or> (ds_mode s = SM_Pinned \<and> ds_pinned_content s \<noteq> None))"

definition insert_section :: "document_section \<Rightarrow> corpus \<Rightarrow> corpus option" where
  "insert_section s db =
    (if \<not> section_shape_ok s \<or> list_ex (\<lambda>r. ds_id r = ds_id s) (doc_sections db) then None
     else Some (db\<lparr> doc_sections := doc_sections db @ [s] \<rparr>))"

definition sections :: "uuid \<Rightarrow> corpus \<Rightarrow> document_section list" where
  "sections document_id db =
    sort_by (\<lambda>a b. ds_position a \<le> ds_position b) (filter (\<lambda>s. ds_document_id s = document_id) (doc_sections db))"

definition get_document :: "session \<Rightarrow> uuid \<Rightarrow> corpus \<Rightarrow> doc_row option" where
  "get_document ses k db = lookup d_id k (filter (sees_document ses) (documents db))"

definition get_document_by_slug :: "session \<Rightarrow> string \<Rightarrow> corpus \<Rightarrow> doc_row option" where
  "get_document_by_slug ses slug db = lookup d_slug slug (filter (sees_document ses) (documents db))"

definition list_documents :: "session \<Rightarrow> corpus \<Rightarrow> doc_row list" where
  "list_documents ses db =
    sort_by (\<lambda>a b. d_updated_at b \<le> d_updated_at a) (filter (sees_document ses) (documents db))"

text \<open>The pinned prose is written only when it still is what the editor read.\<close>

definition update_pinned :: "uuid \<Rightarrow> string \<Rightarrow> string option \<Rightarrow> corpus \<Rightarrow> bool \<times> corpus" where
  "update_pinned section_id content expected db =
    (let p = (\<lambda>s. ds_id s = section_id \<and> ds_mode s = SM_Pinned \<and> ds_pinned_content s = expected) in
     (rows_affected p (doc_sections db) > 0,
      db\<lparr> doc_sections := update_where p (\<lambda>s. s\<lparr> ds_pinned_content := Some content \<rparr>) (doc_sections db) \<rparr>))"

section \<open>Dirty marking\<close>

definition touch_dirty :: "instant \<Rightarrow> doc_row \<Rightarrow> doc_row" where
  "touch_dirty now d =
    d\<lparr> d_dirty_at := (case d_dirty_at d of None \<Rightarrow> Some now | Some t \<Rightarrow> Some t), d_updated_at := now \<rparr>"

definition mark_dirty_for_memory :: "instant \<Rightarrow> session \<Rightarrow> uuid \<Rightarrow> corpus \<Rightarrow> nat \<times> corpus" where
  "mark_dirty_for_memory now ses memory_id db =
    (let p = (\<lambda>d. sees_document ses d \<and> list_ex (\<lambda>(doc, m). doc = d_id d \<and> m = memory_id) (doc_deps db)) in
     (rows_affected p (documents db),
      db\<lparr> documents := update_where p (touch_dirty now) (documents db) \<rparr>))"

definition mark_dirty :: "instant \<Rightarrow> session \<Rightarrow> uuid \<Rightarrow> corpus \<Rightarrow> corpus" where
  "mark_dirty now ses document_id db =
    db\<lparr> documents := update_where (\<lambda>d. sees_document ses d \<and> d_id d = document_id) (touch_dirty now) (documents db) \<rparr>"

definition dirty_documents :: "instant \<Rightarrow> session \<Rightarrow> nat \<Rightarrow> corpus \<Rightarrow> doc_row list" where
  "dirty_documents now ses limit db =
    take limit (sort_by (\<lambda>a b. the (d_dirty_at a) \<le> the (d_dirty_at b))
      (filter (\<lambda>d. sees_document ses d \<and> d_dirty_at d \<noteq> None \<and> d_status d \<noteq> DS_Archived
                 \<and> (case dr_compose_next_at d of None \<Rightarrow> True | Some t \<Rightarrow> t \<le> now)) (documents db)))"

text \<open>The retry delay: \<open>base * 2^attempts\<close> on the old count, capped.\<close>

definition compose_delay :: "int \<Rightarrow> int \<Rightarrow> nat \<Rightarrow> int" where
  "compose_delay base_secs max_secs attempts = min (base_secs * 2 ^ min attempts 20) max_secs"

definition record_compose_failure ::
  "instant \<Rightarrow> session \<Rightarrow> uuid \<Rightarrow> int \<Rightarrow> int \<Rightarrow> corpus \<Rightarrow> nat \<times> corpus" where
  "record_compose_failure now ses document_id base_secs max_secs db =
    (let p = (\<lambda>d. sees_document ses d \<and> d_id d = document_id);
         f = (\<lambda>d. d\<lparr> dr_compose_attempts := dr_compose_attempts d + 1,
                     dr_compose_next_at := Some (now + compose_delay base_secs max_secs (dr_compose_attempts d)),
                     d_updated_at := now \<rparr>);
         db' = db\<lparr> documents := update_where p f (documents db) \<rparr>
     in (case lookup d_id document_id (filter p (documents db)) of
           None \<Rightarrow> 0 | Some d \<Rightarrow> dr_compose_attempts d + 1, db'))"

definition record_read :: "uuid \<Rightarrow> uuid \<Rightarrow> string \<Rightarrow> bool \<Rightarrow> corpus \<Rightarrow> corpus" where
  "record_read org_id document_id via was_dirty db =
    db\<lparr> doc_reads := doc_reads db @
      [\<lparr> rd_org_id = org_id, rd_document_id = document_id, rd_via = via, rd_was_dirty = was_dirty \<rparr>] \<rparr>"

section \<open>Revisions\<close>

record new_revision =
  nr_id :: uuid
  nr_document_id :: uuid
  nr_content_md :: string
  nr_composed_from :: "uuid list"
  nr_trigger :: string
  nr_policy_decision :: revision_policy
  nr_claimed_updated_at :: "instant option"

definition insert_revision :: "instant \<Rightarrow> session \<Rightarrow> new_revision \<Rightarrow> corpus \<Rightarrow> corpus" where
  "insert_revision now ses r db =
    (let published = (nr_policy_decision r = RP_AutoPublished);
         rev = \<lparr> r_id = nr_id r, r_document_id = nr_document_id r, r_content_md = nr_content_md r,
                 r_composed_from = nr_composed_from r, r_trigger = nr_trigger r,
                 r_policy_decision = nr_policy_decision r, r_reviewed_by = None,
                 r_published_at = (if published then Some now else None), r_created_at = now,
                 r_faithfulness = None \<rparr>;
         kept = delete_where (\<lambda>(doc, _). doc = nr_document_id r) (doc_deps db);
         deps = fold (\<lambda>m. insert_or_ignore (\<lambda>e. e) (nr_document_id r, m)) (nr_composed_from r) kept;
         p = (\<lambda>d. sees_document ses d \<and> d_id d = nr_document_id r);
         f = (\<lambda>d. d\<lparr> d_dirty_at := (case nr_claimed_updated_at r of
                          None \<Rightarrow> None
                        | Some t \<Rightarrow> if d_updated_at d = t then None else d_dirty_at d),
                     d_updated_at := now,
                     dr_compose_attempts := 0,
                     dr_compose_next_at := None,
                     d_current_revision := (if published then Some (nr_id r) else d_current_revision d),
                     d_status := (if published then DS_Published else d_status d) \<rparr>)
     in db\<lparr> doc_revisions := doc_revisions db @ [rev],
            doc_deps := deps,
            documents := update_where p f (documents db) \<rparr>)"

definition current_revision :: "session \<Rightarrow> uuid \<Rightarrow> corpus \<Rightarrow> document_revision option" where
  "current_revision ses document_id db =
    (case get_document ses document_id db of
       None \<Rightarrow> None
     | Some d \<Rightarrow> (case d_current_revision d of
         None \<Rightarrow> None | Some k \<Rightarrow> lookup r_id k (doc_revisions db)))"

definition revisions :: "uuid \<Rightarrow> nat \<Rightarrow> corpus \<Rightarrow> document_revision list" where
  "revisions document_id limit db =
    take limit (sort_by (\<lambda>a b. r_created_at b \<le> r_created_at a)
      (filter (\<lambda>r. r_document_id r = document_id) (doc_revisions db)))"

definition set_revision_faithfulness :: "uuid \<Rightarrow> string \<Rightarrow> corpus \<Rightarrow> corpus" where
  "set_revision_faithfulness revision_id verdict db =
    db\<lparr> doc_revisions := update_where (\<lambda>r. r_id r = revision_id) (\<lambda>r. r\<lparr> r_faithfulness := Some verdict \<rparr>)
          (doc_revisions db) \<rparr>"

definition is_pending :: "document_revision \<Rightarrow> bool" where
  "is_pending r = (r_policy_decision r = RP_NeedsReview \<and> r_reviewed_by r = None)"

definition pending_revisions :: "corpus \<Rightarrow> document_revision list" where
  "pending_revisions db =
    sort_by (\<lambda>a b. r_created_at a \<le> r_created_at b) (filter is_pending (doc_revisions db))"

definition approve_revision :: "session \<Rightarrow> instant \<Rightarrow> uuid \<Rightarrow> uuid \<Rightarrow> instant \<Rightarrow> corpus \<Rightarrow> bool \<times> corpus" where
  "approve_revision ses now revision_id reviewer signed db =
    (case lookup r_id revision_id (filter (\<lambda>r. r_reviewed_by r = None) (doc_revisions db)) of
       None \<Rightarrow> (False, db)
     | Some r \<Rightarrow>
         (case get_document ses (r_document_id r) db of
            None \<Rightarrow> (False, db)
          | Some d \<Rightarrow>
              (let cur_created = (case d_current_revision d of
                      None \<Rightarrow> None
                    | Some k \<Rightarrow> map_option r_created_at (lookup r_id k (doc_revisions db)))
               in if (case cur_created of Some cur \<Rightarrow> r_created_at r < cur | None \<Rightarrow> False) then (False, db)
                  else (True, db\<lparr>
                    doc_revisions := update_where (\<lambda>x. r_id x = revision_id \<and> r_reviewed_by x = None)
                      (\<lambda>x. x\<lparr> r_reviewed_by := Some reviewer, r_published_at := Some signed,
                              r_policy_decision := RP_AutoPublished \<rparr>) (doc_revisions db),
                    documents := update_where (\<lambda>x. sees_document ses x \<and> d_id x = d_id d)
                      (\<lambda>x. x\<lparr> d_current_revision := Some revision_id, d_status := DS_Published,
                              d_updated_at := now \<rparr>) (documents db) \<rparr>))))"

section \<open>Marking a page dirty\<close>

lemma touch_dirty_sel [simp]:
  "d_id (touch_dirty now d) = d_id d" "d_dirty_at (touch_dirty now d) \<noteq> None"
  "d_updated_at (touch_dirty now d) = now" "d_status (touch_dirty now d) = d_status d"
  "d_current_revision (touch_dirty now d) = d_current_revision d"
  by (simp_all add: touch_dirty_def split: option.splits)

declare touch_dirty_sel(2) [simp del]

lemma touch_dirty_sticky: "d_dirty_at d = Some t \<Longrightarrow> d_dirty_at (touch_dirty now d) = Some t"
  by (simp add: touch_dirty_def)

lemma cites_list_ex: "list_ex (\<lambda>(doc, m). doc = k \<and> m = mem) (doc_deps db) \<longleftrightarrow> cites db k mem"
  by (auto simp: cites_def list_ex_iff)

lemma mark_dirty_for_memory_documents:
  "documents (snd (mark_dirty_for_memory now ses mem db)) =
    update_where (\<lambda>d. sees_document ses d \<and> cites db (d_id d) mem) (touch_dirty now) (documents db)"
  by (simp add: mark_dirty_for_memory_def Let_def cites_list_ex)

lemma mark_dirty_for_memory_frame [simp]:
  "memories (snd (mark_dirty_for_memory now ses mem db)) = memories db"
  "promotions (snd (mark_dirty_for_memory now ses mem db)) = promotions db"
  "contradictions (snd (mark_dirty_for_memory now ses mem db)) = contradictions db"
  "doc_deps (snd (mark_dirty_for_memory now ses mem db)) = doc_deps db"
  "doc_revisions (snd (mark_dirty_for_memory now ses mem db)) = doc_revisions db"
  "isolated_projects (snd (mark_dirty_for_memory now ses mem db)) = isolated_projects db"
  "map d_id (documents (snd (mark_dirty_for_memory now ses mem db))) = map d_id (documents db)"
  by (simp_all add: mark_dirty_for_memory_def Let_def)

lemma mark_dirty_for_memory_keys [keeps]:
  "keys_ok db \<Longrightarrow> keys_ok (snd (mark_dirty_for_memory now ses mem db))"
  by (simp add: keys_ok_def)

lemma sees_document_touch [simp]: "sees_document ses (touch_dirty now d) = sees_document ses d"
  by (simp add: sees_document_def touch_dirty_def)

definition dirty :: "corpus \<Rightarrow> uuid \<Rightarrow> bool" where
  "dirty db k \<longleftrightarrow> (\<exists>d. document_at db k = Some d \<and> d_dirty_at d \<noteq> None)"

lemma mark_dirty_for_memory_marks:
  assumes "document_at db k = Some d" "sees_document ses d" "cites db k mem"
  shows "dirty (snd (mark_dirty_for_memory now ses mem db)) k"
proof -
  have "d_id d = k" using assms(1) lookup_SomeD by (fastforce simp: document_at_def)
  then show ?thesis
    using assms
    by (simp add: dirty_def document_at_def mark_dirty_for_memory_documents lookup_update_where touch_dirty_sel(2) del: not_None_eq)
qed

lemma document_at_update:
  assumes "documents db' = update_where p f (documents db)" "\<And>d. d_id (f d) = d_id d"
  shows "document_at db' k = map_option (\<lambda>d. if p d then f d else d) (document_at db k)"
  using assms by (simp add: document_at_def lookup_update_where)

lemma dirty_update:
  assumes "documents db' = update_where p f (documents db)" "\<And>d. d_id (f d) = d_id d"
    "\<And>d. d_dirty_at d \<noteq> None \<Longrightarrow> p d \<Longrightarrow> d_dirty_at (f d) \<noteq> None" "dirty db k"
  shows "dirty db' k"
proof -
  obtain d where d: "document_at db k = Some d" "d_dirty_at d \<noteq> None" using assms(4) by (auto simp: dirty_def)
  then have "document_at db' k = Some (if p d then f d else d)"
    using document_at_update [OF assms(1,2)] by simp
  moreover have "d_dirty_at (if p d then f d else d) \<noteq> None" using d(2) assms(3) by simp
  ultimately show ?thesis unfolding dirty_def by blast
qed

lemma mark_dirty_for_memory_keeps_dirty: "dirty db k \<Longrightarrow> dirty (snd (mark_dirty_for_memory now ses mem db)) k"
  by (rule dirty_update [OF mark_dirty_for_memory_documents]) (simp_all add: touch_dirty_sel(2) del: not_None_eq)

lemma mark_dirty_for_memory_only:
  assumes "document_at db k = Some d" "\<not> (sees_document ses d \<and> cites db k mem)"
  shows "document_at (snd (mark_dirty_for_memory now ses mem db)) k = Some d"
proof -
  have "d_id d = k" using assms(1) lookup_SomeD by (fastforce simp: document_at_def)
  then show ?thesis
    using assms by (auto simp: document_at_def mark_dirty_for_memory_documents lookup_update_where)
qed

section \<open>Composition results\<close>

lemma fold_deps:
  "set (fold (\<lambda>m. insert_or_ignore (\<lambda>e. e) (k, m)) ms deps) = Pair k ` set ms \<union> set deps"
proof (induction ms arbitrary: deps)
  case (Cons m ms)
  have "set (insert_or_ignore (\<lambda>e. e) (k, m) deps) = insert (k, m) (set deps)"
    using keys_insert_or_ignore [of "\<lambda>e. e" "(k, m)" deps] by simp
  then show ?case using Cons by auto
qed simp

lemma fold_deps_distinct:
  "distinct deps \<Longrightarrow> distinct (fold (\<lambda>m. insert_or_ignore (\<lambda>e. e) (k, m)) ms deps)"
proof (induction ms arbitrary: deps)
  case (Cons m ms)
  then show ?case using distinct_insert_or_ignore [of "\<lambda>e. e" deps "(k, m)"] by simp
qed simp

lemma insert_revision_deps:
  "cites (insert_revision now ses r db) k mem \<longleftrightarrow>
    (if k = nr_document_id r then mem \<in> set (nr_composed_from r) else cites db k mem)"
  by (auto simp: cites_def insert_revision_def Let_def fold_deps)

lemma insert_revision_document:
  assumes "document_at db (nr_document_id r) = Some d" "sees_document ses d"
  shows "\<exists>d'. document_at (insert_revision now ses r db) (nr_document_id r) = Some d' \<and>
    d_dirty_at d' = (case nr_claimed_updated_at r of
        None \<Rightarrow> None | Some t \<Rightarrow> if d_updated_at d = t then None else d_dirty_at d) \<and>
    d_current_revision d' = (if nr_policy_decision r = RP_AutoPublished then Some (nr_id r) else d_current_revision d) \<and>
    d_status d' = (if nr_policy_decision r = RP_AutoPublished then DS_Published else d_status d) \<and>
    dr_compose_attempts d' = 0 \<and> dr_compose_next_at d' = None"
proof -
  have "d_id d = nr_document_id r" using assms(1) lookup_SomeD by (fastforce simp: document_at_def)
  then show ?thesis
    using assms by (auto simp: document_at_def insert_revision_def Let_def lookup_update_where)
qed

lemma insert_revision_keys [keeps]:
  assumes "keys_ok db" "nr_id r \<notin> r_id ` set (doc_revisions db)"
  shows "keys_ok (insert_revision now ses r db)"
  using assms by (auto simp: keys_ok_def insert_revision_def Let_def delete_where_def intro!: fold_deps_distinct)

text \<open>
  The compare-and-swap on \<open>updated_at\<close>: a change that lands between the claim of a page and the
  write of its revision leaves the page dirty, provided the clock moved.
\<close>

lemma mid_compose_change_survives:
  assumes doc: "document_at db k = Some d" "sees_document ses d"
    and r: "nr_document_id r = k" "nr_claimed_updated_at r = Some (d_updated_at d)"
    and change: "cites db k mem" "sees_document ses' d" "now \<noteq> d_updated_at d"
  shows "dirty (insert_revision now' ses r (snd (mark_dirty_for_memory now ses' mem db))) k"
proof -
  let ?db = "snd (mark_dirty_for_memory now ses' mem db)"
  have id: "d_id d = k" using doc(1) lookup_SomeD by (fastforce simp: document_at_def)
  have doc': "document_at ?db k = Some (touch_dirty now d)"
    using doc change id by (simp add: document_at_def mark_dirty_for_memory_documents lookup_update_where)
  obtain d' where "document_at (insert_revision now' ses r ?db) k = Some d'"
      "d_dirty_at d' = d_dirty_at (touch_dirty now d)"
    using insert_revision_document [of ?db r "touch_dirty now d" ses now'] doc' doc(2) r change(3) by auto
  then show ?thesis unfolding dirty_def by (metis touch_dirty_sel(2))
qed

section \<open>The backoff of a failing page\<close>

lemma compose_delay_le: "compose_delay b m n \<le> m"
  by (simp add: compose_delay_def)

lemma compose_delay_mono: "0 \<le> b \<Longrightarrow> i \<le> j \<Longrightarrow> compose_delay b m i \<le> compose_delay b m j"
  unfolding compose_delay_def
  by (intro min.mono mult_left_mono power_increasing) auto

lemma record_compose_failure_documents:
  "documents (snd (record_compose_failure now ses k b m db)) =
    update_where (\<lambda>d. sees_document ses d \<and> d_id d = k)
      (\<lambda>d. d\<lparr> dr_compose_attempts := dr_compose_attempts d + 1,
              dr_compose_next_at := Some (now + compose_delay b m (dr_compose_attempts d)),
              d_updated_at := now \<rparr>) (documents db)"
  by (simp add: record_compose_failure_def Let_def)

lemma record_compose_failure_stays_dirty:
  assumes "dirty db k"
  shows "dirty (snd (record_compose_failure now ses k' b m db)) k"
  by (rule dirty_update [OF record_compose_failure_documents _ _ assms]) simp_all

lemma dirty_documents_eligible:
  assumes "d \<in> set (dirty_documents now ses n db)"
  shows "d \<in> set (documents db)" "sees_document ses d" "d_dirty_at d \<noteq> None" "d_status d \<noteq> DS_Archived"
    "\<forall>t. dr_compose_next_at d = Some t \<longrightarrow> t \<le> now"
  using assms set_take_subset by (fastforce simp: dirty_documents_def split: option.splits)+

section \<open>Review\<close>

lemma get_document_SomeD:
  assumes "get_document ses k db = Some d"
  shows "d \<in> set (documents db)" "sees_document ses d" "d_id d = k"
  using assms lookup_SomeD by (fastforce simp: get_document_def)+

lemma approve_revision_False: "fst (approve_revision ses now k u signed db) = False \<Longrightarrow> snd (approve_revision ses now k u signed db) = db"
  by (auto simp: approve_revision_def Let_def split: option.splits if_splits)

lemma approve_revision_True:
  assumes "keys_ok db" "approve_revision ses now k u signed db = (True, db')"
  obtains r d where "revision_at db k = Some r" "r_reviewed_by r = None"
    "document_at db (r_document_id r) = Some d" "sees_document ses d"
    "\<forall>c rc. d_current_revision d = Some c \<longrightarrow> revision_at db c = Some rc \<longrightarrow> r_created_at rc \<le> r_created_at r"
    "document_at db' (r_document_id r) =
       Some (d\<lparr> d_current_revision := Some k, d_status := DS_Published, d_updated_at := now \<rparr>)"
    "revision_at db' k =
       Some (r\<lparr> r_reviewed_by := Some u, r_published_at := Some signed, r_policy_decision := RP_AutoPublished \<rparr>)"
proof -
  obtain r where r: "lookup r_id k (filter (\<lambda>r. r_reviewed_by r = None) (doc_revisions db)) = Some r"
    using assms(2) by (auto simp: approve_revision_def split: option.splits)
  then have r': "r \<in> set (doc_revisions db)" "r_id r = k" "r_reviewed_by r = None"
    using lookup_SomeD by fastforce+
  obtain d where d: "get_document ses (r_document_id r) db = Some d"
    using assms(2) r by (auto simp: approve_revision_def split: option.splits)
  note d' = get_document_SomeD [OF d]
  have rev: "revision_at db k = Some r"
    using r' keys_okD(4) [OF assms(1)] by (simp add: revision_at_def lookup_Some_iff)
  have doc: "document_at db (r_document_id r) = Some d"
    using d' keys_okD(3) [OF assms(1)] by (simp add: document_at_def lookup_Some_iff)
  have newer: "\<forall>c rc. d_current_revision d = Some c \<longrightarrow> revision_at db c = Some rc \<longrightarrow> r_created_at rc \<le> r_created_at r"
    using assms(2) r d by (auto simp: approve_revision_def revision_at_def Let_def split: if_splits)
  have db': "db' = db\<lparr>
      doc_revisions := update_where (\<lambda>x. r_id x = k \<and> r_reviewed_by x = None)
        (\<lambda>x. x\<lparr> r_reviewed_by := Some u, r_published_at := Some signed, r_policy_decision := RP_AutoPublished \<rparr>)
        (doc_revisions db),
      documents := update_where (\<lambda>x. sees_document ses x \<and> d_id x = d_id d)
        (\<lambda>x. x\<lparr> d_current_revision := Some k, d_status := DS_Published, d_updated_at := now \<rparr>) (documents db) \<rparr>"
    using assms(2) r d by (auto simp: approve_revision_def Let_def split: if_splits)
  have dr': "document_at db' (r_document_id r) =
      Some (d\<lparr> d_current_revision := Some k, d_status := DS_Published, d_updated_at := now \<rparr>)"
    using doc d' unfolding db' by (simp add: document_at_def lookup_update_where)
  have "revision_at db' k =
      Some (r\<lparr> r_reviewed_by := Some u, r_published_at := Some signed, r_policy_decision := RP_AutoPublished \<rparr>)"
    using rev r' unfolding db' by (simp add: revision_at_def lookup_update_where)
  with rev r'(3) doc d'(2) newer dr' show thesis using that by blast
qed

lemma pending_revisions_set: "set (pending_revisions db) = {r \<in> set (doc_revisions db). is_pending r}"
  by (simp add: pending_revisions_def)

lemma update_pinned_composed:
  "s \<in> set (doc_sections db) \<Longrightarrow> ds_mode s = SM_Composed \<Longrightarrow> s \<in> set (doc_sections (snd (update_pinned k c e db)))"
  by (force simp: update_pinned_def Let_def set_update_where)

lemma update_pinned_conflict:
  "\<not> fst (update_pinned k c e db) \<Longrightarrow> snd (update_pinned k c e db) = db"
  by (simp add: update_pinned_def Let_def rows_affected_zero update_where_none)

section \<open>Properties\<close>



text \<open>Approving a revision signs it and makes it current and published, and it never moves a page
  backwards: it applies only to an unsigned revision at least as new as the current one; when it does not
  apply it changes nothing.\<close>

theorem approve_revision_spec:
  assumes "keys_ok db" and "approve_revision ses now k u signed db = (ok, db')"
  shows "(\<not> ok \<longrightarrow> db' = db) \<and>
    (ok \<longrightarrow> (\<exists>r d. revision_at db k = Some r \<and> r_reviewed_by r = None \<and>
      document_at db (r_document_id r) = Some d \<and> sees_document ses d \<and>
      (\<forall>c rc. d_current_revision d = Some c \<longrightarrow> revision_at db c = Some rc \<longrightarrow> r_created_at rc \<le> r_created_at r) \<and>
      document_at db' (r_document_id r) =
        Some (d\<lparr> d_current_revision := Some k, d_status := DS_Published, d_updated_at := now \<rparr>) \<and>
      revision_at db' k =
        Some (r\<lparr> r_reviewed_by := Some u, r_published_at := Some signed, r_policy_decision := RP_AutoPublished \<rparr>)))"
proof (intro conjI impI)
  show "db' = db" if "\<not> ok" using approve_revision_False [of ses now k u signed db] assms(2) that by simp
  assume ok
  then have "approve_revision ses now k u signed db = (True, db')" using assms(2) by simp
  from approve_revision_True [OF assms(1) this] show "\<exists>r d. revision_at db k = Some r \<and> r_reviewed_by r = None \<and>
      document_at db (r_document_id r) = Some d \<and> sees_document ses d \<and>
      (\<forall>c rc. d_current_revision d = Some c \<longrightarrow> revision_at db c = Some rc \<longrightarrow> r_created_at rc \<le> r_created_at r) \<and>
      document_at db' (r_document_id r) =
        Some (d\<lparr> d_current_revision := Some k, d_status := DS_Published, d_updated_at := now \<rparr>) \<and>
      revision_at db' k =
        Some (r\<lparr> r_reviewed_by := Some u, r_published_at := Some signed, r_policy_decision := RP_AutoPublished \<rparr>)"
    by metis
qed

definition example_reviewed_corpus :: corpus where
  "example_reviewed_corpus = example_corpus\<lparr> doc_revisions :=
    [\<lparr> r_id = 70, r_document_id = 50, r_content_md = ''x'', r_composed_from = [1], r_trigger = ''sweep'',
       r_policy_decision = RP_NeedsReview, r_reviewed_by = None, r_published_at = None, r_created_at = 15,
       r_faithfulness = None \<rparr>] \<rparr>"

lemma approve_revision_spec_witness:
  "\<exists>r d. revision_at example_reviewed_corpus 70 = Some r \<and>
     document_at example_reviewed_corpus (r_document_id r) = Some d \<and>
     document_at (snd (approve_revision example_session 20 70 5 20 example_reviewed_corpus)) (r_document_id r) =
       Some (d\<lparr> d_current_revision := Some 70, d_status := DS_Published, d_updated_at := 20 \<rparr>)"
proof -
  have k: "keys_ok example_reviewed_corpus" by code_simp
  have "approve_revision example_session 20 70 5 20 example_reviewed_corpus =
      (True, snd (approve_revision example_session 20 70 5 20 example_reviewed_corpus))" by code_simp
  from approve_revision_spec [OF k this] show ?thesis by blast
qed

end
