(* ===== verification/Governance.thy ===== *)
theory Governance
  imports Documents
begin

text \<open>
  \<open>brainiac-store/src/governance.rs\<close>: sources and provenance, the status transitions of a memory, and
  contradictions.  A fresh \<open>Uuid::new_v4()\<close> is an argument.  \<open>FOR UPDATE\<close> makes each function one
  atomic step.
\<close>

section \<open>Sources, provenance and promotions\<close>

definition insert_source :: "source_row \<Rightarrow> corpus \<Rightarrow> corpus option" where
  "insert_source s db =
    (if list_ex (\<lambda>r. so_id r = so_id s) (sources db) then None
     else Some (db\<lparr> sources := sources db @ [s\<lparr> so_idempotency_key := None \<rparr>] \<rparr>))"

text \<open>\<open>ON CONFLICT (org_id, idempotency_key)\<close>: the first claim of a key wins.\<close>

definition insert_source_idempotent :: "source_row \<Rightarrow> string \<Rightarrow> corpus \<Rightarrow> uuid option \<times> corpus" where
  "insert_source_idempotent s key db =
    (if list_ex (\<lambda>r. so_org_id r = so_org_id s \<and> so_idempotency_key r = Some key) (sources db)
     then (None, db)
     else (Some (so_id s), db\<lparr> sources := sources db @ [s\<lparr> so_idempotency_key := Some key \<rparr>] \<rparr>))"

definition org_has_other_sources :: "uuid \<Rightarrow> uuid \<Rightarrow> corpus \<Rightarrow> bool" where
  "org_has_other_sources org_id source_id db =
    list_ex (\<lambda>r. so_org_id r = org_id \<and> so_id r \<noteq> source_id) (sources db)"

definition sees_source :: "corpus \<Rightarrow> session \<Rightarrow> source_row \<Rightarrow> bool" where
  "sees_source db ses s =
    (so_org_id s = p_org_id (s_principal ses) \<and>
     (s_worker ses \<or> so_project_id s = None \<or> so_project_id s = p_project_id (s_principal ses)
      \<or> (case so_project_id s of Some p \<Rightarrow> p \<notin> set (isolated_projects db) | None \<Rightarrow> True)))"

definition keyed_source_id :: "session \<Rightarrow> string \<Rightarrow> corpus \<Rightarrow> uuid option" where
  "keyed_source_id ses key db =
    map_option so_id (find (\<lambda>r. sees_source db ses r \<and> so_idempotency_key r = Some key) (sources db))"

definition get_source_text ::
  "session \<Rightarrow> uuid \<Rightarrow> corpus \<Rightarrow> (uuid option \<times> string \<times> string \<times> uuid option) option" where
  "get_source_text ses k db =
    map_option (\<lambda>r. (so_team_id r, so_kind r, so_raw_text r, so_project_id r))
      (lookup so_id k (filter (sees_source db ses) (sources db)))"

definition insert_provenance :: "provenance_row \<Rightarrow> actor_kind \<Rightarrow> corpus \<Rightarrow> corpus" where
  "insert_provenance p actor db =
    db\<lparr> provenances := provenances db @ [p\<lparr> pv_actor_kind := actor_kind_as_str actor \<rparr>] \<rparr>"

definition insert_promotion ::
  "uuid \<Rightarrow> uuid \<Rightarrow> uuid \<Rightarrow> memory_status \<Rightarrow> memory_status \<Rightarrow> policy_decision \<Rightarrow> string \<Rightarrow> corpus \<Rightarrow> corpus" where
  "insert_promotion new_id org_id memory_id from to decision rl db =
    db\<lparr> promotions := promotions db @
      [\<lparr> pr_id = new_id, pr_org_id = org_id, pr_memory_id = memory_id,
         pr_from_status = memory_status_as_str from, pr_to_status = memory_status_as_str to,
         pr_policy_decision = policy_decision_as_str decision, pr_policy_rule = rl,
         pr_reviewer_id = None, pr_reviewed_at = None \<rparr>] \<rparr>"

section \<open>Status transitions\<close>

text \<open>An \<open>UPDATE memories ... WHERE id = $1\<close> under the session's policies.\<close>

definition update_memory :: "session \<Rightarrow> uuid \<Rightarrow> (mem_row \<Rightarrow> mem_row) \<Rightarrow> corpus \<Rightarrow> corpus" where
  "update_memory ses k f db =
    db\<lparr> memories := update_where (\<lambda>m. sees_memory db ses m \<and> m_id m = k) f (memories db) \<rparr>"

definition set_memory_status :: "instant \<Rightarrow> session \<Rightarrow> uuid \<Rightarrow> memory_status \<Rightarrow> corpus \<Rightarrow> bool \<times> corpus" where
  "set_memory_status now ses memory_id status db =
    (let changed = (rows_affected (\<lambda>m. sees_memory db ses m \<and> m_id m = memory_id) (memories db) = 1);
         db' = update_memory ses memory_id (\<lambda>m. m\<lparr> m_status := status, mr_updated_at := now \<rparr>) db
     in if \<not> changed then (False, db')
        else (True, snd (mark_dirty_for_memory now ses memory_id db')))"

definition applied_decision :: "uuid option \<Rightarrow> string" where
  "applied_decision applied_by = (if applied_by \<noteq> None then ''approved'' else ''auto_approved'')"

definition audit_deprecation ::
  "instant \<Rightarrow> uuid \<Rightarrow> uuid \<Rightarrow> uuid \<Rightarrow> memory_status \<Rightarrow> uuid option \<Rightarrow> string \<Rightarrow> promotion_row" where
  "audit_deprecation now new_id org_id memory_id from applied_by rl =
    \<lparr> pr_id = new_id, pr_org_id = org_id, pr_memory_id = memory_id,
      pr_from_status = memory_status_as_str from, pr_to_status = ''deprecated'',
      pr_policy_decision = applied_decision applied_by, pr_policy_rule = rl,
      pr_reviewer_id = applied_by, pr_reviewed_at = Some now \<rparr>"

text \<open>The pair of rows locked in id order, and the writes once the guards have passed.\<close>

definition lock_pair :: "session \<Rightarrow> uuid \<Rightarrow> uuid \<Rightarrow> corpus \<Rightarrow> mem_row list" where
  "lock_pair ses loser winner db =
    sort_by (\<lambda>a b. m_id a \<le> m_id b)
      (filter (\<lambda>m. sees_memory db ses m \<and> (m_id m = loser \<or> m_id m = winner)) (memories db))"

definition retire :: "instant \<Rightarrow> uuid \<Rightarrow> mem_row \<Rightarrow> mem_row" where
  "retire now winner m =
    m\<lparr> m_valid_to := Some now, m_superseded_by := Some winner, m_status := MS_Deprecated, mr_updated_at := now \<rparr>"

definition write_supersession ::
  "instant \<Rightarrow> session \<Rightarrow> uuid \<Rightarrow> uuid \<Rightarrow> uuid \<Rightarrow> uuid \<Rightarrow> memory_status \<Rightarrow> uuid option \<Rightarrow> string \<Rightarrow> corpus \<Rightarrow> corpus" where
  "write_supersession now ses new_id org_id loser winner from_status applied_by rl db =
    (let db1 = db\<lparr> memories := update_where
               (\<lambda>m. sees_memory db ses m \<and> m_id m = loser \<and> m_superseded_by m = None) (retire now winner) (memories db) \<rparr>;
         db2 = db1\<lparr> promotions := promotions db1 @
               [audit_deprecation now new_id org_id loser from_status applied_by rl] \<rparr>;
         db3 = snd (mark_dirty_for_memory now ses loser db2)
     in snd (mark_dirty_for_memory now ses winner db3))"

definition apply_supersession ::
  "instant \<Rightarrow> session \<Rightarrow> uuid \<Rightarrow> uuid \<Rightarrow> uuid \<Rightarrow> uuid \<Rightarrow> uuid option \<Rightarrow> string \<Rightarrow> corpus \<Rightarrow> bool \<times> corpus" where
  "apply_supersession now ses new_id org_id loser winner applied_by rl db =
    (if loser = winner then (False, db)
     else case find (\<lambda>m. m_id m = loser) (lock_pair ses loser winner db) of
       None \<Rightarrow> (False, db)
     | Some loser_row \<Rightarrow>
         (if m_superseded_by loser_row \<noteq> None then (False, db)
          else case find (\<lambda>m. m_id m = winner) (lock_pair ses loser winner db) of
            None \<Rightarrow> (False, db)
          | Some winner_row \<Rightarrow>
              (if m_superseded_by winner_row = Some loser then (False, db)
               else (True, write_supersession now ses new_id org_id loser winner (m_status loser_row) applied_by rl db))))"

definition apply_deprecation ::
  "instant \<Rightarrow> session \<Rightarrow> uuid \<Rightarrow> uuid \<Rightarrow> uuid \<Rightarrow> uuid option \<Rightarrow> string \<Rightarrow> corpus \<Rightarrow> bool \<times> corpus" where
  "apply_deprecation now ses new_id org_id memory_id applied_by rl db =
    (case lookup m_id memory_id (filter (sees_memory db ses) (memories db)) of
       None \<Rightarrow> (False, db)
     | Some row \<Rightarrow>
         (if m_status row = MS_Deprecated \<or> m_superseded_by row \<noteq> None then (False, db)
          else let p = (\<lambda>m. sees_memory db ses m \<and> m_id m = memory_id \<and> m_status m \<noteq> MS_Deprecated);
                   changed = rows_affected p (memories db);
                   db1 = db\<lparr> memories := update_where p
                     (\<lambda>m. m\<lparr> m_status := MS_Deprecated, m_valid_to := Some now, mr_updated_at := now \<rparr>) (memories db) \<rparr>
               in if changed \<noteq> 1 then (False, db1)
                  else let db2 = db1\<lparr> promotions := promotions db1 @
                           [audit_deprecation now new_id org_id memory_id (m_status row) applied_by rl] \<rparr>
                       in (True, snd (mark_dirty_for_memory now ses memory_id db2))))"

section \<open>Contradictions\<close>

record contradiction_flag =
  cf_contradiction_id :: uuid
  cf_counterpart_id :: uuid

definition visible_id :: "corpus \<Rightarrow> session \<Rightarrow> uuid \<Rightarrow> bool" where
  "visible_id db ses k = list_ex (\<lambda>m. m_id m = k \<and> sees_memory db ses m) (memories db)"

text \<open>The map of the source, read at one key: the flags of a result memory in row order.\<close>

definition open_pairs :: "session \<Rightarrow> uuid list \<Rightarrow> corpus \<Rightarrow> contradiction_row list" where
  "open_pairs ses ids db =
    filter (\<lambda>c. c_org_id c = p_org_id (s_principal ses) \<and> visible_id db ses (c_memory_a c)
              \<and> visible_id db ses (c_memory_b c) \<and> c_status c = ''open''
              \<and> (c_memory_a c \<in> set ids \<or> c_memory_b c \<in> set ids)) (contradictions db)"

definition open_contradictions_for :: "session \<Rightarrow> uuid list \<Rightarrow> corpus \<Rightarrow> uuid \<Rightarrow> contradiction_flag list" where
  "open_contradictions_for ses ids db k =
    (if k \<notin> set ids then []
     else concat (map (\<lambda>c.
       (if c_memory_a c = k then [\<lparr> cf_contradiction_id = c_id c, cf_counterpart_id = c_memory_b c \<rparr>] else [])
       @ (if c_memory_b c = k then [\<lparr> cf_contradiction_id = c_id c, cf_counterpart_id = c_memory_a c \<rparr>] else []))
       (open_pairs ses ids db)))"

definition CONTRADICTION_MOOT :: string where "CONTRADICTION_MOOT = ''moot''"
definition SIBLING_CARRY_FORWARD :: string where "SIBLING_CARRY_FORWARD = ''sibling_carry_forward''"

record settled_sibling =
  ss_contradiction_id :: uuid
  ss_counterpart_id :: uuid
  ss_carried_forward :: "uuid option"

definition standing :: "corpus \<Rightarrow> session \<Rightarrow> mem_row \<Rightarrow> bool" where
  "standing db ses m =
    (sees_memory db ses m \<and> m_superseded_by m = None \<and> m_status m \<noteq> MS_Deprecated \<and> mr_deleted_at m = None)"

definition sees_contradiction :: "session \<Rightarrow> contradiction_row \<Rightarrow> bool" where
  "sees_contradiction ses c = (c_org_id c = p_org_id (s_principal ses))"

definition open_between :: "uuid \<Rightarrow> uuid \<Rightarrow> contradiction_row \<Rightarrow> bool" where
  "open_between a b c =
    (c_status c = ''open'' \<and>
     ((c_memory_a c = a \<and> c_memory_b c = b) \<or> (c_memory_a c = b \<and> c_memory_b c = a)))"

definition carry_forward ::
  "session \<Rightarrow> uuid \<Rightarrow> uuid \<Rightarrow> uuid \<Rightarrow> uuid \<Rightarrow> uuid \<Rightarrow> uuid \<Rightarrow> corpus \<Rightarrow> uuid option \<times> corpus" where
  "carry_forward ses new_id org_id winner counterpart from_contradiction deprecated db =
    (if counterpart = winner then (None, db)
     else if rows_affected (\<lambda>m. (m_id m = winner \<or> m_id m = counterpart) \<and> standing db ses m) (memories db) \<noteq> 2
       then (None, db)
     else if list_ex (\<lambda>c. sees_contradiction ses c \<and> open_between winner counterpart c) (contradictions db)
       then (None, db)
     else (Some new_id, db\<lparr> contradictions := contradictions db @
       [\<lparr> c_id = new_id, c_org_id = org_id, c_memory_a = winner, c_memory_b = counterpart,
          c_detected_by = SIBLING_CARRY_FORWARD, c_status = ''open'', c_resolved_by = None, c_resolved_at = None,
          c_note = Some (NInherited from_contradiction counterpart deprecated winner) \<rparr>] \<rparr>))"

definition is_sibling :: "session \<Rightarrow> uuid \<Rightarrow> uuid \<Rightarrow> uuid \<Rightarrow> contradiction_row \<Rightarrow> bool" where
  "is_sibling ses org_id deprecated resolved c =
    (sees_contradiction ses c \<and> c_org_id c = org_id \<and> c_status c = ''open'' \<and> c_id c \<noteq> resolved
     \<and> (c_memory_a c = deprecated \<or> c_memory_b c = deprecated))"

definition moot_row :: "instant \<Rightarrow> uuid \<Rightarrow> uuid \<Rightarrow> uuid \<Rightarrow> uuid option \<Rightarrow> contradiction_row \<Rightarrow> contradiction_row" where
  "moot_row now deprecated winner resolved resolver c =
    c\<lparr> c_status := CONTRADICTION_MOOT, c_resolved_by := resolver, c_resolved_at := Some now,
       c_note := Some (NMoot deprecated winner resolved (c_note c)) \<rparr>"

text \<open>The loop over the settled rows.  \<open>new_id\<close> gives the fresh id the step for a row would use.\<close>

fun carry_all ::
  "session \<Rightarrow> (uuid \<Rightarrow> uuid) \<Rightarrow> uuid \<Rightarrow> uuid \<Rightarrow> uuid \<Rightarrow> contradiction_row list \<Rightarrow> corpus \<Rightarrow> settled_sibling list \<times> corpus" where
  "carry_all ses new_id org_id deprecated winner [] db = ([], db)"
| "carry_all ses new_id org_id deprecated winner (c # cs) db =
    (let counterpart = (if c_memory_a c = deprecated then c_memory_b c else c_memory_a c);
         (carried, db1) = carry_forward ses (new_id (c_id c)) org_id winner counterpart (c_id c) deprecated db;
         (out, db2) = carry_all ses new_id org_id deprecated winner cs db1
     in (\<lparr> ss_contradiction_id = c_id c, ss_counterpart_id = counterpart, ss_carried_forward = carried \<rparr> # out, db2))"

definition settle_siblings_of_superseded ::
  "instant \<Rightarrow> session \<Rightarrow> (uuid \<Rightarrow> uuid) \<Rightarrow> uuid \<Rightarrow> uuid \<Rightarrow> uuid \<Rightarrow> uuid \<Rightarrow> uuid option \<Rightarrow> corpus
    \<Rightarrow> settled_sibling list \<times> corpus" where
  "settle_siblings_of_superseded now ses new_id org_id deprecated winner resolved resolver db =
    (let rows = filter (is_sibling ses org_id deprecated resolved) (contradictions db);
         db1 = db\<lparr> contradictions := update_where (is_sibling ses org_id deprecated resolved)
                     (moot_row now deprecated winner resolved resolver) (contradictions db) \<rparr>
     in carry_all ses new_id org_id deprecated winner rows db1)"

definition insert_contradiction :: "uuid \<Rightarrow> uuid \<Rightarrow> uuid \<Rightarrow> uuid \<Rightarrow> string \<Rightarrow> string \<Rightarrow> corpus \<Rightarrow> corpus" where
  "insert_contradiction new_id org_id a b detected_by suggested db =
    db\<lparr> contradictions := contradictions db @
      [\<lparr> c_id = new_id, c_org_id = org_id, c_memory_a = a, c_memory_b = b, c_detected_by = detected_by,
         c_status = ''open'', c_resolved_by = None, c_resolved_at = None, c_note = Some (NText suggested) \<rparr>] \<rparr>"

section \<open>The evidence chain\<close>

record provenance_view =
  pw_provenance :: "provenance_row option"
  pw_source_kind :: "string option"
  pw_source_text :: "string option"
  pw_valid_from :: "instant option"
  pw_valid_to :: "instant option"
  pw_status :: memory_status

definition provenance_for_memory :: "session \<Rightarrow> uuid \<Rightarrow> corpus \<Rightarrow> provenance_view option" where
  "provenance_for_memory ses k db =
    (case lookup m_id k (filter (sees_memory db ses) (memories db)) of
       None \<Rightarrow> None
     | Some m \<Rightarrow>
         (let p = (case m_provenance_id m of None \<Rightarrow> None
                   | Some i \<Rightarrow> lookup pv_id i (filter (\<lambda>p. pv_org_id p = p_org_id (s_principal ses)) (provenances db)));
              s = (case p of None \<Rightarrow> None | Some pr \<Rightarrow> (case pv_source_id pr of None \<Rightarrow> None
                   | Some i \<Rightarrow> lookup so_id i (filter (sees_source db ses) (sources db))))
          in Some \<lparr> pw_provenance = p, pw_source_kind = map_option so_kind s, pw_source_text = map_option so_raw_text s,
                    pw_valid_from = m_valid_from m, pw_valid_to = m_valid_to m, pw_status = m_status m \<rparr>))"

definition provenance_refs_for :: "session \<Rightarrow> uuid list \<Rightarrow> corpus \<Rightarrow> (uuid \<times> provenance_row) list" where
  "provenance_refs_for ses ids db =
    concat (map (\<lambda>m. case m_provenance_id m of None \<Rightarrow> []
        | Some i \<Rightarrow> (case lookup pv_id i (filter (\<lambda>p. pv_org_id p = p_org_id (s_principal ses)) (provenances db)) of
            None \<Rightarrow> [] | Some p \<Rightarrow> [(m_id m, p)]))
      (filter (\<lambda>m. sees_memory db ses m \<and> m_id m \<in> set ids) (memories db)))"

section \<open>What a supersession does\<close>

lemma retire_sel [simp]:
  "m_id (retire now w m) = m_id m" "m_superseded_by (retire now w m) = Some w"
  "m_status (retire now w m) = MS_Deprecated" "m_valid_to (retire now w m) = Some now"
  "m_content (retire now w m) = m_content m" "m_org_id (retire now w m) = m_org_id m"
  "mr_deleted_at (retire now w m) = mr_deleted_at m"
  by (simp_all add: retire_def)

lemma memory_at_Some_iff:
  "keys_ok db \<Longrightarrow> memory_at db k = Some m \<longleftrightarrow> m \<in> set (memories db) \<and> m_id m = k"
  unfolding memory_at_def by (rule lookup_Some_iff) auto

lemma find_lock_pair:
  assumes "keys_ok db" "k = loser \<or> k = winner"
  shows "find (\<lambda>m. m_id m = k) (lock_pair ses loser winner db) = Some x \<longleftrightarrow>
    memory_at db k = Some x \<and> sees_memory db ses x"
proof -
  have "distinct (map m_id (lock_pair ses loser winner db))"
    using keys_okD(1) [OF assms(1)] by (simp add: lock_pair_def distinct_map_filter)
  from lookup_Some_iff [OF this, of k x] show ?thesis
    using assms by (auto simp: lookup_def lock_pair_def memory_at_Some_iff)
qed

definition supersession_guard :: "session \<Rightarrow> uuid \<Rightarrow> uuid \<Rightarrow> corpus \<Rightarrow> mem_row \<Rightarrow> mem_row \<Rightarrow> bool" where
  "supersession_guard ses loser winner db l w \<longleftrightarrow>
     loser \<noteq> winner \<and> memory_at db loser = Some l \<and> sees_memory db ses l \<and> m_superseded_by l = None \<and>
     memory_at db winner = Some w \<and> sees_memory db ses w \<and> m_superseded_by w \<noteq> Some loser"

lemma supersession_guardD:
  assumes "supersession_guard ses loser winner db l w"
  shows "loser \<noteq> winner" "memory_at db loser = Some l" "sees_memory db ses l" "m_superseded_by l = None"
     "memory_at db winner = Some w" "sees_memory db ses w" "m_superseded_by w \<noteq> Some loser"
  using assms by (simp_all add: supersession_guard_def)

lemma apply_supersession_iff:
  assumes "keys_ok db"
  shows "apply_supersession now ses i org loser winner by' rl db =
    (if \<exists>l w. supersession_guard ses loser winner db l w
     then (True, write_supersession now ses i org loser winner (m_status (the (memory_at db loser))) by' rl db)
     else (False, db))"
proof -
  note fl = find_lock_pair [OF assms, of loser loser winner ses]
    and fw = find_lock_pair [OF assms, of winner loser winner ses]
  show ?thesis
  proof (cases "\<exists>l w. supersession_guard ses loser winner db l w")
    case True
    then obtain l w where g: "supersession_guard ses loser winner db l w" by blast
    note g' = supersession_guardD [OF g]
    have "find (\<lambda>m. m_id m = loser) (lock_pair ses loser winner db) = Some l"
      "find (\<lambda>m. m_id m = winner) (lock_pair ses loser winner db) = Some w"
      using fl fw g' by blast+
    then show ?thesis using True g' by (simp add: apply_supersession_def)
  next
    case False
    then have "\<not> (loser \<noteq> winner \<and> (\<exists>l w. find (\<lambda>m. m_id m = loser) (lock_pair ses loser winner db) = Some l \<and>
        m_superseded_by l = None \<and> find (\<lambda>m. m_id m = winner) (lock_pair ses loser winner db) = Some w \<and>
        m_superseded_by w \<noteq> Some loser))"
      unfolding supersession_guard_def using fl fw by blast
    then have "apply_supersession now ses i org loser winner by' rl db = (False, db)"
      unfolding apply_supersession_def by (auto split: option.split)
    then show ?thesis unfolding if_not_P [OF False] .
  qed
qed

lemma apply_supersession_False:
  "keys_ok db \<Longrightarrow> \<not> fst (apply_supersession now ses i org loser winner by' rl db) \<Longrightarrow>
    snd (apply_supersession now ses i org loser winner by' rl db) = db"
  by (auto simp: apply_supersession_iff split: if_splits)

lemma apply_supersession_True:
  "keys_ok db \<Longrightarrow> fst (apply_supersession now ses i org loser winner by' rl db) \<Longrightarrow>
    \<exists>l w. supersession_guard ses loser winner db l w \<and>
      snd (apply_supersession now ses i org loser winner by' rl db) =
        write_supersession now ses i org loser winner (m_status l) by' rl db"
  unfolding apply_supersession_iff
  by (auto simp: supersession_guard_def split: if_splits)

lemma touch_dirty_idem [simp]: "touch_dirty now (touch_dirty now d) = touch_dirty now d"
  by (simp add: touch_dirty_def split: option.splits)

lemma write_supersession_frame [simp]:
  "promotions (write_supersession now ses i org loser winner from by' rl db) =
     promotions db @ [audit_deprecation now i org loser from by' rl]"
  "contradictions (write_supersession now ses i org loser winner from by' rl db) = contradictions db"
  "doc_deps (write_supersession now ses i org loser winner from by' rl db) = doc_deps db"
  "doc_revisions (write_supersession now ses i org loser winner from by' rl db) = doc_revisions db"
  "isolated_projects (write_supersession now ses i org loser winner from by' rl db) = isolated_projects db"
  by (simp_all add: write_supersession_def Let_def)

lemma write_supersession_documents:
  "documents (write_supersession now ses i org loser winner from by' rl db) =
     update_where (\<lambda>d. sees_document ses d \<and> (cites db (d_id d) loser \<or> cites db (d_id d) winner))
       (touch_dirty now) (documents db)"
  by (simp add: write_supersession_def Let_def mark_dirty_for_memory_documents cites_def update_where_def comp_def)
    auto

lemma write_supersession_memories:
  assumes "keys_ok db" "supersession_guard ses loser winner db l w"
  shows "memories (write_supersession now ses i org loser winner from by' rl db) =
    update_where (\<lambda>m. m_id m = loser) (retire now winner) (memories db)"
proof -
  have "m = l" if "m \<in> set (memories db)" "m_id m = loser" for m
  proof -
    have "memory_at db loser = Some m" using that memory_at_Some_iff [OF assms(1)] by blast
    then show ?thesis using supersession_guardD(2) [OF assms(2)] by simp
  qed
  then have eq: "(if sees_memory db ses m \<and> m_id m = loser \<and> m_superseded_by m = None then retire now winner m else m)
      = (if m_id m = loser then retire now winner m else m)" if "m \<in> set (memories db)" for m
    using supersession_guardD(3,4) [OF assms(2)] that by (cases "m_id m = loser") simp_all
  have "memories (write_supersession now ses i org loser winner from by' rl db) = update_where
      (\<lambda>m. sees_memory db ses m \<and> m_id m = loser \<and> m_superseded_by m = None) (retire now winner) (memories db)"
    by (simp add: write_supersession_def Let_def)
  also have "\<dots> = update_where (\<lambda>m. m_id m = loser) (retire now winner) (memories db)"
    unfolding update_where_def by (rule map_cong [OF refl]) (rule eq)
  finally show ?thesis .
qed

lemma apply_supersession_keys [keeps]:
  assumes "keys_ok db"
  shows "keys_ok (snd (apply_supersession now ses i org loser winner by' rl db))"
proof (cases "fst (apply_supersession now ses i org loser winner by' rl db)")
  case True
  then obtain l w where g: "supersession_guard ses loser winner db l w" and
    res: "snd (apply_supersession now ses i org loser winner by' rl db) =
        write_supersession now ses i org loser winner (m_status l) by' rl db"
    using apply_supersession_True [OF assms] by blast
  show ?thesis
    unfolding res keys_ok_def write_supersession_memories [OF assms g] write_supersession_documents
    using assms by (simp add: keys_ok_def)
qed (simp add: apply_supersession_False assms)

section \<open>The supersession graph\<close>

text \<open>No two memories supersede each other; with \<open>a = b\<close>, none supersedes itself.\<close>

definition no_short_cycle :: "corpus \<Rightarrow> bool" where
  "no_short_cycle db \<longleftrightarrow>
    (\<forall>a\<in>set (memories db). \<forall>b\<in>set (memories db).
       m_superseded_by a = Some (m_id b) \<longrightarrow> m_superseded_by b \<noteq> Some (m_id a))"

definition pointer :: "corpus \<Rightarrow> uuid \<Rightarrow> uuid option" where
  "pointer db k = (case memory_at db k of None \<Rightarrow> None | Some m \<Rightarrow> m_superseded_by m)"

lemma no_short_cycle_pointer:
  assumes "keys_ok db"
  shows "no_short_cycle db \<longleftrightarrow>
    (\<forall>a b. memory_at db a \<noteq> None \<longrightarrow> memory_at db b \<noteq> None \<longrightarrow> pointer db a = Some b \<longrightarrow> pointer db b \<noteq> Some a)"
proof -
  have ptr: "pointer db (m_id a) = m_superseded_by a" if "a \<in> set (memories db)" for a
  proof -
    have "memory_at db (m_id a) = Some a" using that memory_at_Some_iff [OF assms] by blast
    then show ?thesis by (simp add: pointer_def)
  qed
  have dom: "memory_at db k \<noteq> None \<longleftrightarrow> (\<exists>a\<in>set (memories db). m_id a = k)" for k
    using memory_at_Some_iff [OF assms] by (metis not_None_eq)
  show ?thesis
  proof -
    have "(\<forall>a b. memory_at db a \<noteq> None \<longrightarrow> memory_at db b \<noteq> None \<longrightarrow> pointer db a = Some b \<longrightarrow> pointer db b \<noteq> Some a)
      \<longleftrightarrow> (\<forall>a\<in>set (memories db). \<forall>b\<in>set (memories db).
            pointer db (m_id a) = Some (m_id b) \<longrightarrow> pointer db (m_id b) \<noteq> Some (m_id a))"
      unfolding dom by blast
    also have "\<dots> \<longleftrightarrow> no_short_cycle db" unfolding no_short_cycle_def using ptr by simp
    finally show ?thesis ..
  qed
qed

lemma no_short_cycle_update:
  assumes "\<forall>a b. D a \<longrightarrow> D b \<longrightarrow> f a = Some b \<longrightarrow> f b \<noteq> Some a" "f w \<noteq> Some l" "l \<noteq> w"
  shows "\<forall>a b. D a \<longrightarrow> D b \<longrightarrow> (if a = l then Some w else f a) = Some b \<longrightarrow>
    (if b = l then Some w else f b) \<noteq> Some a"
proof (intro allI impI notI)
  fix a b
  assume D: "D a" "D b" and ab: "(if a = l then Some w else f a) = Some b"
    and ba: "(if b = l then Some w else f b) = Some a"
  show False
  proof (cases "a = l")
    case True
    then have "b = w" using ab by simp
    then show False using True ba assms(2,3) by simp
  next
    case False
    then have fa: "f a = Some b" using ab by simp
    show False
    proof (cases "b = l")
      case True
      then have "a = w" using ba by simp
      then show False using fa True assms(2) by simp
    next
      case False
      then have "f b = Some a" using ba by simp
      then show False using assms(1) D fa by blast
    qed
  qed
qed

lemma pointer_write_supersession:
  assumes "keys_ok db" "supersession_guard ses loser winner db l w"
  shows "pointer (write_supersession now ses i org loser winner from by' rl db) k =
      (if k = loser then Some winner else pointer db k)"
    and "memory_at (write_supersession now ses i org loser winner from by' rl db) k \<noteq> None \<longleftrightarrow> memory_at db k \<noteq> None"
proof -
  have *: "memory_at (write_supersession now ses i org loser winner from by' rl db) k =
      map_option (\<lambda>m. if m_id m = loser then retire now winner m else m) (memory_at db k)"
    unfolding memory_at_def write_supersession_memories [OF assms] by (rule lookup_update_where) simp
  then show "memory_at (write_supersession now ses i org loser winner from by' rl db) k \<noteq> None \<longleftrightarrow> memory_at db k \<noteq> None"
    by simp
  have "memory_at db k = Some m \<Longrightarrow> m_id m = k" for m using memory_at_Some_iff [OF assms(1)] by simp
  then show "pointer (write_supersession now ses i org loser winner from by' rl db) k =
      (if k = loser then Some winner else pointer db k)"
    using supersession_guardD(2) [OF assms(2)] unfolding pointer_def * by (auto split: option.splits)
qed

lemma apply_supersession_no_short_cycle:
  assumes keys: "keys_ok db" and nc: "no_short_cycle db"
  shows "no_short_cycle (snd (apply_supersession now ses i org loser winner by' rl db))"
proof (cases "fst (apply_supersession now ses i org loser winner by' rl db)")
  case True
  then obtain l w where g: "supersession_guard ses loser winner db l w" and
    res: "snd (apply_supersession now ses i org loser winner by' rl db) =
        write_supersession now ses i org loser winner (m_status l) by' rl db"
    using apply_supersession_True [OF keys] by blast
  have keys': "keys_ok (write_supersession now ses i org loser winner (m_status l) by' rl db)"
    using apply_supersession_keys [OF keys, of now ses i org loser winner by' rl] res by simp
  have "pointer db winner \<noteq> Some loser" "loser \<noteq> winner"
    using supersession_guardD(1,5,7) [OF g] by (simp_all add: pointer_def)
  then show ?thesis
    using nc no_short_cycle_update [of "\<lambda>k. memory_at db k \<noteq> None" "pointer db" winner loser]
    unfolding res no_short_cycle_pointer [OF keys'] no_short_cycle_pointer [OF keys]
      pointer_write_supersession [OF keys g]
    by blast
qed (simp add: apply_supersession_False keys nc)

text \<open>A supersession is final: the row of a superseded memory is never touched again.\<close>

lemma superseded_is_final:
  assumes keys: "keys_ok db" and m: "memory_at db k = Some m" "m_superseded_by m = Some v"
  shows "memory_at (snd (apply_supersession now ses i org loser winner by' rl db)) k = Some m"
proof (cases "fst (apply_supersession now ses i org loser winner by' rl db)")
  case True
  then obtain l w where g: "supersession_guard ses loser winner db l w" and
    res: "snd (apply_supersession now ses i org loser winner by' rl db) =
        write_supersession now ses i org loser winner (m_status l) by' rl db"
    using apply_supersession_True [OF keys] by blast
  have "k \<noteq> loser" using supersession_guardD(2,4) [OF g] m by auto
  moreover have "m_id m = k" using m(1) memory_at_Some_iff [OF keys] by simp
  ultimately show ?thesis
    unfolding res memory_at_def write_supersession_memories [OF keys g]
    using m(1) by (simp add: lookup_update_where memory_at_def)
qed (simp add: apply_supersession_False keys m)

section \<open>Settling the siblings\<close>

text \<open>A row the carry-forward may add: an open dispute between the winner and a standing counterpart.\<close>

definition carried_row :: "corpus \<Rightarrow> session \<Rightarrow> uuid \<Rightarrow> contradiction_row \<Rightarrow> bool" where
  "carried_row db ses winner c \<longleftrightarrow>
     c_status c = ''open'' \<and> c_detected_by c = SIBLING_CARRY_FORWARD \<and> c_memory_a c = winner \<and> c_memory_b c \<noteq> winner \<and>
     (\<exists>m\<in>set (memories db). m_id m = winner \<and> standing db ses m) \<and>
     (\<exists>m\<in>set (memories db). m_id m = c_memory_b c \<and> standing db ses m)"

lemma two_rows_standing:
  assumes "distinct (map m_id ms)" "rows_affected (\<lambda>m. (m_id m = a \<or> m_id m = b) \<and> P m) ms = 2" "a \<noteq> b"
  shows "\<exists>m\<in>set ms. m_id m = a \<and> P m" "\<exists>m\<in>set ms. m_id m = b \<and> P m"
proof -
  let ?f = "filter (\<lambda>m. (m_id m = a \<or> m_id m = b) \<and> P m) ms"
  have "distinct (map m_id ?f)" using assms(1) by (simp add: distinct_map_filter)
  then have "card (m_id ` set ?f) = 2"
    using assms(2) distinct_card [of "map m_id ?f"] by (simp add: rows_affected_def)
  moreover have "m_id ` set ?f \<subseteq> {a, b}" by auto
  ultimately have "m_id ` set ?f = {a, b}" using assms(3) by (intro card_subset_eq) auto
  then have "a \<in> m_id ` set ?f" "b \<in> m_id ` set ?f" by simp_all
  then show "\<exists>m\<in>set ms. m_id m = a \<and> P m" "\<exists>m\<in>set ms. m_id m = b \<and> P m" by auto
qed

lemma standing_cong: "isolated_projects db' = isolated_projects db \<Longrightarrow> standing db' ses m = standing db ses m"
  by (simp add: standing_def sees_memory_def)

lemma carry_forward_cases:
  assumes "distinct (map m_id (memories db))"
  obtains (declined) "carry_forward ses i org winner cp src dep db = (None, db)"
  | (carried) c where "carry_forward ses i org winner cp src dep db =
        (Some i, db\<lparr> contradictions := contradictions db @ [c] \<rparr>)"
      "carried_row db ses winner c" "c_id c = i" "c_memory_b c = cp" "c_org_id c = org"
      "\<forall>x\<in>set (contradictions db). sees_contradiction ses x \<longrightarrow> \<not> open_between winner cp x"
proof (cases "carry_forward ses i org winner cp src dep db = (None, db)")
  case True
  then show thesis by (rule declined)
next
  case False
  let ?c = "\<lparr> c_id = i, c_org_id = org, c_memory_a = winner, c_memory_b = cp,
      c_detected_by = SIBLING_CARRY_FORWARD, c_status = ''open'', c_resolved_by = None, c_resolved_at = None,
      c_note = Some (NInherited src cp dep winner) \<rparr>"
  have g: "cp \<noteq> winner" "rows_affected (\<lambda>m. (m_id m = winner \<or> m_id m = cp) \<and> standing db ses m) (memories db) = 2"
    "\<not> list_ex (\<lambda>c. sees_contradiction ses c \<and> open_between winner cp c) (contradictions db)"
    using False by (auto simp: carry_forward_def split: if_splits)
  show thesis
  proof (rule carried [of ?c])
    show "carry_forward ses i org winner cp src dep db = (Some i, db\<lparr> contradictions := contradictions db @ [?c] \<rparr>)"
      using g by (simp add: carry_forward_def)
    show "carried_row db ses winner ?c"
      using two_rows_standing [OF assms g(2)] g(1) by (simp add: carried_row_def)
    show "\<forall>x\<in>set (contradictions db). sees_contradiction ses x \<longrightarrow> \<not> open_between winner cp x"
      using g(3) by (auto simp: list_ex_iff)
  qed simp_all
qed

lemma carry_all_adds:
  assumes "distinct (map m_id (memories db))" "carry_all ses f org dep winner rows db = (out, db')"
  shows "memories db' = memories db" "isolated_projects db' = isolated_projects db" "documents db' = documents db"
    and "\<exists>new. contradictions db' = contradictions db @ new \<and> (\<forall>c\<in>set new. carried_row db ses winner c \<and> c_org_id c = org)"
    and "map ss_contradiction_id out = map c_id rows"
proof -
  have "memories db' = memories db \<and> isolated_projects db' = isolated_projects db \<and> documents db' = documents db \<and>
    (\<exists>new. contradictions db' = contradictions db @ new \<and> (\<forall>c\<in>set new. carried_row db ses winner c \<and> c_org_id c = org)) \<and>
    map ss_contradiction_id out = map c_id rows"
    using assms
  proof (induction rows arbitrary: db out)
    case (Cons r rows)
    define cp where "cp = (if c_memory_a r = dep then c_memory_b r else c_memory_a r)"
    obtain res db1 where step: "carry_forward ses (f (c_id r)) org winner cp (c_id r) dep db = (res, db1)" by fastforce
    obtain out2 where rest: "carry_all ses f org dep winner rows db1 = (out2, db')"
      and out: "out = \<lparr> ss_contradiction_id = c_id r, ss_counterpart_id = cp, ss_carried_forward = res \<rparr> # out2"
      using Cons.prems(2) step by (auto simp: Let_def cp_def split: prod.splits)
    have db1: "memories db1 = memories db \<and> isolated_projects db1 = isolated_projects db \<and> documents db1 = documents db \<and>
       (\<exists>new. contradictions db1 = contradictions db @ new \<and> (\<forall>c\<in>set new. carried_row db ses winner c \<and> c_org_id c = org))"
      by (rule carry_forward_cases [OF Cons.prems(1), of ses "f (c_id r)" org winner cp "c_id r" dep])
        (use step in auto)
    then have same: "carried_row db1 ses winner c = carried_row db ses winner c" for c
      using standing_cong [of db1 db] by (simp add: carried_row_def)
    have "distinct (map m_id (memories db1))" using db1 Cons.prems(1) by simp
    from Cons.IH [OF this rest] obtain new2 where ih: "memories db' = memories db1" "isolated_projects db' = isolated_projects db1"
      "documents db' = documents db1" "contradictions db' = contradictions db1 @ new2"
      "\<forall>c\<in>set new2. carried_row db1 ses winner c \<and> c_org_id c = org" "map ss_contradiction_id out2 = map c_id rows"
      by blast
    obtain new1 where n1: "contradictions db1 = contradictions db @ new1"
        "\<forall>c\<in>set new1. carried_row db ses winner c \<and> c_org_id c = org"
      using db1 by blast
    have "contradictions db' = contradictions db @ (new1 @ new2)" using ih(4) n1(1) by simp
    moreover have "\<forall>c\<in>set (new1 @ new2). carried_row db ses winner c \<and> c_org_id c = org"
      using ih(5) n1(2) same by auto
    ultimately show ?case using db1 ih(1,2,3,6) out by auto
  qed simp
  then show "memories db' = memories db" "isolated_projects db' = isolated_projects db" "documents db' = documents db"
    and "\<exists>new. contradictions db' = contradictions db @ new \<and> (\<forall>c\<in>set new. carried_row db ses winner c \<and> c_org_id c = org)"
    and "map ss_contradiction_id out = map c_id rows" by blast+
qed

definition open_count :: "session \<Rightarrow> uuid \<Rightarrow> uuid \<Rightarrow> corpus \<Rightarrow> nat" where
  "open_count ses a b db = rows_affected (\<lambda>c. sees_contradiction ses c \<and> open_between a b c) (contradictions db)"

lemma open_between_pair: "open_between a b c \<Longrightarrow> open_between a' b' c \<Longrightarrow> {a, b} = {a', b'}"
  by (auto simp: open_between_def)

lemma open_between_cong: "{a, b} = {a', b'} \<Longrightarrow> open_between a b c = open_between a' b' c"
  by (auto simp: open_between_def doubleton_eq_iff)

lemma carry_forward_open_count:
  assumes "distinct (map m_id (memories db))"
  shows "open_count ses a b (snd (carry_forward ses i org winner cp src dep db)) \<le> max 1 (open_count ses a b db)"
  using assms
proof (cases rule: carry_forward_cases [of db ses i org winner cp src dep])
  case (carried c)
  show ?thesis
  proof (cases "sees_contradiction ses c \<and> open_between a b c")
    case True
    have "open_between winner cp c" using carried(2,4) by (simp add: open_between_def carried_row_def)
    then have "open_between a b x = open_between winner cp x" for x
      using True open_between_pair open_between_cong by metis
    then have "\<forall>x\<in>set (contradictions db). \<not> (sees_contradiction ses x \<and> open_between a b x)"
      using carried(6) by simp
    then have "open_count ses a b db = 0" by (simp add: open_count_def rows_affected_zero)
    then have "open_count ses a b (db\<lparr> contradictions := contradictions db @ [c] \<rparr>) = 1"
      using True by (simp add: open_count_def rows_affected_def)
    then show ?thesis using carried(1) by simp
  next
    case False
    then show ?thesis using carried(1) by (auto simp: open_count_def rows_affected_def)
  qed
qed simp

lemma carry_all_open_count:
  "distinct (map m_id (memories db)) \<Longrightarrow>
    open_count ses a b (snd (carry_all ses f org dep winner rows db)) \<le> max 1 (open_count ses a b db)"
proof (induction rows arbitrary: db)
  case (Cons r rows)
  define cp where "cp = (if c_memory_a r = dep then c_memory_b r else c_memory_a r)"
  define db1 where "db1 = snd (carry_forward ses (f (c_id r)) org winner cp (c_id r) dep db)"
  have mem: "memories db1 = memories db"
    by (cases rule: carry_forward_cases [OF Cons.prems, of ses "f (c_id r)" org winner cp "c_id r" dep])
      (auto simp: db1_def)
  have step: "snd (carry_all ses f org dep winner (r # rows) db) = snd (carry_all ses f org dep winner rows db1)"
    by (simp add: Let_def db1_def cp_def split: prod.splits)
  have "open_count ses a b (snd (carry_all ses f org dep winner rows db1)) \<le> max 1 (open_count ses a b db1)"
    using Cons by (simp add: mem)
  moreover have "open_count ses a b db1 \<le> max 1 (open_count ses a b db)"
    unfolding db1_def by (rule carry_forward_open_count [OF Cons.prems])
  ultimately show ?case unfolding step by linarith
qed simp

lemma moot_row_sel [simp]:
  "c_id (moot_row now d w r u c) = c_id c" "c_status (moot_row now d w r u c) = CONTRADICTION_MOOT"
  "c_memory_a (moot_row now d w r u c) = c_memory_a c" "c_memory_b (moot_row now d w r u c) = c_memory_b c"
  "c_org_id (moot_row now d w r u c) = c_org_id c"
  by (simp_all add: moot_row_def)

lemma moot_not_open [simp]: "CONTRADICTION_MOOT \<noteq> ''open''"
  by (simp add: CONTRADICTION_MOOT_def)

lemma settle_siblings_result:
  assumes "keys_ok db" "settle_siblings_of_superseded now ses f org dep winner resolved resolver db = (out, db')"
  shows "memories db' = memories db"
    and "\<exists>new. contradictions db' = update_where (is_sibling ses org dep resolved)
        (moot_row now dep winner resolved resolver) (contradictions db) @ new
      \<and> (\<forall>c\<in>set new. carried_row db ses winner c \<and> c_org_id c = org)"
    and "map ss_contradiction_id out = map c_id (filter (is_sibling ses org dep resolved) (contradictions db))"
proof -
  define db1 where "db1 = db\<lparr> contradictions := update_where (is_sibling ses org dep resolved)
      (moot_row now dep winner resolved resolver) (contradictions db) \<rparr>"
  have run: "carry_all ses f org dep winner (filter (is_sibling ses org dep resolved) (contradictions db)) db1 = (out, db')"
    using assms(2) by (simp add: settle_siblings_of_superseded_def Let_def db1_def)
  have d: "distinct (map m_id (memories db1))" using keys_okD(1) [OF assms(1)] by (simp add: db1_def)
  have "carried_row db1 ses winner c = carried_row db ses winner c" for c
    using standing_cong [of db1 db] by (simp add: carried_row_def db1_def)
  then show "memories db' = memories db"
    and "\<exists>new. contradictions db' = update_where (is_sibling ses org dep resolved)
        (moot_row now dep winner resolved resolver) (contradictions db) @ new
      \<and> (\<forall>c\<in>set new. carried_row db ses winner c \<and> c_org_id c = org)"
    and "map ss_contradiction_id out = map c_id (filter (is_sibling ses org dep resolved) (contradictions db))"
    using carry_all_adds [OF d run] by (simp_all add: db1_def)
qed

lemma settle_siblings_none_left:
  assumes "keys_ok db" "settle_siblings_of_superseded now ses f org dep winner resolved resolver db = (out, db')"
    and gone: "\<forall>m\<in>set (memories db). m_id m = dep \<longrightarrow> \<not> standing db ses m"
    and c: "c \<in> set (contradictions db')"
  shows "\<not> is_sibling ses org dep resolved c"
proof
  assume sib: "is_sibling ses org dep resolved c"
  then have open_c: "c_status c = ''open''" "c_memory_a c = dep \<or> c_memory_b c = dep" by (auto simp: is_sibling_def)
  obtain new where new: "contradictions db' = update_where (is_sibling ses org dep resolved)
        (moot_row now dep winner resolved resolver) (contradictions db) @ new"
      "\<forall>c\<in>set new. carried_row db ses winner c \<and> c_org_id c = org"
    using settle_siblings_result(2) [OF assms(1,2)] by blast
  show False
  proof (cases "c \<in> set new")
    case True
    then have "carried_row db ses winner c" using new(2) by blast
    then show False using open_c(2) gone by (auto simp: carried_row_def)
  next
    case False
    then obtain x where "x \<in> set (contradictions db)"
        "c = (if is_sibling ses org dep resolved x then moot_row now dep winner resolved resolver x else x)"
      using c new(1) by (auto simp: set_update_where)
    then show False using sib open_c(1) by (cases "is_sibling ses org dep resolved x") auto
  qed
qed

section \<open>Outright deprecation and idempotent sources\<close>

lemma lookup_visible:
  assumes "keys_ok db"
  shows "lookup m_id k (filter p (memories db)) = Some m \<longleftrightarrow> memory_at db k = Some m \<and> p m"
proof -
  have "distinct (map m_id (filter p (memories db)))"
    using keys_okD(1) [OF assms] by (simp add: distinct_map_filter)
  from lookup_Some_iff [OF this] show ?thesis using memory_at_Some_iff [OF assms] by auto
qed

definition deprecation_guard :: "session \<Rightarrow> uuid \<Rightarrow> corpus \<Rightarrow> mem_row \<Rightarrow> bool" where
  "deprecation_guard ses k db m \<longleftrightarrow>
     memory_at db k = Some m \<and> sees_memory db ses m \<and> m_status m \<noteq> MS_Deprecated \<and> m_superseded_by m = None"

lemma apply_deprecation_cases:
  assumes "keys_ok db"
  shows "\<not> (\<exists>m. deprecation_guard ses k db m) \<Longrightarrow> apply_deprecation now ses i org k by' rl db = (False, db)"
    and "deprecation_guard ses k db m \<Longrightarrow> apply_deprecation now ses i org k by' rl db =
      (True, snd (mark_dirty_for_memory now ses k
        (db\<lparr> memories := update_where (\<lambda>x. sees_memory db ses x \<and> m_id x = k \<and> m_status x \<noteq> MS_Deprecated)
               (\<lambda>x. x\<lparr> m_status := MS_Deprecated, m_valid_to := Some now, mr_updated_at := now \<rparr>) (memories db),
             promotions := promotions db @ [audit_deprecation now i org k (m_status m) by' rl] \<rparr>)))"
proof -
  note lk = lookup_visible [OF assms, of k "sees_memory db ses"]
  show "\<not> (\<exists>m. deprecation_guard ses k db m) \<Longrightarrow> apply_deprecation now ses i org k by' rl db = (False, db)"
    using lk by (auto simp: apply_deprecation_def deprecation_guard_def split: option.split)
  assume g: "deprecation_guard ses k db m"
  then have m: "m \<in> set (memories db)" "m_id m = k" "sees_memory db ses m" "m_status m \<noteq> MS_Deprecated"
    using memory_at_Some_iff [OF assms] by (auto simp: deprecation_guard_def)
  have "rows_affected (\<lambda>x. sees_memory db ses x \<and> m_id x = k \<and> m_status x \<noteq> MS_Deprecated) (memories db) = 1"
    using rows_affected_one [OF keys_okD(1) [OF assms] m(1), of "\<lambda>x. sees_memory db ses x \<and> m_status x \<noteq> MS_Deprecated"] m
    by (simp add: conj_ac)
  moreover have "lookup m_id k (filter (sees_memory db ses) (memories db)) = Some m"
    using lk g by (simp add: deprecation_guard_def)
  ultimately show "apply_deprecation now ses i org k by' rl db =
      (True, snd (mark_dirty_for_memory now ses k
        (db\<lparr> memories := update_where (\<lambda>x. sees_memory db ses x \<and> m_id x = k \<and> m_status x \<noteq> MS_Deprecated)
               (\<lambda>x. x\<lparr> m_status := MS_Deprecated, m_valid_to := Some now, mr_updated_at := now \<rparr>) (memories db),
             promotions := promotions db @ [audit_deprecation now i org k (m_status m) by' rl] \<rparr>)))"
    using g by (simp add: apply_deprecation_def deprecation_guard_def Let_def)
qed

lemma insert_source_idempotent_replay:
  assumes "insert_source_idempotent s key db = (r, db1)"
    and "so_org_id s' = so_org_id s"
  shows "insert_source_idempotent s' key db1 = (None, db1)"
  using assms by (auto simp: insert_source_idempotent_def split: if_splits)

section \<open>Properties\<close>

text \<open>C4: A supersession that applies retires exactly the loser (deprecated, closed at \<open>now\<close>, pointing at the
  winner) and touches no other memory, writes one audit row that records the status the loser really
  had, and marks dirty every page the session sees that cites either side; one that does not apply
  changes nothing at all.\<close>

theorem supersession_effects:
  assumes "keys_ok db" and "apply_supersession now ses i org loser winner by' rl db = (ok, db')"
  shows "(\<not> ok \<longrightarrow> db' = db) \<and>
    (ok \<longrightarrow> (\<exists>l. memory_at db loser = Some l \<and> sees_memory db ses l \<and> m_superseded_by l = None \<and>
      memories db' = update_where (\<lambda>m. m_id m = loser) (retire now winner) (memories db) \<and>
      promotions db' = promotions db @ [audit_deprecation now i org loser (m_status l) by' rl])) \<and>
    (ok \<longrightarrow> (\<forall>k d. document_at db k = Some d \<longrightarrow> sees_document ses d \<longrightarrow> cites db k loser \<or> cites db k winner \<longrightarrow> dirty db' k))"
proof (intro conjI impI allI)
  show "db' = db" if "\<not> ok" using apply_supersession_False [OF assms(1)] assms(2) that by (metis fst_conv snd_conv)
  assume ok
  then obtain l w where g: "supersession_guard ses loser winner db l w"
    and db': "db' = write_supersession now ses i org loser winner (m_status l) by' rl db"
    using apply_supersession_True [OF assms(1)] assms(2) by (metis fst_conv snd_conv)
  show "\<exists>l. memory_at db loser = Some l \<and> sees_memory db ses l \<and> m_superseded_by l = None \<and>
      memories db' = update_where (\<lambda>m. m_id m = loser) (retire now winner) (memories db) \<and>
      promotions db' = promotions db @ [audit_deprecation now i org loser (m_status l) by' rl]"
    using supersession_guardD [OF g] write_supersession_memories [OF assms(1) g] db' by auto
  fix k d assume d: "document_at db k = Some d" "sees_document ses d" "cites db k loser \<or> cites db k winner"
  have id: "d_id d = k" using d(1) lookup_SomeD by (fastforce simp: document_at_def)
  have "document_at db' k = Some (touch_dirty now d)"
    using d id document_at_update [OF write_supersession_documents [of now ses i org loser winner "m_status l" by' rl db], of k]
    by (simp add: db')
  then show "dirty db' k" unfolding dirty_def by (metis touch_dirty_sel(2))
qed

lemma supersession_effects_witness:
  "dirty (snd (apply_supersession 20 example_session 90 1 1 3 (Some 5) ''merge'' example_corpus)) 50"
proof -
  have "fst (apply_supersession 20 example_session 90 1 1 3 (Some 5) ''merge'' example_corpus)" by code_simp
  moreover have "document_at example_corpus 50 = Some example_doc" by code_simp
  moreover have "sees_document example_session example_doc" by code_simp
  moreover have "cites example_corpus 50 1" by (simp add: cites_def example_corpus_def)
  ultimately show ?thesis using supersession_effects [OF example_corpus_keys surjective_pairing] by blast
qed

text \<open>C37: Supersession is final and never makes two memories supersede each other: a memory that already
  points at a successor keeps its row whatever supersession is applied next, and tables free of mutual
  pairs stay so.\<close>

theorem supersession_is_final:
  assumes "keys_ok db" and "apply_supersession now ses i org loser winner by' rl db = (ok, db')"
  shows "(memory_at db k = Some m \<longrightarrow> m_superseded_by m = Some v \<longrightarrow> memory_at db' k = Some m) \<and>
    (no_short_cycle db \<longrightarrow> no_short_cycle db')"
  using superseded_is_final [OF assms(1), of k m v now ses i org loser winner by' rl]
    apply_supersession_no_short_cycle [OF assms(1), of now ses i org loser winner by' rl] assms(2)
  by simp

lemma supersession_is_final_witness:
  "no_short_cycle (snd (apply_supersession 20 example_session 90 1 1 3 (Some 5) ''merge'' example_corpus))"
  by (rule supersession_is_final [OF example_corpus_keys surjective_pairing, THEN conjunct2, rule_format])
    (simp add: no_short_cycle_def example_corpus_def example_row_def)

text \<open>Settling the disputes of a superseded memory closes every other open dispute of it as \<open>moot\<close>,
  changes no memory and no unrelated dispute, and carries a dispute forward to the winner only between
  two memories that both still stand; a replay finds nothing left to settle.\<close>

theorem settle_siblings_spec:
  assumes "keys_ok db"
    and "settle_siblings_of_superseded now ses f org dep winner resolved resolver db = (out, db')"
  shows "memories db' = memories db \<and>
    (\<exists>new. contradictions db' = update_where (is_sibling ses org dep resolved)
        (moot_row now dep winner resolved resolver) (contradictions db) @ new \<and>
      (\<forall>c\<in>set new. carried_row db ses winner c \<and> c_org_id c = org)) \<and>
    ((\<forall>m\<in>set (memories db). m_id m = dep \<longrightarrow> \<not> standing db ses m) \<longrightarrow>
      (\<forall>c\<in>set (contradictions db'). \<not> is_sibling ses org dep resolved c))"
  using settle_siblings_result(1,2) [OF assms] settle_siblings_none_left [OF assms] by blast

lemma settle_siblings_spec_witness:
  "filter (is_sibling example_session 1 1 60)
     (contradictions (snd (settle_siblings_of_superseded 20 example_session (\<lambda>k. k + 100) 1 1 2 60 (Some 5)
        (snd (apply_supersession 20 example_session 90 1 1 2 (Some 5) ''merge'' example_corpus))))) = []"
proof -
  let ?db = "snd (apply_supersession 20 example_session 90 1 1 2 (Some 5) ''merge'' example_corpus)"
  have "keys_ok ?db" by code_simp
  moreover have "\<forall>m\<in>set (memories ?db). m_id m = 1 \<longrightarrow> \<not> standing ?db example_session m" by code_simp
  ultimately show ?thesis
    using settle_siblings_spec [OF _ surjective_pairing, of ?db] by (auto simp: filter_empty_conv)
qed

end
