(* ===== verification/Entities.thy ===== *)
theory Entities
  imports Text Corpus
begin

text \<open>
  \<open>brainiac-store/src/entities.rs\<close>: the graph tables (raw entities, canonical entities, the links
  between them, edges, the memory-entity join) and the neighbourhood expansion retrieval uses.
  \<open>entities\<close>, \<open>canonical_entities\<close> and \<open>edges\<close> are org-scoped by row-level security, the two join
  tables are not.  The distance of two vectors is a parameter (pgvector's \<open><=>\<close>).
\<close>

section \<open>Tables\<close>

record entity_row =
  en_id :: uuid
  en_org_id :: uuid
  en_team_id :: "uuid option"
  en_name :: string
  en_kind :: string
  en_aliases :: "string list"
  en_provenance_id :: "uuid option"

record canonical_row =
  ce_id :: uuid
  ce_org_id :: uuid
  ce_name :: string
  ce_kind :: string
  ce_aliases :: "string list"
  ce_created_at :: instant

record link_row =
  li_entity_id :: uuid
  li_canonical_id :: uuid
  li_confidence :: rat
  li_method :: string
  li_confirmed_by :: "uuid option"

record edge_row =
  ed_id :: uuid
  ed_org_id :: uuid
  ed_src :: uuid
  ed_dst :: uuid
  ed_relation :: string
  ed_memory_id :: "uuid option"

record canonical_embedding_row =
  cv_canonical_id :: uuid
  cv_version_id :: nat
  cv_embedding :: "real list"

record graph_db =
  entities :: "entity_row list"
  canonicals :: "canonical_row list"
  entity_links :: "link_row list"
  edges_tab :: "edge_row list"
  memory_entities :: "(uuid \<times> uuid) list"
  canonical_embeddings :: "canonical_embedding_row list"

definition in_org :: "session \<Rightarrow> uuid \<Rightarrow> bool" where
  "in_org ses org = (org = p_org_id (s_principal ses))"

definition sees_entity :: "session \<Rightarrow> entity_row \<Rightarrow> bool" where
  "sees_entity ses e = in_org ses (en_org_id e)"

definition sees_canonical :: "session \<Rightarrow> canonical_row \<Rightarrow> bool" where
  "sees_canonical ses c = in_org ses (ce_org_id c)"

definition sees_edge :: "session \<Rightarrow> edge_row \<Rightarrow> bool" where
  "sees_edge ses e = in_org ses (ed_org_id e)"

section \<open>Writes\<close>

definition insert_entity ::
  "uuid \<Rightarrow> uuid \<Rightarrow> uuid option \<Rightarrow> string \<Rightarrow> string \<Rightarrow> string list \<Rightarrow> uuid option \<Rightarrow> graph_db \<Rightarrow> graph_db" where
  "insert_entity i org team name kind aliases prov g =
    g\<lparr> entities := insert_or_ignore en_id
        \<lparr> en_id = i, en_org_id = org, en_team_id = team, en_name = name, en_kind = kind,
          en_aliases = aliases, en_provenance_id = prov \<rparr> (entities g) \<rparr>"

definition insert_canonical :: "instant \<Rightarrow> uuid \<Rightarrow> uuid \<Rightarrow> string \<Rightarrow> string \<Rightarrow> graph_db \<Rightarrow> graph_db" where
  "insert_canonical now i org name kind g =
    g\<lparr> canonicals := insert_or_ignore ce_id
        \<lparr> ce_id = i, ce_org_id = org, ce_name = name, ce_kind = kind, ce_aliases = [],
          ce_created_at = now \<rparr> (canonicals g) \<rparr>"

definition link_key :: "link_row \<Rightarrow> uuid \<times> uuid" where
  "link_key l = (li_entity_id l, li_canonical_id l)"

text \<open>\<open>ON CONFLICT DO UPDATE\<close> rewrites the confidence and the method; who confirmed stays.\<close>

definition link :: "uuid \<Rightarrow> uuid \<Rightarrow> rat \<Rightarrow> string \<Rightarrow> uuid option \<Rightarrow> graph_db \<Rightarrow> graph_db" where
  "link e c conf meth who g =
    g\<lparr> entity_links :=
        (if (e, c) \<in> set (map link_key (entity_links g))
         then update_where (\<lambda>l. link_key l = (e, c)) (\<lambda>l. l\<lparr> li_confidence := conf, li_method := meth \<rparr>) (entity_links g)
         else entity_links g @ [\<lparr> li_entity_id = e, li_canonical_id = c, li_confidence = conf,
                                  li_method = meth, li_confirmed_by = who \<rparr>]) \<rparr>"

definition insert_edge ::
  "uuid \<Rightarrow> uuid \<Rightarrow> uuid \<Rightarrow> uuid \<Rightarrow> string \<Rightarrow> uuid option \<Rightarrow> graph_db \<Rightarrow> graph_db" where
  "insert_edge i org src dst rel mem g =
    g\<lparr> edges_tab := insert_or_ignore ed_id
        \<lparr> ed_id = i, ed_org_id = org, ed_src = src, ed_dst = dst, ed_relation = rel, ed_memory_id = mem \<rparr>
        (edges_tab g) \<rparr>"

definition upsert_canonical_embedding :: "uuid \<Rightarrow> nat \<Rightarrow> real list \<Rightarrow> graph_db \<Rightarrow> graph_db" where
  "upsert_canonical_embedding c v emb g =
    g\<lparr> canonical_embeddings :=
        (if (c, v) \<in> set (map (\<lambda>r. (cv_canonical_id r, cv_version_id r)) (canonical_embeddings g))
         then update_where (\<lambda>r. cv_canonical_id r = c \<and> cv_version_id r = v) (\<lambda>r. r\<lparr> cv_embedding := emb \<rparr>)
                (canonical_embeddings g)
         else canonical_embeddings g @ [\<lparr> cv_canonical_id = c, cv_version_id = v, cv_embedding = emb \<rparr>]) \<rparr>"

text \<open>
  The alias union: \<open>SELECT DISTINCT\<close> over the old and the new aliases without blanks and without the
  canonical's own name.  \<open>btrim\<close> removes spaces; SQL leaves the order open.
\<close>

definition merged_aliases :: "string \<Rightarrow> string list \<Rightarrow> string list \<Rightarrow> string list" where
  "merged_aliases name old new_aliases =
    remdups (filter (\<lambda>a. trim_by (\<lambda>c. c = CHR '' '') a \<noteq> [] \<and> lowercase a \<noteq> lowercase name) (old @ new_aliases))"

definition accumulate_canonical_aliases :: "session \<Rightarrow> uuid \<Rightarrow> string list \<Rightarrow> graph_db \<Rightarrow> graph_db" where
  "accumulate_canonical_aliases ses c new_aliases g =
    (if new_aliases = [] then g
     else g\<lparr> canonicals := update_where (\<lambda>r. sees_canonical ses r \<and> ce_id r = c)
               (\<lambda>r. r\<lparr> ce_aliases := merged_aliases (ce_name r) (ce_aliases r) new_aliases \<rparr>) (canonicals g) \<rparr>)"

section \<open>Reads\<close>

definition anchors_of_memories :: "uuid list \<Rightarrow> graph_db \<Rightarrow> uuid list" where
  "anchors_of_memories mems g =
    remdups (map snd (filter (\<lambda>(m, _). m \<in> set mems) (memory_entities g)))"

text \<open>The canonical entities of a memory, through the join of three tables.\<close>

definition canonicals_of_memory :: "session \<Rightarrow> uuid \<Rightarrow> graph_db \<Rightarrow> canonical_row list" where
  "canonicals_of_memory ses m g =
    filter (\<lambda>c. sees_canonical ses c \<and>
        list_ex (\<lambda>(m', e). m' = m \<and> list_ex (\<lambda>l. li_entity_id l = e \<and> li_canonical_id l = ce_id c) (entity_links g))
          (memory_entities g)) (canonicals g)"

fun string_le :: "string \<Rightarrow> string \<Rightarrow> bool" where
  "string_le [] _ = True"
| "string_le (_ # _) [] = False"
| "string_le (a # as) (b # bs) = (if a = b then string_le as bs else (of_char a :: nat) < of_char b)"

definition canonical_anchors_for :: "session \<Rightarrow> uuid list \<Rightarrow> graph_db \<Rightarrow> (uuid \<times> (uuid \<times> string) list) list" where
  "canonical_anchors_for ses mems g =
    filter (\<lambda>(m, cs). cs \<noteq> [])
      (map (\<lambda>m. (m, map (\<lambda>c. (ce_id c, ce_name c))
           (sort_by (\<lambda>a b. string_le (ce_name a) (ce_name b)) (canonicals_of_memory ses m g)))) (remdups mems))"

definition canonical_names_of_memories :: "session \<Rightarrow> uuid list \<Rightarrow> nat \<Rightarrow> graph_db \<Rightarrow> string list" where
  "canonical_names_of_memories ses mems limit g =
    take limit (sort_by string_le (remdups (map ce_name
      (concat (map (\<lambda>m. canonicals_of_memory ses m g) mems)))))"

text \<open>One step of the recursive query: canonical siblings and both directions of the edges.\<close>

definition next_entities :: "session \<Rightarrow> graph_db \<Rightarrow> uuid \<Rightarrow> uuid list" where
  "next_entities ses g e =
    concat (map (\<lambda>l1. map li_entity_id (filter (\<lambda>l2. li_canonical_id l2 = li_canonical_id l1) (entity_links g)))
      (filter (\<lambda>l1. li_entity_id l1 = e) (entity_links g)))
    @ map ed_dst (filter (\<lambda>d. sees_edge ses d \<and> ed_src d = e) (edges_tab g))
    @ map ed_src (filter (\<lambda>d. sees_edge ses d \<and> ed_dst d = e) (edges_tab g))"

text \<open>
  The rows of the recursive table at a depth.  \<open>UNION\<close> keeps a pair (entity, depth) once, and a row of
  depth \<open>d + 1\<close> only comes from a row of depth \<open>d\<close>, so the table is its levels.
\<close>

fun frontier :: "session \<Rightarrow> graph_db \<Rightarrow> uuid list \<Rightarrow> nat \<Rightarrow> uuid list" where
  "frontier ses g anchors 0 = remdups anchors"
| "frontier ses g anchors (Suc d) = remdups (concat (map (next_entities ses g) (frontier ses g anchors d)))"

definition neighbors :: "session \<Rightarrow> uuid list \<Rightarrow> nat \<Rightarrow> nat \<Rightarrow> graph_db \<Rightarrow> uuid list" where
  "neighbors ses anchors hops limit g =
    (if anchors = [] \<or> hops = 0 then []
     else take limit (filter (\<lambda>e. e \<notin> set anchors)
       (remdups (concat (map (frontier ses g anchors) [1 ..< hops + 1])))))"

definition find_by_name :: "session \<Rightarrow> uuid \<Rightarrow> uuid option \<Rightarrow> string \<Rightarrow> graph_db \<Rightarrow> uuid option" where
  "find_by_name ses org team name g =
    map_option en_id (find (\<lambda>e. sees_entity ses e \<and> en_org_id e = org \<and> en_team_id e = team \<and>
      lowercase (en_name e) = lowercase name) (entities g))"

definition links_in_org :: "session \<Rightarrow> uuid \<Rightarrow> graph_db \<Rightarrow> (uuid \<times> uuid) list" where
  "links_in_org ses org g =
    map link_key (filter (\<lambda>l. list_ex (\<lambda>e. sees_entity ses e \<and> en_id e = li_entity_id l \<and> en_org_id e = org)
      (entities g)) (entity_links g))"

definition list_canonicals :: "session \<Rightarrow> uuid \<Rightarrow> graph_db \<Rightarrow> (uuid \<times> string \<times> string) list" where
  "list_canonicals ses org g =
    map (\<lambda>c. (ce_id c, ce_name c, ce_kind c)) (filter (\<lambda>c. sees_canonical ses c \<and> ce_org_id c = org) (canonicals g))"

definition find_canonical_by_name_or_alias ::
  "session \<Rightarrow> uuid \<Rightarrow> string \<Rightarrow> string list \<Rightarrow> graph_db \<Rightarrow> (uuid \<times> string) option" where
  "find_canonical_by_name_or_alias ses org kind forms g =
    (if forms = [] then None
     else map_option (\<lambda>c. (ce_id c, ce_kind c))
       (find (\<lambda>c. sees_canonical ses c \<and> ce_org_id c = org \<and> lowercase (ce_kind c) = lowercase kind \<and>
          (lowercase (ce_name c) \<in> set forms \<or> list_ex (\<lambda>al. lowercase al \<in> set forms) (ce_aliases c)))
        (canonicals g)))"

definition lacks_embedding :: "nat \<Rightarrow> graph_db \<Rightarrow> canonical_row \<Rightarrow> bool" where
  "lacks_embedding v g c =
    (\<not> list_ex (\<lambda>r. cv_canonical_id r = ce_id c \<and> cv_version_id r = v) (canonical_embeddings g))"

definition canonicals_missing_embedding :: "session \<Rightarrow> uuid \<Rightarrow> nat \<Rightarrow> graph_db \<Rightarrow> (uuid \<times> string) list" where
  "canonicals_missing_embedding ses org v g =
    map (\<lambda>c. (ce_id c, ce_name c))
      (filter (\<lambda>c. sees_canonical ses c \<and> ce_org_id c = org \<and> lacks_embedding v g c) (canonicals g))"

definition all_canonicals_missing_embedding :: "nat \<Rightarrow> nat \<Rightarrow> graph_db \<Rightarrow> (uuid \<times> string) list" where
  "all_canonicals_missing_embedding v limit g =
    map (\<lambda>c. (ce_id c, ce_name c)) (take limit
      (sort_by (\<lambda>a b. ce_created_at a < ce_created_at b \<or> (ce_created_at a = ce_created_at b \<and> ce_id a \<le> ce_id b))
        (filter (lacks_embedding v g) (canonicals g))))"

definition nearest_canonical ::
  "(real list \<Rightarrow> real list \<Rightarrow> real) \<Rightarrow> session \<Rightarrow> uuid \<Rightarrow> nat \<Rightarrow> real list \<Rightarrow> nat \<Rightarrow> graph_db
    \<Rightarrow> (uuid \<times> string \<times> string \<times> real) list" where
  "nearest_canonical metric ses org v q limit g =
    (let hits = concat (map (\<lambda>r. map (\<lambda>c. (metric (cv_embedding r) q, c))
                  (filter (\<lambda>c. ce_id c = cv_canonical_id r \<and> sees_canonical ses c \<and> ce_org_id c = org) (canonicals g)))
                (filter (\<lambda>r. cv_version_id r = v) (canonical_embeddings g)))
     in map (\<lambda>(d, c). (ce_id c, ce_name c, ce_kind c, 1 - d))
          (take limit (sort_by (\<lambda>a b. fst a \<le> fst b) hits)))"

section \<open>What the expansion reaches\<close>

definition steps_to :: "session \<Rightarrow> graph_db \<Rightarrow> (uuid \<times> uuid) set" where
  "steps_to ses g = {(a, b). b \<in> set (next_entities ses g a)}"

lemma frontier_relpow: "set (frontier ses g anchors d) = (steps_to ses g ^^ d) `` set anchors"
proof (induction d)
  case (Suc d)
  have "set (frontier ses g anchors (Suc d)) = steps_to ses g `` set (frontier ses g anchors d)"
    by (auto simp: steps_to_def)
  then show ?case by (simp add: Suc relcomp_Image)
qed simp

text \<open>Every link is symmetric: an entity is a neighbour of its neighbours.\<close>

lemma next_entities_sym: "b \<in> set (next_entities ses g a) \<longleftrightarrow> a \<in> set (next_entities ses g b)"
proof -
  have "a \<in> set (next_entities ses g b)" if "b \<in> set (next_entities ses g a)" for a b
    using that by (force simp: next_entities_def)
  then show ?thesis by blast
qed

lemma frontier_sym: "sym (steps_to ses g)"
  using next_entities_sym by (fastforce simp: sym_def steps_to_def)

lemma levels_iff:
  "e \<in> set (concat (map F [1 ..< h + 1])) \<longleftrightarrow> (\<exists>d. 1 \<le> d \<and> d \<le> h \<and> e \<in> set (F d))"
  unfolding set_concat set_map set_upt by (auto simp: less_Suc_eq_le)

lemma neighbors_sound:
  assumes "e \<in> set (neighbors ses anchors hops limit g)"
  shows "e \<notin> set anchors \<and> (\<exists>a\<in>set anchors. \<exists>d. 1 \<le> d \<and> d \<le> hops \<and> (a, e) \<in> steps_to ses g ^^ d)"
proof -
  have "e \<in> set (filter (\<lambda>e. e \<notin> set anchors) (remdups (concat (map (frontier ses g anchors) [1 ..< hops + 1]))))"
    using assms by (auto simp: neighbors_def simp del: upt_Suc set_concat dest!: in_set_takeD split: if_splits)
  then have "e \<notin> set anchors" "e \<in> set (concat (map (frontier ses g anchors) [1 ..< hops + 1]))"
    by (simp_all only: set_filter set_remdups mem_Collect_eq simp_thms not_False_eq_True)
  then show ?thesis unfolding levels_iff by (auto simp: frontier_relpow)
qed

lemma neighbors_complete:
  assumes "a \<in> set anchors" "1 \<le> d" "d \<le> hops" "(a, e) \<in> steps_to ses g ^^ d" "e \<notin> set anchors"
    and small: "length (neighbors ses anchors hops limit g) < limit"
  shows "e \<in> set (neighbors ses anchors hops limit g)"
proof -
  let ?all = "filter (\<lambda>e. e \<notin> set anchors) (remdups (concat (map (frontier ses g anchors) [1 ..< hops + 1])))"
  have eq: "neighbors ses anchors hops limit g = take limit ?all" using assms(1-3) by (auto simp: neighbors_def)
  have "e \<in> set ?all"
  proof -
    have "e \<in> set (frontier ses g anchors d)" using assms by (auto simp: frontier_relpow)
    then have "e \<in> set (concat (map (frontier ses g anchors) [1 ..< hops + 1]))"
      unfolding levels_iff using assms(2,3) by blast
    then show ?thesis using assms(5) by (simp only: set_filter set_remdups mem_Collect_eq simp_thms)
  qed
  moreover have "take limit ?all = ?all" using small unfolding eq by (simp add: min_def split: if_splits)
  ultimately show ?thesis using eq by argo
qed

section \<open>Aliases\<close>

lemma set_merged_aliases:
  "set (merged_aliases name old xs) =
     {a \<in> set old \<union> set xs. trim_by (\<lambda>c. c = CHR '' '') a \<noteq> [] \<and> lowercase a \<noteq> lowercase name}"
  by (auto simp: merged_aliases_def)

lemma merged_aliases_idem:
  "set (merged_aliases name (merged_aliases name old xs) xs) = set (merged_aliases name old xs)"
  by (auto simp: set_merged_aliases)

lemma merged_aliases_distinct: "distinct (merged_aliases name old xs)"
  by (simp add: merged_aliases_def)

text \<open>Accumulating an alias makes the canonical findable under it.\<close>

lemma alias_found:
  assumes "c \<in> set (canonicals g)" "sees_canonical ses c" "trim_by (\<lambda>x. x = CHR '' '') a \<noteq> []"
    "lowercase a \<noteq> lowercase (ce_name c)"
  shows "find_canonical_by_name_or_alias ses (ce_org_id c) (ce_kind c) [lowercase a]
      (accumulate_canonical_aliases ses (ce_id c) [a] g) \<noteq> None"
proof -
  let ?g = "accumulate_canonical_aliases ses (ce_id c) [a] g"
  let ?c = "c\<lparr> ce_aliases := merged_aliases (ce_name c) (ce_aliases c) [a] \<rparr>"
  have "?c \<in> set (canonicals ?g)"
    using assms(1,2) by (auto simp: accumulate_canonical_aliases_def set_update_where image_iff)
  moreover have "sees_canonical ses ?c" using assms(2) by (simp add: sees_canonical_def)
  moreover have "a \<in> set (ce_aliases ?c)" using assms(3,4) by (simp add: set_merged_aliases)
  moreover have "ce_org_id ?c = ce_org_id c" "ce_kind ?c = ce_kind c" by simp_all
  ultimately have "\<exists>x\<in>set (canonicals ?g). sees_canonical ses x \<and> ce_org_id x = ce_org_id c \<and>
      lowercase (ce_kind x) = lowercase (ce_kind c) \<and>
      (lowercase (ce_name x) \<in> set [lowercase a] \<or> list_ex (\<lambda>al. lowercase al \<in> set [lowercase a]) (ce_aliases x))"
    unfolding list_ex_iff by (intro bexI [of _ ?c]) (auto intro: bexI [of _ a])
  then show ?thesis by (auto simp: find_canonical_by_name_or_alias_def find_None_iff)
qed

lemma link_twice: "link e c conf2 meth2 who (link e c conf meth who g) = link e c conf2 meth2 who g"
proof -
  have upd: "update_where p f (update_where p h ls) = update_where p f ls"
    if "\<And>l. p (h l) = p l" "\<And>l. f (h l) = f l" for p f h and ls :: "link_row list"
    using that by (induction ls) (auto simp: update_where_def)
  show ?thesis
  proof (cases "(e, c) \<in> link_key ` set (entity_links g)")
    case True
    then show ?thesis
      by (simp add: link_def image_iff set_update_where link_key_def upd) 
  next
    case False
    then have "update_where (\<lambda>l. link_key l = (e, c)) f (entity_links g) = entity_links g" for f
      by (intro update_where_none) (auto simp: image_iff)
    then show ?thesis using False by (simp add: link_def update_where_def link_key_def)
  qed
qed

end
