(* ===== verification/Memories.thy ===== *)
theory Memories
  imports Documents Entities Temporal
begin

text \<open>
  \<open>brainiac-store/src/memories.rs\<close>: the memory rows and their lifecycle (insert, the raw TTL sweep,
  re-verification), the embedding versions, and the two candidate retrievers.  The filters of
  \<open>retrieval.rs\<close> are here because both retrievers push them into SQL.  Parameters: the vector
  distance (pgvector) and the full-text rank (PostgreSQL's \<open>ts_rank\<close>, \<open>None\<close> when the text does not
  match); the index scan is taken to be exact.
\<close>

section \<open>Filters\<close>

record retrieval_filters =
  rf_kinds :: "memory_kind list"
  rf_min_status :: "memory_status option"
  rf_team_id :: "uuid option"
  rf_min_confidence :: "rat option"
  rf_project_id :: "uuid option"

definition retrieval_filters_default :: retrieval_filters where
  "retrieval_filters_default =
    \<lparr> rf_kinds = [], rf_min_status = None, rf_team_id = None, rf_min_confidence = None, rf_project_id = None \<rparr>"

definition is_empty :: "retrieval_filters \<Rightarrow> bool" where
  "is_empty f = (rf_kinds f = [] \<and> rf_min_status f = None \<and> rf_team_id f = None
    \<and> rf_min_confidence f = None \<and> rf_project_id f = None)"

definition allowed_statuses :: "retrieval_filters \<Rightarrow> string list option" where
  "allowed_statuses f =
    (case rf_min_status f of
       None \<Rightarrow> None
     | Some lowest \<Rightarrow> Some (map memory_status_as_str
         (dropWhile (\<lambda>s. s \<noteq> lowest) [MS_Raw, MS_Candidate, MS_Canonical])))"

definition filter_kinds :: "retrieval_filters \<Rightarrow> string list option" where
  "filter_kinds f = (if rf_kinds f = [] then None else Some (map memory_kind_as_str (rf_kinds f)))"

text \<open>\<open>RetrievalFilters::admits\<close>, the check on a memory in hand.\<close>

definition admits :: "retrieval_filters \<Rightarrow> 'a memory_scheme \<Rightarrow> bool" where
  "admits f m =
    ((rf_kinds f = [] \<or> m_kind m \<in> set (rf_kinds f))
     \<and> (case allowed_statuses f of None \<Rightarrow> True | Some ok \<Rightarrow> memory_status_as_str (m_status m) \<in> set ok)
     \<and> (case rf_team_id f of None \<Rightarrow> True | Some t \<Rightarrow> m_team_id m = Some t)
     \<and> (case rf_min_confidence f of None \<Rightarrow> True
        | Some c \<Rightarrow> (case m_confidence m of Some mc \<Rightarrow> mc \<ge> c | None \<Rightarrow> False))
     \<and> (case rf_project_id f of None \<Rightarrow> True | Some p \<Rightarrow> m_project_id m = Some p \<or> m_project_id m = None))"

text \<open>The same narrowing as the \<open>WHERE\<close> clause writes it, over the bound parameters.\<close>

definition where_filters :: "retrieval_filters \<Rightarrow> mem_row \<Rightarrow> bool" where
  "where_filters f m =
    ((case filter_kinds f of None \<Rightarrow> True | Some ks \<Rightarrow> memory_kind_as_str (m_kind m) \<in> set ks)
     \<and> (case allowed_statuses f of None \<Rightarrow> True | Some ok \<Rightarrow> memory_status_as_str (m_status m) \<in> set ok)
     \<and> (case rf_team_id f of None \<Rightarrow> True | Some t \<Rightarrow> m_team_id m = Some t)
     \<and> (case rf_min_confidence f of None \<Rightarrow> True
        | Some c \<Rightarrow> (case m_confidence m of Some mc \<Rightarrow> mc \<ge> c | None \<Rightarrow> False))
     \<and> (case rf_project_id f of None \<Rightarrow> True | Some p \<Rightarrow> m_project_id m = Some p \<or> m_project_id m = None))"

section \<open>Rows\<close>

record new_memory =
  nm_id :: uuid
  nm_org_id :: uuid
  nm_team_id :: "uuid option"
  nm_owner_user_id :: "uuid option"
  nm_visibility :: visibility
  nm_status :: memory_status
  nm_kind :: memory_kind
  nm_content :: string
  nm_title :: "string option"
  nm_lifecycle :: lifecycle
  nm_detail_md :: "string option"
  nm_language :: string
  nm_valid_from :: "instant option"
  nm_valid_to :: "instant option"
  nm_superseded_by :: "uuid option"
  nm_confidence :: "rat option"
  nm_provenance_id :: "uuid option"
  nm_project_id :: "uuid option"

definition insert_memory :: "instant \<Rightarrow> new_memory \<Rightarrow> corpus \<Rightarrow> corpus" where
  "insert_memory now m db =
    db\<lparr> memories := memories db @
      [\<lparr> m_id = nm_id m, m_org_id = nm_org_id m, m_team_id = nm_team_id m,
         m_owner_user_id = nm_owner_user_id m, m_visibility = nm_visibility m, m_status = nm_status m,
         m_kind = nm_kind m, m_content = nm_content m, m_lifecycle = nm_lifecycle m,
         m_detail_md = nm_detail_md m, m_valid_from = nm_valid_from m, m_valid_to = nm_valid_to m,
         m_superseded_by = nm_superseded_by m, m_confidence = nm_confidence m,
         m_provenance_id = nm_provenance_id m, m_project_id = nm_project_id m, m_created_at = now,
         mr_title = nm_title m, mr_language = nm_language m, mr_updated_at = now, mr_deleted_at = None \<rparr>] \<rparr>"

definition days :: "int \<Rightarrow> int" where "days n = n * 86400"

text \<open>
  The raw sweep runs on the privileged pool, so no row-level security applies.  \<open>locked\<close> are the rows
  another transaction holds (\<open>SKIP LOCKED\<close>); \<open>new_id\<close> gives the audit row of a memory its id.
\<close>

definition stale_raw :: "instant \<Rightarrow> int \<Rightarrow> uuid list \<Rightarrow> mem_row \<Rightarrow> bool" where
  "stale_raw now ttl_days locked m =
    (m_status m = MS_Raw \<and> mr_deleted_at m = None \<and> m_created_at m < now - days ttl_days \<and> m_id m \<notin> set locked)"

definition ttl_audit :: "instant \<Rightarrow> (uuid \<Rightarrow> uuid) \<Rightarrow> mem_row \<Rightarrow> promotion_row" where
  "ttl_audit now new_id m =
    \<lparr> pr_id = new_id (m_id m), pr_org_id = m_org_id m, pr_memory_id = m_id m, pr_from_status = ''raw'',
      pr_to_status = ''rejected'', pr_policy_decision = ''auto_rejected'', pr_policy_rule = ''raw_ttl_sweep'',
      pr_reviewer_id = None, pr_reviewed_at = Some now \<rparr>"

definition expire_stale_raw ::
  "instant \<Rightarrow> (uuid \<Rightarrow> uuid) \<Rightarrow> uuid list \<Rightarrow> int \<Rightarrow> corpus \<Rightarrow> (nat \<times> nat) \<times> corpus" where
  "expire_stale_raw now new_id locked ttl_days db =
    (let doomed = filter (stale_raw now ttl_days locked) (memories db) in
     ((length doomed, length (remdups (map m_org_id doomed))),
      db\<lparr> memories := update_where (stale_raw now ttl_days locked)
            (\<lambda>m. m\<lparr> m_status := MS_Rejected, mr_updated_at := now \<rparr>) (memories db),
          promotions := promotions db @ map (ttl_audit now new_id) doomed \<rparr>))"

definition newest_first :: "('r \<Rightarrow> instant) \<Rightarrow> 'r list \<Rightarrow> 'r list" where
  "newest_first key = sort_by (\<lambda>a b. key b \<le> key a)"

definition get_by_ids :: "session \<Rightarrow> uuid list \<Rightarrow> corpus \<Rightarrow> mem_row list" where
  "get_by_ids ses ids db =
    (if ids = [] then [] else filter (\<lambda>m. sees_memory db ses m \<and> m_id m \<in> set ids) (memories db))"

definition recent_canonical :: "instant \<Rightarrow> session \<Rightarrow> int \<Rightarrow> nat \<Rightarrow> corpus \<Rightarrow> mem_row list" where
  "recent_canonical now ses window_days limit db =
    take limit (newest_first mr_updated_at (filter (\<lambda>m. sees_memory db ses m \<and> m_status m = MS_Canonical
      \<and> m_superseded_by m = None \<and> mr_deleted_at m = None \<and> mr_updated_at m > now - days window_days) (memories db)))"

definition for_entities_filtered ::
  "session \<Rightarrow> uuid list \<Rightarrow> nat \<Rightarrow> retrieval_filters \<Rightarrow> instant option \<Rightarrow> graph_db \<Rightarrow> corpus \<Rightarrow> mem_row list" where
  "for_entities_filtered ses entity_ids limit f as_of g db =
    (if entity_ids = [] then []
     else take limit (newest_first m_created_at (filter (\<lambda>m. sees_memory db ses m
        \<and> list_ex (\<lambda>(mem, e). mem = m_id m \<and> e \<in> set entity_ids) (memory_entities g)
        \<and> (m_status m = MS_Canonical \<or> m_status m = MS_Candidate) \<and> where_filters f m
        \<and> (case as_of of None \<Rightarrow> True
           | Some t \<Rightarrow> (case m_valid_from m of None \<Rightarrow> True | Some v \<Rightarrow> v \<le> t)
                     \<and> (case m_valid_to m of None \<Rightarrow> True | Some v \<Rightarrow> v > t)))
        (sort_by (\<lambda>a b. m_id a \<le> m_id b) (memories db)))))"

definition for_entities :: "session \<Rightarrow> uuid list \<Rightarrow> nat \<Rightarrow> graph_db \<Rightarrow> corpus \<Rightarrow> mem_row list" where
  "for_entities ses entity_ids limit g db =
    for_entities_filtered ses entity_ids limit retrieval_filters_default None g db"

definition link_entity :: "uuid \<Rightarrow> uuid \<Rightarrow> graph_db \<Rightarrow> graph_db" where
  "link_entity mem e g = g\<lparr> memory_entities := insert_or_ignore (\<lambda>r. r) (mem, e) (memory_entities g) \<rparr>"

definition expiring :: "instant \<Rightarrow> session \<Rightarrow> int \<Rightarrow> int \<Rightarrow> corpus \<Rightarrow> mem_row list" where
  "expiring now ses within_days limit db =
    take (clamp_limit 1 200 limit) (sort_by (\<lambda>a b. the (m_valid_to a) \<le> the (m_valid_to b))
      (filter (\<lambda>m. sees_memory db ses m
         \<and> (case m_valid_to m of None \<Rightarrow> False | Some v \<Rightarrow> v \<le> now + days within_days)
         \<and> (m_status m = MS_Candidate \<or> m_status m = MS_Canonical) \<and> m_superseded_by m = None) (memories db)))"

datatype extend_outcome = Extended instant | Superseded | NotFound

definition extend_validity :: "instant \<Rightarrow> session \<Rightarrow> uuid \<Rightarrow> int \<Rightarrow> corpus \<Rightarrow> extend_outcome \<times> corpus" where
  "extend_validity now ses k n_days db =
    (case find (\<lambda>m. sees_memory db ses m \<and> m_id m = k) (memories db) of
       None \<Rightarrow> (NotFound, db)
     | Some row \<Rightarrow>
         (if m_superseded_by row \<noteq> None then (Superseded, db)
          else let hit = (\<lambda>m. sees_memory db ses m \<and> m_id m = k \<and> m_superseded_by m = None) in
            if rows_affected hit (memories db) = 0 then (Superseded, db)
            else (Extended (now + days n_days),
                  db\<lparr> memories := update_where hit
                    (\<lambda>m. m\<lparr> m_valid_to := Some (now + days n_days), mr_updated_at := now \<rparr>) (memories db) \<rparr>)))"

section \<open>Embedding versions\<close>

record version_row =
  ev_id :: nat
  ev_model_name :: string
  ev_dim :: nat
  ev_is_active :: bool

record embedding_row =
  eb_memory_id :: uuid
  eb_version_id :: nat
  eb_embedding :: "real list"

record embedding_db =
  versions :: "version_row list"
  embeddings :: "embedding_row list"
  next_version :: nat

definition ensure_embedding_version :: "string \<Rightarrow> nat \<Rightarrow> embedding_db \<Rightarrow> nat \<times> embedding_db" where
  "ensure_embedding_version model d e =
    (case find (\<lambda>v. ev_model_name v = model \<and> ev_dim v = d) (versions e) of
       Some v \<Rightarrow> (ev_id v, e)
     | None \<Rightarrow> (next_version e,
         e\<lparr> versions := versions e @ [\<lparr> ev_id = next_version e, ev_model_name = model, ev_dim = d,
                                       ev_is_active = (versions e = []) \<rparr>],
            next_version := next_version e + 1 \<rparr>))"

definition activate_embedding_version :: "nat \<Rightarrow> embedding_db \<Rightarrow> embedding_db" where
  "activate_embedding_version i e =
    e\<lparr> versions := update_where (\<lambda>v. ev_id v = i) (\<lambda>v. v\<lparr> ev_is_active := True \<rparr>) (versions e) \<rparr>"

text \<open>\<open>None\<close> is the error "not fully backfilled"; the version row it ensured is rolled back by the caller.\<close>

definition serving_embedding_version :: "string \<Rightarrow> nat \<Rightarrow> embedding_db \<Rightarrow> (nat \<times> embedding_db) option" where
  "serving_embedding_version model d e =
    (let (i, e') = ensure_embedding_version model d e in
     if list_ex (\<lambda>v. ev_id v = i \<and> ev_is_active v) (versions e') then Some (i, e') else None)"

definition has_embedding :: "embedding_db \<Rightarrow> nat \<Rightarrow> uuid \<Rightarrow> bool" where
  "has_embedding e v m = list_ex (\<lambda>r. eb_memory_id r = m \<and> eb_version_id r = v) (embeddings e)"

definition missing_embedding :: "session \<Rightarrow> nat \<Rightarrow> nat \<Rightarrow> embedding_db \<Rightarrow> corpus \<Rightarrow> (uuid \<times> string) list" where
  "missing_embedding ses v limit e db =
    map (\<lambda>m. (m_id m, m_content m)) (take limit
      (sort_by (\<lambda>a b. m_created_at a < m_created_at b \<or> (m_created_at a = m_created_at b \<and> m_id a \<le> m_id b))
        (filter (\<lambda>m. sees_memory db ses m \<and> mr_deleted_at m = None \<and> \<not> has_embedding e v (m_id m)) (memories db))))"

definition upsert_embedding :: "uuid \<Rightarrow> nat \<Rightarrow> real list \<Rightarrow> embedding_db \<Rightarrow> embedding_db" where
  "upsert_embedding m v emb e =
    e\<lparr> embeddings :=
        (if has_embedding e v m
         then update_where (\<lambda>r. eb_memory_id r = m \<and> eb_version_id r = v) (\<lambda>r. r\<lparr> eb_embedding := emb \<rparr>) (embeddings e)
         else embeddings e @ [\<lparr> eb_memory_id = m, eb_version_id = v, eb_embedding = emb \<rparr>]) \<rparr>"

section \<open>The two candidate retrievers\<close>

definition candidate_le :: "uuid \<times> real \<Rightarrow> uuid \<times> real \<Rightarrow> bool" where
  "candidate_le a b = (snd b < snd a \<or> (snd b = snd a \<and> fst a \<le> fst b))"

definition sort_candidates :: "(uuid \<times> real) list \<Rightarrow> (uuid \<times> real) list" where
  "sort_candidates hits = sort_by candidate_le hits"

definition search_vector ::
  "(real list \<Rightarrow> real list \<Rightarrow> real) \<Rightarrow> session \<Rightarrow> nat \<Rightarrow> real list \<Rightarrow> nat \<Rightarrow> retrieval_filters
    \<Rightarrow> embedding_db \<Rightarrow> corpus \<Rightarrow> (uuid \<times> real) list" where
  "search_vector metric ses v query limit f e db =
    (let rows = concat (map (\<lambda>r. map (\<lambda>m. (m_id m, metric (eb_embedding r) query))
                  (filter (\<lambda>m. m_id m = eb_memory_id r \<and> sees_memory db ses m \<and> m_status m \<noteq> MS_Rejected
                       \<and> where_filters f m) (memories db)))
                (filter (\<lambda>r. eb_version_id r = v \<and> length (eb_embedding r) = length query) (embeddings e)))
     in sort_candidates (map (\<lambda>(i, d). (i, 1 - d)) (take limit (sort_by (\<lambda>a b. snd a \<le> snd b) rows))))"

definition search_fts ::
  "(string \<Rightarrow> string \<Rightarrow> real option) \<Rightarrow> session \<Rightarrow> string \<Rightarrow> nat \<Rightarrow> retrieval_filters \<Rightarrow> corpus \<Rightarrow> (uuid \<times> real) list" where
  "search_fts rank_text ses query limit f db =
    (let rows = concat (map (\<lambda>m. case rank_text (m_content m) query of None \<Rightarrow> [] | Some s \<Rightarrow> [(m_id m, s)])
                  (filter (\<lambda>m. sees_memory db ses m \<and> m_status m \<noteq> MS_Rejected \<and> where_filters f m) (memories db)))
     in sort_candidates (take limit (sort_by (\<lambda>a b. snd b \<le> snd a) rows)))"

section \<open>The filters agree\<close>

text \<open>The \<open>WHERE\<close> clause and \<open>admits\<close> are the same predicate, as the engine's comment claims.\<close>

lemma where_filters_admits: "where_filters f m = admits f m"
  by (auto simp: where_filters_def admits_def filter_kinds_def memory_kind_voc.as_str_inj image_iff split: option.splits)

lemma is_empty_admits: "is_empty f \<Longrightarrow> admits f m"
  by (simp add: is_empty_def admits_def allowed_statuses_def)

lemma is_empty_iff: "is_empty f \<longleftrightarrow> f = retrieval_filters_default"
  by (cases f) (auto simp: is_empty_def retrieval_filters_default_def)

lemma canonical_floor:
  "rf_min_status f = Some MS_Canonical \<Longrightarrow> admits f m \<Longrightarrow> m_status m = MS_Canonical"
  by (cases "m_status m") (auto simp: admits_def allowed_statuses_def)

text \<open>A floor outside the promotion ladder admits nothing: the scan for it falls off the end.\<close>

lemma off_ladder_floor:
  assumes "rf_min_status f = Some s" "s \<notin> {MS_Raw, MS_Candidate, MS_Canonical}"
  shows "\<not> admits f m"
proof -
  have "allowed_statuses f = Some []" using assms by (auto simp: allowed_statuses_def)
  then show ?thesis by (simp add: admits_def)
qed

lemma where_validity:
  "((case m_valid_from m of None \<Rightarrow> True | Some v \<Rightarrow> v \<le> t) \<and> (case m_valid_to m of None \<Rightarrow> True | Some v \<Rightarrow> v > t))
     = valid_at (memory.truncate m) t"
  by (auto simp: valid_at_def memory.truncate_def split: option.splits)

section \<open>The candidate order\<close>

interpretation candidate: order_comparator candidate_le UNIV
  by unfold_locales (auto simp: candidate_le_def prod_eq_iff)

lemma sort_candidates_sorted: "sorted_wrt candidate_le (sort_candidates hits)"
  unfolding sort_candidates_def by (rule candidate.sort_by_sorted) simp

text \<open>The order is total, so two scans that find the same candidates rank them identically.\<close>

lemma sort_candidates_deterministic: "mset xs = mset ys \<Longrightarrow> sort_candidates xs = sort_candidates ys"
  unfolding sort_candidates_def by (rule candidate.sort_by_unique) simp

lemma mset_sort_candidates [simp]: "mset (sort_candidates hits) = mset hits"
  by (simp add: sort_candidates_def)

lemma set_sort_candidates [simp]: "set (sort_candidates hits) = set hits"
  by (simp add: sort_candidates_def)

section \<open>What the retrievers may return\<close>

definition servable :: "corpus \<Rightarrow> session \<Rightarrow> retrieval_filters \<Rightarrow> uuid \<Rightarrow> bool" where
  "servable db ses f k \<longleftrightarrow>
     (\<exists>m\<in>set (memories db). m_id m = k \<and> sees_memory db ses m \<and> m_status m \<noteq> MS_Rejected \<and> admits f m)"

lemma search_vector_servable:
  assumes "(k, s) \<in> set (search_vector metric ses v q n f e db)"
  shows "servable db ses f k"
  using assms by (auto simp: search_vector_def servable_def where_filters_admits Let_def dest!: in_set_takeD)

lemma search_vector_length: "length (search_vector metric ses v q n f e db) \<le> n"
  by (simp add: search_vector_def sort_candidates_def Let_def)

lemma search_fts_servable:
  assumes "(k, s) \<in> set (search_fts rank_text ses q n f db)"
  shows "servable db ses f k"
  using assms
  by (auto simp: search_fts_def servable_def where_filters_admits Let_def split: option.splits dest!: in_set_takeD)

lemma set_take_newest:
  "m \<in> set (take n (newest_first key (filter P (sort_by le xs)))) \<Longrightarrow> m \<in> set xs \<and> P m"
  by (auto simp: newest_first_def dest!: in_set_takeD)

lemma for_entities_filtered_sound:
  assumes "m \<in> set (for_entities_filtered ses es n f as_of g db)"
  shows "m \<in> set (memories db)" "sees_memory db ses m" "admits f m"
    "m_status m = MS_Canonical \<or> m_status m = MS_Candidate"
    "\<forall>t. as_of = Some t \<longrightarrow> valid_at (memory.truncate m) t"
proof -
  have "es \<noteq> []" using assms by (auto simp: for_entities_filtered_def)
  note row = set_take_newest [OF assms [unfolded for_entities_filtered_def if_not_P [OF this]]]
  then show "m \<in> set (memories db)" "sees_memory db ses m" "admits f m"
      "m_status m = MS_Canonical \<or> m_status m = MS_Candidate"
    by (simp_all only: where_filters_admits simp_thms)
  show "\<forall>t. as_of = Some t \<longrightarrow> valid_at (memory.truncate m) t"
    using row where_validity [where m = m] by (cases as_of) simp_all
qed

interpretation newest_created: comparator "\<lambda>a b. m_created_at b \<le> m_created_at a" "UNIV :: mem_row set"
  by unfold_locales auto

lemma for_entities_filtered_newest:
  "sorted_wrt (\<lambda>a b. m_created_at b \<le> m_created_at a) (for_entities_filtered ses es n f as_of g db)"
  by (auto simp: for_entities_filtered_def newest_first_def intro: sorted_wrt_take newest_created.sort_by_sorted)

section \<open>The lifecycle\<close>

text \<open>The TTL sweep rejects exactly the stale raw rows and writes one audit row for each.\<close>

lemma expire_stale_raw_audited:
  assumes "expire_stale_raw now f locked ttl db = ((n, orgs), db')"
  shows "length (memories db') = length (memories db)"
    and "length (promotions db') = length (promotions db) + n"
    and "\<forall>i < length (memories db). memories db' ! i =
      (if stale_raw now ttl locked (memories db ! i)
       then (memories db ! i)\<lparr> m_status := MS_Rejected, mr_updated_at := now \<rparr> else memories db ! i)"
  using assms by (auto simp: expire_stale_raw_def Let_def update_where_def)

lemma expire_stale_raw_orgs: "snd (fst (expire_stale_raw now f locked ttl db)) \<le> fst (fst (expire_stale_raw now f locked ttl db))"
  by (simp add: expire_stale_raw_def Let_def) (metis length_map length_remdups_leq)

lemma expire_stale_raw_idem:
  "fst (fst (expire_stale_raw now f [] ttl (snd (expire_stale_raw now f' [] ttl db)))) = 0"
  by (auto simp: expire_stale_raw_def Let_def update_where_def filter_empty_conv stale_raw_def)

lemma extend_validity_not_found:
  "fst (extend_validity now ses k n db) = NotFound \<longleftrightarrow> \<not> (\<exists>m\<in>set (memories db). sees_memory db ses m \<and> m_id m = k)"
  by (auto simp: extend_validity_def Let_def find_None_iff split: option.splits if_splits)
    (auto simp: find_Some_iff)

lemma extend_validity_refused:
  "fst (extend_validity now ses k n db) \<in> {NotFound, Superseded} \<Longrightarrow> snd (extend_validity now ses k n db) = db"
  by (auto simp: extend_validity_def Let_def split: option.splits if_splits)

lemma extend_validity_row:
  assumes "keys_ok db" "memory_at db k = Some m" "sees_memory db ses m"
  shows "fst (extend_validity now ses k n db) = (if m_superseded_by m = None then Extended (now + days n) else Superseded)"
    and "m_superseded_by m = None \<Longrightarrow> memory_at (snd (extend_validity now ses k n db)) k
      = Some (m\<lparr> m_valid_to := Some (now + days n), mr_updated_at := now \<rparr>)"
proof -
  have m: "m \<in> set (memories db)" "m_id m = k" using assms(2) lookup_SomeD by (fastforce simp: memory_at_def)+
  have f: "find (\<lambda>m. sees_memory db ses m \<and> m_id m = k) (memories db) = Some m"
  proof (cases "find (\<lambda>m. sees_memory db ses m \<and> m_id m = k) (memories db)")
    case None
    then show ?thesis using m assms(3) by (auto simp: find_None_iff)
  next
    case (Some x)
    then have "x \<in> set (memories db)" "m_id x = k" by (auto simp: find_Some_iff)
    then show ?thesis using Some m assms(1) by (auto simp: keys_ok_def distinct_map inj_on_def)
  qed
  have hit: "rows_affected (\<lambda>m. sees_memory db ses m \<and> m_id m = k \<and> m_superseded_by m = None) (memories db) \<noteq> 0"
    if "m_superseded_by m = None"
    using that m assms(3) unfolding rows_affected_zero by blast
  show "fst (extend_validity now ses k n db) = (if m_superseded_by m = None then Extended (now + days n) else Superseded)"
  proof (cases "m_superseded_by m = None")
    case True
    then show ?thesis unfolding extend_validity_def f using hit by (simp add: Let_def)
  next
    case False
    then show ?thesis unfolding extend_validity_def f by simp
  qed
  show "memory_at (snd (extend_validity now ses k n db)) k
      = Some (m\<lparr> m_valid_to := Some (now + days n), mr_updated_at := now \<rparr>)" if "m_superseded_by m = None"
    unfolding extend_validity_def f using hit that assms(2,3) m(2)
    by (simp add: Let_def memory_at_def lookup_update_where)
qed

section \<open>Embedding versions\<close>

lemma ensure_embedding_version_again:
  assumes "ensure_embedding_version model d e = (i, e1)"
  shows "ensure_embedding_version model d e1 = (i, e1)"
proof (cases "find (\<lambda>v. ev_model_name v = model \<and> ev_dim v = d) (versions e)")
  case (Some v)
  then show ?thesis using assms by (simp add: ensure_embedding_version_def)
next
  case None
  have "find p xs = None \<Longrightarrow> p y \<Longrightarrow> find p (xs @ [y]) = Some y" for p y and xs :: "version_row list"
    by (induction xs) (auto split: if_splits)
  from this [OF None] show ?thesis using assms None by (auto simp: ensure_embedding_version_def)
qed

text \<open>A model swap is not servable until the backfill activates its version.\<close>

lemma swap_not_served:
  assumes "versions e \<noteq> []" "\<forall>v\<in>set (versions e). \<not> (ev_model_name v = model \<and> ev_dim v = d)"
    "\<forall>v\<in>set (versions e). ev_id v < next_version e"
  shows "serving_embedding_version model d e = None"
proof -
  have "find (\<lambda>v. ev_model_name v = model \<and> ev_dim v = d) (versions e) = None"
    using assms(2) by (auto simp: find_None_iff)
  then show ?thesis
    using assms(1,3) by (fastforce simp: serving_embedding_version_def ensure_embedding_version_def list_ex_iff)
qed

lemma has_embedding_keys:
  "has_embedding e v m \<longleftrightarrow> (m, v) \<in> set (map (\<lambda>r. (eb_memory_id r, eb_version_id r)) (embeddings e))"
  by (auto simp: has_embedding_def list_ex_iff)

lemma upsert_embedding_iff:
  "has_embedding (upsert_embedding m v emb e) v' m' \<longleftrightarrow> has_embedding e v' m' \<or> (v' = v \<and> m' = m)"
proof -
  let ?k = "\<lambda>r. (eb_memory_id r, eb_version_id r)"
  have keys: "map ?k (update_where p (\<lambda>r. r\<lparr> eb_embedding := emb \<rparr>) rs) = map ?k rs" for p rs
    by (rule map_key_update_where) simp
  have "set (map ?k (embeddings (upsert_embedding m v emb e))) = insert (m, v) (set (map ?k (embeddings e)))"
  proof (cases "has_embedding e v m")
    case True
    have "map ?k (embeddings (upsert_embedding m v emb e)) = map ?k (embeddings e)"
      using True keys [of _ "embeddings e"] unfolding upsert_embedding_def by (simp del: map_eq_conv)
    moreover have "(m, v) \<in> set (map ?k (embeddings e))" using True has_embedding_keys by blast
    ultimately show ?thesis by (metis insert_absorb)
  next
    case False
    then show ?thesis by (simp add: upsert_embedding_def)
  qed
  then show ?thesis unfolding has_embedding_keys by auto
qed

text \<open>Embedding a pending memory takes it off the list and adds nothing to it.\<close>

lemma missing_embedding_shrinks:
  "(k, c) \<in> set (missing_embedding ses v n (upsert_embedding m v emb e) db) \<Longrightarrow> k \<noteq> m"
  by (auto simp: missing_embedding_def upsert_embedding_iff dest!: in_set_takeD)

text \<open>A new memory is readable by every session that may see it.\<close>

lemma insert_memory_readable:
  assumes "sees_memory db ses (last (memories (insert_memory now m db)))"
  shows "\<exists>r\<in>set (get_by_ids ses [nm_id m] (insert_memory now m db)). m_content r = nm_content m \<and> m_status r = nm_status m"
  using assms by (auto simp: insert_memory_def get_by_ids_def sees_memory_def)

section \<open>Properties\<close>

text \<open>The raw sweep is audited and exact.  It rejects exactly the live raw memories older than the TTL that
  no other transaction holds, touches no other row, appends one promotion row per rejected memory and no
  other, reports both counts truly, and a second sweep finds nothing left.\<close>

theorem raw_ttl_sweep_audited:
  assumes "expire_stale_raw now new_id locked ttl db = ((n, orgs), db')"
  shows "memories db' = map (\<lambda>m. if stale_raw now ttl locked m
        then m\<lparr> m_status := MS_Rejected, mr_updated_at := now \<rparr> else m) (memories db) \<and>
    promotions db' = promotions db @ map (ttl_audit now new_id) (filter (stale_raw now ttl locked) (memories db)) \<and>
    n = length (filter (stale_raw now ttl locked) (memories db)) \<and>
    orgs = card (m_org_id ` {m \<in> set (memories db). stale_raw now ttl locked m}) \<and>
    filter (stale_raw now ttl locked) (memories db') = []"
proof -
  have "length (remdups (map m_org_id (filter P ms))) = card (m_org_id ` {m \<in> set ms. P m})" for P and ms :: "mem_row list"
    using length_remdups_card_conv [of "map m_org_id (filter P ms)"] by simp
  then show ?thesis
    using assms by (auto simp: expire_stale_raw_def Let_def update_where_def filter_empty_conv stale_raw_def)
qed

lemma raw_ttl_sweep_audited_witness:
  "filter (stale_raw 1000000 1 []) (memories (snd (expire_stale_raw 1000000 id [] 1
     (example_corpus\<lparr> memories := [example_row 1 Vis_Org MS_Raw] \<rparr>)))) = []"
proof -
  let ?r = "expire_stale_raw 1000000 id [] 1 (example_corpus\<lparr> memories := [example_row 1 Vis_Org MS_Raw] \<rparr>)"
  obtain n orgs db' where r: "?r = ((n, orgs), db')" by (metis surj_pair)
  from raw_ttl_sweep_audited [OF r] have "filter (stale_raw 1000000 1 []) (memories db') = []" by blast
  then show ?thesis unfolding r snd_conv .
qed

text \<open>Extending a memory's validity moves \<open>valid_to\<close> of exactly that row, to \<open>days\<close> from now, when the
  caller can see it and it is not superseded; a memory the caller cannot see is reported as absent, a
  superseded one as superseded, and then nothing changes.\<close>

theorem extend_validity_spec:
  assumes "keys_ok db" and "extend_validity now ses k n db = (out, db')"
  shows "(out = NotFound \<longleftrightarrow> \<not> (\<exists>m\<in>set (memories db). sees_memory db ses m \<and> m_id m = k)) \<and>
    (out \<in> {NotFound, Superseded} \<longrightarrow> db' = db) \<and>
    (\<forall>m. memory_at db k = Some m \<and> sees_memory db ses m \<longrightarrow>
       (if m_superseded_by m = None
        then out = Extended (now + days n) \<and>
          memory_at db' k = Some (m\<lparr> m_valid_to := Some (now + days n), mr_updated_at := now \<rparr>)
        else out = Superseded))"
  using extend_validity_not_found [of now ses k n db] extend_validity_refused [of now ses k n db]
    extend_validity_row [OF assms(1), of k _ ses now n] assms(2)
  by auto

lemma extend_validity_spec_witness:
  "fst (extend_validity 100 example_session 1 3 example_corpus) = Extended (100 + days 3)"
proof -
  let ?r = "extend_validity 100 example_session 1 3 example_corpus"
  have p: "?r = (fst ?r, snd ?r)" by simp
  have m: "memory_at example_corpus 1 = Some (example_row 1 Vis_Org MS_Canonical)" by code_simp
  have v: "sees_memory example_corpus example_session (example_row 1 Vis_Org MS_Canonical)" by code_simp
  have s: "m_superseded_by (example_row 1 Vis_Org MS_Canonical) = None" by code_simp
  from extend_validity_spec [OF example_corpus_keys p] m v s show ?thesis by auto
qed

end
