(* ===== verification/Feedback.thy ===== *)
theory Feedback
  imports Memories
begin

text \<open>
  \<open>brainiac-store/src/feedback.rs\<close>: the readers' verdicts on served memories, the trust attached to a
  hit, the triage queue of open claims with its filters and facets, and their resolution.  The table is
  org-scoped by row-level security; the joined directories (teams, users, memberships, projects) are
  lists of rows.
\<close>

section \<open>Rows and constants\<close>

definition VERDICTS :: "string list" where "VERDICTS = [''helpful'', ''wrong'', ''outdated'']"
definition NEGATIVE_VERDICTS :: "string list" where "NEGATIVE_VERDICTS = [''wrong'', ''outdated'']"
definition RESOLUTIONS :: "string list" where "RESOLUTIONS = [''reverified'', ''deprecated'', ''dismissed'']"
definition REPORT_CAP :: nat where "REPORT_CAP = 5"
definition BANDS :: "string list" where "BANDS = [''past'', ''d30'', ''d90'', ''d180'', ''far'', ''none'']"

record feedback_row =
  fb_id :: uuid
  fb_org_id :: uuid
  fb_memory_id :: uuid
  fb_user_id :: uuid
  fb_verdict :: string
  fb_note :: "string option"
  fb_created_at :: instant
  fb_retrieval_event_id :: "uuid option"
  fb_resolution :: "string option"
  fb_resolved_by :: "uuid option"
  fb_resolved_at :: "instant option"
  fb_resolution_note :: "string option"

type_synonym feedback_tab = "feedback_row list"

definition sees_feedback :: "session \<Rightarrow> feedback_row \<Rightarrow> bool" where
  "sees_feedback ses f = (fb_org_id f = p_org_id (s_principal ses))"

definition open_claim :: "feedback_row \<Rightarrow> bool" where
  "open_claim f = (fb_resolved_at f = None \<and> fb_verdict f \<in> set NEGATIVE_VERDICTS)"

text \<open>The table's \<open>CHECK\<close> refuses any other verdict (\<open>None\<close>: the statement fails).\<close>

definition insert_feedback ::
  "instant \<Rightarrow> uuid \<Rightarrow> uuid \<Rightarrow> uuid \<Rightarrow> uuid \<Rightarrow> string \<Rightarrow> string option \<Rightarrow> uuid option \<Rightarrow> feedback_tab \<Rightarrow> feedback_tab option" where
  "insert_feedback now i org mem user verdict msg ev t =
    (if verdict \<in> set VERDICTS
     then Some (t @ [\<lparr> fb_id = i, fb_org_id = org, fb_memory_id = mem, fb_user_id = user, fb_verdict = verdict,
       fb_note = msg, fb_created_at = now, fb_retrieval_event_id = ev, fb_resolution = None,
       fb_resolved_by = None, fb_resolved_at = None, fb_resolution_note = None \<rparr>])
     else None)"

section \<open>Trust\<close>

definition verdict_count :: "string \<Rightarrow> feedback_tab \<Rightarrow> nat" where
  "verdict_count v fs = length (filter (\<lambda>f. fb_verdict f = v) fs)"

definition feedback_of :: "session \<Rightarrow> uuid \<Rightarrow> feedback_tab \<Rightarrow> feedback_tab" where
  "feedback_of ses mem t = filter (\<lambda>f. sees_feedback ses f \<and> fb_memory_id f = mem) t"

definition summary :: "session \<Rightarrow> uuid \<Rightarrow> feedback_tab \<Rightarrow> (string \<times> nat) list" where
  "summary ses mem t =
    (let fs = feedback_of ses mem t in
     map (\<lambda>v. (v, verdict_count v fs)) (sort_by string_le (remdups (map fb_verdict fs))))"

record trust =
  t_helpful :: nat
  t_wrong :: nat
  t_outdated :: nat
  t_open_claims :: nat

definition trust_default :: trust where
  "trust_default = \<lparr> t_helpful = 0, t_wrong = 0, t_outdated = 0, t_open_claims = 0 \<rparr>"

definition trust_is_empty :: "trust \<Rightarrow> bool" where "trust_is_empty t = (t = trust_default)"
definition disputed :: "trust \<Rightarrow> bool" where "disputed t = (t_open_claims t > 0)"

definition trust_of :: "feedback_tab \<Rightarrow> trust" where
  "trust_of fs =
    \<lparr> t_helpful = verdict_count ''helpful'' fs, t_wrong = verdict_count ''wrong'' fs,
      t_outdated = verdict_count ''outdated'' fs, t_open_claims = length (filter open_claim fs) \<rparr>"

definition trust_for :: "session \<Rightarrow> uuid list \<Rightarrow> feedback_tab \<Rightarrow> (uuid \<times> trust) list" where
  "trust_for ses mems t =
    (if mems = [] then []
     else map (\<lambda>m. (m, trust_of (feedback_of ses m t)))
       (remdups (map fb_memory_id (filter (\<lambda>f. sees_feedback ses f \<and> fb_memory_id f \<in> set mems) t))))"

section \<open>The triage queue\<close>

record directory =
  teams :: "(uuid \<times> uuid \<times> string) list"
  users :: "(uuid \<times> uuid \<times> string) list"
  team_members :: "(uuid \<times> uuid) list"
  project_names :: "(uuid \<times> string) list"

record claim_report =
  cr_verdict :: string
  cr_note :: "string option"
  cr_reporter_id :: uuid
  cr_reporter_email :: "string option"
  cr_reporter_on_owning_team :: bool
  cr_age_secs :: int

record flagged_memory =
  fl_memory_id :: uuid
  fl_title :: "string option"
  fl_content :: string
  fl_kind :: string
  fl_status :: string
  fl_team_id :: "uuid option"
  fl_team :: "string option"
  fl_project_id :: "uuid option"
  fl_project :: "string option"
  fl_confidence :: "rat option"
  fl_valid_to :: "instant option"
  fl_provenance :: "(string \<times> string \<times> string option) option"
  fl_wrong :: nat
  fl_outdated :: nat
  fl_reporters :: nat
  fl_reports :: "claim_report list"
  fl_oldest_claim_secs :: int

definition band_of :: "instant \<Rightarrow> instant option \<Rightarrow> string" where
  "band_of now valid_to =
    (case valid_to of
       None \<Rightarrow> ''none''
     | Some v \<Rightarrow>
         if v < now then ''past'' else if v < now + days 30 then ''d30''
         else if v < now + days 90 then ''d90'' else if v < now + days 180 then ''d180'' else ''far'')"

text \<open>A project filter is the word \<open>none\<close> or the text of an id (\<open>uuid_text\<close> is \<open>uuid::text\<close>).\<close>

record flagged_filter =
  ff_kind :: "string option"
  ff_team_id :: "uuid option"
  ff_min_age_hours :: "int option"
  ff_min_claims :: "nat option"
  ff_band :: "string option"
  ff_project :: "string option"

definition band_is_valid :: "flagged_filter \<Rightarrow> bool" where
  "band_is_valid f = (case ff_band f of None \<Rightarrow> True | Some b \<Rightarrow> b \<in> set BANDS)"

definition flagged_where :: "(uuid \<Rightarrow> string) \<Rightarrow> instant \<Rightarrow> flagged_filter \<Rightarrow> mem_row \<Rightarrow> bool" where
  "flagged_where uuid_text now f m =
    ((case ff_kind f of None \<Rightarrow> True | Some k \<Rightarrow> memory_kind_as_str (m_kind m) = k)
     \<and> (case ff_team_id f of None \<Rightarrow> True | Some t \<Rightarrow> m_team_id m = Some t)
     \<and> (case ff_band f of None \<Rightarrow> True | Some b \<Rightarrow> band_of now (m_valid_to m) = b)
     \<and> (case ff_project f of None \<Rightarrow> True
        | Some p \<Rightarrow> (if p = ''none'' then m_project_id m = None
                      else map_option uuid_text (m_project_id m) = Some p)))"

definition oldest :: "feedback_tab \<Rightarrow> instant" where
  "oldest fs = fold (\<lambda>f a. min (fb_created_at f) a) (tl fs) (fb_created_at (hd fs))"

definition flagged_having :: "instant \<Rightarrow> flagged_filter \<Rightarrow> feedback_tab \<Rightarrow> bool" where
  "flagged_having now f fs =
    ((case ff_min_claims f of None \<Rightarrow> True | Some n \<Rightarrow> length fs \<ge> n)
     \<and> (case ff_min_age_hours f of None \<Rightarrow> True | Some h \<Rightarrow> oldest fs \<le> now - h * 3600))"

text \<open>The groups of the query: a visible memory with its open claims.\<close>

definition open_claims_of :: "session \<Rightarrow> uuid \<Rightarrow> feedback_tab \<Rightarrow> feedback_tab" where
  "open_claims_of ses mem t = filter open_claim (feedback_of ses mem t)"

definition flagged_groups ::
  "(uuid \<Rightarrow> string) \<Rightarrow> instant \<Rightarrow> session \<Rightarrow> flagged_filter \<Rightarrow> feedback_tab \<Rightarrow> corpus \<Rightarrow> (mem_row \<times> feedback_tab) list" where
  "flagged_groups uuid_text now ses f t db =
    filter (\<lambda>(m, fs). fs \<noteq> [] \<and> flagged_having now f fs)
      (map (\<lambda>m. (m, open_claims_of ses (m_id m) t))
        (filter (\<lambda>m. sees_memory db ses m \<and> flagged_where uuid_text now f m) (memories db)))"

definition name_in :: "uuid \<Rightarrow> uuid \<Rightarrow> (uuid \<times> uuid \<times> string) list \<Rightarrow> string option" where
  "name_in org k rows = map_option (\<lambda>(_, _, n). n) (find (\<lambda>(i, o', _). i = k \<and> o' = org) rows)"

definition report_of :: "instant \<Rightarrow> directory \<Rightarrow> mem_row \<Rightarrow> feedback_row \<Rightarrow> claim_report" where
  "report_of now dir m f =
    \<lparr> cr_verdict = fb_verdict f, cr_note = fb_note f, cr_reporter_id = fb_user_id f,
      cr_reporter_email = name_in (fb_org_id f) (fb_user_id f) (users dir),
      cr_reporter_on_owning_team = (case m_team_id m of None \<Rightarrow> False | Some t \<Rightarrow> (fb_user_id f, t) \<in> set (team_members dir)),
      cr_age_secs = now - fb_created_at f \<rparr>"

definition flagged_view :: "instant \<Rightarrow> session \<Rightarrow> directory \<Rightarrow> corpus \<Rightarrow> mem_row \<times> feedback_tab \<Rightarrow> flagged_memory" where
  "flagged_view now ses dir db g =
    (let (m, fs) = g in
     \<lparr> fl_memory_id = m_id m, fl_title = mr_title m, fl_content = m_content m,
       fl_kind = memory_kind_as_str (m_kind m), fl_status = memory_status_as_str (m_status m),
       fl_team_id = m_team_id m,
       fl_team = Option.bind (m_team_id m) (\<lambda>t. name_in (p_org_id (s_principal ses)) t (teams dir)),
       fl_project_id = m_project_id m,
       fl_project = Option.bind (m_project_id m) (map_of (project_names dir)),
       fl_confidence = m_confidence m, fl_valid_to = m_valid_to m,
       fl_provenance = Option.bind (m_provenance_id m) (\<lambda>p.
          map_option (\<lambda>r. (pv_actor_kind r, pv_actor_id r, pv_model_ref r))
            (find (\<lambda>r. pv_id r = p \<and> pv_org_id r = p_org_id (s_principal ses)) (provenances db))),
       fl_wrong = verdict_count ''wrong'' fs, fl_outdated = verdict_count ''outdated'' fs,
       fl_reporters = length (remdups (map fb_user_id fs)),
       fl_reports = take REPORT_CAP (map (report_of now dir m) (sort_by (\<lambda>a b. fb_created_at b \<le> fb_created_at a) fs)),
       fl_oldest_claim_secs = now - oldest fs \<rparr>)"

definition flagged_le :: "mem_row \<times> feedback_tab \<Rightarrow> mem_row \<times> feedback_tab \<Rightarrow> bool" where
  "flagged_le a b =
    (let wa = verdict_count ''wrong'' (snd a); wb = verdict_count ''wrong'' (snd b);
         na = length (snd a); nb = length (snd b) in
     wb < wa \<or> (wb = wa \<and> (nb < na \<or> (nb = na \<and> oldest (snd a) \<le> oldest (snd b)))))"

definition flagged ::
  "(uuid \<Rightarrow> string) \<Rightarrow> instant \<Rightarrow> session \<Rightarrow> directory \<Rightarrow> flagged_filter \<Rightarrow> int \<Rightarrow> int \<Rightarrow> feedback_tab \<Rightarrow> corpus
    \<Rightarrow> flagged_memory list" where
  "flagged uuid_text now ses dir f limit offset t db =
    map (flagged_view now ses dir db)
      (page (nat (max offset 0)) (clamp_limit 1 200 limit)
        (sort_by flagged_le (flagged_groups uuid_text now ses f t db)))"

definition flagged_count ::
  "(uuid \<Rightarrow> string) \<Rightarrow> instant \<Rightarrow> session \<Rightarrow> flagged_filter \<Rightarrow> feedback_tab \<Rightarrow> corpus \<Rightarrow> nat" where
  "flagged_count uuid_text now ses f t db = length (flagged_groups uuid_text now ses f t db)"

text \<open>One facet: the distinct disputed memories counted by a key; the largest first, then by key.\<close>

definition disputed_memories :: "session \<Rightarrow> feedback_tab \<Rightarrow> corpus \<Rightarrow> mem_row list" where
  "disputed_memories ses t db =
    filter (\<lambda>m. sees_memory db ses m \<and> open_claims_of ses (m_id m) t \<noteq> []) (memories db)"

definition facet_counts :: "(mem_row \<Rightarrow> string \<times> string) \<Rightarrow> mem_row list \<Rightarrow> (string \<times> string \<times> nat) list" where
  "facet_counts key ms =
    map (\<lambda>(v, l). (v, l, length (filter (\<lambda>m. key m = (v, l)) ms))) (remdups (map key ms))"

definition facet_le :: "string \<times> string \<times> nat \<Rightarrow> string \<times> string \<times> nat \<Rightarrow> bool" where
  "facet_le a b = (case (a, b) of ((_, la, na), (_, lb, nb)) \<Rightarrow> nb < na \<or> (nb = na \<and> string_le la lb))"

definition flagged_facets ::
  "(uuid \<Rightarrow> string) \<Rightarrow> instant \<Rightarrow> session \<Rightarrow> directory \<Rightarrow> feedback_tab \<Rightarrow> corpus
    \<Rightarrow> (string \<times> string \<times> nat) list \<times> (string \<times> string \<times> nat) list
      \<times> (string \<times> string \<times> nat) list \<times> (string \<times> string \<times> nat) list" where
  "flagged_facets uuid_text now ses dir t db =
    (let ms = disputed_memories ses t db;
         kind_key = (\<lambda>m. (memory_kind_as_str (m_kind m), memory_kind_as_str (m_kind m)));
         team_key = (\<lambda>m. ((case m_team_id m of None \<Rightarrow> [] | Some k \<Rightarrow> uuid_text k),
           (case Option.bind (m_team_id m) (\<lambda>k. name_in (p_org_id (s_principal ses)) k (teams dir)) of
              None \<Rightarrow> ''org-wide'' | Some n \<Rightarrow> n)));
         project_key = (\<lambda>m. ((case m_project_id m of None \<Rightarrow> ''none'' | Some k \<Rightarrow> uuid_text k),
           (case Option.bind (m_project_id m) (map_of (project_names dir)) of None \<Rightarrow> ''org-shared'' | Some n \<Rightarrow> n)));
         band_n = (\<lambda>b. length (filter (\<lambda>m. band_of now (m_valid_to m) = b) ms))
     in (sort_by facet_le (facet_counts kind_key ms), sort_by facet_le (facet_counts team_key ms),
         map (\<lambda>b. (b, b, band_n b)) (filter (\<lambda>b. band_n b > 0) BANDS),
         sort_by facet_le (facet_counts project_key ms)))"

definition open_claim_count :: "session \<Rightarrow> uuid \<Rightarrow> feedback_tab \<Rightarrow> nat" where
  "open_claim_count ses mem t = length (open_claims_of ses mem t)"

definition resolve_claims ::
  "instant \<Rightarrow> session \<Rightarrow> uuid \<Rightarrow> uuid \<Rightarrow> string \<Rightarrow> string option \<Rightarrow> feedback_tab \<Rightarrow> nat \<times> feedback_tab" where
  "resolve_claims now ses mem resolver resolution msg t =
    (let hit = (\<lambda>f. sees_feedback ses f \<and> fb_memory_id f = mem \<and> open_claim f) in
     (rows_affected hit t,
      update_where hit (\<lambda>f. f\<lparr> fb_resolution := Some resolution, fb_resolved_by := Some resolver,
        fb_resolved_at := Some now, fb_resolution_note := msg \<rparr>) t))"

section \<open>Trust is a function of the verdicts\<close>

lemma trust_for_lookup:
  assumes "m \<in> set mems"
  shows "(case map_of (trust_for ses mems t) m of Some x \<Rightarrow> x | None \<Rightarrow> trust_default) = trust_of (feedback_of ses m t)"
proof (cases "m \<in> fb_memory_id ` {f \<in> set t. sees_feedback ses f \<and> fb_memory_id f \<in> set mems}")
  case True
  have "map_of (map (\<lambda>m. (m, trust_of (feedback_of ses m t))) xs) m = Some (trust_of (feedback_of ses m t))"
    if "m \<in> set xs" for xs
    using that by (induction xs) auto
  then show ?thesis using True assms by (auto simp: trust_for_def)
next
  case False
  then have "feedback_of ses m t = []" using assms by (auto simp: feedback_of_def filter_empty_conv)
  moreover have "map_of (map (\<lambda>m. (m, trust_of (feedback_of ses m t))) xs) m = None" if "m \<notin> set xs" for xs
    using that by (induction xs) auto
  then have "map_of (trust_for ses mems t) m = None" using False by (auto simp: trust_for_def)
  ultimately show ?thesis by (simp add: trust_of_def verdict_count_def trust_default_def)
qed

lemma trust_of_counts:
  "t_open_claims (trust_of fs) \<le> t_wrong (trust_of fs) + t_outdated (trust_of fs)"
proof -
  have "length (filter open_claim fs) \<le> length (filter (\<lambda>f. fb_verdict f = ''wrong'') fs)
      + length (filter (\<lambda>f. fb_verdict f = ''outdated'') fs)"
    by (induction fs) (auto simp: open_claim_def NEGATIVE_VERDICTS_def)
  then show ?thesis by (simp add: trust_of_def verdict_count_def)
qed

section \<open>Resolution\<close>

lemma resolve_claims_count: "fst (resolve_claims now ses mem r res msg t) = open_claim_count ses mem t"
  by (simp add: resolve_claims_def Let_def rows_affected_def open_claim_count_def open_claims_of_def feedback_of_def
      conj_commute conj_left_commute)

lemma resolve_claims_closes: "open_claim_count ses mem (snd (resolve_claims now ses mem r res msg t)) = 0"
  by (auto simp: resolve_claims_def Let_def open_claim_count_def open_claims_of_def feedback_of_def update_where_def
      filter_empty_conv sees_feedback_def open_claim_def)

lemma resolve_claims_frame:
  assumes "f \<in> set t" "fb_memory_id f \<noteq> mem \<or> \<not> open_claim f"
  shows "f \<in> set (snd (resolve_claims now ses mem r res msg t))"
  using assms by (auto simp: resolve_claims_def Let_def set_update_where image_iff intro!: bexI [of _ f])

lemma resolve_claims_verdicts:
  "map fb_verdict (snd (resolve_claims now ses mem r res msg t)) = map fb_verdict t"
  by (simp add: resolve_claims_def Let_def)

section \<open>The queue\<close>

lemma flagged_length:
  assumes "0 \<le> offset"
  shows "length (flagged u now ses dir f limit offset t db)
    = min (flagged_count u now ses f t db - nat offset) (clamp_limit 1 200 limit)"
  using assms by (simp add: flagged_def flagged_count_def page_def min.commute)

lemma flagged_open:
  assumes "x \<in> set (flagged u now ses dir f limit offset t db)"
  obtains m fs where "x = flagged_view now ses dir db (m, fs)" "m \<in> set (memories db)" "sees_memory db ses m"
    "fs = open_claims_of ses (m_id m) t" "fs \<noteq> []" "flagged_where u now f m"
proof -
  have "set (page a b xs) \<subseteq> set xs" for a b and xs :: "(mem_row \<times> feedback_tab) list"
    by (auto simp: page_def dest: in_set_takeD in_set_dropD)
  then show ?thesis using assms that by (fastforce simp: flagged_def flagged_groups_def)
qed

text \<open>A disputed memory leaves the queue when its claims are resolved, and only then.\<close>

lemma flagged_groups_resolved:
  assumes "(m, fs) \<in> set (flagged_groups u now ses f (snd (resolve_claims now' ses mem r res msg t)) db)"
  shows "m_id m \<noteq> mem"
  using assms resolve_claims_closes [of ses mem now' r res msg t]
  by (auto simp: flagged_groups_def open_claim_count_def)

lemma bands_cover: "band_of now v \<in> set BANDS"
  by (auto simp: band_of_def BANDS_def split: option.splits)

lemma bands_partition:
  "(\<Sum>b\<leftarrow>BANDS. length (filter (\<lambda>m. band_of now (m_valid_to m) = b) ms)) = length (ms :: mem_row list)"
proof (induction ms)
  case (Cons m ms)
  then show ?case using bands_cover [of now "m_valid_to m"] by (auto simp: BANDS_def)
qed (simp add: BANDS_def)

section \<open>Properties\<close>

text \<open>Resolving the claims on a memory closes exactly the open claims the caller can see on it: the
  count returned is the number that was open, none stays open, the memory leaves the triage queue and the
  facets, every other claim and every verdict are as before, and a second resolution has nothing to do.\<close>

theorem resolve_claims_spec:
  "fst (resolve_claims now ses mem who res msg t) = open_claim_count ses mem t \<and>
   open_claim_count ses mem (snd (resolve_claims now ses mem who res msg t)) = 0 \<and>
   map fb_verdict (snd (resolve_claims now ses mem who res msg t)) = map fb_verdict t \<and>
   (\<forall>f\<in>set t. fb_memory_id f \<noteq> mem \<or> \<not> open_claim f \<longrightarrow> f \<in> set (snd (resolve_claims now ses mem who res msg t))) \<and>
   (\<forall>g\<in>set (flagged_groups u now' ses ff (snd (resolve_claims now ses mem who res msg t)) db). m_id (fst g) \<noteq> mem) \<and>
   (\<forall>m\<in>set (disputed_memories ses (snd (resolve_claims now ses mem who res msg t)) db). m_id m \<noteq> mem) \<and>
   fst (resolve_claims later ses mem who2 res2 msg2 (snd (resolve_claims now ses mem who res msg t))) = 0"
  using resolve_claims_closes [of ses mem now who res msg t]
  by (auto simp: resolve_claims_count resolve_claims_verdicts resolve_claims_frame disputed_memories_def open_claim_count_def
      dest: flagged_groups_resolved)

lemma resolve_claims_spec_witness:
  "open_claim_count example_session 1 (snd (resolve_claims 9 example_session 1 5 ''dismissed'' None [])) = 0"
  using resolve_claims_spec [of 9 example_session 1 5 "''dismissed''" None "[]"] by blast

end
