(* ===== verification/Retrieval.thy ===== *)
theory Retrieval
  imports Feedback Governance Fusion Scoring Lexical
begin

text \<open>
  \<open>brainiac-store/src/retrieval.rs\<close>: the hybrid retrieval engine, stage by stage.  All reads of one
  search are taken from one state of the tables, and the two retriever connections are stamped with the
  caller's scope, so they use the caller's session.  Parameters: the embedder and the optional reranker
  (both may fail, \<open>None\<close>), the vector distance and the full-text rank.
\<close>

section \<open>The stages\<close>

definition CANDIDATES_PER_RETRIEVER :: nat where "CANDIDATES_PER_RETRIEVER = 50"
definition FUSED_POOL :: nat where "FUSED_POOL = 30"
definition GRAPH_ANCHOR_TOP :: nat where "GRAPH_ANCHOR_TOP = 10"
definition GRAPH_EXTRA_MEMORIES :: nat where "GRAPH_EXTRA_MEMORIES = 10"
definition GRAPH_HOPS :: nat where "GRAPH_HOPS = 2"
definition RRF_K :: real where "RRF_K = 60"
definition RERANK_MAX_CANDIDATES :: nat where "RERANK_MAX_CANDIDATES = 40"
definition IDENT_VECTOR_WEIGHT :: real where "IDENT_VECTOR_WEIGHT = 1"
definition IDENT_FTS_WEIGHT :: real where "IDENT_FTS_WEIGHT = 2"

record retrieval_request =
  rq_query :: string
  rq_k :: nat
  rq_as_of :: "instant option"
  rq_filters :: retrieval_filters

record retrieval_hit =
  rh_memory :: memory
  rh_score :: real
  rh_via_graph :: bool
  rh_anchors :: "(uuid \<times> string) list"

record governed_retrieval =
  gr_hits :: "retrieval_hit list"
  gr_withheld_contested :: nat

text \<open>The tables one search reads, and the services it calls.\<close>

record store =
  s_corpus :: corpus
  s_graph :: graph_db
  s_embeddings :: embedding_db
  s_feedback :: feedback_tab

record services =
  sv_embed :: "string \<Rightarrow> real list option"
  sv_rerank :: "(string \<Rightarrow> (uuid \<times> string) list \<Rightarrow> real list option) option"
  sv_metric :: "real list \<Rightarrow> real list \<Rightarrow> real"
  sv_rank_text :: "string \<Rightarrow> string \<Rightarrow> real option"

definition row_to_memory :: "mem_row \<Rightarrow> memory" where
  "row_to_memory r = memory.truncate r"

text \<open>Stage 3.\<close>

definition fuse_candidates :: "string \<Rightarrow> uuid list \<Rightarrow> uuid list \<Rightarrow> (uuid \<times> real) list" where
  "fuse_candidates query vector_ranked fts_ranked =
    (if query_is_identifier_heavy query
     then weighted_reciprocal_rank_fusion [vector_ranked, fts_ranked] [IDENT_VECTOR_WEIGHT, IDENT_FTS_WEIGHT] RRF_K FUSED_POOL
     else reciprocal_rank_fusion [vector_ranked, fts_ranked] RRF_K FUSED_POOL)"

definition fused_candidates ::
  "services \<Rightarrow> session \<Rightarrow> nat \<Rightarrow> retrieval_request \<Rightarrow> real list \<Rightarrow> store \<Rightarrow> (uuid \<times> real) list" where
  "fused_candidates sv ses version req qvec st =
    fuse_candidates (rq_query req)
      (map fst (search_vector (sv_metric sv) ses version qvec CANDIDATES_PER_RETRIEVER (rq_filters req)
         (s_embeddings st) (s_corpus st)))
      (map fst (search_fts (sv_rank_text sv) ses (rq_query req) CANDIDATES_PER_RETRIEVER (rq_filters req) (s_corpus st)))"

text \<open>Stage 4.\<close>

definition graph_extras ::
  "session \<Rightarrow> retrieval_request \<Rightarrow> instant \<Rightarrow> uuid list \<Rightarrow> store \<Rightarrow> mem_row list" where
  "graph_extras ses req as_of fused_ids st =
    (let anchors = anchors_of_memories (take GRAPH_ANCHOR_TOP fused_ids) (s_graph st);
         near = neighbors ses anchors GRAPH_HOPS 200 (s_graph st)
     in for_entities_filtered ses near GRAPH_EXTRA_MEMORIES (rq_filters req) (Some as_of) (s_graph st) (s_corpus st))"

text \<open>Stage 5: direct hits in fused order, then the extras not already there.\<close>

definition direct_hits :: "session \<Rightarrow> uuid list \<Rightarrow> corpus \<Rightarrow> memory list" where
  "direct_hits ses fused_ids db =
    (let by_id = map (\<lambda>m. (m_id m, row_to_memory m)) (rev (get_by_ids ses fused_ids db)) in
     concat (map (\<lambda>i. case map_of by_id i of None \<Rightarrow> [] | Some m \<Rightarrow> [m]) fused_ids))"

fun append_new :: "memory list \<Rightarrow> memory list \<Rightarrow> uuid list \<Rightarrow> memory list \<times> uuid list" where
  "append_new ordered [] graph_ids = (ordered, graph_ids)"
| "append_new ordered (m # ms) graph_ids =
    (if m_id m \<in> set (map m_id ordered) then append_new ordered ms graph_ids
     else append_new (ordered @ [m]) ms (graph_ids @ [m_id m]))"

definition survivors :: "retrieval_filters \<Rightarrow> instant \<Rightarrow> memory list \<Rightarrow> memory list" where
  "survivors f as_of ordered = dedupe_for_time (filter (\<lambda>m. valid_at m as_of \<and> admits f m) ordered) as_of"

definition rerank_scores ::
  "(string \<Rightarrow> (uuid \<times> string) list \<Rightarrow> real list option) option \<Rightarrow> string \<Rightarrow> memory list \<Rightarrow> (uuid \<times> real) list option option" where
  "rerank_scores rr query deduped =
    (case rr of
       None \<Rightarrow> Some None
     | Some r \<Rightarrow>
         (let capped = map (\<lambda>m. (m_id m, m_content m)) (take RERANK_MAX_CANDIDATES deduped) in
          map_option (\<lambda>ss. Some (rev (zip (map fst capped) ss))) (r query capped)))"

text \<open>Age in whole days, truncated toward zero (\<open>num_days\<close>).\<close>

definition age_days :: "memory \<Rightarrow> instant \<Rightarrow> real" where
  "age_days m as_of =
    (let d = as_of - m_created_at m in real_of_int (if d \<ge> 0 then d div 86400 else - ((- d) div 86400)))"

text \<open>Stage 6.\<close>

definition affinity_of :: "uuid option \<Rightarrow> memory \<Rightarrow> project_affinity" where
  "affinity_of caller_project m =
    (case caller_project of None \<Rightarrow> NoLens | Some p \<Rightarrow> if m_project_id m = Some p then Own else Shared)"

definition relevance_of ::
  "(uuid \<times> real) list \<Rightarrow> uuid list \<Rightarrow> real \<Rightarrow> (uuid \<times> real) list option \<Rightarrow> memory \<Rightarrow> real" where
  "relevance_of fused graph_ids anchor_strength sc m =
    (let base_relevance = (case map_of (rev fused) (m_id m) of
           Some s \<Rightarrow> s
         | None \<Rightarrow> if m_id m \<in> set graph_ids then graph_relevance anchor_strength else 0)
     in case sc of
          None \<Rightarrow> base_relevance
        | Some rs \<Rightarrow> (case map_of rs (m_id m) of Some s \<Rightarrow> s | None \<Rightarrow> base_relevance))"

definition signal_of :: "trust \<Rightarrow> feedback_signal" where
  "signal_of t = \<lparr> helpful = int (t_helpful t), wrong = int (t_wrong t), outdated = int (t_outdated t) \<rparr>"

definition score_hit ::
  "(uuid \<times> trust) list \<Rightarrow> uuid option \<Rightarrow> instant \<Rightarrow> (memory \<Rightarrow> real) \<Rightarrow> uuid list \<Rightarrow> memory \<Rightarrow> retrieval_hit" where
  "score_hit trusts caller_project as_of relevance graph_ids m =
    (let t = (case map_of trusts (m_id m) of Some t \<Rightarrow> t | None \<Rightarrow> trust_default) in
     \<lparr> rh_memory = m,
       rh_score = blended_score (relevance m) (age_days m as_of) (signal_of t) (affinity_of caller_project m),
       rh_via_graph = (m_id m \<in> set graph_ids), rh_anchors = [] \<rparr>)"

definition rank_hits :: "retrieval_hit list \<Rightarrow> retrieval_hit list" where
  "rank_hits hits = sort_by (\<lambda>a b. rh_score b \<le> rh_score a) hits"

text \<open>Stage 7: walk the ranked hits, skip and count the contested ones, stop at \<open>k\<close>.\<close>

fun withhold :: "nat \<Rightarrow> (uuid \<Rightarrow> bool) \<Rightarrow> retrieval_hit list \<Rightarrow> retrieval_hit list \<Rightarrow> nat \<Rightarrow> retrieval_hit list \<times> nat" where
  "withhold k contested [] kept withheld = (kept, withheld)"
| "withhold k contested (h # hs) kept withheld =
    (if length kept \<ge> k then (kept, withheld)
     else if contested (m_id (rh_memory h)) then withhold k contested hs kept (withheld + 1)
     else withhold k contested hs (kept @ [h]) withheld)"

definition cut_hits :: "bool \<Rightarrow> session \<Rightarrow> nat \<Rightarrow> corpus \<Rightarrow> retrieval_hit list \<Rightarrow> retrieval_hit list \<times> nat" where
  "cut_hits withhold_contested ses k db ranked =
    (if withhold_contested then
       (let ids = map (\<lambda>h. m_id (rh_memory h)) ranked;
            contested = (\<lambda>i. open_contradictions_for ses ids db i \<noteq> [])
        in if list_ex contested ids then withhold k contested ranked [] 0 else (take k ranked, 0))
     else (take k ranked, 0))"

definition attach_anchors :: "session \<Rightarrow> graph_db \<Rightarrow> retrieval_hit list \<Rightarrow> retrieval_hit list" where
  "attach_anchors ses g hits =
    (let anchors = canonical_anchors_for ses (map (\<lambda>h. m_id (rh_memory h)) hits) g in
     map (\<lambda>h. h\<lparr> rh_anchors := (case map_of anchors (m_id (rh_memory h)) of Some as \<Rightarrow> as | None \<Rightarrow> []) \<rparr>) hits)"

text \<open>The hits in rank order, before the cut; \<open>None\<close> when the embedder or the reranker fails.\<close>

definition ranked_hits ::
  "services \<Rightarrow> instant \<Rightarrow> session \<Rightarrow> nat \<Rightarrow> retrieval_request \<Rightarrow> store \<Rightarrow> retrieval_hit list option" where
  "ranked_hits sv now ses version req st =
    (let as_of = (case rq_as_of req of Some t \<Rightarrow> t | None \<Rightarrow> now) in
     case sv_embed sv (rq_query req) of
       None \<Rightarrow> None
     | Some qvec \<Rightarrow>
         (let caller_project = (case rf_project_id (rq_filters req) of
                Some p \<Rightarrow> Some p | None \<Rightarrow> p_project_id (s_principal ses));
              fused = fused_candidates sv ses version req qvec st;
              fused_ids = map fst fused;
              anchor_strength = (case fused of [] \<Rightarrow> 0 | (_, s) # _ \<Rightarrow> s);
              extras = map row_to_memory (graph_extras ses req as_of fused_ids st);
              (ordered, graph_ids) = append_new (direct_hits ses fused_ids (s_corpus st)) extras [];
              deduped = survivors (rq_filters req) as_of ordered
          in case rerank_scores (sv_rerank sv) (rq_query req) deduped of
               None \<Rightarrow> None
             | Some sc \<Rightarrow>
                 Some (rank_hits (map (score_hit (trust_for ses (map m_id deduped) (s_feedback st)) caller_project as_of
                   (relevance_of fused graph_ids anchor_strength sc) graph_ids) deduped))))"

definition engine ::
  "services \<Rightarrow> instant \<Rightarrow> session \<Rightarrow> nat \<Rightarrow> retrieval_request \<Rightarrow> bool \<Rightarrow> store \<Rightarrow> governed_retrieval option" where
  "engine sv now ses version req withhold_contested st =
    (case ranked_hits sv now ses version req st of
       None \<Rightarrow> None
     | Some ranked \<Rightarrow>
         (let (hits, n) = cut_hits withhold_contested ses (rq_k req) (s_corpus st) ranked in
          Some \<lparr> gr_hits = attach_anchors ses (s_graph st) hits, gr_withheld_contested = n \<rparr>))"

definition search_reranked ::
  "services \<Rightarrow> instant \<Rightarrow> session \<Rightarrow> nat \<Rightarrow> retrieval_request \<Rightarrow> store \<Rightarrow> retrieval_hit list option" where
  "search_reranked sv now ses version req st = map_option gr_hits (engine sv now ses version req False st)"

definition search_plain ::
  "services \<Rightarrow> instant \<Rightarrow> session \<Rightarrow> nat \<Rightarrow> retrieval_request \<Rightarrow> store \<Rightarrow> retrieval_hit list option" where
  "search_plain sv now ses version req st = search_reranked (sv\<lparr> sv_rerank := None \<rparr>) now ses version req st"

definition search_governed ::
  "services \<Rightarrow> instant \<Rightarrow> session \<Rightarrow> nat \<Rightarrow> retrieval_request \<Rightarrow> store \<Rightarrow> governed_retrieval option" where
  "search_governed sv now ses version req st = engine sv now ses version req True st"

section \<open>The cut\<close>

lemma withhold_acc:
  "withhold k contested hs kept n =
    (let served = take (k - length kept) (filter (\<lambda>h. \<not> contested (m_id (rh_memory h))) hs) in
     (kept @ served, n + snd (withhold k contested hs kept 0)))"
proof (induction hs arbitrary: kept n)
  case (Cons h hs)
  show ?case
  proof (cases "length kept \<ge> k")
    case True
    then show ?thesis by simp
  next
    case False
    then obtain j where j: "k - length kept = Suc j" by (metis Suc_diff_Suc leI)
    have j': "k - length (kept @ [h]) = j" using j by simp
    show ?thesis
    proof (cases "contested (m_id (rh_memory h))")
      case True
      have "withhold k contested hs kept (n + 1) = (let served = take (k - length kept) (filter (\<lambda>h. \<not> contested (m_id (rh_memory h))) hs) in
          (kept @ served, n + 1 + snd (withhold k contested hs kept 0)))" by (rule Cons.IH)
      moreover have "snd (withhold k contested hs kept 1) = 1 + snd (withhold k contested hs kept 0)"
        by (subst Cons.IH) (simp add: Let_def)
      ultimately show ?thesis using False True by (simp add: Let_def)
    next
      case False2: False
      show ?thesis using False False2 j j'
        by (simp add: Let_def) (subst Cons.IH, simp add: Let_def)
    qed
  qed
qed simp

lemma withhold_served:
  "fst (withhold k contested hs [] 0) = take k (filter (\<lambda>h. \<not> contested (m_id (rh_memory h))) hs)"
  by (subst withhold_acc) (simp add: Let_def)

lemma withhold_count_le:
  "snd (withhold k contested hs kept n) \<le> n + length (filter (\<lambda>h. contested (m_id (rh_memory h))) hs)"
proof (induction hs arbitrary: kept n)
  case (Cons h hs)
  show ?case using Cons.IH [of kept "n + 1"] Cons.IH [of "kept @ [h]" n] by auto
qed simp

lemma cut_governed:
  assumes "ids = map (\<lambda>h. m_id (rh_memory h)) ranked"
  shows "fst (cut_hits True ses k db ranked)
    = take k (filter (\<lambda>h. open_contradictions_for ses ids db (m_id (rh_memory h)) = []) ranked)"
proof (cases "list_ex (\<lambda>i. open_contradictions_for ses ids db i \<noteq> []) ids")
  case True
  then show ?thesis using assms by (simp add: cut_hits_def Let_def withhold_served)
next
  case False
  then have "filter (\<lambda>h. open_contradictions_for ses ids db (m_id (rh_memory h)) = []) ranked = ranked"
    by (auto simp: assms list_ex_iff filter_id_conv)
  then show ?thesis using False assms by (simp add: cut_hits_def Let_def)
qed

lemma cut_count_le:
  "snd (cut_hits True ses k db ranked) \<le>
    length (filter (\<lambda>h. open_contradictions_for ses (map (\<lambda>h. m_id (rh_memory h)) ranked) db (m_id (rh_memory h)) \<noteq> []) ranked)"
  using withhold_count_le [of k "\<lambda>i. open_contradictions_for ses (map (\<lambda>h. m_id (rh_memory h)) ranked) db i \<noteq> []" ranked "[]" 0]
  by (simp add: cut_hits_def Let_def)

lemma cut_plain: "cut_hits False ses k db ranked = (take k ranked, 0)"
  by (simp add: cut_hits_def)

section \<open>What is served\<close>

lemma direct_hits_sound:
  assumes "m \<in> set (direct_hits ses ids db)"
  shows "\<exists>r\<in>set (memories db). sees_memory db ses r \<and> m = row_to_memory r \<and> m_id r \<in> set ids"
proof -
  obtain i where i: "i \<in> set ids"
      "map_of (map (\<lambda>m. (m_id m, row_to_memory m)) (rev (get_by_ids ses ids db))) i = Some m"
    using assms by (auto simp: direct_hits_def Let_def split: option.splits)
  then show ?thesis by (auto simp: get_by_ids_def dest!: map_of_SomeD split: if_splits)
qed

lemma row_to_memory_sel [simp]:
  "m_id (row_to_memory r) = m_id r" "m_status (row_to_memory r) = m_status r"
  "m_kind (row_to_memory r) = m_kind r" "m_team_id (row_to_memory r) = m_team_id r"
  "m_confidence (row_to_memory r) = m_confidence r" "m_project_id (row_to_memory r) = m_project_id r"
  by (simp_all add: row_to_memory_def memory.truncate_def)

lemma admits_row_to_memory [simp]: "admits f (row_to_memory r) = admits f r"
  unfolding admits_def row_to_memory_sel ..

lemma direct_hits_ids: "distinct ids \<Longrightarrow> distinct (map m_id (direct_hits ses ids db))"
proof -
  let ?by = "map (\<lambda>m. (m_id m, row_to_memory m)) (rev (get_by_ids ses ids db))"
  let ?f = "\<lambda>i. case map_of ?by i of None \<Rightarrow> [] | Some m \<Rightarrow> [m]"
  have one: "map m_id (?f i) = (if map_of ?by i = None then [] else [i])" for i
    by (auto split: option.splits dest!: map_of_SomeD)
  have "map m_id (concat (map ?f xs)) = filter (\<lambda>i. map_of ?by i \<noteq> None) xs" for xs
    by (induction xs) (simp_all add: one del: not_None_eq)
  moreover assume "distinct ids"
  ultimately show ?thesis unfolding direct_hits_def Let_def by (metis distinct_filter)
qed

lemma append_new_ordered: "\<exists>new. fst (append_new ordered ms gids) = ordered @ new \<and> set new \<subseteq> set ms"
proof (induction ms arbitrary: ordered gids)
  case (Cons m ms)
  show ?case
  proof (cases "m_id m \<in> set (map m_id ordered)")
    case True
    then show ?thesis using Cons.IH [of ordered gids] by auto
  next
    case False
    obtain new where "fst (append_new (ordered @ [m]) ms (gids @ [m_id m])) = (ordered @ [m]) @ new" "set new \<subseteq> set ms"
      using Cons.IH by blast
    then show ?thesis using False by (intro exI [of _ "m # new"]) auto
  qed
qed simp

lemma append_new_distinct:
  "distinct (map m_id ordered) \<Longrightarrow> distinct (map m_id (fst (append_new ordered ms gids)))"
  by (induction ms arbitrary: ordered gids) auto

lemma append_new_sound:
  assumes "append_new ordered ms gids = (out, gids')"
  shows "set out \<subseteq> set ordered \<union> set ms" and "distinct (map m_id ordered) \<Longrightarrow> distinct (map m_id out)"
  using append_new_ordered [of ordered ms gids] append_new_distinct [of ordered ms gids] assms by auto

lemma survivors_sound:
  assumes "m \<in> set (survivors f t ordered)"
  shows "m \<in> set ordered" "valid_at m t" "admits f m"
  using assms by (auto simp: survivors_def dedupe_for_time_def)

lemma survivors_distinct: "distinct (map m_id ordered) \<Longrightarrow> distinct (map m_id (survivors f t ordered))"
  by (simp add: survivors_def dedupe_for_time_def distinct_map_filter)

lemma survivors_chain:
  assumes "distinct (map m_id ordered)" "a \<in> set (survivors f t ordered)" "b \<in> set (survivors f t ordered)"
    "m_superseded_by a = Some (m_id b)"
  shows "a = b"
proof -
  let ?xs = "filter (\<lambda>m. valid_at m t \<and> admits f m) ordered"
  have d: "distinct (map m_id ?xs)" using assms(1) by (simp add: distinct_map_filter)
  have a: "a \<in> set (dedupe_for_time ?xs t)" and b: "b \<in> set (dedupe_for_time ?xs t)"
    using assms(2,3) unfolding survivors_def .
  have "chain_id ?xs a = chain_id ?xs b"
    by (rule chain_id_step [OF d dedupe_winner(1) [OF d a] dedupe_winner(1) [OF d b] assms(4)])
  then show ?thesis by (rule dedupe_one_per_chain [OF d a b])
qed

lemma fuse_candidates_items: "fst ` set (fuse_candidates q a b) \<subseteq> set a \<union> set b"
proof -
  have "reciprocal_rank_fusion [a, b] RRF_K FUSED_POOL = weighted_reciprocal_rank_fusion [a, b] [] RRF_K FUSED_POOL"
    using plain_is_weighted [of "[]" "[a, b]"] by simp
  then show ?thesis using weighted_items [OF refl, of "[a, b]"] unfolding fuse_candidates_def by (simp split: if_splits)
qed

lemma fused_candidates_servable:
  assumes "(k, s) \<in> set (fused_candidates sv ses v req q st)"
  shows "servable (s_corpus st) ses (rq_filters req) k"
proof -
  have "k \<in> fst ` set (fused_candidates sv ses v req q st)" using assms by force
  from subsetD [OF fuse_candidates_items this [unfolded fused_candidates_def]]
  show ?thesis by (auto dest: search_vector_servable search_fts_servable)
qed

lemma fused_candidates_distinct: "distinct (map fst (fused_candidates sv ses v req q st))"
proof -
  have "distinct (map fst (reciprocal_rank_fusion ls RRF_K FUSED_POOL))" for ls :: "uuid list list"
    using plain_is_weighted [of "[]" ls] weighted_distinct [OF refl, of ls "[]"] by simp
  then show ?thesis
    unfolding fused_candidates_def fuse_candidates_def by (simp add: weighted_distinct [OF refl])
qed

interpretation hit_order: comparator "\<lambda>a b. rh_score b \<le> rh_score a" "UNIV :: retrieval_hit set"
  by unfold_locales auto

text \<open>A memory a search may serve: visible, not rejected, inside its window, through the filters.\<close>

definition may_serve :: "session \<Rightarrow> retrieval_request \<Rightarrow> instant \<Rightarrow> corpus \<Rightarrow> memory \<Rightarrow> bool" where
  "may_serve ses req as_of db m \<longleftrightarrow>
     (\<exists>r\<in>set (memories db). m = row_to_memory r \<and> sees_memory db ses r \<and> m_status r \<noteq> MS_Rejected)
     \<and> valid_at m as_of \<and> admits (rq_filters req) m"

definition as_of_of :: "instant \<Rightarrow> retrieval_request \<Rightarrow> instant" where
  "as_of_of now req = (case rq_as_of req of Some t \<Rightarrow> t | None \<Rightarrow> now)"

lemma ranked_hits_spec:
  assumes keys: "keys_ok (s_corpus st)" and r: "ranked_hits sv now ses v req st = Some ranked"
  shows "distinct (map (\<lambda>h. m_id (rh_memory h)) ranked)"
    and "h \<in> set ranked \<Longrightarrow> may_serve ses req (as_of_of now req) (s_corpus st) (rh_memory h)"
    and "sorted_wrt (\<lambda>a b. rh_score b \<le> rh_score a) ranked"
    and "a \<in> set ranked \<Longrightarrow> b \<in> set ranked \<Longrightarrow>
      m_superseded_by (rh_memory a) = Some (m_id (rh_memory b)) \<Longrightarrow> a = b"
proof -
  define t where "t = as_of_of now req"
  obtain qvec where q: "sv_embed sv (rq_query req) = Some qvec"
    using r by (auto simp: ranked_hits_def Let_def split: option.splits)
  define fused where "fused = fused_candidates sv ses v req qvec st"
  define extras where "extras = map row_to_memory (graph_extras ses req t (map fst fused) st)"
  obtain ordered gids where o': "append_new (direct_hits ses (map fst fused) (s_corpus st)) extras [] = (ordered, gids)"
    by fastforce
  define deduped where "deduped = survivors (rq_filters req) t ordered"
  obtain score where ranked: "ranked = rank_hits (map (score_hit (trust_for ses (map m_id deduped) (s_feedback st))
      (case rf_project_id (rq_filters req) of Some p \<Rightarrow> Some p | None \<Rightarrow> p_project_id (s_principal ses)) t score gids) deduped)"
    using r q o' unfolding ranked_hits_def Let_def as_of_of_def t_def fused_def extras_def deduped_def
    by (auto split: option.splits)
  have mem: "map rh_memory (map (score_hit a b c d e) ms) = ms" for a b c d e ms
    by (induction ms) (simp_all add: score_hit_def Let_def)
  have ordered: "distinct (map m_id ordered)"
    by (rule append_new_sound(2) [OF o'], rule direct_hits_ids) (simp add: fused_def fused_candidates_distinct)
  then have "distinct (map m_id deduped)" unfolding deduped_def by (rule survivors_distinct)
  then show ids: "distinct (map (\<lambda>h. m_id (rh_memory h)) ranked)"
    by (simp add: ranked rank_hits_def comp_def score_hit_def Let_def)
  show "a = b" if "a \<in> set ranked" "b \<in> set ranked" "m_superseded_by (rh_memory a) = Some (m_id (rh_memory b))"
  proof -
    have "rh_memory a \<in> set deduped" "rh_memory b \<in> set deduped"
      using that(1,2) by (auto simp: ranked rank_hits_def score_hit_def Let_def)
    then have "rh_memory a = rh_memory b"
      using survivors_chain [OF ordered, of "rh_memory a" "rq_filters req" t "rh_memory b"] that(3) by (simp add: deduped_def)
    then show ?thesis using ids that(1,2) by (simp add: distinct_map inj_on_def)
  qed
  show "sorted_wrt (\<lambda>a b. rh_score b \<le> rh_score a) ranked"
    unfolding ranked rank_hits_def by (rule hit_order.sort_by_sorted) simp
  assume "h \<in> set ranked"
  then have h: "rh_memory h \<in> set deduped" by (auto simp: ranked rank_hits_def score_hit_def Let_def)
  have "rh_memory h \<in> set ordered" "valid_at (rh_memory h) t" "admits (rq_filters req) (rh_memory h)"
    using survivors_sound h by (auto simp: deduped_def)
  moreover have "\<exists>r\<in>set (memories (s_corpus st)). rh_memory h = row_to_memory r \<and> sees_memory (s_corpus st) ses r
      \<and> m_status r \<noteq> MS_Rejected"
  proof -
    have "rh_memory h \<in> set (direct_hits ses (map fst fused) (s_corpus st)) \<or> rh_memory h \<in> set extras"
      using append_new_sound(1) [OF o'] calculation(1) by blast
    then show ?thesis
    proof
      assume "rh_memory h \<in> set (direct_hits ses (map fst fused) (s_corpus st))"
      then obtain r where row: "r \<in> set (memories (s_corpus st))" "sees_memory (s_corpus st) ses r"
          "rh_memory h = row_to_memory r" "m_id r \<in> set (map fst fused)"
        using direct_hits_sound by blast
      then obtain r' where "r' \<in> set (memories (s_corpus st))" "m_id r' = m_id r" "m_status r' \<noteq> MS_Rejected"
        using fused_candidates_servable by (fastforce simp: fused_def servable_def)
      then have "m_status r \<noteq> MS_Rejected"
        using row(1) keys by (metis distinct_map inj_onD keys_okD(1))
      then show ?thesis using row by blast
    next
      assume "rh_memory h \<in> set extras"
      then show ?thesis
        using for_entities_filtered_sound by (fastforce simp: extras_def graph_extras_def Let_def)
    qed
  qed
  ultimately show "may_serve ses req (as_of_of now req) (s_corpus st) (rh_memory h)"
    by (auto simp: may_serve_def t_def)
qed

lemma attach_anchors_frame [simp]:
  "map rh_memory (attach_anchors ses g hits) = map rh_memory hits"
  "map rh_score (attach_anchors ses g hits) = map rh_score hits"
  "length (attach_anchors ses g hits) = length hits"
  by (simp_all add: attach_anchors_def Let_def)

lemma subseq_keeps:
  assumes "subseq xs ys"
  shows "set xs \<subseteq> set ys" and "distinct ys \<Longrightarrow> distinct xs" and "sorted_wrt r ys \<Longrightarrow> sorted_wrt r xs"
proof -
  show sub: "set xs \<subseteq> set ys" using assms by (auto simp: subseq_conv_nths dest: in_set_nthsD)
  show "distinct xs" if "distinct ys" using assms that by (auto simp: subseq_conv_nths)
  show "sorted_wrt r xs" if "sorted_wrt r ys"
    using assms that
  proof (induction xs ys rule: list_emb.induct)
    case (list_emb_Cons2 x y xs ys)
    then have "set xs \<subseteq> set ys" by (auto simp: subseq_conv_nths dest: in_set_nthsD)
    then show ?case using list_emb_Cons2 by auto
  qed simp_all
qed

lemma cut_hits_subseq: "subseq (fst (cut_hits w ses k db ranked)) ranked"
proof -
  have take: "subseq (take k xs) xs" for xs :: "retrieval_hit list"
    using take_is_prefix by (rule prefix_imp_subseq)
  show ?thesis
  proof (cases w)
    case True
    have "subseq (take k (filter P ranked)) ranked" for P
      using take [of "filter P ranked"] subseq_filter_left [of P ranked] subseq_order.trans by blast
    then show ?thesis using True cut_governed [OF refl] by simp
  next
    case False
    then show ?thesis using take by (simp add: cut_plain)
  qed
qed

lemma cut_hits_length: "length (fst (cut_hits w ses k db ranked)) \<le> k"
  using cut_governed [OF refl, of ses k db ranked] by (cases w) (simp_all add: cut_plain)

section \<open>Properties\<close>



section \<open>An example\<close>

text \<open>
  The text match is by equality, no embedding exists; two memories match, one of them is in an open
  dispute with a third.
\<close>

definition example_store :: store where
  "example_store =
    \<lparr> s_corpus = example_corpus\<lparr> memories := map (\<lambda>m. if m_id m = 3 then m\<lparr> m_content := ''other'' \<rparr> else m)
                    (memories example_corpus @ [example_row 4 Vis_Org MS_Candidate]) \<rparr>,
      s_graph = \<lparr> entities = [], canonicals = [], entity_links = [], edges_tab = [], memory_entities = [],
                  canonical_embeddings = [] \<rparr>,
      s_embeddings = \<lparr> versions = [], embeddings = [], next_version = 1 \<rparr>, s_feedback = [] \<rparr>"

definition example_services :: services where
  "example_services =
    \<lparr> sv_embed = (\<lambda>_. Some [1]), sv_rerank = None, sv_metric = (\<lambda>_ _. 0),
      sv_rank_text = (\<lambda>text q. if text = q then Some 1 else None) \<rparr>"

definition example_request :: retrieval_request where
  "example_request = \<lparr> rq_query = ''claim'', rq_k = 1, rq_as_of = None, rq_filters = retrieval_filters_default \<rparr>"



end
