(* ===== verification/Standards.thy ===== *)
theory Standards
  imports Memories
begin

text \<open>
  \<open>brainiac-store/src/library/{standards,bridge,proposals,usage}.rs\<close>: the rules of an organisation,
  their revisions and provenance, the bridge from a practice divergence to a candidate rule, agent
  proposals and the usage signals.  The tables are org-scoped by row-level security.  \<open>None\<close> as the
  result of a write is a statement the schema refuses: a unique violation or the trigger
  \<open>standards_attribution_check\<close> of migration 0029.
\<close>

section \<open>Tables\<close>

record std_row = standard +
  sr_created_at :: instant

record std_version =
  sv_standard_id :: uuid
  sv_org_id :: uuid
  sv_rev :: nat
  sv_statement :: string
  sv_rationale :: "string option"
  sv_detail_md :: "string option"
  sv_enforcement :: enforcement
  sv_author :: "uuid option"
  sv_created_at :: instant

record usage_event =
  ue_org_id :: uuid
  ue_artifact_kind :: library_artifact_kind
  ue_artifact_id :: uuid
  ue_version :: "string option"
  ue_event :: library_usage_event
  ue_team_id :: "uuid option"
  ue_occurred_at :: instant

record divergence_row =
  dv_id :: uuid
  dv_org_id :: uuid
  dv_practice :: string
  dv_summary :: "string option"
  dv_recommended_standard :: "string option"

record library_db =
  standards :: "std_row list"
  std_versions :: "std_version list"
  std_provenance :: "standard_provenance list"
  usage_events :: "usage_event list"
  divergences :: "divergence_row list"

definition sees_std :: "session \<Rightarrow> std_row \<Rightarrow> bool" where
  "sees_std ses s = (st_org_id s = p_org_id (s_principal ses))"

section \<open>Inserting a candidate\<close>

record new_standard =
  ns_id :: uuid
  ns_org_id :: uuid
  ns_origin :: standard_origin
  ns_stack :: string
  ns_category :: string
  ns_slug :: string
  ns_statement :: string
  ns_rationale :: "string option"
  ns_detail_md :: "string option"
  ns_enforcement :: enforcement
  ns_provenance :: "(standard_provenance_kind \<times> uuid) list"
  ns_author :: "uuid option"

definition add_provenance :: "uuid \<Rightarrow> standard_provenance_kind \<Rightarrow> uuid \<Rightarrow> library_db \<Rightarrow> library_db" where
  "add_provenance s k r db =
    db\<lparr> std_provenance := insert_or_ignore (\<lambda>p. (sp_standard_id p, sp_kind p, sp_ref_id p))
        \<lparr> sp_standard_id = s, sp_kind = k, sp_ref_id = r \<rparr> (std_provenance db) \<rparr>"

definition insert_standard :: "instant \<Rightarrow> new_standard \<Rightarrow> library_db \<Rightarrow> library_db option" where
  "insert_standard now s db =
    (if list_ex (\<lambda>r. st_id r = ns_id s \<or> (st_org_id r = ns_org_id s \<and> st_slug r = ns_slug s)) (standards db) then None
     else Some (fold (\<lambda>(k, r). add_provenance (ns_id s) k r) (ns_provenance s)
       (db\<lparr> standards := standards db @
              [\<lparr> st_id = ns_id s, st_org_id = ns_org_id s, st_origin = ns_origin s, st_stack = ns_stack s,
                 st_category = ns_category s, st_slug = ns_slug s, st_statement = ns_statement s,
                 st_rationale = ns_rationale s, st_detail_md = ns_detail_md s, st_enforcement = ns_enforcement s,
                 st_lifecycle = SL_Proposed, st_adopted_by = None, st_adopted_at = None, st_decreed_by = None,
                 st_updated_at = now, sr_created_at = now \<rparr>],
            std_versions := std_versions db @
              [\<lparr> sv_standard_id = ns_id s, sv_org_id = ns_org_id s, sv_rev = 1, sv_statement = ns_statement s,
                 sv_rationale = ns_rationale s, sv_detail_md = ns_detail_md s, sv_enforcement = ns_enforcement s,
                 sv_author = ns_author s, sv_created_at = now \<rparr>] \<rparr>)))"

section \<open>Reads\<close>

definition get_standard :: "session \<Rightarrow> uuid \<Rightarrow> library_db \<Rightarrow> std_row option" where
  "get_standard ses k db = find (\<lambda>s. sees_std ses s \<and> st_id s = k) (standards db)"

definition get_standard_by_slug :: "session \<Rightarrow> string \<Rightarrow> library_db \<Rightarrow> std_row option" where
  "get_standard_by_slug ses slug db = find (\<lambda>s. sees_std ses s \<and> st_slug s = slug) (standards db)"

definition std_le :: "std_row \<Rightarrow> std_row \<Rightarrow> bool" where
  "std_le a b =
    (if st_stack a \<noteq> st_stack b then string_le (st_stack a) (st_stack b)
     else if st_category a \<noteq> st_category b then string_le (st_category a) (st_category b)
     else string_le (st_slug a) (st_slug b))"

definition list_standards :: "session \<Rightarrow> string option \<Rightarrow> standard_lifecycle option \<Rightarrow> library_db \<Rightarrow> std_row list" where
  "list_standards ses stack lc db =
    sort_by std_le (filter (\<lambda>s. sees_std ses s
      \<and> (case stack of None \<Rightarrow> True | Some x \<Rightarrow> st_stack s = x)
      \<and> (case lc of None \<Rightarrow> True | Some l \<Rightarrow> st_lifecycle s = l)) (standards db))"

definition prov_le :: "standard_provenance \<Rightarrow> standard_provenance \<Rightarrow> bool" where
  "prov_le a b =
    (if sp_kind a \<noteq> sp_kind b
     then string_le (standard_provenance_kind_as_str (sp_kind a)) (standard_provenance_kind_as_str (sp_kind b))
     else sp_ref_id a \<le> sp_ref_id b)"

definition provenance_of :: "uuid \<Rightarrow> library_db \<Rightarrow> standard_provenance list" where
  "provenance_of s db = sort_by prov_le (filter (\<lambda>p. sp_standard_id p = s) (std_provenance db))"

definition versions_of_standard :: "uuid \<Rightarrow> library_db \<Rightarrow> std_version list" where
  "versions_of_standard s db =
    sort_by (\<lambda>a b. sv_rev b \<le> sv_rev a) (filter (\<lambda>v. sv_standard_id v = s) (std_versions db))"

section \<open>The gate\<close>

text \<open>The page \<open>standards-<stack>\<close> is stale; \<open>updated_at\<close> does not move here.\<close>

definition mark_standards_pages_dirty :: "instant \<Rightarrow> session \<Rightarrow> string \<Rightarrow> corpus \<Rightarrow> nat \<times> corpus" where
  "mark_standards_pages_dirty now ses stack cp =
    (let p = (\<lambda>d. sees_document ses d \<and> d_doc_kind d = DK_StandardsPage \<and> d_slug d = ''standards-'' @ stack) in
     (rows_affected p (documents cp),
      cp\<lparr> documents := update_where p
        (\<lambda>d. d\<lparr> d_dirty_at := (case d_dirty_at d of None \<Rightarrow> Some now | Some t \<Rightarrow> Some t) \<rparr>) (documents cp) \<rparr>))"

definition mark_page_for_standard :: "instant \<Rightarrow> session \<Rightarrow> uuid \<Rightarrow> library_db \<Rightarrow> corpus \<Rightarrow> corpus" where
  "mark_page_for_standard now ses k db cp =
    (case get_standard ses k db of None \<Rightarrow> cp
     | Some s \<Rightarrow> snd (mark_standards_pages_dirty now ses (st_stack s) cp))"

definition has_provenance :: "library_db \<Rightarrow> uuid \<Rightarrow> bool" where
  "has_provenance db k = list_ex (\<lambda>p. sp_standard_id p = k) (std_provenance db)"

text \<open>The trigger's condition on a row.\<close>

definition attributed :: "library_db \<Rightarrow> std_row \<Rightarrow> bool" where
  "attributed db s =
    (st_lifecycle s \<in> {SL_Adopted, SL_Deprecated} \<longrightarrow> st_decreed_by s \<noteq> None \<or> has_provenance db (st_id s))"

definition adopted_row :: "instant \<Rightarrow> uuid \<Rightarrow> bool \<Rightarrow> std_row \<Rightarrow> std_row" where
  "adopted_row now by' decree s =
    s\<lparr> st_lifecycle := SL_Adopted, st_adopted_by := Some by', st_adopted_at := Some now,
       st_decreed_by := (if decree then Some by' else st_decreed_by s), st_updated_at := now \<rparr>"

definition update_standards ::
  "(std_row \<Rightarrow> bool) \<Rightarrow> (std_row \<Rightarrow> std_row) \<Rightarrow> library_db \<Rightarrow> (bool \<times> library_db) option" where
  "update_standards hit f db =
    (if list_ex (\<lambda>s. hit s \<and> \<not> attributed db (f s)) (standards db) then None
     else Some (rows_affected hit (standards db) > 0, db\<lparr> standards := update_where hit f (standards db) \<rparr>))"

definition adopt_standard ::
  "instant \<Rightarrow> session \<Rightarrow> uuid \<Rightarrow> uuid \<Rightarrow> bool \<Rightarrow> library_db \<Rightarrow> corpus \<Rightarrow> (bool \<times> library_db \<times> corpus) option" where
  "adopt_standard now ses k by' decree db cp =
    (case update_standards (\<lambda>s. sees_std ses s \<and> st_id s = k \<and> st_lifecycle s = SL_Proposed)
            (adopted_row now by' decree) db of
       None \<Rightarrow> None
     | Some (hit, db') \<Rightarrow> Some (hit, db', (if hit then mark_page_for_standard now ses k db' cp else cp)))"

definition deprecate_standard ::
  "instant \<Rightarrow> session \<Rightarrow> uuid \<Rightarrow> uuid \<Rightarrow> library_db \<Rightarrow> corpus \<Rightarrow> (bool \<times> library_db \<times> corpus) option" where
  "deprecate_standard now ses k by' db cp =
    (case update_standards (\<lambda>s. sees_std ses s \<and> st_id s = k \<and> st_lifecycle s = SL_Adopted)
            (\<lambda>s. s\<lparr> st_lifecycle := SL_Deprecated, st_adopted_by := Some by', st_updated_at := now \<rparr>) db of
       None \<Rightarrow> None
     | Some (hit, db') \<Rightarrow> Some (hit, db', (if hit then mark_page_for_standard now ses k db' cp else cp)))"

definition reject_standard :: "instant \<Rightarrow> session \<Rightarrow> uuid \<Rightarrow> uuid \<Rightarrow> library_db \<Rightarrow> (bool \<times> library_db) option" where
  "reject_standard now ses k by' db =
    update_standards (\<lambda>s. sees_std ses s \<and> st_id s = k \<and> st_lifecycle s = SL_Proposed)
      (\<lambda>s. s\<lparr> st_lifecycle := SL_Rejected, st_adopted_by := Some by', st_updated_at := now \<rparr>) db"

section \<open>Rewording\<close>

record standard_patch =
  pa_stack :: "string option"
  pa_category :: "string option"
  pa_statement :: "string option"
  pa_rationale :: "string option"
  pa_detail_md :: "string option"
  pa_enforcement :: "enforcement option"

datatype update_outcome = Updated "nat option" | UpdateNotFound | Terminal standard_lifecycle

definition patched :: "standard_patch \<Rightarrow> std_row \<Rightarrow> std_row" where
  "patched p s =
    s\<lparr> st_stack := (case pa_stack p of None \<Rightarrow> st_stack s | Some x \<Rightarrow> x),
       st_category := (case pa_category p of None \<Rightarrow> st_category s | Some x \<Rightarrow> x),
       st_statement := (case pa_statement p of None \<Rightarrow> st_statement s | Some x \<Rightarrow> x),
       st_rationale := (case pa_rationale p of None \<Rightarrow> st_rationale s | Some x \<Rightarrow> Some x),
       st_detail_md := (case pa_detail_md p of None \<Rightarrow> st_detail_md s | Some x \<Rightarrow> Some x),
       st_enforcement := (case pa_enforcement p of None \<Rightarrow> st_enforcement s | Some x \<Rightarrow> x) \<rparr>"

definition reworded :: "std_row \<Rightarrow> std_row \<Rightarrow> bool" where
  "reworded a b = (st_statement a \<noteq> st_statement b \<or> st_rationale a \<noteq> st_rationale b
    \<or> st_detail_md a \<noteq> st_detail_md b \<or> st_enforcement a \<noteq> st_enforcement b)"

definition refiled :: "std_row \<Rightarrow> std_row \<Rightarrow> bool" where
  "refiled a b = (st_stack a \<noteq> st_stack b \<or> st_category a \<noteq> st_category b)"

definition next_rev :: "uuid \<Rightarrow> library_db \<Rightarrow> nat" where
  "next_rev k db = fold max (map sv_rev (filter (\<lambda>v. sv_standard_id v = k) (std_versions db))) 0 + 1"

definition update_standard ::
  "instant \<Rightarrow> session \<Rightarrow> uuid \<Rightarrow> standard_patch \<Rightarrow> uuid \<Rightarrow> library_db \<Rightarrow> corpus \<Rightarrow> update_outcome \<times> library_db \<times> corpus" where
  "update_standard now ses k p author db cp =
    (case get_standard ses k db of
       None \<Rightarrow> (UpdateNotFound, db, cp)
     | Some s \<Rightarrow>
         (if st_lifecycle s = SL_Deprecated \<or> st_lifecycle s = SL_Rejected then (Terminal (st_lifecycle s), db, cp)
          else let a = patched p s in
            if \<not> reworded a s \<and> \<not> refiled a s then (Updated None, db, cp)
            else
              (let db1 = db\<lparr> standards := update_where (\<lambda>x. sees_std ses x \<and> st_id x = k)
                     (\<lambda>x. x\<lparr> st_stack := st_stack a, st_category := st_category a, st_statement := st_statement a,
                             st_rationale := st_rationale a, st_detail_md := st_detail_md a,
                             st_enforcement := st_enforcement a, st_updated_at := now \<rparr>) (standards db) \<rparr>;
                   rev = next_rev k db;
                   db2 = (if reworded a s then db1\<lparr> std_versions := std_versions db1 @
                            [\<lparr> sv_standard_id = k, sv_org_id = st_org_id s, sv_rev = rev,
                               sv_statement = st_statement a, sv_rationale = st_rationale a,
                               sv_detail_md = st_detail_md a, sv_enforcement = st_enforcement a,
                               sv_author = Some author, sv_created_at = now \<rparr>] \<rparr> else db1);
                   cp1 = (if st_lifecycle s = SL_Adopted then snd (mark_standards_pages_dirty now ses (st_stack s) cp) else cp);
                   cp2 = (if st_lifecycle s = SL_Adopted \<and> refiled a s \<and> st_stack a \<noteq> st_stack s
                          then snd (mark_standards_pages_dirty now ses (st_stack a) cp1) else cp1)
               in (Updated (if reworded a s then Some rev else None), db2, cp2))))"

section \<open>Slugs and the bridge\<close>

text \<open>
  The loop over the characters: \<open>out\<close> and the flag that suppresses a dash.  Only ASCII letters and
  digits are kept, in lower case.
\<close>

fun slug_loop :: "string \<Rightarrow> bool \<Rightarrow> string \<Rightarrow> string" where
  "slug_loop out dash [] = out"
| "slug_loop out dash (c # cs) =
    (if is_alnum c then slug_loop (out @ [to_lower c]) False cs
     else if \<not> dash then slug_loop (out @ ''-'') True cs
     else slug_loop out dash cs)"

definition slugify :: "string \<Rightarrow> string" where
  "slugify practice =
    (let out = trim_end_by (\<lambda>c. c = CHR ''-'') (slug_loop [] True practice) in
     if out = [] then ''practice'' else out)"

definition divergence_candidate ::
  "(uuid \<Rightarrow> string) \<Rightarrow> uuid \<Rightarrow> uuid option \<Rightarrow> divergence_row \<Rightarrow> session \<Rightarrow> library_db \<Rightarrow> new_standard" where
  "divergence_candidate short_id new_id author d ses db =
    (let base = slugify (dv_practice d);
         slug = (if list_ex (\<lambda>s. sees_std ses s \<and> st_org_id s = dv_org_id d \<and> st_slug s = base) (standards db)
                 then base @ ''-'' @ short_id (dv_id d) else base)
     in \<lparr> ns_id = new_id, ns_org_id = dv_org_id d,
          ns_origin = (case author of Some _ \<Rightarrow> SO_Human | None \<Rightarrow> SO_Sweep),
          ns_stack = ''general'', ns_category = ''practice'', ns_slug = slug,
          ns_statement = (case dv_recommended_standard d of Some r \<Rightarrow> r | None \<Rightarrow> ''Standardize: '' @ dv_practice d),
          ns_rationale = dv_summary d, ns_detail_md = None, ns_enforcement = Enf_Recommended,
          ns_provenance = [(SPK_Divergence, dv_id d)], ns_author = author \<rparr>)"

definition bridged :: "session \<Rightarrow> uuid \<Rightarrow> library_db \<Rightarrow> uuid option" where
  "bridged ses k db =
    map_option sp_standard_id (find (\<lambda>p. sp_kind p = SPK_Divergence \<and> sp_ref_id p = k \<and>
      list_ex (\<lambda>s. sees_std ses s \<and> st_id s = sp_standard_id p \<and> st_lifecycle s \<noteq> SL_Rejected) (standards db))
      (std_provenance db))"

text \<open>\<open>Inl\<close> is a refused statement; \<open>Inr\<close> carries the id of the candidate, if any, and the tables.\<close>

definition propose_from_divergence ::
  "(uuid \<Rightarrow> string) \<Rightarrow> instant \<Rightarrow> session \<Rightarrow> uuid \<Rightarrow> uuid \<Rightarrow> uuid option \<Rightarrow> library_db
    \<Rightarrow> unit + (uuid option \<times> library_db)" where
  "propose_from_divergence short_id now ses new_id k author db =
    (case bridged ses k db of
       Some s \<Rightarrow> Inr (Some s, db)
     | None \<Rightarrow>
         (case find (\<lambda>d. dv_id d = k \<and> dv_org_id d = p_org_id (s_principal ses)) (divergences db) of
            None \<Rightarrow> Inr (None, db)
          | Some d \<Rightarrow>
              (case insert_standard now (divergence_candidate short_id new_id author d ses db) db of
                 None \<Rightarrow> Inl ()
               | Some db' \<Rightarrow> Inr (Some new_id, db'))))"

definition ratify_divergence ::
  "(uuid \<Rightarrow> string) \<Rightarrow> instant \<Rightarrow> session \<Rightarrow> uuid \<Rightarrow> uuid \<Rightarrow> uuid \<Rightarrow> library_db \<Rightarrow> unit + (uuid option \<times> library_db)" where
  "ratify_divergence short_id now ses new_id k ratified_by db =
    propose_from_divergence short_id now ses new_id k (Some ratified_by) db"

section \<open>Agent proposals\<close>

definition DEFAULT_PROPOSE_PER_HOUR :: int where "DEFAULT_PROPOSE_PER_HOUR = 5"

record proposal =
  po_org_id :: uuid
  po_author :: uuid
  po_name :: string
  po_statement :: string
  po_stack :: "string option"
  po_category :: "string option"
  po_rationale :: "string option"
  po_detail_md :: "string option"
  po_evidence_memory_id :: "uuid option"

datatype propose_outcome =
  Created uuid
| Duplicate uuid standard_lifecycle
| RateLimited int
| EvidenceNotFound

definition recent_proposals :: "instant \<Rightarrow> uuid \<Rightarrow> uuid \<Rightarrow> library_db \<Rightarrow> nat" where
  "recent_proposals now org author db =
    length (filter (\<lambda>v. sv_org_id v = org \<and> sv_rev v = 1 \<and> sv_author v = Some author \<and> sv_created_at v > now - 3600)
      (std_versions db))"

definition same_rule :: "session \<Rightarrow> proposal \<Rightarrow> std_row \<Rightarrow> bool" where
  "same_rule ses p s = (sees_std ses s \<and> st_org_id s = po_org_id p
    \<and> (st_slug s = slugify (po_name p) \<or> st_statement s = po_statement p))"

definition duplicate_le :: "std_row \<Rightarrow> std_row \<Rightarrow> bool" where
  "duplicate_le a b =
    (let ra = st_lifecycle a = SL_Rejected; rb = st_lifecycle b = SL_Rejected in
     (\<not> ra \<and> rb) \<or> (ra = rb \<and> st_updated_at b \<le> st_updated_at a))"

definition proposal_standard :: "uuid \<Rightarrow> proposal \<Rightarrow> new_standard" where
  "proposal_standard new_id p =
    \<lparr> ns_id = new_id, ns_org_id = po_org_id p, ns_origin = SO_Agent,
      ns_stack = (case po_stack p of Some x \<Rightarrow> x | None \<Rightarrow> ''general''),
      ns_category = (case po_category p of Some x \<Rightarrow> x | None \<Rightarrow> ''practice''),
      ns_slug = slugify (po_name p), ns_statement = po_statement p, ns_rationale = po_rationale p,
      ns_detail_md = po_detail_md p, ns_enforcement = Enf_Experimental,
      ns_provenance = (case po_evidence_memory_id p of Some m \<Rightarrow> [(SPK_Memory, m)] | None \<Rightarrow> []),
      ns_author = Some (po_author p) \<rparr>"

definition propose_standard ::
  "instant \<Rightarrow> session \<Rightarrow> uuid \<Rightarrow> proposal \<Rightarrow> int \<Rightarrow> corpus \<Rightarrow> library_db \<Rightarrow> (propose_outcome \<times> library_db) option" where
  "propose_standard now ses new_id p per_hour cp db =
    (if int (recent_proposals now (po_org_id p) (po_author p) db) \<ge> per_hour then Some (RateLimited per_hour, db)
     else case sort_by duplicate_le (filter (same_rule ses p) (standards db)) of
       s # _ \<Rightarrow> Some (Duplicate (st_id s) (st_lifecycle s), db)
     | [] \<Rightarrow>
         (if (case po_evidence_memory_id p of None \<Rightarrow> False
              | Some m \<Rightarrow> \<not> list_ex (\<lambda>r. sees_memory cp ses r \<and> m_id r = m) (memories cp))
          then Some (EvidenceNotFound, db)
          else map_option (Pair (Created new_id)) (insert_standard now (proposal_standard new_id p) db)))"

section \<open>Usage\<close>

definition record_usage ::
  "instant \<Rightarrow> uuid \<Rightarrow> library_artifact_kind \<Rightarrow> uuid \<Rightarrow> string option \<Rightarrow> library_usage_event \<Rightarrow> uuid option
    \<Rightarrow> library_db \<Rightarrow> library_db" where
  "record_usage now org kind artifact ver ev team db =
    db\<lparr> usage_events := usage_events db @
      [\<lparr> ue_org_id = org, ue_artifact_kind = kind, ue_artifact_id = artifact, ue_version = ver,
         ue_event = ev, ue_team_id = team, ue_occurred_at = now \<rparr>] \<rparr>"

definition sees_usage :: "session \<Rightarrow> usage_event \<Rightarrow> bool" where
  "sees_usage ses u = (ue_org_id u = p_org_id (s_principal ses))"

definition used_in_window :: "instant \<Rightarrow> session \<Rightarrow> int \<Rightarrow> library_artifact_kind \<Rightarrow> uuid \<Rightarrow> library_db \<Rightarrow> bool" where
  "used_in_window now ses n kind k db =
    list_ex (\<lambda>u. sees_usage ses u \<and> ue_artifact_kind u = kind \<and> ue_artifact_id u = k \<and> ue_occurred_at u > now - days n)
      (usage_events db)"

record standard_pulse =
  pu_standard_id :: uuid
  pu_uses :: nat
  pu_uses_in_window :: nat
  pu_last_used_at :: instant

definition standards_pulse :: "instant \<Rightarrow> session \<Rightarrow> int \<Rightarrow> uuid option \<Rightarrow> library_db \<Rightarrow> standard_pulse list" where
  "standards_pulse now ses n only db =
    (let evs = filter (\<lambda>u. sees_usage ses u \<and> ue_artifact_kind u = LAK_Standard \<and>
                 (case only of None \<Rightarrow> True | Some k \<Rightarrow> ue_artifact_id u = k)) (usage_events db)
     in map (\<lambda>k. let us = filter (\<lambda>u. ue_artifact_id u = k) evs in
           \<lparr> pu_standard_id = k, pu_uses = length us,
             pu_uses_in_window = length (filter (\<lambda>u. ue_occurred_at u > now - days n) us),
             pu_last_used_at = fold (\<lambda>u a. max (ue_occurred_at u) a) us (ue_occurred_at (hd us)) \<rparr>)
         (remdups (map ue_artifact_id evs)))"

definition usage_by_team :: "session \<Rightarrow> library_artifact_kind \<Rightarrow> uuid \<Rightarrow> library_db \<Rightarrow> (uuid option \<times> nat) list" where
  "usage_by_team ses kind k db =
    (let ts = map ue_team_id (filter (\<lambda>u. sees_usage ses u \<and> ue_artifact_kind u = kind \<and> ue_artifact_id u = k) (usage_events db))
     in sort_by (\<lambda>a b. snd b \<le> snd a) (map (\<lambda>t. (t, length (filter (\<lambda>x. x = t) ts))) (remdups ts)))"

section \<open>Slugs are URL-safe and stable\<close>

definition slug_char :: "char \<Rightarrow> bool" where
  "slug_char c = (is_alnum c \<and> \<not> is_upper c)"

definition apart :: "char \<Rightarrow> char \<Rightarrow> bool" where
  "apart a b = (\<not> (a = CHR ''-'' \<and> b = CHR ''-''))"

text \<open>Lower-case letters and digits in runs separated by single dashes.\<close>

definition slug_ok :: "string \<Rightarrow> bool" where
  "slug_ok s = (s \<noteq> [] \<and> (\<forall>c\<in>set s. slug_char c \<or> c = CHR ''-'') \<and> hd s \<noteq> CHR ''-'' \<and> last s \<noteq> CHR ''-''
    \<and> successively apart s)"

definition slug_part :: "string \<Rightarrow> bool \<Rightarrow> bool" where
  "slug_part out dash = ((\<forall>c\<in>set out. slug_char c \<or> c = CHR ''-'') \<and> (out \<noteq> [] \<longrightarrow> hd out \<noteq> CHR ''-'')
    \<and> successively apart out \<and> (dash \<longleftrightarrow> out = [] \<or> last out = CHR ''-''))"

lemma dash_not_alnum [simp]: "\<not> is_alnum (CHR ''-'')"
  by (simp add: is_alnum_def is_alpha_def is_upper_def is_lower_def is_digit_def)

lemma slug_char_not_dash: "slug_char c \<Longrightarrow> c \<noteq> CHR ''-''"
  by (auto simp: slug_char_def)

lemma slug_part_snoc:
  assumes "slug_part out dash" "slug_char c \<or> c = CHR ''-''" "c = CHR ''-'' \<longrightarrow> \<not> dash"
  shows "slug_part (out @ [c]) (c = CHR ''-'')"
proof -
  have "successively apart (out @ [c])"
    using assms by (auto simp: slug_part_def successively_append_iff apart_def)
  then show ?thesis using assms by (cases out) (auto simp: slug_part_def)
qed

lemma slug_loop_part: "slug_part out dash \<Longrightarrow> \<exists>d. slug_part (slug_loop out dash cs) d"
proof (induction out dash cs rule: slug_loop.induct)
  case (2 out dash c cs)
  show ?case
  proof (cases "is_alnum c")
    case True
    then have "slug_char (to_lower c)" by (simp add: slug_char_def)
    then have "slug_part (out @ [to_lower c]) False"
      using "2.prems" slug_char_not_dash [of "to_lower c"] using slug_part_snoc [of out dash "to_lower c"] by simp
    then show ?thesis using "2.IH"(1) [OF True] True by simp
  next
    case False
    show ?thesis
    proof (cases dash)
      case True
      then show ?thesis using "2.IH"(3) [OF False] "2.prems" False by simp
    next
      case nd: False
      then have "slug_part (out @ ''-'') True"
        using "2.prems" nd slug_part_snoc [of out dash "CHR ''-''"] by simp
      then show ?thesis using "2.IH"(2) [OF False] nd False by simp
    qed
  qed
qed auto

lemma slugify_ok: "slug_ok (slugify practice)"
proof -
  define out where "out = slug_loop [] True practice"
  have "slug_part [] True" by (simp add: slug_part_def)
  then obtain d where part: "slug_part out d" using slug_loop_part out_def by blast
  define t where "t = trim_end_by (\<lambda>c. c = CHR ''-'') out"
  obtain u where u: "out = t @ u" using trim_end_by_prefix [of out "\<lambda>c. c = CHR ''-''"] t_def by auto
  have "slug_ok t" if "t \<noteq> []"
  proof -
    have "last t \<noteq> CHR ''-''" using trim_end_by_last [of "\<lambda>c. c = CHR ''-''" out] that by (simp add: t_def)
    moreover have "successively apart t" using part u by (simp add: slug_part_def successively_append_iff)
    moreover have "hd t \<noteq> CHR ''-''" using part u that by (cases t) (auto simp: slug_part_def)
    moreover have "\<forall>c\<in>set t. slug_char c \<or> c = CHR ''-''" using part u by (simp add: slug_part_def)
    ultimately show ?thesis using that by (simp add: slug_ok_def)
  qed
  moreover have "slug_ok ''practice''" by code_simp
  ultimately show ?thesis by (simp add: slugify_def out_def [symmetric] t_def [symmetric])
qed

lemma slug_loop_id:
  assumes "successively apart (out @ s)" "\<forall>c\<in>set s. slug_char c \<or> c = CHR ''-''"
    "dash \<longleftrightarrow> out = [] \<or> last out = CHR ''-''" "s \<noteq> [] \<longrightarrow> dash \<longrightarrow> hd s \<noteq> CHR ''-''"
  shows "slug_loop out dash s = out @ s"
  using assms
proof (induction s arbitrary: out dash)
  case (Cons c s)
  show ?case
  proof (cases "c = CHR ''-''")
    case True
    then have d: "\<not> dash" using Cons.prems(4) by auto
    have "s \<noteq> [] \<longrightarrow> hd s \<noteq> CHR ''-''"
      using Cons.prems(1) True by (cases s) (auto simp: successively_append_iff apart_def)
    then have "slug_loop (out @ [c]) True s = (out @ [c]) @ s"
      using Cons.prems True by (intro Cons.IH) auto
    then show ?thesis using d True by simp
  next
    case False
    then have "slug_char c" using Cons.prems(2) by auto
    then have "is_alnum c" "to_lower c = c" by (auto simp: slug_char_def to_lower_id)
    moreover have "slug_loop (out @ [c]) False s = (out @ [c]) @ s"
      using Cons.prems False by (intro Cons.IH) auto
    ultimately show ?thesis by simp
  qed
qed simp

lemma slugify_id: "slug_ok s \<Longrightarrow> slugify s = s"
  using slug_loop_id [of "[]" s True] trim_end_by_id [of s "\<lambda>c. c = CHR ''-''"]
  by (auto simp: slug_ok_def slugify_def)

section \<open>The invariant of the rule tables\<close>

definition std_inv :: "library_db \<Rightarrow> bool" where
  "std_inv db \<longleftrightarrow>
     distinct (map st_id (standards db)) \<and> distinct (map (\<lambda>s. (st_org_id s, st_slug s)) (standards db)) \<and>
     (\<forall>s\<in>set (standards db). attributed db s \<and> (st_lifecycle s \<noteq> SL_Proposed \<longrightarrow> st_adopted_by s \<noteq> None)) \<and>
     distinct (map (\<lambda>v. (sv_standard_id v, sv_rev v)) (std_versions db)) \<and>
     sv_standard_id ` set (std_versions db) \<subseteq> st_id ` set (standards db)"

definition empty_library :: library_db where
  "empty_library = \<lparr> standards = [], std_versions = [], std_provenance = [], usage_events = [], divergences = [] \<rparr>"

lemma add_provenance_frame [simp]:
  "standards (add_provenance s k r db) = standards db"
  "std_versions (add_provenance s k r db) = std_versions db"
  "usage_events (add_provenance s k r db) = usage_events db"
  by (simp_all add: add_provenance_def)

lemma has_provenance_add [simp]: "has_provenance (add_provenance s k r db) x \<longleftrightarrow> has_provenance db x \<or> x = s"
proof -
  have p: "has_provenance db x \<longleftrightarrow> x \<in> sp_standard_id ` set (std_provenance db)" for db :: library_db and x
    by (auto simp: has_provenance_def list_ex_iff)
  have "sp_standard_id ` set (std_provenance (add_provenance s k r db)) = insert s (sp_standard_id ` set (std_provenance db))"
    by (auto simp: add_provenance_def insert_or_ignore_def intro: rev_image_eqI)
  then show ?thesis unfolding p by auto
qed

lemma add_all_frame [simp]:
  "standards (fold (\<lambda>(k, r). add_provenance s k r) ps db) = standards db"
  "std_versions (fold (\<lambda>(k, r). add_provenance s k r) ps db) = std_versions db"
  by (induction ps arbitrary: db) auto

lemma has_provenance_add_all:
  "has_provenance (fold (\<lambda>(k, r). add_provenance s k r) ps db) x \<longleftrightarrow> has_provenance db x \<or> (ps \<noteq> [] \<and> x = s)"
proof (induction ps arbitrary: db)
  case (Cons p ps)
  then show ?case using Cons.IH [of "add_provenance s (fst p) (snd p) db"] by (simp add: case_prod_unfold) blast
qed simp

lemma std_inv_add_provenance [keeps]: "std_inv db \<Longrightarrow> std_inv (add_provenance s k r db)"
  by (auto simp: std_inv_def attributed_def)

lemma std_inv_usage [keeps]: "std_inv db \<Longrightarrow> std_inv (record_usage now org kind a v ev team db)"
  by (auto simp: std_inv_def attributed_def record_usage_def has_provenance_def)

lemma insert_standard_inv:
  assumes inv: "std_inv db" and ins: "insert_standard now s db = Some db'"
  shows "std_inv db'"
proof -
  have fresh: "ns_id s \<notin> st_id ` set (standards db)"
      "(ns_org_id s, ns_slug s) \<notin> (\<lambda>r. (st_org_id r, st_slug r)) ` set (standards db)"
    using ins by (auto simp: insert_standard_def list_ex_iff split: if_splits)
  have db': "standards db' = standards db @ [last (standards db')]" "st_id (last (standards db')) = ns_id s"
      "st_org_id (last (standards db')) = ns_org_id s" "st_slug (last (standards db')) = ns_slug s"
      "st_lifecycle (last (standards db')) = SL_Proposed"
    and v: "std_versions db' = std_versions db @ [last (std_versions db')]"
      "sv_standard_id (last (std_versions db')) = ns_id s"
    using ins by (auto simp: insert_standard_def split: if_splits)
  have hp: "has_provenance db x \<Longrightarrow> has_provenance db' x" for x
  proof -
    assume x: "has_provenance db x"
    obtain db0 where "db' = fold (\<lambda>(k, r). add_provenance (ns_id s) k r) (ns_provenance s) db0"
        "std_provenance db0 = std_provenance db"
      using ins by (auto simp: insert_standard_def split: if_splits)
    moreover from this(2) have "has_provenance db0 x" using x by (simp add: has_provenance_def)
    ultimately show "has_provenance db' x" by (simp only: has_provenance_add_all simp_thms)
  qed
  define x where "x = last (standards db')"
  have st: "standards db' = standards db @ [x]" using db'(1) by (simp add: x_def)
  have x: "st_id x = ns_id s" "st_org_id x = ns_org_id s" "st_slug x = ns_slug s" "st_lifecycle x = SL_Proposed"
    using db' by (simp_all add: x_def)
  have "\<forall>x\<in>set (standards db'). attributed db' x \<and> (st_lifecycle x \<noteq> SL_Proposed \<longrightarrow> st_adopted_by x \<noteq> None)"
    using inv hp x(4) by (auto simp: st std_inv_def attributed_def)
  moreover have "distinct (map st_id (standards db'))" "distinct (map (\<lambda>s. (st_org_id s, st_slug s)) (standards db'))"
    using inv fresh x(1-3) by (simp_all add: st std_inv_def)
  moreover have "distinct (map (\<lambda>v. (sv_standard_id v, sv_rev v)) (std_versions db'))"
  proof -
    have sub: "sv_standard_id ` set (std_versions db) \<subseteq> st_id ` set (standards db)"
      using inv by (simp add: std_inv_def)
    have "sv_standard_id u \<noteq> ns_id s" if "u \<in> set (std_versions db)" for u
      using sub fresh(1) that by (metis imageI subsetD)
    then have "(sv_standard_id (last (std_versions db')), sv_rev (last (std_versions db')))
        \<notin> (\<lambda>v. (sv_standard_id v, sv_rev v)) ` set (std_versions db)"
      by (auto simp: v(2) dest: sym)
    moreover have "distinct (map (\<lambda>v. (sv_standard_id v, sv_rev v)) (std_versions db))"
      using inv by (simp add: std_inv_def)
    ultimately show ?thesis by (subst v(1)) simp
  qed
  moreover have "sv_standard_id ` set (std_versions db') \<subseteq> st_id ` set (standards db')"
    using inv x(1) v(2) by (subst v(1)) (auto simp: st std_inv_def)
  ultimately show ?thesis by (simp add: std_inv_def)
qed

lemma update_standards_inv:
  assumes inv: "std_inv db" and upd: "update_standards hit f db = Some (b, db')"
    and f: "\<And>s. st_id (f s) = st_id s" "\<And>s. st_org_id (f s) = st_org_id s" "\<And>s. st_slug (f s) = st_slug s"
      "\<And>s. st_adopted_by (f s) \<noteq> None"
  shows "std_inv db'"
proof -
  have db': "db' = db\<lparr> standards := update_where hit f (standards db) \<rparr>"
    and ok: "\<forall>s\<in>set (standards db). hit s \<longrightarrow> attributed db (f s)"
    using upd by (auto simp: update_standards_def list_ex_iff split: if_splits)
  have "attributed db' s = attributed db s" for s by (simp add: attributed_def db' has_provenance_def)
  then have "\<forall>s\<in>set (standards db'). attributed db' s \<and> (st_lifecycle s \<noteq> SL_Proposed \<longrightarrow> st_adopted_by s \<noteq> None)"
    using inv ok f(4) by (auto simp: db' set_update_where std_inv_def)
  moreover have "map st_id (standards db') = map st_id (standards db)"
      "map (\<lambda>s. (st_org_id s, st_slug s)) (standards db') = map (\<lambda>s. (st_org_id s, st_slug s)) (standards db)"
    by (simp_all add: db' f map_key_update_where del: map_eq_conv)
  moreover have "st_id ` set (standards db') = st_id ` set (standards db)"
    using calculation(2) by (metis list.set_map)
  ultimately show ?thesis using inv by (simp add: std_inv_def db')
qed

lemma next_rev_fresh: "(k, next_rev k db) \<notin> (\<lambda>v. (sv_standard_id v, sv_rev v)) ` set (std_versions db)"
proof -
  have le: "x \<le> fold max xs a" if "x \<in> set xs \<or> x \<le> a" for x a and xs :: "nat list"
    using that
  proof (induction xs arbitrary: a)
    case (Cons y ys)
    then have "x \<in> set ys \<or> x \<le> max y a" by (simp only: list.set insert_iff le_max_iff_disj) blast
    then show ?case using Cons.IH by (simp only: fold_simps)
  qed simp
  have "sv_rev v < next_rev k db" if "v \<in> set (std_versions db)" "sv_standard_id v = k" for v
    using that le [of "sv_rev v" "map sv_rev (filter (\<lambda>v. sv_standard_id v = k) (std_versions db))" 0]
    by (auto simp: next_rev_def less_Suc_eq_le)
  then show ?thesis by force
qed

lemma get_standard_SomeD: "get_standard ses k db = Some s \<Longrightarrow> s \<in> set (standards db) \<and> sees_std ses s \<and> st_id s = k"
  by (auto simp: get_standard_def find_Some_iff)

lemma update_standard_inv:
  assumes inv: "std_inv db" and upd: "update_standard now ses k p author db cp = (out, db', cp')"
  shows "std_inv db'"
proof (cases "db' = db")
  case False
  then obtain s where s: "get_standard ses k db = Some s"
    using upd by (auto simp: update_standard_def split: option.splits)
  let ?a = "patched p s"
  let ?f = "\<lambda>x :: std_row. x\<lparr> st_stack := st_stack ?a, st_category := st_category ?a, st_statement := st_statement ?a,
      st_rationale := st_rationale ?a, st_detail_md := st_detail_md ?a, st_enforcement := st_enforcement ?a, st_updated_at := now \<rparr>"
  let ?hit = "\<lambda>x. sees_std ses x \<and> st_id x = k"
  have st: "standards db' = update_where ?hit ?f (standards db)" "std_provenance db' = std_provenance db"
    using upd False s by (auto simp: update_standard_def Let_def split: if_splits)
  have vs: "std_versions db' = std_versions db \<or>
      (\<exists>v. std_versions db' = std_versions db @ [v] \<and> sv_standard_id v = k \<and> sv_rev v = next_rev k db)"
    using upd False s by (auto simp: update_standard_def Let_def split: if_splits)
  have at: "attributed db' x = attributed db x" for x by (simp add: attributed_def has_provenance_def st(2))
  have "attributed db (?f x) = attributed db x" for x by (simp add: attributed_def)
  then have "\<forall>x\<in>set (standards db'). attributed db' x \<and> (st_lifecycle x \<noteq> SL_Proposed \<longrightarrow> st_adopted_by x \<noteq> None)"
    using inv by (auto simp: at st(1) set_update_where std_inv_def)
  moreover have m: "map st_id (standards db') = map st_id (standards db)"
      "map (\<lambda>s. (st_org_id s, st_slug s)) (standards db') = map (\<lambda>s. (st_org_id s, st_slug s)) (standards db)"
    by (simp_all add: st(1) map_key_update_where del: map_eq_conv)
  moreover have "distinct (map (\<lambda>v. (sv_standard_id v, sv_rev v)) (std_versions db'))"
    using vs inv next_rev_fresh [of k db] by (auto simp: std_inv_def)
  moreover have "k \<in> st_id ` set (standards db)" using get_standard_SomeD [OF s] by auto
  moreover have "sv_standard_id ` set (std_versions db') \<subseteq> st_id ` set (standards db')"
  proof -
    have "st_id ` set (standards db') = st_id ` set (standards db)" using m(1) by (metis list.set_map)
    moreover have "sv_standard_id ` set (std_versions db) \<subseteq> st_id ` set (standards db)"
      using inv by (simp add: std_inv_def)
    ultimately show ?thesis using vs \<open>k \<in> st_id ` set (standards db)\<close> by (elim disjE exE conjE) simp_all
  qed
  ultimately show ?thesis using inv by (simp add: std_inv_def)
qed (use inv in simp)

text \<open>Any interleaving of the operations, by any session.\<close>

inductive library_step :: "library_db \<Rightarrow> library_db \<Rightarrow> bool" where
  L_insert: "insert_standard now s db = Some db' \<Longrightarrow> library_step db db'"
| L_provenance: "library_step db (add_provenance s k r db)"
| L_adopt: "adopt_standard now ses k by' decree db cp = Some (b, db', cp') \<Longrightarrow> library_step db db'"
| L_deprecate: "deprecate_standard now ses k by' db cp = Some (b, db', cp') \<Longrightarrow> library_step db db'"
| L_reject: "reject_standard now ses k by' db = Some (b, db') \<Longrightarrow> library_step db db'"
| L_update: "update_standard now ses k p author db cp = (out, db', cp') \<Longrightarrow> library_step db db'"
| L_bridge: "propose_from_divergence short_id now ses i k author db = Inr (out, db') \<Longrightarrow> library_step db db'"
| L_propose: "propose_standard now ses i p n cp db = Some (res, db') \<Longrightarrow> library_step db db'"
| L_usage: "library_step db (record_usage now org kind a v ev team db)"

inductive library_reachable :: "library_db \<Rightarrow> bool" where
  "divergences db = ds \<Longrightarrow> db = empty_library\<lparr> divergences := ds \<rparr> \<Longrightarrow> library_reachable db"
| "library_reachable db \<Longrightarrow> library_step db db' \<Longrightarrow> library_reachable db'"

lemma propose_standard_cases:
  assumes "propose_standard now ses i p n cp db = Some (out, db')"
  shows "db' = db \<or> insert_standard now (proposal_standard i p) db = Some db'"
  using assms by (auto simp: propose_standard_def split: if_splits list.splits)

lemma propose_from_divergence_cases:
  assumes "propose_from_divergence short_id now ses i k author db = Inr (out, db')"
  shows "db' = db \<or> (\<exists>s. insert_standard now s db = Some db')"
  using assms by (auto simp: propose_from_divergence_def split: option.splits)

lemma library_step_inv: "library_step db db' \<Longrightarrow> std_inv db \<Longrightarrow> std_inv db'"
proof (induction rule: library_step.induct)
  case (L_adopt now ses k by' decree db cp b db' cp')
  then show ?case
    by (auto simp: adopt_standard_def adopted_row_def split: option.splits elim!: update_standards_inv)
next
  case (L_deprecate now ses k by' db cp b db' cp')
  then show ?case by (auto simp: deprecate_standard_def split: option.splits elim!: update_standards_inv)
next
  case (L_reject now ses k by' db b db')
  then show ?case by (auto simp: reject_standard_def elim!: update_standards_inv)
next
  case (L_bridge short_id now ses i k author db out db')
  then show ?case using propose_from_divergence_cases insert_standard_inv by blast
next
  case (L_propose now ses i p n cp db out db')
  then show ?case using propose_standard_cases insert_standard_inv by blast
qed (auto simp: keeps intro: insert_standard_inv update_standard_inv)

lemma library_reachable_inv: "library_reachable db \<Longrightarrow> std_inv db"
proof (induction rule: library_reachable.induct)
  case (1 db ds)
  then show ?case by (simp add: std_inv_def empty_library_def)
qed (auto intro: library_step_inv)

section \<open>How a rule may change\<close>

inductive lifecycle_move :: "standard_lifecycle \<Rightarrow> standard_lifecycle \<Rightarrow> bool" where
  "lifecycle_move x x"
| "lifecycle_move SL_Proposed SL_Adopted"
| "lifecycle_move SL_Adopted SL_Deprecated"
| "lifecycle_move SL_Proposed SL_Rejected"

inductive_simps lifecycle_move_from [simp]:
  "lifecycle_move SL_Deprecated x" "lifecycle_move SL_Rejected x" "lifecycle_move SL_Proposed x" "lifecycle_move SL_Adopted x"

text \<open>What one operation may make of a row: same rule, a legal move, and nothing at all of a retired one.\<close>

definition may_become :: "std_row \<Rightarrow> std_row \<Rightarrow> bool" where
  "may_become s s' \<longleftrightarrow> st_id s' = st_id s \<and> st_slug s' = st_slug s \<and> lifecycle_move (st_lifecycle s) (st_lifecycle s')
     \<and> (st_lifecycle s \<in> {SL_Deprecated, SL_Rejected} \<longrightarrow> s' = s)"

lemma may_become_refl [simp]: "may_become s s"
  by (simp add: may_become_def lifecycle_move.intros)

lemma update_standards_becomes:
  assumes "update_standards hit f db = Some (b, db')" "s \<in> set (standards db)"
    and f: "\<And>s. hit s \<Longrightarrow> may_become s (f s)"
  shows "\<exists>s'\<in>set (standards db'). may_become s s'"
proof -
  have "standards db' = update_where hit f (standards db)"
    using assms(1) by (auto simp: update_standards_def split: if_splits)
  then have "(if hit s then f s else s) \<in> set (standards db')" using assms(2) by (simp add: set_update_where)
  moreover have "may_become s (if hit s then f s else s)" using f by simp
  ultimately show ?thesis by blast
qed

lemma insert_standard_becomes:
  assumes "insert_standard now x db = Some db'" "s \<in> set (standards db)"
  shows "\<exists>s'\<in>set (standards db'). may_become s s'"
proof -
  have "s \<in> set (standards db')" using assms by (auto simp: insert_standard_def split: if_splits)
  then show ?thesis using may_become_refl by blast
qed

lemma update_standard_becomes:
  assumes inv: "std_inv db" and upd: "update_standard now ses k p author db cp = (out, db', cp')"
    and s: "s \<in> set (standards db)"
  shows "\<exists>s'\<in>set (standards db'). may_become s s'"
proof (cases "db' = db")
  case False
  then obtain r where r: "get_standard ses k db = Some r" "st_lifecycle r \<noteq> SL_Deprecated" "st_lifecycle r \<noteq> SL_Rejected"
    using upd by (auto simp: update_standard_def Let_def split: option.splits if_splits)
  let ?a = "patched p r"
  let ?f = "\<lambda>x :: std_row. x\<lparr> st_stack := st_stack ?a, st_category := st_category ?a, st_statement := st_statement ?a,
      st_rationale := st_rationale ?a, st_detail_md := st_detail_md ?a, st_enforcement := st_enforcement ?a, st_updated_at := now \<rparr>"
  have st: "standards db' = update_where (\<lambda>x. sees_std ses x \<and> st_id x = k) ?f (standards db)"
    using upd False r by (auto simp: update_standard_def Let_def split: if_splits)
  have only: "s = r" if "st_id s = k"
    using get_standard_SomeD [OF r(1)] s that inv by (auto simp: std_inv_def distinct_map inj_on_def)
  have "may_become s (if sees_std ses s \<and> st_id s = k then ?f s else s)"
    using only r(2,3) by (auto simp: may_become_def lifecycle_move.intros)
  moreover have "(if sees_std ses s \<and> st_id s = k then ?f s else s) \<in> set (standards db')"
    using s by (simp add: st set_update_where)
  ultimately show ?thesis by blast
qed (use s may_become_refl in blast)

lemma library_step_becomes:
  assumes "library_step db db'" "std_inv db" "s \<in> set (standards db)"
  shows "\<exists>s'\<in>set (standards db'). may_become s s'"
  using assms
proof (induction rule: library_step.induct)
  case (L_adopt now ses k by' decree db cp b db' cp')
  then obtain b' where u: "update_standards (\<lambda>s. sees_std ses s \<and> st_id s = k \<and> st_lifecycle s = SL_Proposed)
      (adopted_row now by' decree) db = Some (b', db')"
    by (auto simp: adopt_standard_def split: option.splits)
  show ?case
    by (rule update_standards_becomes [OF u L_adopt(3)]) (auto simp: may_become_def adopted_row_def lifecycle_move.intros)
next
  case (L_deprecate now ses k by' db cp b db' cp')
  then obtain b' where u: "update_standards (\<lambda>s. sees_std ses s \<and> st_id s = k \<and> st_lifecycle s = SL_Adopted)
      (\<lambda>s. s\<lparr> st_lifecycle := SL_Deprecated, st_adopted_by := Some by', st_updated_at := now \<rparr>) db = Some (b', db')"
    by (auto simp: deprecate_standard_def split: option.splits)
  show ?case by (rule update_standards_becomes [OF u L_deprecate(3)]) (auto simp: may_become_def lifecycle_move.intros)
next
  case (L_reject now ses k by' db b db')
  have u: "update_standards (\<lambda>s. sees_std ses s \<and> st_id s = k \<and> st_lifecycle s = SL_Proposed)
      (\<lambda>s. s\<lparr> st_lifecycle := SL_Rejected, st_adopted_by := Some by', st_updated_at := now \<rparr>) db = Some (b, db')"
    using L_reject(1) by (simp add: reject_standard_def)
  show ?case by (rule update_standards_becomes [OF u L_reject(3)]) (auto simp: may_become_def lifecycle_move.intros)
next
  case (L_update now ses k p author db cp out db' cp')
  then show ?case using update_standard_becomes by blast
next
  case (L_bridge short_id now ses i k author db out db')
  then show ?case using propose_from_divergence_cases insert_standard_becomes may_become_refl by blast
next
  case (L_propose now ses i p n cp db out db')
  then show ?case using propose_standard_cases insert_standard_becomes may_become_refl by blast
next
  case (L_insert now s db db')
  then show ?case using insert_standard_becomes by blast
next
  case (L_provenance db s k r)
  then show ?case using may_become_refl by fastforce
next
  case (L_usage db now org kind a v ev team)
  then show ?case using may_become_refl by (fastforce simp: record_usage_def)
qed

section \<open>Properties\<close>

definition example_standard :: "uuid \<Rightarrow> new_standard" where
  "example_standard k =
    \<lparr> ns_id = k, ns_org_id = 1, ns_origin = SO_Human, ns_stack = ''rust'', ns_category = ''errors'',
      ns_slug = ''no-unwrap'', ns_statement = ''Do not unwrap'', ns_rationale = None, ns_detail_md = None,
      ns_enforcement = Enf_Mandatory, ns_provenance = [(SPK_Memory, 1)], ns_author = None \<rparr>"

definition example_library :: library_db where
  "example_library = the (insert_standard 5 (example_standard 40) empty_library)"

lemma example_library_reachable: "library_reachable example_library"
proof (rule library_reachable.intros(2))
  show "library_reachable empty_library"
    by (rule library_reachable.intros(1)) (simp_all add: empty_library_def)
  show "library_step empty_library example_library"
    by (rule library_step.L_insert [of 5 "example_standard 40"]) code_simp
qed

text \<open>C26: No unattributed rules.  In every state the Library can reach, an adopted or deprecated rule has
  provenance or a named decree, every rule that left \<open>proposed\<close> records who decided, ids and slugs are
  unique within an organisation, and a rule never has two revisions with one number.\<close>

theorem library_rules_are_attributed:
  assumes "library_reachable db"
  shows "(\<forall>s\<in>set (standards db).
      (st_lifecycle s \<in> {SL_Adopted, SL_Deprecated} \<longrightarrow> st_decreed_by s \<noteq> None \<or> has_provenance db (st_id s)) \<and>
      (st_lifecycle s \<noteq> SL_Proposed \<longrightarrow> st_adopted_by s \<noteq> None)) \<and>
    distinct (map st_id (standards db)) \<and> distinct (map (\<lambda>s. (st_org_id s, st_slug s)) (standards db)) \<and>
    distinct (map (\<lambda>v. (sv_standard_id v, sv_rev v)) (std_versions db))"
  using library_reachable_inv [OF assms] by (simp add: std_inv_def attributed_def)

lemma library_rules_are_attributed_witness: "distinct (map st_id (standards example_library))"
  using library_rules_are_attributed [OF example_library_reachable] by blast

text \<open>A rule only moves \<open>proposed \<rightarrow> adopted \<rightarrow> deprecated\<close> or \<open>proposed \<rightarrow> rejected\<close>, keeps its id
  and slug, is never deleted, and a deprecated or rejected rule is frozen: no operation changes its row.\<close>

theorem library_rules_move_forward:
  assumes "library_reachable db" and "library_step db db'" and "s \<in> set (standards db)"
  shows "\<exists>s'\<in>set (standards db'). st_id s' = st_id s \<and> st_slug s' = st_slug s \<and>
    lifecycle_move (st_lifecycle s) (st_lifecycle s') \<and>
    (st_lifecycle s \<in> {SL_Deprecated, SL_Rejected} \<longrightarrow> s' = s)"
  using library_step_becomes [OF assms(2) library_reachable_inv [OF assms(1)] assms(3)]
  by (simp add: may_become_def)

lemma library_rules_move_forward_witness:
  "\<exists>s'\<in>set (standards (add_provenance 40 SPK_Memory 2 example_library)). st_slug s' = ''no-unwrap''"
proof -
  have "hd (standards example_library) \<in> set (standards example_library)" by code_simp
  from library_rules_move_forward [OF example_library_reachable library_step.L_provenance this, of 40 SPK_Memory 2]
  obtain s' where "s' \<in> set (standards (add_provenance 40 SPK_Memory 2 example_library))"
      "st_slug s' = st_slug (hd (standards example_library))" by blast
  moreover have "st_slug (hd (standards example_library)) = ''no-unwrap''" by code_simp
  ultimately show ?thesis by auto
qed

text \<open>\<open>slugify\<close> always yields a non-empty URL-safe slug (lower-case letters and digits in runs separated
  by single dashes, none at either end) and leaves such a slug unchanged.\<close>

theorem slugify_is_stable: "slug_ok (slugify practice) \<and> slugify (slugify practice) = slugify practice"
  using slugify_ok slugify_id by blast

end
