(* ===== verification/Skills.thy ===== *)
theory Skills
  imports Feedback Standards Numbers
begin

text \<open>
  \<open>brainiac-store/src/library/skills.rs\<close> and the rest of \<open>usage.rs\<close>: skill bundles, their draft and
  signed versions, agent proposals, and the Library's health signals.  A JSON value is kept as its
  serialised text, which is what the size bound measures.  Fresh ids (\<open>Uuid::new_v4\<close>) are arguments.
  \<open>None\<close> as the result of a write is a unique violation.
\<close>

section \<open>Tables\<close>

record skill_row = skill +
  kr_created_at :: instant
  kr_proposed_by :: "uuid option"

record skill_version =
  kv_id :: uuid
  kv_skill_id :: uuid
  kv_org_id :: uuid
  kv_semver :: string
  kv_manifest :: string
  kv_content_md :: string
  kv_resources :: string
  kv_published_by :: "uuid option"
  kv_published_at :: "instant option"
  kv_created_at :: instant

record skill_db =
  skills :: "skill_row list"
  skill_versions :: "skill_version list"

definition sees_skill :: "session \<Rightarrow> skill_row \<Rightarrow> bool" where
  "sees_skill ses s = (sk_org_id s = p_org_id (s_principal ses))"

definition sees_skill_version :: "session \<Rightarrow> skill_version \<Rightarrow> bool" where
  "sees_skill_version ses v = (kv_org_id v = p_org_id (s_principal ses))"

record new_skill =
  nk_id :: uuid
  nk_org_id :: uuid
  nk_slug :: string
  nk_name :: string
  nk_description :: "string option"
  nk_domain :: "string option"
  nk_proposed_by :: "uuid option"

record new_skill_version =
  nv_id :: uuid
  nv_skill_id :: uuid
  nv_org_id :: uuid
  nv_semver :: string
  nv_manifest :: string
  nv_content_md :: string
  nv_resources :: string

definition insert_skill :: "instant \<Rightarrow> new_skill \<Rightarrow> skill_db \<Rightarrow> skill_db option" where
  "insert_skill now n db =
    (if nk_id n \<in> set (map sk_id (skills db)) \<or> (nk_org_id n, nk_slug n) \<in> set (map (\<lambda>s. (sk_org_id s, sk_slug s)) (skills db))
     then None
     else Some (db\<lparr> skills := skills db @
       [\<lparr> sk_id = nk_id n, sk_org_id = nk_org_id n, sk_slug = nk_slug n, sk_name = nk_name n,
          sk_description = nk_description n, sk_domain = nk_domain n, sk_maturity = skill_maturity_default,
          sk_current_version = None, sk_updated_at = now, kr_created_at = now, kr_proposed_by = nk_proposed_by n \<rparr>] \<rparr>))"

definition add_skill_version :: "instant \<Rightarrow> new_skill_version \<Rightarrow> skill_db \<Rightarrow> skill_db option" where
  "add_skill_version now n db =
    (if nv_id n \<in> set (map kv_id (skill_versions db))
        \<or> (nv_skill_id n, nv_semver n) \<in> set (map (\<lambda>v. (kv_skill_id v, kv_semver v)) (skill_versions db))
        \<or> nv_skill_id n \<notin> set (map sk_id (skills db))
     then None
     else Some (db\<lparr> skill_versions := skill_versions db @
       [\<lparr> kv_id = nv_id n, kv_skill_id = nv_skill_id n, kv_org_id = nv_org_id n, kv_semver = nv_semver n,
          kv_manifest = nv_manifest n, kv_content_md = nv_content_md n, kv_resources = nv_resources n,
          kv_published_by = None, kv_published_at = None, kv_created_at = now \<rparr>] \<rparr>))"

definition publish_skill_version :: "instant \<Rightarrow> session \<Rightarrow> uuid \<Rightarrow> uuid \<Rightarrow> skill_db \<Rightarrow> bool \<times> skill_db" where
  "publish_skill_version now ses version_id published_by db =
    (let hit = (\<lambda>v. sees_skill_version ses v \<and> kv_id v = version_id \<and> kv_published_by v = None);
         db1 = db\<lparr> skill_versions := update_where hit
                 (\<lambda>v. v\<lparr> kv_published_by := Some published_by, kv_published_at := Some now \<rparr>) (skill_versions db) \<rparr>
     in if rows_affected hit (skill_versions db) = 0 then (False, db)
        else (True, db1\<lparr> skills := update_where
          (\<lambda>s. sees_skill ses s \<and> list_ex (\<lambda>v. sees_skill_version ses v \<and> kv_id v = version_id \<and> kv_skill_id v = sk_id s)
             (skill_versions db1))
          (\<lambda>s. s\<lparr> sk_current_version := Some version_id, sk_maturity := SkM_Published, sk_updated_at := now \<rparr>) (skills db1) \<rparr>))"

section \<open>Reads\<close>

definition get_skill_by_slug :: "session \<Rightarrow> string \<Rightarrow> skill_db \<Rightarrow> skill_row option" where
  "get_skill_by_slug ses slug db = find (\<lambda>s. sees_skill ses s \<and> sk_slug s = slug) (skills db)"

definition list_skills :: "session \<Rightarrow> skill_db \<Rightarrow> skill_row list" where
  "list_skills ses db = sort_by (\<lambda>a b. string_le (sk_slug a) (sk_slug b)) (filter (sees_skill ses) (skills db))"

definition versions_of :: "session \<Rightarrow> uuid \<Rightarrow> skill_db \<Rightarrow> skill_version list" where
  "versions_of ses k db =
    newest_first kv_created_at (filter (\<lambda>v. sees_skill_version ses v \<and> kv_skill_id v = k) (skill_versions db))"

definition first_row :: "'r list \<Rightarrow> 'r option" where
  "first_row rows = (case rows of [] \<Rightarrow> None | r # _ \<Rightarrow> Some r)"

definition pending_draft_version :: "session \<Rightarrow> uuid \<Rightarrow> skill_db \<Rightarrow> skill_version option" where
  "pending_draft_version ses k db =
    first_row (newest_first kv_created_at (filter (\<lambda>v. sees_skill_version ses v \<and> kv_skill_id v = k \<and> kv_published_by v = None)
      (skill_versions db)))"

text \<open>The serve path joins on the skill's \<open>current_version\<close> and refuses an unsigned version.\<close>

definition current_published_version :: "session \<Rightarrow> uuid \<Rightarrow> skill_db \<Rightarrow> skill_version option" where
  "current_published_version ses k db =
    find (\<lambda>v. sees_skill_version ses v \<and> kv_published_by v \<noteq> None
        \<and> list_ex (\<lambda>s. sees_skill ses s \<and> sk_id s = k \<and> sk_current_version s = Some (kv_id v)) (skills db))
      (skill_versions db)"

section \<open>Agent proposals\<close>

definition PROPOSED_SKILL_SEMVER :: string where "PROPOSED_SKILL_SEMVER = ''0.1.0''"
definition MAX_SKILL_BUNDLE_CHARS :: nat where "MAX_SKILL_BUNDLE_CHARS = 200000"

definition bundle_chars :: "string \<Rightarrow> string \<Rightarrow> string \<Rightarrow> nat" where
  "bundle_chars content_md manifest resources = length content_md + length manifest + length resources"

text \<open>\<open>minor + 1\<close> on \<open>u64\<close>, with the wrap-around of a release build.\<close>

definition next_minor :: "string \<Rightarrow> string" where
  "next_minor current =
    (case split_by (\<lambda>c. c = CHR ''.'') current of
       [a, b, c] \<Rightarrow> (case (parse_u64 a, parse_u64 b) of
           (Some major, Some minor) \<Rightarrow> show_nat major @ ''.'' @ show_nat ((minor + 1) mod 2 ^ 64) @ ''.0''
         | _ \<Rightarrow> current @ ''.1'')
     | _ \<Rightarrow> current @ ''.1'')"

record skill_proposal =
  kp_org_id :: uuid
  kp_author :: uuid
  kp_name :: string
  kp_description :: "string option"
  kp_domain :: "string option"
  kp_content_md :: string
  kp_manifest :: string
  kp_resources :: string

datatype skill_propose_outcome =
  SkCreated uuid uuid string string
| SkNewVersion uuid uuid string string "string option"
| SkDuplicate uuid string skill_maturity
| SkRateLimited int
| SkTooLarge nat nat

definition recent_skill_proposals :: "instant \<Rightarrow> session \<Rightarrow> skill_proposal \<Rightarrow> skill_db \<Rightarrow> nat" where
  "recent_skill_proposals now ses p db =
    length (filter (\<lambda>s. sees_skill ses s \<and> sk_org_id s = kp_org_id p \<and> kr_proposed_by s = Some (kp_author p)
      \<and> kr_created_at s > now - 3600) (skills db))"

definition proposed_version :: "uuid \<Rightarrow> uuid \<Rightarrow> string \<Rightarrow> skill_proposal \<Rightarrow> new_skill_version" where
  "proposed_version v_id s_id semver p =
    \<lparr> nv_id = v_id, nv_skill_id = s_id, nv_org_id = kp_org_id p, nv_semver = semver,
      nv_manifest = kp_manifest p, nv_content_md = kp_content_md p, nv_resources = kp_resources p \<rparr>"

definition successor_semver :: "session \<Rightarrow> uuid \<Rightarrow> skill_db \<Rightarrow> string" where
  "successor_semver ses k db =
    next_minor (case first_row (versions_of ses k db) of Some v \<Rightarrow> kv_semver v | None \<Rightarrow> PROPOSED_SKILL_SEMVER)"

definition propose_skill ::
  "instant \<Rightarrow> session \<Rightarrow> uuid \<Rightarrow> uuid \<Rightarrow> skill_proposal \<Rightarrow> int \<Rightarrow> skill_db \<Rightarrow> (skill_propose_outcome \<times> skill_db) option" where
  "propose_skill now ses new_skill_id new_version_id p per_hour db =
    (let chars = bundle_chars (kp_content_md p) (kp_manifest p) (kp_resources p); slug = slugify (kp_name p) in
     if chars > MAX_SKILL_BUNDLE_CHARS then Some (SkTooLarge chars MAX_SKILL_BUNDLE_CHARS, db)
     else if int (recent_skill_proposals now ses p db) \<ge> per_hour then Some (SkRateLimited per_hour, db)
     else case find (\<lambda>s. sees_skill ses s \<and> sk_org_id s = kp_org_id p \<and> sk_slug s = slug) (skills db) of
       Some s \<Rightarrow>
         (let pending = pending_draft_version ses (sk_id s) db; serving = current_published_version ses (sk_id s) db in
          if pending \<noteq> None \<or> serving = None \<or> sk_maturity s = SkM_Deprecated
          then Some (SkDuplicate (sk_id s) slug (sk_maturity s), db)
          else let semver = successor_semver ses (sk_id s) db in
            map_option (Pair (SkNewVersion (sk_id s) new_version_id slug semver (map_option kv_semver serving)))
              (add_skill_version now (proposed_version new_version_id (sk_id s) semver p) db))
     | None \<Rightarrow>
         (case insert_skill now
             \<lparr> nk_id = new_skill_id, nk_org_id = kp_org_id p, nk_slug = slug, nk_name = kp_name p,
               nk_description = kp_description p, nk_domain = kp_domain p, nk_proposed_by = Some (kp_author p) \<rparr> db of
            None \<Rightarrow> None
          | Some db1 \<Rightarrow>
              map_option (Pair (SkCreated new_skill_id new_version_id slug PROPOSED_SKILL_SEMVER))
                (add_skill_version now (proposed_version new_version_id new_skill_id PROPOSED_SKILL_SEMVER p) db1)))"

section \<open>Usage: health signals and totals by team name\<close>

record library_health =
  lh_standards_adopted :: nat
  lh_standards_at_gate :: nat
  lh_oldest_gate_secs :: int
  lh_standards_dormant :: nat
  lh_skills_published :: nat
  lh_skills_dormant :: nat

definition oldest_gate_secs :: "instant \<Rightarrow> std_row list \<Rightarrow> int" where
  "oldest_gate_secs now ss =
    (case map sr_created_at ss of [] \<Rightarrow> 0 | t # ts \<Rightarrow> now - fold min ts t)"

definition health_signals :: "instant \<Rightarrow> session \<Rightarrow> int \<Rightarrow> library_db \<Rightarrow> skill_db \<Rightarrow> library_health" where
  "health_signals now ses dormant_days db sk =
    (let ss = filter (sees_std ses) (standards db); ks = filter (sees_skill ses) (skills sk);
         proposed = filter (\<lambda>s. st_lifecycle s = SL_Proposed) ss;
         adopted = filter (\<lambda>s. st_lifecycle s = SL_Adopted) ss;
         published = filter (\<lambda>k. sk_maturity k = SkM_Published) ks
     in \<lparr> lh_standards_adopted = length adopted,
          lh_standards_at_gate = length proposed,
          lh_oldest_gate_secs = oldest_gate_secs now proposed,
          lh_standards_dormant = length (filter (\<lambda>s. (case st_adopted_at s of None \<Rightarrow> False | Some t \<Rightarrow> t < now - days dormant_days)
             \<and> \<not> used_in_window now ses dormant_days LAK_Standard (st_id s) db) adopted),
          lh_skills_published = length published,
          lh_skills_dormant = length (filter (\<lambda>k. sk_updated_at k < now - days dormant_days
             \<and> \<not> used_in_window now ses dormant_days LAK_Skill (sk_id k) db) published) \<rparr>)"

definition usage_named ::
  "session \<Rightarrow> directory \<Rightarrow> library_artifact_kind \<Rightarrow> uuid \<Rightarrow> library_db \<Rightarrow> (string option \<times> nat) list" where
  "usage_named ses dir kind k db =
    (let us = filter (\<lambda>u. sees_usage ses u \<and> ue_artifact_kind u = kind \<and> ue_artifact_id u = k) (usage_events db);
         names = map (\<lambda>u. Option.bind (ue_team_id u) (\<lambda>t. map_option (\<lambda>(_, _, n). n) (find (\<lambda>(i, _, _). i = t) (teams dir)))) us
     in sort_by (\<lambda>a b. snd b \<le> snd a) (map (\<lambda>t. (t, length (filter (\<lambda>x. x = t) names))) (remdups names)))"

section \<open>What a state of the tables promises\<close>

definition versions_for :: "uuid \<Rightarrow> skill_db \<Rightarrow> skill_version list" where
  "versions_for k db = filter (\<lambda>v. kv_skill_id v = k) (skill_versions db)"

definition semver_of :: "nat \<Rightarrow> string" where
  "semver_of i = ''0.'' @ show_nat i @ ''.0''"

text \<open>A skill without a signed version is a draft; otherwise it is published and points at a signed version
  of its own.\<close>

definition skill_points_ok :: "skill_db \<Rightarrow> skill_row \<Rightarrow> bool" where
  "skill_points_ok db s =
    (case sk_current_version s of
       None \<Rightarrow> sk_maturity s = SkM_Draft \<and> (\<forall>v\<in>set (skill_versions db). kv_skill_id v = sk_id s \<longrightarrow> kv_published_by v = None)
     | Some k \<Rightarrow> sk_maturity s = SkM_Published \<and>
         (\<exists>v\<in>set (skill_versions db). kv_id v = k \<and> kv_skill_id v = sk_id s \<and> kv_published_by v \<noteq> None))"

definition skill_inv :: "skill_db \<Rightarrow> bool" where
  "skill_inv db \<longleftrightarrow>
    distinct (map sk_id (skills db)) \<and> distinct (map (\<lambda>s. (sk_org_id s, sk_slug s)) (skills db)) \<and>
    distinct (map kv_id (skill_versions db)) \<and>
    (\<forall>v\<in>set (skill_versions db). \<exists>s\<in>set (skills db). sk_id s = kv_skill_id v \<and> sk_org_id s = kv_org_id v) \<and>
    (\<forall>s\<in>set (skills db). skill_points_ok db s) \<and>
    (\<forall>k. map kv_semver (versions_for k db) = map semver_of [1..<Suc (length (versions_for k db))]) \<and>
    (\<forall>k. sorted_wrt (\<lambda>a b. kv_created_at a < kv_created_at b) (versions_for k db)) \<and>
    (\<forall>k. length (filter (\<lambda>v. kv_published_by v = None) (versions_for k db)) \<le> 1)"

definition empty_skills :: skill_db where
  "empty_skills = \<lparr> skills = [], skill_versions = [] \<rparr>"

text \<open>Proposals and signatures, under a clock that moves forward between proposals; a skill never collects
  \<open>2 ^ 64 - 1\<close> versions.\<close>

inductive skill_step :: "skill_db \<Rightarrow> skill_db \<Rightarrow> bool" where
  K_propose: "propose_skill now ses i j p n db = Some (out, db') \<Longrightarrow> kp_org_id p = p_org_id (s_principal ses) \<Longrightarrow>
    \<forall>v\<in>set (skill_versions db). kv_created_at v < now \<Longrightarrow> length (skill_versions db) < 2 ^ 64 - 1 \<Longrightarrow> skill_step db db'"
| K_publish: "publish_skill_version now ses k who db = (b, db') \<Longrightarrow> skill_step db db'"

inductive skill_reachable :: "skill_db \<Rightarrow> bool" where
  "skill_reachable empty_skills"
| "skill_reachable db \<Longrightarrow> skill_step db db' \<Longrightarrow> skill_reachable db'"

lemma find_unique:
  assumes "\<And>x y. x \<in> set xs \<Longrightarrow> y \<in> set xs \<Longrightarrow> P x \<Longrightarrow> P y \<Longrightarrow> x = y"
  shows "find P xs = Some v \<longleftrightarrow> v \<in> set xs \<and> P v"
proof
  assume "find P xs = Some v"
  then show "v \<in> set xs \<and> P v" by (auto simp: find_Some_iff)
next
  assume v: "v \<in> set xs \<and> P v"
  then obtain w where w: "find P xs = Some w" by (cases "find P xs") (auto simp: find_None_iff)
  then have "w \<in> set xs" "P w" by (auto simp: find_Some_iff)
  then show "find P xs = Some v" using w v assms by metis
qed

lemma option_ext: "(\<And>v. a = Some v \<longleftrightarrow> b = Some v) \<Longrightarrow> a = b"
  by (cases a; cases b) auto

lemma newest_first_rev:
  "sorted_wrt (\<lambda>a b. key a < key b) xs \<Longrightarrow> newest_first key xs = rev xs"
proof (induction xs)
  case (Cons x xs)
  have "insort_by (\<lambda>a b. key b \<le> key a) x ys = ys @ [x]" if "\<forall>y\<in>set ys. key x < key y" for ys
    using that by (induction ys) auto
  then show ?case using Cons by (simp add: newest_first_def)
qed (simp add: newest_first_def)

lemma next_minor_semver: "i < 2 ^ 64 - 1 \<Longrightarrow> next_minor (semver_of i) = semver_of (Suc i)"
proof -
  assume i: "i < 2 ^ 64 - 1"
  have nodot: "\<forall>c\<in>set (show_nat i). c \<noteq> CHR ''.''"
    using show_nat_digits by (fastforce simp: is_digit_def)
  let ?dot = "\<lambda>c. c = CHR ''.''"
  have zero: "\<forall>c\<in>set ''0''. c \<noteq> CHR ''.''" by simp
  have "semver_of i = ''0'' @ CHR ''.'' # show_nat i @ CHR ''.'' # ''0''" by (simp add: semver_of_def)
  then have sp: "split_by ?dot (semver_of i) = [''0'', show_nat i, ''0'']"
    by (simp only: split_by_append_sep [of _ ?dot, OF zero HOL.refl] split_by_append_sep [of _ ?dot, OF nodot HOL.refl]
        split_by_none [of _ ?dot, OF zero])
  have "digit_char 0 = CHR ''0''" by code_simp
  then have z: "parse_u64 ''0'' = Some 0" "show_nat 0 = ''0''"
    by (simp_all add: parse_u64_def nat_of_digits_def digit_val_def is_digit_def show_nat.simps [of 0])
  have m: "parse_u64 (show_nat i) = Some i" "(i + 1) mod 2 ^ 64 = Suc i"
    using i by (auto intro: parse_show_nat)
  show ?thesis unfolding next_minor_def sp list.case z m option.case prod.case by (simp only: semver_of_def append.simps)
qed

lemma semver_of_inj: "semver_of i = semver_of j \<longleftrightarrow> i = j"
  by (simp add: semver_of_def show_nat_inj)

section \<open>What a proposal does\<close>

text \<open>A proposal changes nothing, appends an unsigned version to a served skill that has no draft, or appends a
  new skill with its first unsigned version.\<close>

lemma propose_skill_cases [consumes 1, case_names same version created]:
  assumes "propose_skill now ses i j p n db = Some (out, db')"
  obtains "db' = db"
  | s x where "s \<in> set (skills db)" "sees_skill ses s" "pending_draft_version ses (sk_id s) db = None"
      "current_published_version ses (sk_id s) db \<noteq> None"
      "kv_skill_id x = sk_id s" "kv_org_id x = kp_org_id p" "kv_semver x = successor_semver ses (sk_id s) db"
      "kv_id x = j" "kv_published_by x = None" "kv_created_at x = now" "j \<notin> kv_id ` set (skill_versions db)"
      "db' = db\<lparr> skill_versions := skill_versions db @ [x] \<rparr>"
  | s x where "sk_id s = i" "sk_org_id s = kp_org_id p" "sk_current_version s = None" "sk_maturity s = SkM_Draft"
      "i \<notin> sk_id ` set (skills db)" "(sk_org_id s, sk_slug s) \<notin> (\<lambda>s. (sk_org_id s, sk_slug s)) ` set (skills db)"
      "kv_skill_id x = i" "kv_org_id x = kp_org_id p" "kv_semver x = PROPOSED_SKILL_SEMVER"
      "kv_id x = j" "kv_published_by x = None" "kv_created_at x = now" "j \<notin> kv_id ` set (skill_versions db)"
      "db' = db\<lparr> skills := skills db @ [s], skill_versions := skill_versions db @ [x] \<rparr>"
proof (cases "find (\<lambda>s. sees_skill ses s \<and> sk_org_id s = kp_org_id p \<and> sk_slug s = slugify (kp_name p)) (skills db)")
  case None
  then have "db' = db \<or> (\<exists>db1. insert_skill now
      \<lparr> nk_id = i, nk_org_id = kp_org_id p, nk_slug = slugify (kp_name p), nk_name = kp_name p,
        nk_description = kp_description p, nk_domain = kp_domain p, nk_proposed_by = Some (kp_author p) \<rparr> db = Some db1 \<and>
      add_skill_version now (proposed_version j i PROPOSED_SKILL_SEMVER p) db1 = Some db')"
    using assms by (auto simp: propose_skill_def Let_def split: if_splits option.splits)
  then show ?thesis
  proof (elim disjE exE conjE)
    fix db1
    assume a: "insert_skill now \<lparr> nk_id = i, nk_org_id = kp_org_id p, nk_slug = slugify (kp_name p), nk_name = kp_name p,
        nk_description = kp_description p, nk_domain = kp_domain p, nk_proposed_by = Some (kp_author p) \<rparr> db = Some db1"
      "add_skill_version now (proposed_version j i PROPOSED_SKILL_SEMVER p) db1 = Some db'"
    obtain s where s: "db1 = db\<lparr> skills := skills db @ [s] \<rparr>" "sk_id s = i" "sk_org_id s = kp_org_id p" "sk_current_version s = None"
        "sk_maturity s = SkM_Draft" "sk_slug s = slugify (kp_name p)"
        "i \<notin> sk_id ` set (skills db)" "(kp_org_id p, slugify (kp_name p)) \<notin> (\<lambda>s. (sk_org_id s, sk_slug s)) ` set (skills db)"
      using a(1) by (auto simp: insert_skill_def skill_maturity_default_def split: if_splits)
    obtain x where x: "db' = db1\<lparr> skill_versions := skill_versions db1 @ [x] \<rparr>" "kv_skill_id x = i" "kv_org_id x = kp_org_id p"
        "kv_semver x = PROPOSED_SKILL_SEMVER" "kv_id x = j" "kv_published_by x = None" "kv_created_at x = now"
        "j \<notin> kv_id ` set (skill_versions db1)"
      using a(2) by (auto simp: add_skill_version_def proposed_version_def split: if_splits)
    show ?thesis by (rule that(3) [of s x]) (use s x in \<open>simp_all\<close>)
  qed (use that(1) in blast)
next
  case (Some s)
  then have s: "s \<in> set (skills db)" "sees_skill ses s" by (auto simp: find_Some_iff)
  have "db' = db \<or> (pending_draft_version ses (sk_id s) db = None \<and> current_published_version ses (sk_id s) db \<noteq> None \<and>
      add_skill_version now (proposed_version j (sk_id s) (successor_semver ses (sk_id s) db) p) db = Some db')"
    using assms Some by (auto simp: propose_skill_def Let_def split: if_splits)
  then show ?thesis
  proof (elim disjE conjE)
    assume a: "pending_draft_version ses (sk_id s) db = None" "current_published_version ses (sk_id s) db \<noteq> None"
      "add_skill_version now (proposed_version j (sk_id s) (successor_semver ses (sk_id s) db) p) db = Some db'"
    obtain x where x: "db' = db\<lparr> skill_versions := skill_versions db @ [x] \<rparr>" "kv_skill_id x = sk_id s" "kv_org_id x = kp_org_id p"
        "kv_semver x = successor_semver ses (sk_id s) db" "kv_id x = j" "kv_published_by x = None" "kv_created_at x = now"
        "j \<notin> kv_id ` set (skill_versions db)"
      using a(3) by (auto simp: add_skill_version_def proposed_version_def split: if_splits)
    show ?thesis by (rule that(2) [of s x]) (use s a x in simp_all)
  qed (use that(1) in blast)
qed

lemma skill_db_sel:
  "skill_versions (db\<lparr> skill_versions := x \<rparr>) = x" "skills (db\<lparr> skill_versions := x \<rparr>) = skills db"
  "skills (db\<lparr> skills := y \<rparr>) = y" "skill_versions (db\<lparr> skills := y \<rparr>) = skill_versions db" for db :: skill_db
  by simp_all

lemma publish_cases [consumes 2, case_names same signed]:
  assumes "publish_skill_version now ses k who db = (b, db')" "distinct (map kv_id (skill_versions db))"
  obtains "db' = db" "\<not> b" "\<forall>v\<in>set (skill_versions db). \<not> (sees_skill_version ses v \<and> kv_id v = k \<and> kv_published_by v = None)"
  | v where "v \<in> set (skill_versions db)" "sees_skill_version ses v" "kv_id v = k" "kv_published_by v = None" "b"
      "skill_versions db' = map (\<lambda>x. if kv_id x = k then x\<lparr> kv_published_by := Some who, kv_published_at := Some now \<rparr> else x)
         (skill_versions db)"
      "skills db' = map (\<lambda>s. if sees_skill ses s \<and> sk_id s = kv_skill_id v
         then s\<lparr> sk_current_version := Some k, sk_maturity := SkM_Published, sk_updated_at := now \<rparr> else s) (skills db)"
proof (cases "\<exists>v\<in>set (skill_versions db). sees_skill_version ses v \<and> kv_id v = k \<and> kv_published_by v = None")
  case False
  have z: "rows_affected (\<lambda>v. sees_skill_version ses v \<and> kv_id v = k \<and> kv_published_by v = None) (skill_versions db) = 0"
    unfolding rows_affected_zero using False by blast
  show ?thesis
  proof (rule that(1))
    show "db' = db" "\<not> b" using assms(1) z by (auto simp: publish_skill_version_def Let_def)
  qed (use False in blast)
next
  case True
  then obtain v where v: "v \<in> set (skill_versions db)" "sees_skill_version ses v" "kv_id v = k" "kv_published_by v = None" by blast
  let ?hit = "\<lambda>v. sees_skill_version ses v \<and> kv_id v = k \<and> kv_published_by v = None"
  let ?f = "\<lambda>v :: skill_version. v\<lparr> kv_published_by := Some who, kv_published_at := Some now \<rparr>"
  have only: "x = v" if "x \<in> set (skill_versions db)" "kv_id x = k" for x
    using that v assms(2) by (auto simp: distinct_map inj_on_def)
  have nz: "rows_affected ?hit (skill_versions db) \<noteq> 0"
    unfolding rows_affected_zero using v by blast
  have vs: "update_where ?hit ?f (skill_versions db) = map (\<lambda>x. if kv_id x = k then ?f x else x) (skill_versions db)"
    unfolding update_where_def
  proof (rule map_cong [OF HOL.refl])
    fix x assume x: "x \<in> set (skill_versions db)"
    have "?hit x \<longleftrightarrow> kv_id x = k" using only [OF x] v by blast
    then show "(if ?hit x then ?f x else x) = (if kv_id x = k then ?f x else x)" by (simp only:)
  qed
  have ex: "list_ex (\<lambda>x. sees_skill_version ses x \<and> kv_id x = k \<and> kv_skill_id x = sk_id s)
      (map (\<lambda>x. if kv_id x = k then ?f x else x) (skill_versions db)) \<longleftrightarrow> sk_id s = kv_skill_id v" for s :: skill_row
  proof -
    let ?g = "\<lambda>x. if kv_id x = k then ?f x else x"
    have g: "kv_id (?g x) = kv_id x" "kv_skill_id (?g x) = kv_skill_id x" "sees_skill_version ses (?g x) = sees_skill_version ses x" for x
      by (simp_all add: sees_skill_version_def)
    have "list_ex (\<lambda>x. sees_skill_version ses x \<and> kv_id x = k \<and> kv_skill_id x = sk_id s) (map ?g (skill_versions db)) \<longleftrightarrow>
        (\<exists>x\<in>set (skill_versions db). sees_skill_version ses x \<and> kv_id x = k \<and> kv_skill_id x = sk_id s)"
      unfolding list_ex_iff set_map bex_simps g ..
    also have "\<dots> \<longleftrightarrow> sk_id s = kv_skill_id v" using only v by metis
    finally show ?thesis .
  qed
  let ?db1 = "db\<lparr> skill_versions := update_where ?hit ?f (skill_versions db) \<rparr>"
  let ?own = "\<lambda>s. sees_skill ses s \<and> list_ex (\<lambda>v. sees_skill_version ses v \<and> kv_id v = k \<and> kv_skill_id v = sk_id s)
      (skill_versions ?db1)"
  have "publish_skill_version now ses k who db = (True, ?db1\<lparr> skills := update_where ?own
      (\<lambda>s. s\<lparr> sk_current_version := Some k, sk_maturity := SkM_Published, sk_updated_at := now \<rparr>) (skills ?db1) \<rparr>)"
    unfolding publish_skill_version_def Let_def by (simp only: nz if_False)
  then have r: b "db' = ?db1\<lparr> skills := update_where ?own
      (\<lambda>s. s\<lparr> sk_current_version := Some k, sk_maturity := SkM_Published, sk_updated_at := now \<rparr>) (skills ?db1) \<rparr>"
    unfolding assms(1) by (simp_all only: prod.inject)
  have own: "?own s \<longleftrightarrow> sees_skill ses s \<and> sk_id s = kv_skill_id v" for s
    unfolding skill_db_sel vs ex ..
  show ?thesis
  proof (rule that(2) [OF v r(1)])
    show "skill_versions db' = map (\<lambda>x. if kv_id x = k then ?f x else x) (skill_versions db)"
      unfolding r(2) skill_db_sel vs ..
    show "skills db' = map (\<lambda>s. if sees_skill ses s \<and> sk_id s = kv_skill_id v
         then s\<lparr> sk_current_version := Some k, sk_maturity := SkM_Published, sk_updated_at := now \<rparr> else s) (skills db)"
      unfolding r(2) own unfolding skill_db_sel update_where_def ..
  qed
qed

section \<open>The invariant is kept\<close>

lemma versions_for_snoc:
  "versions_for k (db\<lparr> skill_versions := skill_versions db @ [x] \<rparr>) = versions_for k db @ (if kv_skill_id x = k then [x] else [])"
  by (simp add: versions_for_def)

lemma versions_for_skills [simp]: "versions_for k (db\<lparr> skills := ss \<rparr>) = versions_for k db"
  by (simp add: versions_for_def)

lemma skill_points_ok_snoc:
  "kv_published_by x = None \<Longrightarrow> skill_points_ok db s \<Longrightarrow> skill_points_ok (db\<lparr> skill_versions := skill_versions db @ [x] \<rparr>) s"
  by (auto simp: skill_points_ok_def split: option.splits)

lemma append_version_inv:
  assumes inv: "skill_inv db" and s: "s \<in> set (skills db)"
    and x: "kv_skill_id x = sk_id s" "kv_org_id x = sk_org_id s" "kv_id x \<notin> kv_id ` set (skill_versions db)" "kv_published_by x = None"
      "kv_semver x = semver_of (Suc (length (versions_for (sk_id s) db)))" "\<forall>v\<in>set (skill_versions db). kv_created_at v < kv_created_at x"
    and signed: "filter (\<lambda>v. kv_published_by v = None) (versions_for (sk_id s) db) = []"
  shows "skill_inv (db\<lparr> skill_versions := skill_versions db @ [x] \<rparr>)" (is "skill_inv ?db'")
proof -
  have sem: "map kv_semver (versions_for k ?db') = map semver_of [1..<Suc (length (versions_for k ?db'))]" for k
  proof -
    have "map kv_semver (versions_for k db) = map semver_of [1..<Suc (length (versions_for k db))]"
      using inv by (simp add: skill_inv_def del: upt_Suc)
    then show ?thesis using x(1,5) by (auto simp: versions_for_snoc)
  qed
  have srt: "sorted_wrt (\<lambda>a b. kv_created_at a < kv_created_at b) (versions_for k ?db')" for k
  proof -
    have "sorted_wrt (\<lambda>a b. kv_created_at a < kv_created_at b) (versions_for k db)" using inv by (simp add: skill_inv_def)
    moreover have "\<forall>v\<in>set (versions_for k db). kv_created_at v < kv_created_at x" using x(6) by (simp add: versions_for_def)
    ultimately show ?thesis unfolding versions_for_snoc sorted_wrt_append by (cases "kv_skill_id x = k") simp_all
  qed
  have one: "length (filter (\<lambda>v. kv_published_by v = None) (versions_for k ?db')) \<le> 1" for k
  proof (cases "kv_skill_id x = k")
    case True
    then have "filter (\<lambda>v. kv_published_by v = None) (versions_for k ?db') = [x]"
      using signed x(1,4) by (simp add: versions_for_snoc)
    then show ?thesis by simp
  next
    case False
    then have "versions_for k ?db' = versions_for k db" by (simp add: versions_for_snoc)
    then show ?thesis using inv by (simp add: skill_inv_def)
  qed
  have "\<forall>s'\<in>set (skills ?db'). skill_points_ok ?db' s'"
    using inv skill_points_ok_snoc [of x db] x(4) by (simp add: skill_inv_def)
  moreover have "distinct (map kv_id (skill_versions ?db'))" using inv x(3) by (simp add: skill_inv_def)
  moreover have "\<forall>v\<in>set (skill_versions ?db'). \<exists>s\<in>set (skills ?db'). sk_id s = kv_skill_id v \<and> sk_org_id s = kv_org_id v"
    using inv s x(1,2) by (auto simp: skill_inv_def)
  moreover have "distinct (map sk_id (skills ?db'))" "distinct (map (\<lambda>s. (sk_org_id s, sk_slug s)) (skills ?db'))"
    using inv by (simp_all add: skill_inv_def)
  ultimately show ?thesis using sem srt one unfolding skill_inv_def by blast
qed

lemma append_skill_inv:
  assumes inv: "skill_inv db" and s: "sk_id s \<notin> sk_id ` set (skills db)" "sk_current_version s = None" "sk_maturity s = SkM_Draft"
      "(sk_org_id s, sk_slug s) \<notin> (\<lambda>s. (sk_org_id s, sk_slug s)) ` set (skills db)"
  shows "skill_inv (db\<lparr> skills := skills db @ [s] \<rparr>)" "versions_for (sk_id s) db = []"
proof -
  have fk: "\<forall>v\<in>set (skill_versions db). \<exists>s\<in>set (skills db). sk_id s = kv_skill_id v \<and> sk_org_id s = kv_org_id v"
    using inv by (simp add: skill_inv_def)
  then have none: "\<forall>v\<in>set (skill_versions db). kv_skill_id v \<noteq> sk_id s" using s(1) by (metis imageI)
  then show "versions_for (sk_id s) db = []" by (simp add: versions_for_def filter_empty_conv)
  have "skill_points_ok (db\<lparr> skills := skills db @ [s] \<rparr>) x = skill_points_ok db x" for x
    unfolding skill_points_ok_def skill_db_sel ..
  moreover have "skill_points_ok db s" using s(2,3) none by (auto simp: skill_points_ok_def)
  ultimately have pts: "\<forall>x\<in>set (skills db @ [s]). skill_points_ok (db\<lparr> skills := skills db @ [s] \<rparr>) x"
    using inv by (auto simp: skill_inv_def)
  have ids: "distinct (map sk_id (skills db @ [s]))" "distinct (map (\<lambda>s. (sk_org_id s, sk_slug s)) (skills db @ [s]))"
    using inv s(1,4) by (simp_all add: skill_inv_def)
  have fk': "\<forall>v\<in>set (skill_versions db). \<exists>s\<in>set (skills db @ [s]). sk_id s = kv_skill_id v \<and> sk_org_id s = kv_org_id v"
    using fk by fastforce
  show "skill_inv (db\<lparr> skills := skills db @ [s] \<rparr>)"
    using inv pts ids fk' unfolding skill_inv_def skill_db_sel versions_for_skills by blast
qed

lemma first_row_None_iff: "first_row xs = None \<longleftrightarrow> xs = []"
  by (cases xs) (simp_all add: first_row_def)

lemma set_newest_first [simp]: "set (newest_first key xs) = set xs"
  by (simp add: newest_first_def)

lemma newest_first_Nil_iff [simp]: "newest_first key xs = [] \<longleftrightarrow> xs = []"
  by (metis set_empty set_newest_first)

text \<open>A skill and its versions belong to one organisation, so a session sees all of them or none.\<close>

lemma sees_versions_of_skill:
  assumes "skill_inv db" "s \<in> set (skills db)" "v \<in> set (skill_versions db)" "kv_skill_id v = sk_id s"
  shows "sees_skill_version ses v = sees_skill ses s"
proof -
  obtain s' where "s' \<in> set (skills db)" "sk_id s' = kv_skill_id v" "sk_org_id s' = kv_org_id v"
    using assms(1,3) by (auto simp: skill_inv_def)
  moreover from this have "s' = s" using assms by (auto simp: skill_inv_def distinct_map inj_on_def)
  ultimately show ?thesis by (simp add: sees_skill_def sees_skill_version_def)
qed

lemma visible_versions:
  assumes "skill_inv db" "s \<in> set (skills db)" "sees_skill ses s"
  shows "filter (\<lambda>v. sees_skill_version ses v \<and> kv_skill_id v = sk_id s) (skill_versions db) = versions_for (sk_id s) db"
  unfolding versions_for_def using sees_versions_of_skill [OF assms(1,2)] assms(3) by (intro filter_cong) auto

lemma pending_None_signed:
  assumes "skill_inv db" "s \<in> set (skills db)" "sees_skill ses s" "pending_draft_version ses (sk_id s) db = None"
  shows "filter (\<lambda>v. kv_published_by v = None) (versions_for (sk_id s) db) = []"
  using assms(4) sees_versions_of_skill [OF assms(1,2)] assms(3)
  by (auto simp: pending_draft_version_def first_row_None_iff filter_empty_conv versions_for_def)

lemma successor_semver_spec:
  assumes inv: "skill_inv db" and s: "s \<in> set (skills db)" "sees_skill ses s"
    and some: "versions_for (sk_id s) db \<noteq> []" and bound: "length (skill_versions db) < 2 ^ 64 - 1"
  shows "successor_semver ses (sk_id s) db = semver_of (Suc (length (versions_for (sk_id s) db)))"
proof -
  let ?vs = "versions_for (sk_id s) db"
  have srt: "sorted_wrt (\<lambda>a b. kv_created_at a < kv_created_at b) ?vs" using inv by (simp add: skill_inv_def)
  have sem: "map kv_semver ?vs = map semver_of [1..<Suc (length ?vs)]" using inv by (simp add: skill_inv_def del: upt_Suc)
  have "kv_semver (last ?vs) = last (map kv_semver ?vs)" using some by (simp add: last_map)
  also have "\<dots> = semver_of (length ?vs)" unfolding sem using some by (simp add: last_map Suc_le_eq)
  finally have l: "kv_semver (last ?vs) = semver_of (length ?vs)" .
  have "versions_of ses (sk_id s) db = rev ?vs"
    unfolding versions_of_def visible_versions [OF inv s] by (rule newest_first_rev [OF srt])
  then have "first_row (versions_of ses (sk_id s) db) = Some (last ?vs)"
    using some by (cases ?vs rule: rev_cases) (simp_all add: first_row_def)
  moreover have "length ?vs < 2 ^ 64 - 1"
    using bound length_filter_le [of "\<lambda>v. kv_skill_id v = sk_id s" "skill_versions db"]
    unfolding versions_for_def by (rule le_less_trans [rotated])
  ultimately show ?thesis unfolding successor_semver_def by (simp only: option.case l next_minor_semver)
qed

lemma current_published_iff:
  assumes "skill_inv db"
  shows "current_published_version ses k db = Some v \<longleftrightarrow>
    v \<in> set (skill_versions db) \<and> sees_skill_version ses v \<and> kv_published_by v \<noteq> None \<and>
    (\<exists>s\<in>set (skills db). sees_skill ses s \<and> sk_id s = k \<and> sk_current_version s = Some (kv_id v))"
proof -
  have ids: "distinct (map sk_id (skills db))" "distinct (map kv_id (skill_versions db))"
    using assms by (simp_all add: skill_inv_def)
  have only: "s = s'" if "s \<in> set (skills db)" "s' \<in> set (skills db)" "sk_id s = sk_id s'" for s s'
    using that ids(1) by (auto simp: distinct_map inj_on_def)
  have "x = y" if "x \<in> set (skill_versions db)" "y \<in> set (skill_versions db)" "kv_id x = kv_id y" for x y
    using that ids(2) by (auto simp: distinct_map inj_on_def)
  then show ?thesis
    unfolding current_published_version_def list_ex_iff
    by (subst find_unique) (metis only option.inject, blast)
qed

text \<open>What a proposal adds is unsigned, and what a skill of another row points at stays: nothing served changes.\<close>

lemma propose_serves_same:
  assumes inv: "skill_inv db" "skill_inv db'" and "propose_skill now ses i j p n db = Some (out, db')"
  shows "current_published_version ses' k db' = current_published_version ses' k db"
proof (rule option_ext)
  fix v
  from assms(3) show "current_published_version ses' k db' = Some v \<longleftrightarrow> current_published_version ses' k db = Some v"
  proof (cases rule: propose_skill_cases)
    case (version s x)
    then show ?thesis unfolding current_published_iff [OF inv(1)] current_published_iff [OF inv(2)] by auto
  next
    case (created s x)
    then show ?thesis unfolding current_published_iff [OF inv(1)] current_published_iff [OF inv(2)] by auto
  qed simp
qed

lemma propose_inv:
  assumes inv: "skill_inv db" and p: "propose_skill now ses i j p n db = Some (out, db')" "kp_org_id p = p_org_id (s_principal ses)"
    and clock: "\<forall>v\<in>set (skill_versions db). kv_created_at v < now" and bound: "length (skill_versions db) < 2 ^ 64 - 1"
  shows "skill_inv db'"
  using p(1)
proof (cases rule: propose_skill_cases)
  case (version s x)
  have org: "sk_org_id s = kp_org_id p" using version(2) p(2) by (simp add: sees_skill_def)
  obtain v where v: "current_published_version ses (sk_id s) db = Some v" using version(4) by auto
  then obtain s' where s': "s' \<in> set (skills db)" "sk_id s' = sk_id s" "sk_current_version s' = Some (kv_id v)"
    using current_published_iff [OF inv] by blast
  then have "skill_points_ok db s'" using inv by (simp add: skill_inv_def)
  then have "versions_for (sk_id s) db \<noteq> []" using s' by (auto simp: skill_points_ok_def versions_for_def filter_empty_conv)
  note sem = successor_semver_spec [OF inv version(1,2) this bound]
  show ?thesis unfolding version(12)
    by (rule append_version_inv [OF inv version(1)])
      (use version org clock sem pending_None_signed [OF inv version(1,2,3)] in \<open>simp_all\<close>)
next
  case (created s x)
  have s: "sk_id s \<notin> sk_id ` set (skills db)" using created(1,5) by simp
  note add = append_skill_inv [OF inv s created(3,4,6)]
  let ?db1 = "db\<lparr> skills := skills db @ [s] \<rparr>"
  have "digit_char 1 = CHR ''1''" by code_simp
  then have "show_nat 1 = ''1''" by (subst show_nat.simps) simp
  then have one: "semver_of 1 = PROPOSED_SKILL_SEMVER" by (simp add: semver_of_def PROPOSED_SKILL_SEMVER_def)
  have "skill_inv (?db1\<lparr> skill_versions := skill_versions ?db1 @ [x] \<rparr>)"
  proof (rule append_version_inv [OF add(1), of s])
    show "kv_semver x = semver_of (Suc (length (versions_for (sk_id s) ?db1)))" using add(2) created(9) one by simp
    show "filter (\<lambda>v. kv_published_by v = None) (versions_for (sk_id s) ?db1) = []" using add(2) by simp
  qed (use created clock in simp_all)
  moreover have "db' = ?db1\<lparr> skill_versions := skill_versions ?db1 @ [x] \<rparr>" unfolding created(14) by simp
  ultimately show ?thesis by simp
qed (simp add: inv)

section \<open>Signing\<close>

definition signed_by :: "uuid \<Rightarrow> instant \<Rightarrow> uuid \<Rightarrow> skill_version \<Rightarrow> skill_version" where
  "signed_by who now k x = (if kv_id x = k then x\<lparr> kv_published_by := Some who, kv_published_at := Some now \<rparr> else x)"

definition points_to :: "session \<Rightarrow> instant \<Rightarrow> uuid \<Rightarrow> uuid \<Rightarrow> skill_row \<Rightarrow> skill_row" where
  "points_to ses now k i s = (if sees_skill ses s \<and> sk_id s = i
    then s\<lparr> sk_current_version := Some k, sk_maturity := SkM_Published, sk_updated_at := now \<rparr> else s)"

lemma signed_by_sel [simp]:
  "kv_id (signed_by who now k x) = kv_id x" "kv_skill_id (signed_by who now k x) = kv_skill_id x"
  "kv_org_id (signed_by who now k x) = kv_org_id x" "kv_semver (signed_by who now k x) = kv_semver x"
  "kv_created_at (signed_by who now k x) = kv_created_at x"
  "kv_published_by (signed_by who now k x) = (if kv_id x = k then Some who else kv_published_by x)"
  "sees_skill_version ses (signed_by who now k x) = sees_skill_version ses x"
  by (simp_all add: signed_by_def sees_skill_version_def)

lemma points_to_sel [simp]:
  "sk_id (points_to ses now k i s) = sk_id s" "sk_org_id (points_to ses now k i s) = sk_org_id s"
  "sk_slug (points_to ses now k i s) = sk_slug s" "sees_skill ses' (points_to ses now k i s) = sees_skill ses' s"
  by (simp_all add: points_to_def sees_skill_def)

lemma sign_inv:
  assumes inv: "skill_inv db" and v: "v \<in> set (skill_versions db)" "sees_skill_version ses v"
    and vs: "skill_versions db' = map (signed_by who now (kv_id v)) (skill_versions db)"
    and ss: "skills db' = map (points_to ses now (kv_id v) (kv_skill_id v)) (skills db)"
  shows "skill_inv db'"
proof -
  let ?g = "signed_by who now (kv_id v)" and ?h = "points_to ses now (kv_id v) (kv_skill_id v)"
  have ids: "distinct (map sk_id (skills db))" "distinct (map kv_id (skill_versions db))" using inv by (simp_all add: skill_inv_def)
  have only: "x = v" if "x \<in> set (skill_versions db)" "kv_id x = kv_id v" for x
    using that v ids(2) by (auto simp: distinct_map inj_on_def)
  have vf: "versions_for k db' = map ?g (versions_for k db)" for k
    unfolding versions_for_def vs filter_map by (simp add: comp_def)
  have keys: "map sk_id (skills db') = map sk_id (skills db)" "map kv_id (skill_versions db') = map kv_id (skill_versions db)"
    "map (\<lambda>s. (sk_org_id s, sk_slug s)) (skills db') = map (\<lambda>s. (sk_org_id s, sk_slug s)) (skills db)"
    by (simp_all add: ss vs)
  have fk: "\<forall>x\<in>set (skill_versions db'). \<exists>s\<in>set (skills db'). sk_id s = kv_skill_id x \<and> sk_org_id s = kv_org_id x"
    using inv by (simp add: skill_inv_def ss vs)
  have pts: "skill_points_ok db' (?h s)" if s: "s \<in> set (skills db)" for s
  proof (cases "sk_id s = kv_skill_id v")
    case True
    then have "sees_skill ses s" using sees_versions_of_skill [OF inv s v(1)] v(2) by simp
    moreover have "\<exists>x\<in>set (skill_versions db'). kv_id x = kv_id v \<and> kv_skill_id x = sk_id s \<and> kv_published_by x \<noteq> None"
      using v(1) True by (auto simp: vs intro!: bexI [of _ v])
    ultimately show ?thesis using True by (simp add: skill_points_ok_def points_to_def)
  next
    case False
    then have h: "?h s = s" by (simp add: points_to_def)
    have old: "skill_points_ok db s" using inv s by (simp add: skill_inv_def)
    show ?thesis
    proof (cases "sk_current_version s")
      case None
      have "kv_published_by x = None" if "x \<in> set (skill_versions db')" "kv_skill_id x = sk_id s" for x
      proof -
        obtain y where y: "y \<in> set (skill_versions db)" "x = ?g y" "kv_skill_id y = sk_id s" using \<open>x \<in> _\<close> \<open>kv_skill_id x = _\<close> by (auto simp: vs)
        then have "kv_id y \<noteq> kv_id v" using only False by metis
        then show ?thesis using y old None by (simp add: skill_points_ok_def)
      qed
      then show ?thesis using old None h by (simp add: skill_points_ok_def)
    next
      case (Some k)
      then obtain w where "w \<in> set (skill_versions db)" "kv_id w = k" "kv_skill_id w = sk_id s" "kv_published_by w \<noteq> None"
        using old by (auto simp: skill_points_ok_def)
      then have "\<exists>x\<in>set (skill_versions db'). kv_id x = k \<and> kv_skill_id x = sk_id s \<and> kv_published_by x \<noteq> None"
        by (auto simp: vs intro!: bexI [of _ w])
      then show ?thesis using old Some h by (simp add: skill_points_ok_def)
    qed
  qed
  have one: "length (filter (\<lambda>x. kv_published_by x = None) (versions_for k db')) \<le> 1" for k
  proof -
    have "filter (\<lambda>x. kv_published_by x = None) (map ?g xs) = map ?g (filter (\<lambda>x. kv_id x \<noteq> kv_id v \<and> kv_published_by x = None) xs)" for xs
      by (induction xs) simp_all
    moreover have "length (filter (\<lambda>x. P x \<and> Q x) xs) \<le> length (filter Q xs)" for P Q and xs :: "skill_version list"
      by (induction xs) simp_all
    ultimately have "length (filter (\<lambda>x. kv_published_by x = None) (versions_for k db'))
        \<le> length (filter (\<lambda>x. kv_published_by x = None) (versions_for k db))"
      unfolding vf by simp
    moreover have "length (filter (\<lambda>x. kv_published_by x = None) (versions_for k db)) \<le> 1" using inv by (simp add: skill_inv_def)
    ultimately show ?thesis by (rule le_trans)
  qed
  have "map kv_semver (versions_for k db') = map semver_of [1..<Suc (length (versions_for k db'))]" for k
    using inv by (simp add: vf skill_inv_def comp_def del: upt_Suc)
  moreover have "sorted_wrt (\<lambda>a b. kv_created_at a < kv_created_at b) (versions_for k db')" for k
    using inv by (simp add: vf skill_inv_def sorted_wrt_map)
  moreover have "\<forall>s\<in>set (skills db'). skill_points_ok db' s" using pts by (simp add: ss)
  ultimately show ?thesis using ids one fk keys inv unfolding skill_inv_def by simp
qed

lemma publish_cases':
  assumes "publish_skill_version now ses k who db = (b, db')" "skill_inv db"
  shows "(db' = db \<and> \<not> b) \<or> (\<exists>v\<in>set (skill_versions db). sees_skill_version ses v \<and> kv_id v = k \<and> kv_published_by v = None \<and> b \<and>
    skill_versions db' = map (signed_by who now k) (skill_versions db) \<and> skills db' = map (points_to ses now k (kv_skill_id v)) (skills db))"
proof -
  have "distinct (map kv_id (skill_versions db))" using assms(2) by (simp add: skill_inv_def)
  from assms(1) this show ?thesis
  proof (cases rule: publish_cases)
    case (signed v)
    then show ?thesis unfolding signed_by_def points_to_def by blast
  qed blast
qed

lemma publish_inv:
  assumes "publish_skill_version now ses k who db = (b, db')" "skill_inv db"
  shows "skill_inv db'"
  using publish_cases' [OF assms] sign_inv [OF assms(2)] assms(2) by metis

lemma skill_step_inv: "skill_step db db' \<Longrightarrow> skill_inv db \<Longrightarrow> skill_inv db'"
  by (induction rule: skill_step.induct) (blast intro: propose_inv publish_inv)+

lemma skill_reachable_inv: "skill_reachable db \<Longrightarrow> skill_inv db"
proof (induction rule: skill_reachable.induct)
  case 1
  then show ?case by (simp add: empty_skills_def skill_inv_def versions_for_def)
qed (rule skill_step_inv)

lemma publish_serves:
  assumes inv: "skill_inv db" and p: "publish_skill_version now ses k who db = (True, db')"
  shows "\<exists>v\<in>set (skill_versions db). kv_id v = k \<and> kv_published_by v = None \<and>
    current_published_version ses (kv_skill_id v) db' = Some (signed_by who now k v) \<and>
    (\<forall>ses' i. i \<noteq> kv_skill_id v \<longrightarrow> current_published_version ses' i db' = current_published_version ses' i db)"
proof -
  obtain v where v: "v \<in> set (skill_versions db)" "sees_skill_version ses v" "kv_id v = k" "kv_published_by v = None"
      "skill_versions db' = map (signed_by who now k) (skill_versions db)"
      "skills db' = map (points_to ses now k (kv_skill_id v)) (skills db)"
    using publish_cases' [OF p inv] by blast
  note inv' = publish_inv [OF p inv]
  have only: "x = v" if "x \<in> set (skill_versions db)" "kv_id x = k" for x
    using that v(1,3) inv by (auto simp: skill_inv_def distinct_map inj_on_def)
  obtain s where s: "s \<in> set (skills db)" "sk_id s = kv_skill_id v" using inv v(1) by (auto simp: skill_inv_def)
  have see: "sees_skill ses s" using sees_versions_of_skill [OF inv s(1) v(1)] s(2) v(2) by simp
  have "points_to ses now k (kv_skill_id v) s \<in> set (skills db')" using s(1) unfolding v(6) by simp
  moreover have "sk_current_version (points_to ses now k (kv_skill_id v) s) = Some k" using see s(2) by (simp add: points_to_def)
  moreover have "sees_skill ses (points_to ses now k (kv_skill_id v) s)" "sk_id (points_to ses now k (kv_skill_id v) s) = kv_skill_id v"
    using see s(2) by simp_all
  ultimately have "\<exists>t\<in>set (skills db'). sees_skill ses t \<and> sk_id t = kv_skill_id v \<and> sk_current_version t = Some k" by blast
  then have "current_published_version ses (kv_skill_id v) db' = Some (signed_by who now k v)"
    unfolding current_published_iff [OF inv'] v(5) using v(1-3) by simp
  moreover have "current_published_version ses' i db' = current_published_version ses' i db" if "i \<noteq> kv_skill_id v" for ses' i
  proof (rule option_ext)
    fix w
    have same: "points_to ses now k (kv_skill_id v) t = t" if "sk_id t = i" for t
      using that \<open>i \<noteq> kv_skill_id v\<close> by (simp add: points_to_def)
    have skill: "(\<exists>t\<in>set (skills db'). sees_skill ses' t \<and> sk_id t = i \<and> sk_current_version t = Some c) \<longleftrightarrow>
        (\<exists>t\<in>set (skills db). sees_skill ses' t \<and> sk_id t = i \<and> sk_current_version t = Some c)" for c
      using same by (auto simp: v(6))
    have own: "c \<noteq> k" if t: "t \<in> set (skills db)" "sk_id t = i" "sk_current_version t = Some c" for t c
    proof
      assume "c = k"
      have "skill_points_ok db t" using inv t(1) by (simp add: skill_inv_def)
      then obtain x where "x \<in> set (skill_versions db)" "kv_id x = c" "kv_published_by x \<noteq> None"
        using t(3) by (auto simp: skill_points_ok_def)
      then show False using only v(4) \<open>c = k\<close> by auto
    qed
    have id: "signed_by who now k x = x" if "kv_id x \<noteq> k" for x using that by (simp add: signed_by_def)
    show "current_published_version ses' i db' = Some w \<longleftrightarrow> current_published_version ses' i db = Some w"
      unfolding current_published_iff [OF inv] current_published_iff [OF inv'] skill v(5)
      using own id by (auto simp: image_iff) (metis signed_by_sel(1))+
  qed
  ultimately show ?thesis using v by blast
qed

text \<open>The semvers of a skill are pairwise different, and the next one is new.\<close>

lemma semvers_of:
  assumes "skill_inv db"
  shows "map kv_semver (versions_for k db) = map semver_of [1..<Suc (length (versions_for k db))]"
  using assms by (simp add: skill_inv_def del: upt_Suc)

lemma fresh_semver:
  assumes "skill_inv db" "w \<in> set (skill_versions db)"
  shows "kv_semver w \<noteq> semver_of (Suc (length (versions_for (kv_skill_id w) db)))"
proof -
  have "w \<in> set (versions_for (kv_skill_id w) db)" using assms(2) by (simp add: versions_for_def)
  then have "kv_semver w \<in> set (map semver_of [1..<Suc (length (versions_for (kv_skill_id w) db))])"
    unfolding semvers_of [OF assms(1), symmetric] by simp
  then show ?thesis by (auto simp: semver_of_inj)
qed

lemma appended_semver_fresh:
  assumes inv: "skill_inv db" "skill_inv db'" and v: "skill_versions db' = skill_versions db @ [v]"
    and w: "w \<in> set (skill_versions db)" "kv_skill_id w = kv_skill_id v"
  shows "kv_semver w \<noteq> kv_semver v"
proof -
  let ?k = "kv_skill_id v"
  have vf: "versions_for ?k db' = versions_for ?k db @ [v]" by (simp add: versions_for_def v)
  have "kv_semver v = last (map kv_semver (versions_for ?k db'))" by (simp add: vf)
  also have "\<dots> = semver_of (Suc (length (versions_for ?k db)))" unfolding semvers_of [OF inv(2)] by (simp add: vf)
  finally show ?thesis using fresh_semver [OF inv(1) w(1)] w(2) by simp
qed

lemma served_has_versions:
  assumes "skill_inv db" "s \<in> set (skills db)" "current_published_version ses (sk_id s) db \<noteq> None"
  shows "versions_for (sk_id s) db \<noteq> []"
proof -
  obtain v where "current_published_version ses (sk_id s) db = Some v" using assms(3) by auto
  then obtain s' where "s' \<in> set (skills db)" "sk_id s' = sk_id s" "sk_current_version s' = Some (kv_id v)"
    unfolding current_published_iff [OF assms(1)] by blast
  then show ?thesis using assms(1) by (fastforce simp: skill_inv_def skill_points_ok_def versions_for_def filter_empty_conv)
qed

section \<open>Properties\<close>

definition example_skill_proposal :: "string \<Rightarrow> skill_proposal" where
  "example_skill_proposal body =
    \<lparr> kp_org_id = 1, kp_author = 5, kp_name = ''Rotate keys'', kp_description = None, kp_domain = None,
      kp_content_md = body, kp_manifest = ''{}'', kp_resources = ''[]'' \<rparr>"

definition example_skills :: skill_db where
  "example_skills = snd (the (propose_skill 10 example_session 70 71 (example_skill_proposal ''v1'') 5 empty_skills))"

lemma example_skills_reachable: "skill_reachable example_skills"
proof (rule skill_reachable.intros(2) [OF skill_reachable.intros(1)])
  let ?r = "propose_skill 10 example_session 70 71 (example_skill_proposal ''v1'') 5 empty_skills"
  have "?r \<noteq> None"
    by (simp add: propose_skill_def empty_skills_def bundle_chars_def MAX_SKILL_BUNDLE_CHARS_def insert_skill_def
        add_skill_version_def recent_skill_proposals_def proposed_version_def example_skill_proposal_def Let_def)
  then have "?r = Some (fst (the ?r), example_skills)" by (simp add: example_skills_def)
  then show "skill_step empty_skills example_skills"
    by (rule skill_step.K_propose) (simp_all add: example_skill_proposal_def example_session_def empty_skills_def)
qed

text \<open>C40: A draft is never served.  In every reachable state the version a skill serves is one of its own
  versions and carries a signature; a proposal, whatever it is, changes nothing that any session is
  served for any skill; signing a draft makes exactly that version the one its skill serves, under the
  signer's name, and changes what no other skill serves.\<close>

theorem skill_drafts_never_served:
  assumes "skill_reachable db"
  shows "(\<forall>ses k v. current_published_version ses k db = Some v \<longrightarrow>
      v \<in> set (skill_versions db) \<and> kv_skill_id v = k \<and> kv_published_by v \<noteq> None) \<and>
    (\<forall>now ses i j p n out db'. skill_step db db' \<and> propose_skill now ses i j p n db = Some (out, db') \<longrightarrow>
      (\<forall>ses' k. current_published_version ses' k db' = current_published_version ses' k db)) \<and>
    (\<forall>now ses k who db'. publish_skill_version now ses k who db = (True, db') \<longrightarrow>
      (\<exists>v\<in>set (skill_versions db). kv_id v = k \<and> kv_published_by v = None \<and>
        map_option (\<lambda>x. (kv_id x, kv_published_by x)) (current_published_version ses (kv_skill_id v) db') = Some (k, Some who) \<and>
        (\<forall>ses' i. i \<noteq> kv_skill_id v \<longrightarrow> current_published_version ses' i db' = current_published_version ses' i db)))"
proof -
  note inv = skill_reachable_inv [OF assms]
  have own: "v \<in> set (skill_versions db) \<and> kv_skill_id v = k \<and> kv_published_by v \<noteq> None"
    if cur: "current_published_version ses k db = Some v" for ses k v
  proof -
    obtain s where s: "s \<in> set (skills db)" "sk_id s = k" "sk_current_version s = Some (kv_id v)"
        and v: "v \<in> set (skill_versions db)" "kv_published_by v \<noteq> None"
      using cur unfolding current_published_iff [OF inv] by blast
    obtain w where "w \<in> set (skill_versions db)" "kv_id w = kv_id v" "kv_skill_id w = k"
      using inv s by (fastforce simp: skill_inv_def skill_points_ok_def)
    moreover from this have "w = v" using v(1) inv by (auto simp: skill_inv_def distinct_map inj_on_def)
    ultimately show ?thesis using v by simp
  qed
  have proposing: "current_published_version ses' k db' = current_published_version ses' k db"
    if "skill_step db db'" "propose_skill now ses i j p n db = Some (out, db')" for now ses i j p n out db' ses' k
    using propose_serves_same [OF inv skill_step_inv [OF that(1) inv] that(2)] .
  have pub: "\<exists>v\<in>set (skill_versions db). kv_id v = k \<and> kv_published_by v = None \<and>
        map_option (\<lambda>x. (kv_id x, kv_published_by x)) (current_published_version ses (kv_skill_id v) db') = Some (k, Some who) \<and>
        (\<forall>ses' i. i \<noteq> kv_skill_id v \<longrightarrow> current_published_version ses' i db' = current_published_version ses' i db)"
    if signs: "publish_skill_version now ses k who db = (True, db')" for now ses k who db'
  proof -
    obtain v where v: "v \<in> set (skill_versions db)" "kv_id v = k" "kv_published_by v = None"
        "current_published_version ses (kv_skill_id v) db' = Some (signed_by who now k v)"
        "\<forall>ses' i. i \<noteq> kv_skill_id v \<longrightarrow> current_published_version ses' i db' = current_published_version ses' i db"
      using publish_serves [OF inv signs] by blast
    then show ?thesis by (intro bexI [of _ v]) simp_all
  qed
  show ?thesis using own proposing pub by blast
qed

lemma skill_drafts_never_served_witness: "current_published_version example_session 70 example_skills = None"
proof -
  have drafts: "list_all (\<lambda>v. kv_published_by v = None) (skill_versions example_skills)"
    by (simp add: example_skills_def propose_skill_def empty_skills_def bundle_chars_def MAX_SKILL_BUNDLE_CHARS_def insert_skill_def
        add_skill_version_def recent_skill_proposals_def proposed_version_def example_skill_proposal_def Let_def)
  have "v \<in> set (skill_versions example_skills) \<and> kv_published_by v \<noteq> None"
    if "current_published_version example_session 70 example_skills = Some v" for v
    using skill_drafts_never_served [OF example_skills_reachable] that by blast
  then show ?thesis using drafts by (cases "current_published_version example_session 70 example_skills") (auto simp: list_all_iff)
qed

text \<open>A skill proposal is never refused by the schema.  In a reachable state, with fresh ids, a clock
  that has moved on and fewer than \<open>2 ^ 64 - 1\<close> versions, \<open>propose_skill\<close> always returns an outcome; a
  version it creates is unsigned, gets a semver the skill never used, and a skill has at most one
  unsigned version at a time.\<close>

theorem skill_proposals_never_collide:
  assumes "skill_reachable db" and "kp_org_id p = p_org_id (s_principal ses)"
    and "\<forall>v\<in>set (skill_versions db). kv_created_at v < now" and "length (skill_versions db) < 2 ^ 64 - 1"
    and "i \<notin> set (map sk_id (skills db))" and "j \<notin> set (map kv_id (skill_versions db))"
  shows "(\<exists>out db'. propose_skill now ses i j p n db = Some (out, db') \<and>
      (skill_versions db' = skill_versions db \<or> (\<exists>v. skill_versions db' = skill_versions db @ [v] \<and> kv_published_by v = None \<and>
         (\<forall>w\<in>set (skill_versions db). kv_skill_id w = kv_skill_id v \<longrightarrow> kv_semver w \<noteq> kv_semver v))) \<and>
      (\<forall>k. length (filter (\<lambda>v. kv_skill_id v = k \<and> kv_published_by v = None) (skill_versions db')) \<le> 1))"
proof -
  note inv = skill_reachable_inv [OF assms(1)]
  have defined: "propose_skill now ses i j p n db \<noteq> None"
  proof (cases "find (\<lambda>s. sees_skill ses s \<and> sk_org_id s = kp_org_id p \<and> sk_slug s = slugify (kp_name p)) (skills db)")
    case None
    then have fresh: "(kp_org_id p, slugify (kp_name p)) \<notin> (\<lambda>s. (sk_org_id s, sk_slug s)) ` set (skills db)"
      using assms(2) by (auto simp: find_None_iff sees_skill_def)
    have "\<forall>v\<in>set (skill_versions db). \<exists>s\<in>set (skills db). sk_id s = kv_skill_id v" using inv unfolding skill_inv_def by blast
    then have "\<forall>v\<in>set (skill_versions db). kv_skill_id v \<noteq> i" using assms(5) by (metis imageI set_map)
    then have "(i, PROPOSED_SKILL_SEMVER) \<notin> (\<lambda>v. (kv_skill_id v, kv_semver v)) ` set (skill_versions db)" by auto
    then show ?thesis unfolding propose_skill_def Let_def None
      using fresh assms(5,6) by (simp add: insert_skill_def add_skill_version_def proposed_version_def)
  next
    case (Some s)
    then have s: "s \<in> set (skills db)" "sees_skill ses s" by (auto simp: find_Some_iff)
    show ?thesis
    proof (cases "pending_draft_version ses (sk_id s) db \<noteq> None \<or> current_published_version ses (sk_id s) db = None \<or> sk_maturity s = SkM_Deprecated")
      case True
      then show ?thesis unfolding propose_skill_def Let_def Some by (simp only: option.case if_True) simp
    next
      case False
      have sem: "successor_semver ses (sk_id s) db = semver_of (Suc (length (versions_for (sk_id s) db)))"
        using served_has_versions [OF inv s(1)] False successor_semver_spec [OF inv s _ assms(4)] by blast
      have "(sk_id s, successor_semver ses (sk_id s) db) \<notin> (\<lambda>v. (kv_skill_id v, kv_semver v)) ` set (skill_versions db)"
        unfolding sem using fresh_semver [OF inv] by (auto dest: sym)
      then have "add_skill_version now (proposed_version j (sk_id s) (successor_semver ses (sk_id s) db) p) db \<noteq> None"
        using s(1) assms(6) by (auto simp: add_skill_version_def proposed_version_def)
      then show ?thesis unfolding propose_skill_def Let_def Some by (simp only: option.case False if_False) auto
    qed
  qed
  then obtain out db' where r: "propose_skill now ses i j p n db = Some (out, db')" by auto
  have inv': "skill_inv db'" by (rule propose_inv [OF inv r assms(2-4)])
  have one: "length (filter (\<lambda>v. kv_skill_id v = k \<and> kv_published_by v = None) (skill_versions db')) \<le> 1" for k
    using inv' by (simp add: skill_inv_def versions_for_def conj_commute)
  have shape: "skill_versions db' = skill_versions db \<or> (\<exists>v. skill_versions db' = skill_versions db @ [v] \<and> kv_published_by v = None)"
    using r by (cases rule: propose_skill_cases) auto
  have fresh: "kv_semver w \<noteq> kv_semver v"
    if "skill_versions db' = skill_versions db @ [v]" "w \<in> set (skill_versions db)" "kv_skill_id w = kv_skill_id v" for v w
    using appended_semver_fresh [OF inv inv' that] .
  show ?thesis using r one shape fresh by blast
qed

lemma skill_proposals_never_collide_witness:
  "\<exists>out db'. propose_skill 20 example_session 80 81 (example_skill_proposal ''v2'') 5 example_skills = Some (out, db')"
proof -
  have p: "kp_org_id (example_skill_proposal ''v2'') = p_org_id (s_principal example_session)"
    by (simp add: example_skill_proposal_def example_session_def)
  have v: "map kv_id (skill_versions example_skills) = [71]" "map kv_created_at (skill_versions example_skills) = [10]"
      "map sk_id (skills example_skills) = [70]"
    by (simp_all add: example_skills_def propose_skill_def empty_skills_def bundle_chars_def MAX_SKILL_BUNDLE_CHARS_def insert_skill_def
        add_skill_version_def recent_skill_proposals_def proposed_version_def example_skill_proposal_def Let_def)
  have t: "\<forall>v\<in>set (skill_versions example_skills). kv_created_at v < 20"
    using v(2) by auto
  have n: "length (skill_versions example_skills) < 2 ^ 64 - 1" using arg_cong [OF v(1), of length] by simp
  have f: "80 \<notin> set (map sk_id (skills example_skills))" "81 \<notin> set (map kv_id (skill_versions example_skills))"
    unfolding v by simp_all
  from skill_proposals_never_collide [OF example_skills_reachable p t n f] show ?thesis by blast
qed

end
