(* ===== verification/Projects.thy ===== *)
theory Projects
  imports Text Tables
begin

text \<open>
  \<open>brainiac-store/src/projects.rs\<close> and \<open>brainiac-server/src/projects.rs\<close>: the project registry, the
  repository whitelist with its longest-prefix lookup, and the normalisation of git remotes and path
  prefixes that makes every spelling of a repository meet in one row.  The tables carry no row-level
  security; every operation takes the organisation.
\<close>

section \<open>Tables\<close>

record project_row =
  pj_id :: uuid
  pj_org_id :: uuid
  pj_name :: string
  pj_isolated :: bool
  pj_created_at :: instant

record repo_row =
  ro_id :: uuid
  ro_org_id :: uuid
  ro_project_id :: uuid
  ro_remote :: string
  ro_path_prefix :: string
  ro_created_at :: instant

record registry =
  projects :: "project_row list"
  repos :: "repo_row list"

section \<open>Store operations\<close>

definition create_project :: "instant \<Rightarrow> uuid \<Rightarrow> uuid \<Rightarrow> string \<Rightarrow> registry \<Rightarrow> bool \<times> registry" where
  "create_project now k org name db =
    (if (org, name) \<in> set (map (\<lambda>p. (pj_org_id p, pj_name p)) (projects db)) then (False, db)
     else (True, db\<lparr> projects := projects db @
       [\<lparr> pj_id = k, pj_org_id = org, pj_name = name, pj_isolated = False, pj_created_at = now \<rparr>] \<rparr>))"

definition list_projects :: "uuid \<Rightarrow> registry \<Rightarrow> project_row list" where
  "list_projects org db = sort_by (\<lambda>a b. pj_created_at a \<le> pj_created_at b) (filter (\<lambda>p. pj_org_id p = org) (projects db))"

definition list_repos :: "uuid \<Rightarrow> registry \<Rightarrow> repo_row list" where
  "list_repos org db = sort_by (\<lambda>a b. ro_created_at a \<le> ro_created_at b) (filter (\<lambda>r. ro_org_id r = org) (repos db))"

definition project_belongs :: "uuid \<Rightarrow> uuid \<Rightarrow> registry \<Rightarrow> bool" where
  "project_belongs org k db = list_ex (\<lambda>p. pj_id p = k \<and> pj_org_id p = org) (projects db)"

definition set_isolated :: "uuid \<Rightarrow> uuid \<Rightarrow> bool \<Rightarrow> registry \<Rightarrow> bool \<times> registry" where
  "set_isolated org k isolated db =
    (let hit = (\<lambda>p. pj_id p = k \<and> pj_org_id p = org) in
     (rows_affected hit (projects db) > 0,
      db\<lparr> projects := update_where hit (\<lambda>p. p\<lparr> pj_isolated := isolated \<rparr>) (projects db) \<rparr>))"

definition isolated_among :: "uuid list \<Rightarrow> registry \<Rightarrow> uuid list" where
  "isolated_among ids db =
    (if ids = [] then [] else remdups (map pj_id (filter (\<lambda>p. pj_id p \<in> set ids \<and> pj_isolated p) (projects db))))"

definition repo_key :: "repo_row \<Rightarrow> uuid \<times> string \<times> string" where
  "repo_key r = (ro_org_id r, ro_remote r, ro_path_prefix r)"

definition add_repo :: "instant \<Rightarrow> uuid \<Rightarrow> uuid \<Rightarrow> uuid \<Rightarrow> string \<Rightarrow> string \<Rightarrow> registry \<Rightarrow> bool \<times> registry" where
  "add_repo now k org project remote path_prefix db =
    (if \<not> project_belongs org project db \<or> (org, remote, path_prefix) \<in> set (map repo_key (repos db)) then (False, db)
     else (True, db\<lparr> repos := repos db @
       [\<lparr> ro_id = k, ro_org_id = org, ro_project_id = project, ro_remote = remote,
          ro_path_prefix = path_prefix, ro_created_at = now \<rparr>] \<rparr>))"

definition remove_repo :: "uuid \<Rightarrow> uuid \<Rightarrow> registry \<Rightarrow> bool \<times> registry" where
  "remove_repo org k db =
    (let hit = (\<lambda>r. ro_id r = k \<and> ro_org_id r = org) in
     (rows_affected hit (repos db) > 0, db\<lparr> repos := delete_where hit (repos db) \<rparr>))"

text \<open>The whitelist lookup: a row claims a path on a segment boundary only, and the longest claim wins.\<close>

definition claims_path :: "string \<Rightarrow> string \<Rightarrow> bool" where
  "claims_path prefix path =
    (prefix = [] \<or> path = prefix \<or> take (length prefix + 1) path = prefix @ ''/'')"

definition claiming :: "uuid \<Rightarrow> string \<Rightarrow> string \<Rightarrow> registry \<Rightarrow> (repo_row \<times> project_row) list" where
  "claiming org remote path db =
    concat (map (\<lambda>r. map (\<lambda>p. (r, p)) (filter (\<lambda>p. pj_id p = ro_project_id r) (projects db)))
      (filter (\<lambda>r. ro_org_id r = org \<and> ro_remote r = remote \<and> claims_path (ro_path_prefix r) path) (repos db)))"

definition longest_first :: "repo_row \<times> project_row \<Rightarrow> repo_row \<times> project_row \<Rightarrow> bool" where
  "longest_first a b = (length (ro_path_prefix (fst b)) \<le> length (ro_path_prefix (fst a)))"

definition find_by_remote :: "uuid \<Rightarrow> string \<Rightarrow> string \<Rightarrow> registry \<Rightarrow> (uuid \<times> string) option" where
  "find_by_remote org remote path db =
    (case sort_by longest_first (claiming org remote path db) of
       [] \<Rightarrow> None
     | (r, p) # _ \<Rightarrow> Some (pj_id p, pj_name p))"

section \<open>Normalisation\<close>

definition is_control :: "char \<Rightarrow> bool" where
  "is_control c = (code c < 32 \<or> code c = 127)"

text \<open>The first scheme that matches is stripped.\<close>

definition strip_scheme :: "string \<Rightarrow> string" where
  "strip_scheme s =
    (case strip_prefix s ''https://'' of Some t \<Rightarrow> t | None \<Rightarrow>
     (case strip_prefix s ''http://'' of Some t \<Rightarrow> t | None \<Rightarrow>
      (case strip_prefix s ''ssh://'' of Some t \<Rightarrow> t | None \<Rightarrow>
       (case strip_prefix s ''git://'' of Some t \<Rightarrow> t | None \<Rightarrow> s))))"

definition rewrite_scp :: "string \<Rightarrow> string" where
  "rewrite_scp s = (case strip_prefix s ''git@'' of Some rest \<Rightarrow> replace_first rest '':'' ''/'' | None \<Rightarrow> s)"

text \<open>\<open>rsplit_once('@')\<close>: what follows the last at sign.\<close>

definition after_last_at :: "string \<Rightarrow> string" where
  "after_last_at s = rev (takeWhile (\<lambda>c. c \<noteq> CHR ''@'') (rev s))"

text \<open>\<open>trim_end_matches(".git")\<close> strips the suffix as often as it occurs.\<close>

function trim_git :: "string \<Rightarrow> string" where
  "trim_git s = (case strip_suffix s ''.git'' of Some t \<Rightarrow> trim_git t | None \<Rightarrow> s)"
  by auto
termination by (relation "measure length") (auto simp: strip_suffix_iff)

definition all_digits :: "string \<Rightarrow> bool" where
  "all_digits s = (s \<noteq> [] \<and> list_all is_digit s)"

text \<open>\<open>split_once(':')\<close> on the host segment: a port is dropped; otherwise a numeric second segment of a path
  of four or more is taken for one.\<close>

definition drop_port :: "string list \<Rightarrow> string list" where
  "drop_port parts =
    (case parts of
       [] \<Rightarrow> []
     | p # ps \<Rightarrow>
         (if CHR '':'' \<in> set p then
            (let host = takeWhile (\<lambda>c. c \<noteq> CHR '':'') p; port = tl (dropWhile (\<lambda>c. c \<noteq> CHR '':'') p) in
             if all_digits port then host # ps else parts)
          else (case ps of
              q # qs \<Rightarrow> if length parts \<ge> 4 \<and> all_digits q then p # qs else parts
            | [] \<Rightarrow> parts)))"

definition host_char :: "char \<Rightarrow> bool" where
  "host_char c = (is_alnum c \<or> c = CHR ''-'' \<or> c = CHR ''.'')"

definition assemble :: "string list \<Rightarrow> string option" where
  "assemble parts =
    (let host = lowercase (hd parts);
         owner = lowercase (join ''/'' (take (length parts - 2) (tl parts)));
         name = last parts in
     if host = [] \<or> \<not> list_all host_char host then None
     else if name = [] \<or> owner = [] then None
     else Some (host @ ''/'' @ owner @ ''/'' @ name))"

definition normalize_remote :: "string \<Rightarrow> string option" where
  "normalize_remote raw =
    (let s = trim raw in
     if s = [] \<or> list_ex (\<lambda>c. is_ws c \<or> is_control c) s then None
     else
       (let s = after_last_at (rewrite_scp (strip_scheme s));
            s = trim_git (trim_end_by (\<lambda>c. c = CHR ''/'') s);
            parts = filter (\<lambda>p. p \<noteq> []) (split_by (\<lambda>c. c = CHR ''/'') s) in
        if length parts < 3 then None
        else let parts = drop_port parts in if length parts < 3 then None else assemble parts))"

definition normalize_path_prefix :: "string \<Rightarrow> string" where
  "normalize_path_prefix raw = trim_by (\<lambda>c. c = CHR ''/'') (trim raw)"

section \<open>Handlers\<close>

text \<open>Every handler first resolves an admin token (\<open>auth_of\<close>); the model starts from the resulting organisation.\<close>

definition MAX_NAME_CHARS :: nat where "MAX_NAME_CHARS = 200"

datatype http_error = BadRequest string | Unauthorized string | Forbidden string | NotFoundError string
  | Conflict string | TooManyRequests string | Internal

definition project_create :: "instant \<Rightarrow> uuid \<Rightarrow> uuid \<Rightarrow> string \<Rightarrow> registry \<Rightarrow> (http_error + uuid \<times> string) \<times> registry" where
  "project_create now new_id org raw db =
    (let name = trim raw in
     if name = [] \<or> length name > MAX_NAME_CHARS then (Inl (BadRequest ''name must be 1..200 characters''), db)
     else (case create_project now new_id org name db of
        (True, db') \<Rightarrow> (Inr (new_id, name), db')
      | (False, db') \<Rightarrow> (Inl (Conflict name), db')))"

definition repo_add ::
  "instant \<Rightarrow> uuid \<Rightarrow> uuid \<Rightarrow> uuid \<Rightarrow> string \<Rightarrow> string option \<Rightarrow> registry \<Rightarrow> (http_error + repo_row) \<times> registry" where
  "repo_add now new_id org project raw path_prefix db =
    (if length raw > MAX_NAME_CHARS then (Inl (BadRequest ''remote is too long''), db)
     else case normalize_remote raw of
       None \<Rightarrow> (Inl (BadRequest raw), db)
     | Some remote \<Rightarrow>
         (let prefix = normalize_path_prefix (case path_prefix of Some p \<Rightarrow> p | None \<Rightarrow> []) in
          case add_repo now new_id org project remote prefix db of
            (True, db') \<Rightarrow>
              (Inr \<lparr> ro_id = new_id, ro_org_id = org, ro_project_id = project, ro_remote = remote,
                     ro_path_prefix = prefix, ro_created_at = now \<rparr>, db')
          | (False, db') \<Rightarrow>
              (if project_belongs org project db' then (Inl (Conflict remote), db')
               else (Inl (NotFoundError ''project not found''), db'))))"

definition repo_remove :: "uuid \<Rightarrow> uuid \<Rightarrow> registry \<Rightarrow> (http_error + uuid) \<times> registry" where
  "repo_remove org k db =
    (case remove_repo org k db of
       (True, db') \<Rightarrow> (Inr k, db')
     | (False, db') \<Rightarrow> (Inl (NotFoundError ''repo not found''), db'))"

definition project_set_isolation :: "uuid \<Rightarrow> uuid \<Rightarrow> bool \<Rightarrow> registry \<Rightarrow> (http_error + uuid \<times> bool) \<times> registry" where
  "project_set_isolation org k isolated db =
    (case set_isolated org k isolated db of
       (True, db') \<Rightarrow> (Inr (k, isolated), db')
     | (False, db') \<Rightarrow> (Inl (NotFoundError ''project not found''), db'))"

definition projects_list :: "uuid \<Rightarrow> registry \<Rightarrow> (project_row \<times> repo_row list) list" where
  "projects_list org db =
    map (\<lambda>p. (p, filter (\<lambda>r. ro_project_id r = pj_id p) (list_repos org db))) (list_projects org db)"

section \<open>The registry invariant\<close>

lemma registry_sel:
  "projects (db\<lparr> projects := x \<rparr>) = x" "repos (db\<lparr> projects := x \<rparr>) = repos db" for db :: registry
  by simp_all

definition registry_ok :: "registry \<Rightarrow> bool" where
  "registry_ok db \<longleftrightarrow> distinct (map pj_id (projects db)) \<and> distinct (map (\<lambda>p. (pj_org_id p, pj_name p)) (projects db)) \<and>
    distinct (map repo_key (repos db)) \<and>
    (\<forall>r\<in>set (repos db). project_belongs (ro_org_id r) (ro_project_id r) db)"

lemma create_project_ok [keeps]:
  "registry_ok db \<Longrightarrow> k \<notin> set (map pj_id (projects db)) \<Longrightarrow> registry_ok (snd (create_project now k org name db))"
  by (auto simp: registry_ok_def create_project_def project_belongs_def)

lemma add_repo_ok [keeps]: "registry_ok db \<Longrightarrow> registry_ok (snd (add_repo now k org project remote prefix db))"
  by (auto simp: registry_ok_def add_repo_def project_belongs_def repo_key_def)

lemma remove_repo_ok [keeps]: "registry_ok db \<Longrightarrow> registry_ok (snd (remove_repo org k db))"
  by (auto simp: registry_ok_def remove_repo_def project_belongs_def Let_def)

lemma set_isolated_ok [keeps]: "registry_ok db \<Longrightarrow> registry_ok (snd (set_isolated org k b db))"
proof -
  assume ok: "registry_ok db"
  let ?ps = "update_where (\<lambda>p. pj_id p = k \<and> pj_org_id p = org) (\<lambda>p. p\<lparr> pj_isolated := b \<rparr>) (projects db)"
  have "list_ex (\<lambda>p. pj_id p = i \<and> pj_org_id p = o') ?ps = list_ex (\<lambda>p. pj_id p = i \<and> pj_org_id p = o') (projects db)" for i o'
  proof -
    have "list_ex P (map f xs) = list_ex P xs" if "\<And>x. P (f x) = P x" for P f and xs :: "project_row list"
      using that by (induction xs) auto
    then show ?thesis unfolding update_where_def by simp
  qed
  moreover have "map pj_id ?ps = map pj_id (projects db)" "map (\<lambda>p. (pj_org_id p, pj_name p)) ?ps = map (\<lambda>p. (pj_org_id p, pj_name p)) (projects db)"
    by simp_all
  ultimately show ?thesis using ok unfolding registry_ok_def set_isolated_def Let_def project_belongs_def snd_conv
    by (simp only: registry_sel) blast
qed

section \<open>The whitelist lookup\<close>

abbreviation segments :: "string \<Rightarrow> string list" where
  "segments \<equiv> split_by (\<lambda>c. c = CHR ''/'')"

lemma split_by_append: "split_by p (a @ x # b) = split_by p a @ split_by p b" if "p x"
proof (induction a)
  case (Cons c cs)
  obtain w ws where "split_by p cs = w # ws" using split_by_not_Nil [of p cs] by (cases "split_by p cs") auto
  then show ?case using Cons by simp
qed (use that in simp)

lemma join_append: "xs \<noteq> [] \<Longrightarrow> ys \<noteq> [] \<Longrightarrow> join sep (xs @ ys) = join sep xs @ sep @ join sep ys"
proof (induction sep xs rule: join.induct)
  case (2 sep w)
  then show ?case by (cases ys) auto
qed auto

text \<open>A prefix claims a path exactly when its segments are the leading segments of the path.\<close>

lemma claims_path_segments:
  "claims_path q path \<longleftrightarrow> q = [] \<or> (\<exists>rest. segments path = segments q @ rest)"
proof
  assume c: "claims_path q path"
  show "q = [] \<or> (\<exists>rest. segments path = segments q @ rest)"
  proof (cases "q = [] \<or> path = q")
    case False
    then have "take (length q + 1) path = q @ ''/''" using c by (auto simp: claims_path_def)
    then have "path = q @ CHR ''/'' # drop (length q + 1) path"
      using append_take_drop_id [of "length q + 1" path] by simp
    then have "segments path = segments q @ segments (drop (length q + 1) path)"
      using split_by_append [of "\<lambda>c. c = CHR ''/''" "CHR ''/''" q "drop (length q + 1) path"] by metis
    then show ?thesis by blast
  qed auto
next
  assume "q = [] \<or> (\<exists>rest. segments path = segments q @ rest)"
  then show "claims_path q path"
  proof (elim disjE exE)
    fix rest assume r: "segments path = segments q @ rest"
    have p: "path = join ''/'' (segments q @ rest)" using join_split_by [of "CHR ''/''" path] r by simp
    show "claims_path q path"
    proof (cases "rest = []")
      case True
      then show ?thesis using p by (simp add: join_split_by claims_path_def)
    next
      case False
      then have "path = q @ ''/'' @ join ''/'' rest"
        unfolding p by (subst join_append) (simp_all add: join_split_by)
      then show ?thesis by (simp add: claims_path_def)
    qed
  qed (simp add: claims_path_def)
qed

lemma claims_take: "claims_path q path \<Longrightarrow> q = take (length q) path"
proof -
  have "take (length q) path = q" if "take (length q + 1) path = q @ ''/''"
  proof -
    have "take (length q) path = take (length q) (take (length q + 1) path)" by (simp add: min_def)
    then show ?thesis unfolding that by simp
  qed
  then show "claims_path q path \<Longrightarrow> q = take (length q) path" unfolding claims_path_def by auto
qed

lemma claims_same_length: "claims_path q path \<Longrightarrow> claims_path q' path \<Longrightarrow> length q = length q' \<Longrightarrow> q = q'"
  using claims_take by metis

interpretation longest: comparator longest_first UNIV
  by unfold_locales (auto simp: longest_first_def)

lemma claiming_iff:
  "(r, p) \<in> set (claiming org remote path db) \<longleftrightarrow>
    r \<in> set (repos db) \<and> ro_org_id r = org \<and> ro_remote r = remote \<and> claims_path (ro_path_prefix r) path \<and>
    p \<in> set (projects db) \<and> pj_id p = ro_project_id r"
  by (auto simp: claiming_def)

text \<open>Two rows of one organisation that claim the same path with equally long prefixes are one row.\<close>

lemma claiming_unique:
  assumes "registry_ok db" "(r, p) \<in> set (claiming org remote path db)" "(r', p') \<in> set (claiming org remote path db)"
    "length (ro_path_prefix r) = length (ro_path_prefix r')"
  shows "r = r' \<and> p = p'"
proof -
  have "ro_path_prefix r = ro_path_prefix r'" using assms(2-4) claims_same_length by (auto simp: claiming_iff)
  then have "repo_key r = repo_key r'" using assms(2,3) by (simp add: claiming_iff repo_key_def)
  then have r: "r = r'" using assms(1-3) by (auto simp: registry_ok_def claiming_iff distinct_map inj_on_def)
  moreover have "p = p'" using assms(1-3) r by (auto simp: registry_ok_def claiming_iff distinct_map inj_on_def)
  ultimately show ?thesis ..
qed

lemma claiming_project:
  assumes "registry_ok db" "r \<in> set (repos db)" "ro_org_id r = org" "ro_remote r = remote" "claims_path (ro_path_prefix r) path"
  obtains p where "(r, p) \<in> set (claiming org remote path db)" "pj_org_id p = org"
proof -
  obtain p where "p \<in> set (projects db)" "pj_id p = ro_project_id r" "pj_org_id p = org"
    using assms(1-3) by (auto simp: registry_ok_def project_belongs_def list_ex_iff)
  then show thesis using that assms(2-5) by (simp add: claiming_iff)
qed

lemma claiming_org:
  assumes "registry_ok db" "(r, p) \<in> set (claiming org remote path db)"
  shows "pj_org_id p = org"
proof -
  have r: "r \<in> set (repos db)" "ro_org_id r = org" "ro_remote r = remote" "claims_path (ro_path_prefix r) path"
    using assms(2) by (simp_all add: claiming_iff)
  obtain q where "(r, q) \<in> set (claiming org remote path db)" "pj_org_id q = org"
    using claiming_project [OF assms(1) r] by blast
  then show ?thesis using claiming_unique [OF assms(1,2)] by blast
qed

lemma find_by_remote_iff:
  assumes ok: "registry_ok db"
  shows "find_by_remote org remote path db = Some (k, n) \<longleftrightarrow>
    (\<exists>r p. (r, p) \<in> set (claiming org remote path db) \<and> pj_id p = k \<and> pj_name p = n \<and>
      (\<forall>r' p'. (r', p') \<in> set (claiming org remote path db) \<longrightarrow> r' \<noteq> r \<longrightarrow> length (ro_path_prefix r') < length (ro_path_prefix r)))"
    (is "_ \<longleftrightarrow> ?best")
proof -
  let ?c = "claiming org remote path db" and ?s = "sort_by longest_first (claiming org remote path db)"
  have srt: "sorted_wrt longest_first ?s" by (rule longest.sort_by_sorted) simp
  show ?thesis
  proof
    assume "find_by_remote org remote path db = Some (k, n)"
    then obtain r p rest where s: "?s = (r, p) # rest" "pj_id p = k" "pj_name p = n"
      by (auto simp: find_by_remote_def split: list.splits prod.splits)
    have rp: "(r, p) \<in> set ?c" using arg_cong [OF s(1), of set] by auto
    have "length (ro_path_prefix r') < length (ro_path_prefix r)" if c: "(r', p') \<in> set ?c" "r' \<noteq> r" for r' p'
    proof -
      have "(r', p') \<in> set ((r, p) # rest)" using c(1) unfolding s(1) [symmetric] by simp
      then have "longest_first (r, p) (r', p')" using srt c(2) unfolding s(1) by auto
      then show ?thesis using claiming_unique [OF ok c(1) rp] c(2) by (fastforce simp: longest_first_def)
    qed
    then show ?best using rp s(2,3) by blast
  next
    assume ?best
    then obtain r p where rp: "(r, p) \<in> set ?c" "pj_id p = k" "pj_name p = n"
        "\<forall>r' p'. (r', p') \<in> set ?c \<longrightarrow> r' \<noteq> r \<longrightarrow> length (ro_path_prefix r') < length (ro_path_prefix r)" by blast
    have "(r, p) \<in> set ?s" using rp(1) by simp
    then obtain x rest where s: "?s = x # rest" by (cases ?s) auto
    obtain r' p' where x: "x = (r', p')" by (cases x)
    have c: "(r', p') \<in> set ?c" using arg_cong [OF s, of set] x by auto
    have "longest_first (r', p') (r, p)" using srt \<open>(r, p) \<in> set ?s\<close> unfolding s x by (auto simp: longest_first_def)
    then have "r' = r" using rp(4) c by (fastforce simp: longest_first_def)
    then have "p' = p" using claiming_unique [OF ok c rp(1)] by simp
    then show "find_by_remote org remote path db = Some (k, n)"
      using rp(2,3) by (simp add: find_by_remote_def s x)
  qed
qed

section \<open>Properties\<close>

definition example_registry :: registry where
  "example_registry =
    \<lparr> projects = [\<lparr> pj_id = 30, pj_org_id = 1, pj_name = ''mono'', pj_isolated = False, pj_created_at = 0 \<rparr>,
                  \<lparr> pj_id = 31, pj_org_id = 1, pj_name = ''web'', pj_isolated = False, pj_created_at = 1 \<rparr>],
      repos = [\<lparr> ro_id = 40, ro_org_id = 1, ro_project_id = 30, ro_remote = ''github.com/acme/mono'',
                 ro_path_prefix = [], ro_created_at = 0 \<rparr>,
               \<lparr> ro_id = 41, ro_org_id = 1, ro_project_id = 31, ro_remote = ''github.com/acme/mono'',
                 ro_path_prefix = ''apps/web'', ro_created_at = 1 \<rparr>] \<rparr>"

lemma example_registry_ok: "registry_ok example_registry"
  by code_simp

text \<open>The whitelist lookup finds the project of the most specific claim.  A row claims a path exactly when
  its prefix is empty or its segments are the leading segments of the path, never a bare character
  prefix; the lookup returns the project of the one row of the organisation whose claim is strictly
  longest, fails exactly when no row claims the path, and never returns another organisation's project.\<close>

theorem find_by_remote_spec:
  assumes "registry_ok db"
  shows "(\<forall>q. claims_path q path \<longleftrightarrow> q = [] \<or> (\<exists>rest. segments path = segments q @ rest)) \<and>
    (find_by_remote org remote path db = None \<longleftrightarrow>
       \<not> (\<exists>r\<in>set (repos db). ro_org_id r = org \<and> ro_remote r = remote \<and> claims_path (ro_path_prefix r) path)) \<and>
    (\<forall>k n. find_by_remote org remote path db = Some (k, n) \<longrightarrow>
       project_belongs org k db \<and>
       (\<exists>r\<in>set (repos db). ro_org_id r = org \<and> ro_remote r = remote \<and> claims_path (ro_path_prefix r) path \<and> ro_project_id r = k \<and>
         (\<forall>r'\<in>set (repos db). ro_org_id r' = org \<and> ro_remote r' = remote \<and> claims_path (ro_path_prefix r') path \<and> r' \<noteq> r \<longrightarrow>
            length (ro_path_prefix r') < length (ro_path_prefix r))))"
proof -
  have none: "find_by_remote org remote path db = None \<longleftrightarrow> claiming org remote path db = []"
    by (auto simp: find_by_remote_def split: list.splits prod.splits) (metis set_empty set_sort_by)+
  have empty: "claiming org remote path db = [] \<longleftrightarrow>
       \<not> (\<exists>r\<in>set (repos db). ro_org_id r = org \<and> ro_remote r = remote \<and> claims_path (ro_path_prefix r) path)"
  proof
    assume "claiming org remote path db = []"
    then show "\<not> (\<exists>r\<in>set (repos db). ro_org_id r = org \<and> ro_remote r = remote \<and> claims_path (ro_path_prefix r) path)"
      using claiming_project [OF assms] by (metis empty_iff list.set(1))
  next
    assume "\<not> (\<exists>r\<in>set (repos db). ro_org_id r = org \<and> ro_remote r = remote \<and> claims_path (ro_path_prefix r) path)"
    then have "\<forall>x. x \<notin> set (claiming org remote path db)" using claiming_iff by (metis surj_pair)
    then show "claiming org remote path db = []" by (metis list.set_intros(1) neq_Nil_conv)
  qed
  have some: "project_belongs org k db \<and>
       (\<exists>r\<in>set (repos db). ro_org_id r = org \<and> ro_remote r = remote \<and> claims_path (ro_path_prefix r) path \<and> ro_project_id r = k \<and>
         (\<forall>r'\<in>set (repos db). ro_org_id r' = org \<and> ro_remote r' = remote \<and> claims_path (ro_path_prefix r') path \<and> r' \<noteq> r \<longrightarrow>
            length (ro_path_prefix r') < length (ro_path_prefix r)))"
    if found: "find_by_remote org remote path db = Some (k, n)" for k n
  proof -
    obtain r p where rp: "(r, p) \<in> set (claiming org remote path db)" "pj_id p = k"
        "\<forall>r' p'. (r', p') \<in> set (claiming org remote path db) \<longrightarrow> r' \<noteq> r \<longrightarrow> length (ro_path_prefix r') < length (ro_path_prefix r)"
      using found find_by_remote_iff [OF assms] by blast
    have r: "r \<in> set (repos db)" "ro_org_id r = org" "ro_remote r = remote" "claims_path (ro_path_prefix r) path" "ro_project_id r = k"
      and p: "p \<in> set (projects db)" using rp(1,2) by (simp_all add: claiming_iff)
    have "project_belongs org k db" using p rp(2) claiming_org [OF assms rp(1)] by (auto simp: project_belongs_def list_ex_iff)
    moreover have "\<forall>r'\<in>set (repos db). ro_org_id r' = org \<and> ro_remote r' = remote \<and> claims_path (ro_path_prefix r') path \<and> r' \<noteq> r \<longrightarrow>
            length (ro_path_prefix r') < length (ro_path_prefix r)"
      using rp(3) claiming_project [OF assms] by metis
    ultimately show ?thesis using r by blast
  qed
  show ?thesis using claims_path_segments none empty some by blast
qed

lemma find_by_remote_spec_witness:
  "find_by_remote 1 ''github.com/acme/mono'' ''apps/website'' example_registry \<noteq> None \<and>
   \<not> claims_path ''apps/web'' ''apps/website''"
proof -
  have s: "segments ''apps/website'' = [''apps'', ''website'']" "segments ''apps/web'' = [''apps'', ''web'']" by code_simp+
  have "\<exists>r\<in>set (repos example_registry). ro_org_id r = 1 \<and> ro_remote r = ''github.com/acme/mono'' \<and> claims_path (ro_path_prefix r) ''apps/website''"
    by code_simp
  then show ?thesis
    using find_by_remote_spec [OF example_registry_ok, of "''apps/website''" 1 "''github.com/acme/mono''"] s by auto
qed

section \<open>Spellings of one repository\<close>

text \<open>A repository is a host, the owner path and a name; a spelling is one of the forms git prints.\<close>

definition segment_ok :: "string \<Rightarrow> bool" where
  "segment_ok s \<longleftrightarrow> s \<noteq> [] \<and> (\<forall>c\<in>set s. \<not> is_ws c \<and> \<not> is_control c \<and> c \<notin> {CHR ''/'', CHR '':'', CHR ''@''})"

definition remote_ok :: "string \<Rightarrow> string list \<Rightarrow> string \<Rightarrow> bool" where
  "remote_ok h os n \<longleftrightarrow> h \<noteq> [] \<and> list_all host_char h \<and> os \<noteq> [] \<and> (\<forall>w\<in>set os. segment_ok w) \<and> segment_ok n \<and>
    \<not> ends_with n ''.git'' \<and> (length os \<ge> 2 \<longrightarrow> \<not> all_digits (hd os))"

definition repo_path :: "string \<Rightarrow> string list \<Rightarrow> string \<Rightarrow> string" where
  "repo_path h os n = join ''/'' (h # os @ [n])"

definition canonical_remote :: "string \<Rightarrow> string list \<Rightarrow> string \<Rightarrow> string" where
  "canonical_remote h os n = repo_path (lowercase h) (map lowercase os) n"

definition url_tails :: "string list" where
  "url_tails = [[], ''/'', ''.git'', ''.git/'']"

definition url_heads :: "string list" where
  "url_heads = [[], ''https://'', ''http://'', ''ssh://'', ''git://'', ''git@'', ''ssh://git@'', ''https://git@'']"

definition spellings :: "string \<Rightarrow> string list \<Rightarrow> string \<Rightarrow> string list" where
  "spellings h os n =
    concat (map (\<lambda>a. map (\<lambda>b. a @ repo_path h os n @ b) url_tails) url_heads)
    @ map (\<lambda>b. ''git@'' @ h @ '':'' @ join ''/'' (os @ [n]) @ b) url_tails"

lemma host_char_plain: "host_char c \<Longrightarrow> \<not> is_ws c \<and> \<not> is_control c \<and> c \<notin> {CHR ''/'', CHR '':'', CHR ''@''}"
  by (auto simp: host_char_def is_alnum_def is_alpha_def is_upper_def is_lower_def is_digit_def is_ws_def is_control_def)

lemma host_segment: "h \<noteq> [] \<Longrightarrow> list_all host_char h \<Longrightarrow> segment_ok h"
  using host_char_plain by (auto simp: segment_ok_def list_all_iff)

lemma set_join: "set (join sep ws) \<subseteq> set sep \<union> (\<Union>w\<in>set ws. set w)"
  by (induction sep ws rule: join.induct) auto

lemma segments_join: "ws \<noteq> [] \<Longrightarrow> \<forall>w\<in>set ws. CHR ''/'' \<notin> set w \<Longrightarrow> segments (join ''/'' ws) = ws"
proof (induction "''/''" ws rule: join.induct)
  case (2 w)
  then show ?case by (auto intro: split_by_none)
next
  case (3 w v ws)
  have "segments (w @ CHR ''/'' # join ''/'' (v # ws)) = segments w @ segments (join ''/'' (v # ws))"
    by (rule split_by_append) simp
  moreover have "segments w = [w]" using 3(3) by (auto intro: split_by_none)
  ultimately show ?case using 3 by simp
qed simp

lemma join_snoc: "ws \<noteq> [] \<Longrightarrow> join sep (ws @ [w]) = join sep ws @ sep @ w"
  using join_append [of ws "[w]" sep] by simp

lemma map_join: "map f (join [x] ws) = join [f x] (map (map f) ws)"
  by (induction "[x]" ws rule: join.induct) auto

lemma lowercase_join: "lowercase (join ''/'' ws) = join ''/'' (map lowercase ws)"
proof -
  have "to_lower (CHR ''/'') = CHR ''/''" by code_simp
  moreover have "lowercase = map to_lower" by (rule ext) (simp add: lowercase_def)
  ultimately show ?thesis using map_join [of to_lower "CHR ''/''" ws] by simp
qed

lemma repo_path_segments:
  assumes "remote_ok h os n"
  shows "\<forall>w\<in>set (h # os @ [n]). segment_ok w"
  using assms host_segment by (auto simp: remote_ok_def)

lemma repo_path_chars:
  assumes "remote_ok h os n" "c \<in> set (repo_path h os n)"
  shows "\<not> is_ws c" "\<not> is_control c" "c \<noteq> CHR ''@''" "c \<noteq> CHR '':''"
proof -
  have "c = CHR ''/'' \<or> (\<exists>w\<in>set (h # os @ [n]). c \<in> set w)"
    using assms(2) set_join [of "''/''" "h # os @ [n]"] unfolding repo_path_def by auto
  then have "\<not> is_ws c \<and> \<not> is_control c \<and> c \<noteq> CHR ''@'' \<and> c \<noteq> CHR '':''"
  proof
    assume c: "c = CHR ''/''"
    show ?thesis unfolding c by code_simp
  next
    assume "\<exists>w\<in>set (h # os @ [n]). c \<in> set w"
    then obtain w where "w \<in> set (h # os @ [n])" "c \<in> set w" by blast
    then show ?thesis using repo_path_segments [OF assms(1)] unfolding segment_ok_def by blast
  qed
  then show "\<not> is_ws c" "\<not> is_control c" "c \<noteq> CHR ''@''" "c \<noteq> CHR '':''" by simp_all
qed

declare trim_git.simps [simp del]

lemma repo_path_snoc: "repo_path h os n = join ''/'' (h # os) @ ''/'' @ n"
  unfolding repo_path_def using join_snoc [of "h # os" "''/''" n] by simp

lemma repo_path_not_git:
  assumes "remote_ok h os n"
  shows "\<not> ends_with (repo_path h os n) ''.git''"
proof
  assume "ends_with (repo_path h os n) ''.git''"
  then obtain t where "join ''/'' (h # os) @ ''/'' @ n = t @ ''.git''" unfolding ends_with_iff repo_path_snoc by blast
  then consider us where "''/'' @ n = us @ ''.git''" | us where "us @ ''/'' @ n = ''.git''"
    unfolding append_eq_append_conv2 by blast
  then show False
  proof cases
    case 1
    then have "n = tl us @ ''.git''" by (cases us) auto
    then show False using assms by (auto simp: remote_ok_def ends_with_iff)
  next
    case 2
    have "CHR ''/'' \<in> set (us @ ''/'' @ n)" by simp
    then have "CHR ''/'' \<in> set ''.git''" unfolding 2 .
    moreover have "CHR ''/'' \<notin> set ''.git''" by code_simp
    ultimately show False by contradiction
  qed
qed

lemma trim_tail:
  assumes "remote_ok h os n" "b \<in> set url_tails"
  shows "trim_git (trim_end_by (\<lambda>c. c = CHR ''/'') (repo_path h os n @ b)) = repo_path h os n"
proof -
  let ?p = "repo_path h os n" and ?sl = "\<lambda>c. c = CHR ''/''"
  have n: "n \<noteq> []" "CHR ''/'' \<notin> set n" using assms(1) by (auto simp: remote_ok_def segment_ok_def)
  then have l: "last ?p \<noteq> CHR ''/''" "?p \<noteq> []" by (auto simp: repo_path_snoc dest: last_in_set)
  have id: "trim_end_by ?sl ?p = ?p" by (rule trim_end_by_id) (use l in simp)
  have slash: "trim_end_by ?sl (s @ ''/'') = trim_end_by ?sl s" for s by (simp add: trim_end_by_def)
  have git: "trim_end_by ?sl (?p @ ''.git'') = ?p @ ''.git''" by (rule trim_end_by_id) simp
  have stop: "trim_git ?p = ?p"
    using repo_path_not_git [OF assms(1)] by (subst trim_git.simps) (auto split: option.splits simp: strip_suffix_iff ends_with_iff)
  have "strip_suffix (?p @ ''.git'') ''.git'' = Some ?p" by (simp add: strip_suffix_iff)
  then have strip: "trim_git (?p @ ''.git'') = ?p" by (subst trim_git.simps) (simp add: stop)
  consider "b = []" | "b = ''/''" | "b = ''.git''" | "b = ''.git'' @ ''/''" using assms(2) by (auto simp: url_tails_def)
  then show ?thesis
  proof cases
    case 4
    have "trim_end_by ?sl (?p @ b) = ?p @ ''.git''" unfolding 4 append_assoc [symmetric] slash git ..
    then show ?thesis using strip by simp
  qed (simp_all only: append_Nil2 id stop slash git strip)
qed

lemma normalize_tail:
  assumes "remote_ok h os n" "b \<in> set url_tails"
  shows "(let s = trim_git (trim_end_by (\<lambda>c. c = CHR ''/'') (repo_path h os n @ b));
              parts = filter (\<lambda>p. p \<noteq> []) (segments s) in
          if length parts < 3 then None
          else let parts = drop_port parts in if length parts < 3 then None else assemble parts) = Some (canonical_remote h os n)"
proof -
  let ?ps = "h # os @ [n]"
  have ok: "\<forall>w\<in>set ?ps. segment_ok w" by (rule repo_path_segments [OF assms(1)])
  have seg: "segments (repo_path h os n) = ?ps"
    unfolding repo_path_def by (rule segments_join) (use ok in \<open>auto simp: segment_ok_def\<close>)
  have ne: "filter (\<lambda>p. p \<noteq> []) ?ps = ?ps" using ok by (intro filter_True) (auto simp: segment_ok_def)
  have os: "os \<noteq> []" using assms(1) by (simp add: remote_ok_def)
  then have os3: "length ?ps \<ge> 3" by (cases os) auto
  have colon: "CHR '':'' \<notin> set h" using ok by (auto simp: segment_ok_def)
  have dp: "drop_port ?ps = ?ps"
    using colon os assms(1) by (cases os) (auto simp: drop_port_def remote_ok_def)
  have low: "lowercase h \<noteq> []" "list_all host_char (lowercase h)"
    using assms(1) by (auto simp: remote_ok_def lowercase_def list_all_iff host_char_def to_lower_id is_upper_def)
  have own: "lowercase (join ''/'' os) = join ''/'' (map lowercase os)" by (rule lowercase_join)
  have "os = hd os # tl os" "segment_ok (hd os)" using os ok by auto
  then have "join ''/'' os \<noteq> []" by (cases os rule: list.exhaust; cases "tl os") (auto simp: segment_ok_def)
  then have own_ne: "join ''/'' (map lowercase os) \<noteq> []" using own by (auto simp: lowercase_def)
  have tk: "take (length ?ps - 2) (tl ?ps) = os" "hd ?ps = h" "last ?ps = n" by simp_all
  have n: "n \<noteq> []" using ok by (auto simp: segment_ok_def)
  have "join ''/'' (lowercase h # map lowercase os @ [n]) = lowercase h @ ''/'' @ join ''/'' (map lowercase os) @ ''/'' @ n"
    using os join_snoc [of "map lowercase os" "''/''" n] by (cases os) auto
  then have as: "assemble ?ps = Some (canonical_remote h os n)"
    unfolding assemble_def Let_def tk own canonical_remote_def repo_path_def using low own_ne n by simp
  show ?thesis unfolding trim_tail [OF assms] Let_def seg ne dp as using os os3 by simp
qed

lemma strip_prefix_colon_free: "CHR '':'' \<notin> set s \<Longrightarrow> CHR '':'' \<in> set p \<Longrightarrow> strip_prefix s p = None"
proof (cases "strip_prefix s p")
  case (Some t)
  assume "CHR '':'' \<notin> set s" "CHR '':'' \<in> set p"
  moreover have "s = p @ t" using Some by (simp add: strip_prefix_iff)
  ultimately show ?thesis by simp
qed simp

lemma strip_scheme_free: "CHR '':'' \<notin> set s \<Longrightarrow> strip_scheme s = s"
  unfolding strip_scheme_def by (simp add: strip_prefix_colon_free)

lemma strip_prefix_at_free: "CHR ''@'' \<notin> set s \<Longrightarrow> strip_prefix s ''git@'' = None"
proof (cases "strip_prefix s ''git@''")
  case (Some t)
  assume "CHR ''@'' \<notin> set s"
  moreover have "s = ''git@'' @ t" using Some by (simp only: strip_prefix_iff)
  ultimately show ?thesis by simp
qed simp

lemma after_last_at_free: "CHR ''@'' \<notin> set s \<Longrightarrow> after_last_at s = s"
proof -
  assume "CHR ''@'' \<notin> set s"
  then have "takeWhile (\<lambda>c. c \<noteq> CHR ''@'') (rev s) = rev s" by (auto simp: takeWhile_eq_all_conv)
  then show ?thesis unfolding after_last_at_def by (simp only: rev_rev_ident)
qed

lemma find_sub_single: "x \<notin> set a \<Longrightarrow> find_sub (a @ x # b) [x] = Some (length a)"
  by (induction a) auto

lemma replace_first_single: "x \<notin> set a \<Longrightarrow> replace_first (a @ x # b) [x] r = a @ r @ b"
  by (simp add: replace_first_def find_sub_single)

lemma replace_first_absent: "x \<notin> set a \<Longrightarrow> replace_first a [x] r = a"
proof -
  assume "x \<notin> set a"
  then have "find_sub a [x] = None" unfolding find_sub_None_iff by auto
  then show ?thesis by (simp add: replace_first_def)
qed

text \<open>The head of a spelling is stripped, whatever follows it.\<close>

definition unwrap :: "string \<Rightarrow> string" where
  "unwrap s = after_last_at (rewrite_scp (strip_scheme s))"

lemma unwrap_url:
  assumes "a \<in> set url_heads" "CHR '':'' \<notin> set t" "CHR ''@'' \<notin> set t"
  shows "unwrap (a @ t) = t"
proof -
  have bare: "rewrite_scp t = t" using strip_prefix_at_free [OF assms(3)] by (simp add: rewrite_scp_def)
  have git: "rewrite_scp (''git@'' @ t) = t" using replace_first_absent [OF assms(2)] by (simp add: rewrite_scp_def)
  have s: "strip_scheme t = t" "strip_scheme (''git@'' @ t) = ''git@'' @ t"
    using strip_scheme_free [OF assms(2)] strip_scheme_free [of "''git@'' @ t"] assms(2) by simp_all
  have c: "strip_scheme (''https://'' @ u) = u" "strip_scheme (''http://'' @ u) = u" "strip_scheme (''ssh://'' @ u) = u"
      "strip_scheme (''git://'' @ u) = u" for u by (simp_all add: strip_scheme_def)
  have two: "''ssh://git@'' = ''ssh://'' @ ''git@''" "''https://git@'' = ''https://'' @ ''git@''" by simp_all
  have "list_all (\<lambda>a. rewrite_scp (strip_scheme (a @ t)) = t) url_heads"
    unfolding url_heads_def two list.pred_inject append_assoc append_Nil c s bare git by simp
  then have "rewrite_scp (strip_scheme (a @ t)) = t" using assms(1) unfolding list_all_iff by blast
  then show ?thesis by (simp add: unwrap_def after_last_at_free [OF assms(3)])
qed

lemma unwrap_scp:
  assumes "CHR '':'' \<notin> set h" "CHR ''@'' \<notin> set h" "CHR ''@'' \<notin> set t"
  shows "unwrap (''git@'' @ h @ '':'' @ t) = h @ ''/'' @ t"
proof -
  have "strip_scheme (''git@'' @ h @ '':'' @ t) = ''git@'' @ h @ '':'' @ t" by (simp add: strip_scheme_def)
  moreover have "rewrite_scp (''git@'' @ h @ '':'' @ t) = h @ ''/'' @ t"
    using replace_first_single [OF assms(1), of t "''/''"] by (simp add: rewrite_scp_def)
  moreover have "after_last_at (h @ ''/'' @ t) = h @ ''/'' @ t" by (rule after_last_at_free) (use assms in simp)
  ultimately show ?thesis by (simp add: unwrap_def)
qed

lemma spelling_cases:
  assumes "s \<in> set (spellings h os n)"
  obtains a b where "a \<in> set url_heads" "b \<in> set url_tails" "s = a @ repo_path h os n @ b"
    | b where "b \<in> set url_tails" "s = ''git@'' @ h @ '':'' @ join ''/'' (os @ [n]) @ b"
  using assms unfolding spellings_def by auto

text \<open>Every spelling unwraps to the path with a tail.\<close>

lemma spelling_unwraps:
  assumes ok: "remote_ok h os n" and s: "s \<in> set (spellings h os n)"
  obtains b where "b \<in> set url_tails" "unwrap s = repo_path h os n @ b"
proof -
  note ch = repo_path_chars [OF ok]
  have tail: "CHR '':'' \<notin> set b" "CHR ''@'' \<notin> set b" if "b \<in> set url_tails" for b
    using that by (auto simp: url_tails_def)
  have free: "CHR '':'' \<notin> set (repo_path h os n @ b)" "CHR ''@'' \<notin> set (repo_path h os n @ b)" if "b \<in> set url_tails" for b
    using ch(3) [of "CHR ''@''"] ch(4) [of "CHR '':''"] tail [OF that] by auto
  have os: "os \<noteq> []" using ok by (simp add: remote_ok_def)
  have path: "repo_path h os n = h @ ''/'' @ join ''/'' (os @ [n])"
    using os by (cases os) (simp_all add: repo_path_def)
  show thesis using s
  proof (cases rule: spelling_cases)
    case (1 a b)
    then show thesis using unwrap_url [OF 1(1) free [OF 1(2)]] that by simp
  next
    case (2 b)
    have "CHR '':'' \<notin> set h" "CHR ''@'' \<notin> set h" "CHR ''@'' \<notin> set (join ''/'' (os @ [n]) @ b)"
      using free [OF 2(1)] unfolding path by auto
    then have "unwrap s = repo_path h os n @ b" unfolding 2(2) path using unwrap_scp by simp
    then show thesis using that 2(1) by simp
  qed
qed

lemma spelling_plain:
  assumes ok: "remote_ok h os n" and s: "s \<in> set (spellings h os n)"
  shows "\<forall>c\<in>set s. \<not> is_ws c \<and> \<not> is_control c"
proof -
  let ?pl = "\<lambda>c. \<not> is_ws c \<and> \<not> is_control c"
  have "list_all (list_all ?pl) (url_heads @ url_tails @ [''git@'', '':''])" by code_simp
  then have fixed: "list_all ?pl a" if "a \<in> set (url_heads @ url_tails @ [''git@'', '':''])" for a
    using that unfolding list_all_iff [of "list_all ?pl"] by blast
  have os: "os \<noteq> []" using ok by (simp add: remote_ok_def)
  have path: "repo_path h os n = h @ ''/'' @ join ''/'' (os @ [n])"
    using os by (cases os) (simp_all add: repo_path_def)
  have p: "list_all ?pl (repo_path h os n)" using repo_path_chars [OF ok] by (simp add: list_all_iff)
  then have ph: "list_all ?pl h" "list_all ?pl (join ''/'' (os @ [n]))" unfolding path by simp_all
  have "list_all ?pl s"
    using s
  proof (cases rule: spelling_cases)
    case (1 a b)
    then show ?thesis using fixed [of a] fixed [of b] p unfolding 1(3) list_all_append by simp
  next
    case (2 b)
    have "list_all ?pl ''git@''" "list_all ?pl '':''" by (rule fixed, simp)+
    then show ?thesis using fixed [of b] 2(1) ph unfolding 2(2) list_all_append by simp
  qed
  then show ?thesis by (simp add: list_all_iff)
qed

lemma normalize_spelling:
  assumes ok: "remote_ok h os n" and s: "s \<in> set (spellings h os n)"
  shows "normalize_remote s = Some (canonical_remote h os n)"
proof -
  obtain b where b: "b \<in> set url_tails" "unwrap s = repo_path h os n @ b" by (rule spelling_unwraps [OF assms])
  have "h \<noteq> []" using ok by (simp add: remote_ok_def)
  then have "repo_path h os n \<noteq> []" by (cases os) (simp_all add: repo_path_def)
  then have ne: "s \<noteq> []" using b(2) by (auto simp: unwrap_def strip_scheme_def rewrite_scp_def after_last_at_def)
  have pl: "\<forall>c\<in>set s. \<not> is_ws c \<and> \<not> is_control c" using spelling_plain [OF assms] by blast
  then have t: "trim s = s" by (intro trim_by_id) (metis hd_in_set last_in_set)
  have ex: "\<not> list_ex (\<lambda>c. is_ws c \<or> is_control c) s" using pl by (auto simp: list_ex_iff)
  show ?thesis
    using normalize_tail [OF ok b(1)] ne ex unfolding normalize_remote_def t unwrap_def [symmetric] b(2) Let_def by simp
qed

lemma lowercase_idem [simp]: "lowercase (lowercase s) = lowercase s"
  by (simp add: lowercase_def)

lemma is_digit_to_lower [simp]: "is_digit (to_lower c) = is_digit c"
proof (cases "is_upper c")
  case True
  then show ?thesis using code_to_lower [OF True] by (auto simp: is_digit_def is_upper_def)
qed (simp add: to_lower_id)

lemma segment_char_lower:
  "\<not> is_ws c \<and> \<not> is_control c \<and> c \<notin> {CHR ''/'', CHR '':'', CHR ''@''} \<Longrightarrow>
    \<not> is_ws (to_lower c) \<and> \<not> is_control (to_lower c) \<and> to_lower c \<notin> {CHR ''/'', CHR '':'', CHR ''@''}"
proof (cases "is_upper c")
  case True
  have "\<not> is_ws d \<and> \<not> is_control d \<and> d \<notin> {CHR ''/'', CHR '':'', CHR ''@''}" if "97 \<le> code d" "code d \<le> 122" for d
    using that by (auto simp: is_ws_def is_control_def)
  then show ?thesis using code_to_lower [OF True] True by (simp add: is_upper_def)
qed (simp add: to_lower_id)

lemma segment_ok_lower: "segment_ok w \<Longrightarrow> segment_ok (lowercase w)"
  unfolding segment_ok_def lowercase_def using segment_char_lower by auto

lemma remote_ok_lower: "remote_ok h os n \<Longrightarrow> remote_ok (lowercase h) (map lowercase os) n"
proof -
  assume ok: "remote_ok h os n"
  have "host_char (to_lower c)" if "host_char c" for c
    using that by (auto simp: host_char_def to_lower_id is_upper_def)
  then have "list_all host_char (lowercase h)" using ok by (auto simp: remote_ok_def lowercase_def list_all_iff)
  moreover have "all_digits (hd (map lowercase os)) = all_digits (hd os)" if "os \<noteq> []"
    using that by (cases os) (auto simp: all_digits_def lowercase_def list_all_iff)
  ultimately show ?thesis using ok segment_ok_lower by (auto simp: remote_ok_def lowercase_def)
qed

text \<open>Every spelling of a repository meets in one whitelist row.  For a host, an owner path whose first of
  several groups is not a number, and a name, all the forms git prints (bare, https, http, ssh, git,
  scp-style, with or without \<open>.git\<close> and a trailing slash) normalise to the same canonical form, which
  is a fixed point of the normalisation and differs for repositories that differ beyond the case of host and owner.\<close>

theorem remote_spellings_collide:
  assumes "remote_ok h os n" and "s \<in> set (spellings h os n)"
  shows "normalize_remote s = Some (canonical_remote h os n) \<and>
    normalize_remote (canonical_remote h os n) = Some (canonical_remote h os n) \<and>
    (\<forall>h' os' n'. remote_ok h' os' n' \<and> canonical_remote h' os' n' = canonical_remote h os n \<longrightarrow>
      lowercase h' = lowercase h \<and> map lowercase os' = map lowercase os \<and> n' = n)"
proof -
  let ?l = "lowercase h" and ?o = "map lowercase os"
  have ok': "remote_ok ?l ?o n" by (rule remote_ok_lower [OF assms(1)])
  have fixed: "canonical_remote ?l ?o n = canonical_remote h os n"
    by (simp add: canonical_remote_def comp_def)
  have "canonical_remote h os n \<in> set (spellings ?l ?o n)"
    unfolding spellings_def by (auto simp: canonical_remote_def url_heads_def url_tails_def)
  then have "normalize_remote (canonical_remote h os n) = Some (canonical_remote h os n)"
    using normalize_spelling [OF ok'] fixed by simp
  moreover have "lowercase h' = ?l \<and> map lowercase os' = ?o \<and> n' = n"
    if eq: "remote_ok h' os' n'" "canonical_remote h' os' n' = canonical_remote h os n" for h' os' n'
  proof -
    have seg: "segments (canonical_remote a b c) = lowercase a # map lowercase b @ [c]" if "remote_ok a b c" for a b c
      unfolding canonical_remote_def repo_path_def
      by (rule segments_join) (use repo_path_segments [OF remote_ok_lower [OF that]] in \<open>auto simp: segment_ok_def\<close>)
    show ?thesis using seg [OF assms(1)] seg [OF eq(1)] eq(2) by simp
  qed
  ultimately show ?thesis using normalize_spelling [OF assms] by blast
qed

lemma remote_spellings_collide_witness:
  "normalize_remote (''git@'' @ ''github.com'' @ '':'' @ join ''/'' [''acme'', ''payments''] @ ''.git'')
    = Some (canonical_remote ''github.com'' [''acme''] ''payments'')"
proof -
  have ok: "remote_ok ''github.com'' [''acme''] ''payments''" by code_simp
  have "''git@'' @ ''github.com'' @ '':'' @ join ''/'' [''acme'', ''payments''] @ ''.git'' \<in> set (spellings ''github.com'' [''acme''] ''payments'')"
    unfolding spellings_def url_tails_def by simp
  from remote_spellings_collide [OF ok this] show ?thesis by blast
qed

text \<open>Without the condition on a numeric first group two repositories collide: the group is taken for a port.\<close>

lemma numeric_group_is_lost:
  "assemble (drop_port [''git.acme.io'', ''2024'', ''team'', ''api'']) = assemble (drop_port [''git.acme.io'', ''team'', ''api''])"
  by code_simp

end
