(* ===== verification/Tenancy.thy ===== *)
theory Tenancy
  imports Projects
begin

text \<open>
  \<open>brainiac-store/src/{orgs,identities,tokens}.rs\<close> and \<open>brainiac-server/src/{auth,provision}.rs\<close>: the rows
  that produce a principal.  Organisations, users, teams and memberships are idempotent upserts; a
  verified identity owns exactly one organisation; a managed key is stored by its hash, resolves while
  it is not revoked, and carries scopes.  These tables are read and written outside row-level security.
  Parameters: the hash function (sha256) and the random texts of fresh uuids.
\<close>

section \<open>Organisations, users, teams\<close>

record user_row =
  us_id :: uuid
  us_org_id :: uuid
  us_email :: string

record team_row =
  tm_id :: uuid
  tm_org_id :: uuid
  tm_name :: string

record member_row =
  mb_team_id :: uuid
  mb_user_id :: uuid
  mb_role :: string

record identity_row =
  ir_provider :: string
  ir_subject :: string
  ir_user_id :: uuid
  ir_org_id :: uuid
  ir_email :: string

record token_row =
  tk_id :: uuid
  tk_org_id :: uuid
  tk_user_id :: uuid
  tk_name :: string
  tk_prefix :: string
  tk_hash :: string
  tk_scopes :: "string list"
  tk_project_id :: "uuid option"
  tk_created_by :: uuid
  tk_created_at :: instant
  tk_last_used_at :: "instant option"
  tk_revoked_at :: "instant option"

record tenancy =
  org_rows :: "(uuid \<times> string) list"
  user_rows :: "user_row list"
  team_rows :: "team_row list"
  member_rows :: "member_row list"
  identity_rows :: "identity_row list"
  token_rows :: "token_row list"

definition user_belongs :: "uuid \<Rightarrow> uuid \<Rightarrow> tenancy \<Rightarrow> bool" where
  "user_belongs org k db = list_ex (\<lambda>u. us_id u = k \<and> us_org_id u = org) (user_rows db)"

text \<open>\<open>INSERT ... ON CONFLICT (key) DO UPDATE SET\<close> one column.\<close>

definition upsert :: "('r \<Rightarrow> 'k) \<Rightarrow> 'r \<Rightarrow> ('r \<Rightarrow> 'r) \<Rightarrow> 'r list \<Rightarrow> 'r list" where
  "upsert key new f rows =
    (if key new \<in> set (map key rows) then update_where (\<lambda>r. key r = key new) f rows else rows @ [new])"

definition upsert_org :: "uuid \<Rightarrow> string \<Rightarrow> tenancy \<Rightarrow> tenancy" where
  "upsert_org k name db = db\<lparr> org_rows := upsert fst (k, name) (\<lambda>(i, _). (i, name)) (org_rows db) \<rparr>"

definition upsert_team :: "uuid \<Rightarrow> uuid \<Rightarrow> string \<Rightarrow> tenancy \<Rightarrow> tenancy" where
  "upsert_team k org name db =
    db\<lparr> team_rows := upsert tm_id \<lparr> tm_id = k, tm_org_id = org, tm_name = name \<rparr> (\<lambda>t. t\<lparr> tm_name := name \<rparr>) (team_rows db) \<rparr>"

definition upsert_user :: "uuid \<Rightarrow> uuid \<Rightarrow> string \<Rightarrow> tenancy \<Rightarrow> tenancy" where
  "upsert_user k org email db =
    db\<lparr> user_rows := upsert us_id \<lparr> us_id = k, us_org_id = org, us_email = email \<rparr> (\<lambda>u. u\<lparr> us_email := email \<rparr>) (user_rows db) \<rparr>"

definition upsert_member :: "uuid \<Rightarrow> uuid \<Rightarrow> string \<Rightarrow> tenancy \<Rightarrow> tenancy" where
  "upsert_member team user role db =
    db\<lparr> member_rows := upsert (\<lambda>m. (mb_team_id m, mb_user_id m))
      \<lparr> mb_team_id = team, mb_user_id = user, mb_role = role \<rparr> (\<lambda>m. m\<lparr> mb_role := role \<rparr>) (member_rows db) \<rparr>"

section \<open>Identities\<close>

record provisioned =
  pv_org_id :: uuid
  pv_user_id :: uuid
  pv_team_id :: uuid
  pv_created :: bool

definition find_identity :: "string \<Rightarrow> string \<Rightarrow> tenancy \<Rightarrow> (uuid \<times> uuid) option" where
  "find_identity provider subject db =
    map_option (\<lambda>r. (ir_org_id r, ir_user_id r))
      (find (\<lambda>r. ir_provider r = provider \<and> ir_subject r = subject) (identity_rows db))"

definition personal_team :: "uuid \<Rightarrow> tenancy \<Rightarrow> uuid option" where
  "personal_team org db =
    (case sort_by (\<le>) (map tm_id (filter (\<lambda>t. tm_org_id t = org) (team_rows db))) of [] \<Rightarrow> None | k # _ \<Rightarrow> Some k)"

definition known_identity :: "string \<Rightarrow> string \<Rightarrow> tenancy \<Rightarrow> (string + provisioned)" where
  "known_identity provider subject db =
    (case find_identity provider subject db of
       None \<Rightarrow> Inl ''identity vanished after a lost insert race''
     | Some (org, user) \<Rightarrow>
         (case personal_team org db of
            None \<Rightarrow> Inl ''project has no team''
          | Some t \<Rightarrow> Inr \<lparr> pv_org_id = org, pv_user_id = user, pv_team_id = t, pv_created = False \<rparr>))"

text \<open>From the inserts on; \<open>o'\<close>, \<open>u\<close> and \<open>t\<close> are the fresh ids.\<close>

definition provision_create ::
  "string \<Rightarrow> string \<Rightarrow> string \<Rightarrow> string \<Rightarrow> uuid \<Rightarrow> uuid \<Rightarrow> uuid \<Rightarrow> tenancy \<Rightarrow> (string + provisioned) \<times> tenancy" where
  "provision_create provider subject email project_name o' u t db =
    (let db1 = upsert_member t u ''maintainer'' (upsert_team t o' ''workspace''
           (upsert_user u o' email (upsert_org o' project_name db)));
         row = \<lparr> ir_provider = provider, ir_subject = subject, ir_user_id = u, ir_org_id = o', ir_email = email \<rparr>
     in if (provider, subject) \<in> set (map (\<lambda>r. (ir_provider r, ir_subject r)) (identity_rows db1))
        then (known_identity provider subject db1, db1)
        else (Inr \<lparr> pv_org_id = o', pv_user_id = u, pv_team_id = t, pv_created = True \<rparr>,
              db1\<lparr> identity_rows := identity_rows db1 @ [row] \<rparr>))"

text \<open>\<open>meanwhile\<close> is what other transactions committed between the first lookup and the insert.\<close>

definition provision ::
  "string \<Rightarrow> string \<Rightarrow> string \<Rightarrow> string \<Rightarrow> uuid \<Rightarrow> uuid \<Rightarrow> uuid \<Rightarrow> (tenancy \<Rightarrow> tenancy) \<Rightarrow> tenancy
    \<Rightarrow> (string + provisioned) \<times> tenancy" where
  "provision provider subject email project_name o' u t meanwhile db =
    (case find_identity provider subject db of
       Some _ \<Rightarrow> (known_identity provider subject db, db)
     | None \<Rightarrow> provision_create provider subject email project_name o' u t (meanwhile db))"

section \<open>Managed keys\<close>

record resolved_token =
  rt_id :: uuid
  rt_org_id :: uuid
  rt_user_id :: uuid
  rt_scopes :: "string list"
  rt_project_id :: "uuid option"

definition resolve_token :: "instant \<Rightarrow> string \<Rightarrow> tenancy \<Rightarrow> resolved_token option \<times> tenancy" where
  "resolve_token now h db =
    (let hit = (\<lambda>r. tk_hash r = h \<and> tk_revoked_at r = None) in
     (map_option (\<lambda>r. \<lparr> rt_id = tk_id r, rt_org_id = tk_org_id r, rt_user_id = tk_user_id r,
        rt_scopes = tk_scopes r, rt_project_id = tk_project_id r \<rparr>) (find hit (token_rows db)),
      db\<lparr> token_rows := update_where hit (\<lambda>r. r\<lparr> tk_last_used_at := Some now \<rparr>) (token_rows db) \<rparr>))"

definition team_ids_of :: "uuid \<Rightarrow> uuid \<Rightarrow> tenancy \<Rightarrow> uuid list" where
  "team_ids_of org user db =
    concat (map (\<lambda>m. map tm_id (filter (\<lambda>t. tm_id t = mb_team_id m \<and> tm_org_id t = org) (team_rows db)))
      (filter (\<lambda>m. mb_user_id m = user) (member_rows db)))"

text \<open>\<open>None\<close>: the id or the hash is taken.\<close>

definition create_token ::
  "instant \<Rightarrow> uuid \<Rightarrow> uuid \<Rightarrow> uuid \<Rightarrow> string \<Rightarrow> string \<Rightarrow> string \<Rightarrow> string list \<Rightarrow> uuid option \<Rightarrow> uuid \<Rightarrow> tenancy
    \<Rightarrow> tenancy option" where
  "create_token now k org user name prefix h scopes project created_by db =
    (if k \<in> set (map tk_id (token_rows db)) \<or> h \<in> set (map tk_hash (token_rows db)) then None
     else Some (db\<lparr> token_rows := token_rows db @
       [\<lparr> tk_id = k, tk_org_id = org, tk_user_id = user, tk_name = name, tk_prefix = prefix, tk_hash = h,
          tk_scopes = scopes, tk_project_id = project, tk_created_by = created_by, tk_created_at = now,
          tk_last_used_at = None, tk_revoked_at = None \<rparr>] \<rparr>))"

definition list_tokens :: "uuid \<Rightarrow> registry \<Rightarrow> tenancy \<Rightarrow> (token_row \<times> string option) list" where
  "list_tokens org reg db =
    map (\<lambda>r. (r, Option.bind (tk_project_id r) (\<lambda>k. map_option pj_name (find (\<lambda>p. pj_id p = k) (projects reg)))))
      (sort_by (\<lambda>a b. tk_created_at b \<le> tk_created_at a) (filter (\<lambda>r. tk_org_id r = org) (token_rows db)))"

definition revoke_token :: "instant \<Rightarrow> uuid \<Rightarrow> uuid \<Rightarrow> tenancy \<Rightarrow> bool \<times> tenancy" where
  "revoke_token now org k db =
    (let hit = (\<lambda>r. tk_id r = k \<and> tk_org_id r = org \<and> tk_revoked_at r = None) in
     (rows_affected hit (token_rows db) > 0,
      db\<lparr> token_rows := update_where hit (\<lambda>r. r\<lparr> tk_revoked_at := Some now \<rparr>) (token_rows db) \<rparr>))"

section \<open>Bearer authentication\<close>

definition TOKEN_PREFIX :: string where "TOKEN_PREFIX = ''brk_''"

definition SCOPES :: "string list" where
  "SCOPES = [''read'', ''write'', ''kb:read'', ''kb:publish'', ''lib:read'', ''lib:propose'', ''lib:publish'', ''admin'']"

record auth_context =
  ac_principal :: principal
  ac_scopes :: "string list option"
  ac_project_id :: "uuid option"
  ac_token_id :: "uuid option"

definition allows :: "auth_context \<Rightarrow> string \<Rightarrow> bool" where
  "allows ctx scope =
    (case ac_scopes ctx of None \<Rightarrow> True | Some ss \<Rightarrow> list_ex (\<lambda>s. s = scope \<or> s = ''admin'') ss)"

text \<open>The environment's tokens: \<open>(token, (org, user, teams))\<close>, org-wide and with every scope.\<close>

type_synonym token_map = "(string \<times> (uuid \<times> uuid \<times> uuid list)) list"

definition env_principal :: "token_map \<Rightarrow> string \<Rightarrow> principal option" where
  "env_principal env bearer =
    map_option (\<lambda>(org, user, ts). \<lparr> p_org_id = org, p_user_id = user, p_team_ids = ts, p_project_id = None \<rparr>) (map_of env bearer)"

definition mint_secret :: "string \<Rightarrow> string \<Rightarrow> string \<times> string" where
  "mint_secret a b = (let secret = TOKEN_PREFIX @ a @ b in (secret, take (length TOKEN_PREFIX + 8) secret))"

definition resolve_bearer ::
  "(string \<Rightarrow> string) \<Rightarrow> instant \<Rightarrow> token_map \<Rightarrow> string \<Rightarrow> tenancy \<Rightarrow> auth_context option \<times> tenancy" where
  "resolve_bearer hash_token now env bearer db =
    (case env_principal env bearer of
       Some p \<Rightarrow> (Some \<lparr> ac_principal = p, ac_scopes = None, ac_project_id = None, ac_token_id = None \<rparr>, db)
     | None \<Rightarrow>
         (if \<not> starts_with bearer TOKEN_PREFIX then (None, db)
          else case resolve_token now (hash_token bearer) db of
            (None, db') \<Rightarrow> (None, db')
          | (Some r, db') \<Rightarrow>
              (Some \<lparr> ac_principal = \<lparr> p_org_id = rt_org_id r, p_user_id = rt_user_id r,
                        p_team_ids = team_ids_of (rt_org_id r) (rt_user_id r) db', p_project_id = rt_project_id r \<rparr>,
                      ac_scopes = Some (rt_scopes r), ac_project_id = rt_project_id r, ac_token_id = Some (rt_id r) \<rparr>, db')))"

definition auth_of ::
  "(string \<Rightarrow> string) \<Rightarrow> instant \<Rightarrow> token_map \<Rightarrow> string option \<Rightarrow> string \<Rightarrow> tenancy \<Rightarrow> (http_error + auth_context) \<times> tenancy" where
  "auth_of hash_token now env header scope db =
    (case Option.bind header (\<lambda>v. strip_prefix v ''Bearer '') of
       None \<Rightarrow> (Inl (Unauthorized ''missing bearer token''), db)
     | Some bearer \<Rightarrow>
         (case resolve_bearer hash_token now env bearer db of
            (None, db') \<Rightarrow> (Inl (Unauthorized ''unknown token''), db')
          | (Some ctx, db') \<Rightarrow>
              (if allows ctx scope then (Inr ctx, db') else (Inl (Forbidden scope), db'))))"

section \<open>Self-serve provisioning\<close>

definition DEVICE_SCOPES :: "string list" where "DEVICE_SCOPES = [''read'', ''write'']"

record provision_body =
  pb_provider :: string
  pb_subject :: string
  pb_email :: string
  pb_project_name :: "string option"
  pb_issue_key :: bool

definition project_name_of :: "provision_body \<Rightarrow> string" where
  "project_name_of body =
    (let given = map_option trim (pb_project_name body) in
     if given = None \<or> given = Some [] then takeWhile (\<lambda>c. c \<noteq> CHR ''@'') (trim (pb_email body)) else the given)"

text \<open>The handler after \<open>auth_of\<close>; \<open>ra\<close> and \<open>rb\<close> are the random halves of a secret, \<open>k\<close> the key's id.\<close>

definition provision_project ::
  "(string \<Rightarrow> string) \<Rightarrow> instant \<Rightarrow> provision_body \<Rightarrow> uuid \<Rightarrow> uuid \<Rightarrow> uuid \<Rightarrow> uuid \<Rightarrow> string \<Rightarrow> string \<Rightarrow> (tenancy \<Rightarrow> tenancy) \<Rightarrow> tenancy
    \<Rightarrow> (http_error + provisioned \<times> string option) \<times> tenancy" where
  "provision_project hash_token now body o' u t k ra rb meanwhile db =
    (let subject = trim (pb_subject body); email = trim (pb_email body) in
     if pb_provider body \<noteq> ''google'' then (Inl (BadRequest ''unsupported provider''), db)
     else if subject = [] \<or> email = [] then (Inl (BadRequest ''subject and email are required''), db)
     else (case provision ''google'' subject email (project_name_of body) o' u t meanwhile db of
        (Inl e, _) \<Rightarrow> (Inl Internal, if find_identity ''google'' subject db = None then meanwhile db else db)
      | (Inr p, db1) \<Rightarrow>
          (if pv_created p \<or> pb_issue_key body then
             (let (secret, prefix) = mint_secret ra rb in
              case create_token now k (pv_org_id p) (pv_user_id p) ''device key'' prefix (hash_token secret) DEVICE_SCOPES None
                     (pv_user_id p) db1 of
                None \<Rightarrow> (Inl Internal, db1)
              | Some db2 \<Rightarrow> (Inr (p, Some secret), db2))
           else (Inr (p, None), db1))))"

section \<open>One identity, one organisation\<close>

definition identity_key :: "identity_row \<Rightarrow> string \<times> string" where
  "identity_key r = (ir_provider r, ir_subject r)"

definition identity_ok :: "tenancy \<Rightarrow> bool" where
  "identity_ok db \<longleftrightarrow> distinct (map identity_key (identity_rows db)) \<and>
    (\<forall>r\<in>set (identity_rows db). \<exists>t\<in>set (team_rows db). tm_org_id t = ir_org_id r)"

lemma tenancy_upserts [simp]:
  "identity_rows (upsert_org k n db) = identity_rows db" "identity_rows (upsert_team k org n db) = identity_rows db"
  "identity_rows (upsert_user k org e db) = identity_rows db" "identity_rows (upsert_member a b r db) = identity_rows db"
  "team_rows (upsert_org k n db) = team_rows db" "team_rows (upsert_user k org e db) = team_rows db"
  "team_rows (upsert_member a b r db) = team_rows db"
  "org_rows (upsert_team k org n db) = org_rows db" "org_rows (upsert_user k org e db) = org_rows db"
  "org_rows (upsert_member a b r db) = org_rows db"
  by (simp_all add: upsert_org_def upsert_team_def upsert_user_def upsert_member_def)

lemma upsert_new: "key new \<notin> key ` set rows \<Longrightarrow> upsert key new f rows = rows @ [new]"
  by (simp add: upsert_def)

lemma find_identity_None_iff:
  "find_identity p s db = None \<longleftrightarrow> (p, s) \<notin> identity_key ` set (identity_rows db)"
  by (auto simp: find_identity_def find_None_iff identity_key_def image_iff)

lemma find_identity_SomeD:
  "find_identity p s db = Some (org, u) \<Longrightarrow>
    \<exists>r\<in>set (identity_rows db). ir_provider r = p \<and> ir_subject r = s \<and> ir_org_id r = org \<and> ir_user_id r = u"
  by (auto simp: find_identity_def find_Some_iff)

lemma sort_le_Nil [simp]: "sort_by le xs = [] \<longleftrightarrow> xs = []"
  by (metis length_0_conv length_sort_by)

lemma personal_team_exists:
  assumes "t \<in> set (team_rows db)" "tm_org_id t = org"
  shows "\<exists>k. personal_team org db = Some k"
  using assms by (auto simp: personal_team_def filter_empty_conv split: list.splits)

lemma known_identity_ok:
  assumes "identity_ok db" "find_identity p s db = Some (org, u)"
  obtains k where "known_identity p s db = Inr \<lparr> pv_org_id = org, pv_user_id = u, pv_team_id = k, pv_created = False \<rparr>"
proof -
  obtain r where "r \<in> set (identity_rows db)" "ir_org_id r = org" using find_identity_SomeD [OF assms(2)] by blast
  then obtain t where "t \<in> set (team_rows db)" "tm_org_id t = org" using assms(1) by (auto simp: identity_ok_def)
  then obtain k where "personal_team org db = Some k" using personal_team_exists by blast
  then show thesis using that assms(2) by (simp add: known_identity_def)
qed

text \<open>The tables after the four upserts.\<close>

definition onboarded :: "string \<Rightarrow> string \<Rightarrow> uuid \<Rightarrow> uuid \<Rightarrow> uuid \<Rightarrow> tenancy \<Rightarrow> tenancy" where
  "onboarded email name o' u t db =
    upsert_member t u ''maintainer'' (upsert_team t o' ''workspace'' (upsert_user u o' email (upsert_org o' name db)))"

lemma onboarded_teams:
  assumes "t \<notin> tm_id ` set (team_rows db)"
  shows "team_rows (onboarded email name o' u t db) = team_rows db @ [\<lparr> tm_id = t, tm_org_id = o', tm_name = ''workspace'' \<rparr>]"
  using assms by (simp add: onboarded_def) (simp add: upsert_team_def upsert_new)

lemma onboarded_identities [simp]: "identity_rows (onboarded email name o' u t db) = identity_rows db"
  by (simp add: onboarded_def)

lemma onboarded_ok:
  assumes "identity_ok db" "t \<notin> tm_id ` set (team_rows db)"
  shows "identity_ok (onboarded email name o' u t db)"
  using assms onboarded_teams [OF assms(2)] by (auto simp: identity_ok_def)

lemma onboarded_member:
  "\<lparr> mb_team_id = t, mb_user_id = u, mb_role = ''maintainer'' \<rparr> \<in> set (member_rows (onboarded email name o' u t db))"
proof -
  let ?new = "\<lparr> mb_team_id = t, mb_user_id = u, mb_role = ''maintainer'' \<rparr>" and ?key = "\<lambda>m. (mb_team_id m, mb_user_id m)"
  have "?new \<in> set (upsert ?key ?new (\<lambda>m. m\<lparr> mb_role := ''maintainer'' \<rparr>) rows)" for rows
  proof (cases "?key ?new \<in> ?key ` set rows")
    case True
    then obtain m where m: "m \<in> set rows" "?key m = (t, u)" by auto
    then have "m\<lparr> mb_role := ''maintainer'' \<rparr> = ?new" by (intro member_row.equality) simp_all
    then have "?new \<in> (\<lambda>r. if ?key r = ?key ?new then r\<lparr> mb_role := ''maintainer'' \<rparr> else r) ` set rows" using m by force
    then show ?thesis using True by (simp add: upsert_def set_update_where)
  qed (simp add: upsert_new)
  then show ?thesis by (simp add: onboarded_def upsert_member_def)
qed

lemma personal_team_onboarded:
  assumes "t \<notin> tm_id ` set (team_rows db)" "o' \<notin> tm_org_id ` set (team_rows db)" "team_rows db' = team_rows (onboarded email name o' u t db)"
  shows "personal_team o' db' = Some t"
proof -
  have "filter (\<lambda>x. tm_org_id x = o') (team_rows db) = []" using assms(2) by (auto simp: filter_empty_conv)
  then show ?thesis by (simp add: personal_team_def assms(3) onboarded_teams [OF assms(1)])
qed

lemma provision_cases:
  assumes "identity_ok db" "identity_ok (meanwhile db)"
    and fresh: "t \<notin> tm_id ` set (team_rows (meanwhile db))"
  obtains (known) org u' k where "find_identity p s db = Some (org, u')"
      "provision p s email name o' u t meanwhile db = (Inr \<lparr> pv_org_id = org, pv_user_id = u', pv_team_id = k, pv_created = False \<rparr>, db)"
  | (lost) org u' k where "find_identity p s db = None" "find_identity p s (meanwhile db) = Some (org, u')"
      "provision p s email name o' u t meanwhile db =
        (Inr \<lparr> pv_org_id = org, pv_user_id = u', pv_team_id = k, pv_created = False \<rparr>, onboarded email name o' u t (meanwhile db))"
  | (won) "find_identity p s db = None" "find_identity p s (meanwhile db) = None"
      "provision p s email name o' u t meanwhile db =
        (Inr \<lparr> pv_org_id = o', pv_user_id = u, pv_team_id = t, pv_created = True \<rparr>,
         (onboarded email name o' u t (meanwhile db))\<lparr> identity_rows := identity_rows (meanwhile db) @
           [\<lparr> ir_provider = p, ir_subject = s, ir_user_id = u, ir_org_id = o', ir_email = email \<rparr>] \<rparr>)"
proof (cases "find_identity p s db")
  case (Some x)
  obtain org u' where x: "find_identity p s db = Some (org, u')" using Some by (cases x) auto
  obtain k where "known_identity p s db = Inr \<lparr> pv_org_id = org, pv_user_id = u', pv_team_id = k, pv_created = False \<rparr>"
    by (rule known_identity_ok [OF assms(1) x])
  then show thesis using known x by (simp add: provision_def)
next
  case None
  let ?m = "meanwhile db" and ?on = "onboarded email name o' u t (meanwhile db)"
  have key: "map (\<lambda>r. (ir_provider r, ir_subject r)) rows = map identity_key rows" for rows
    by (simp add: identity_key_def)
  have create: "provision p s email name o' u t meanwhile db =
      (if (p, s) \<in> identity_key ` set (identity_rows ?m) then (known_identity p s ?on, ?on)
       else (Inr \<lparr> pv_org_id = o', pv_user_id = u, pv_team_id = t, pv_created = True \<rparr>,
         ?on\<lparr> identity_rows := identity_rows ?m @ [\<lparr> ir_provider = p, ir_subject = s, ir_user_id = u, ir_org_id = o', ir_email = email \<rparr>] \<rparr>))"
    by (simp add: provision_def None provision_create_def onboarded_def [symmetric] Let_def key)
  show thesis
  proof (cases "find_identity p s ?m")
    case None
    then have "(p, s) \<notin> identity_key ` set (identity_rows ?m)" by (simp only: find_identity_None_iff not_False_eq_True)
    then show thesis using won \<open>find_identity p s db = None\<close> None create by simp
  next
    case (Some x)
    obtain org u' where x: "find_identity p s ?m = Some (org, u')" using Some by (cases x) auto
    then have "find_identity p s ?on = Some (org, u')" by (simp add: find_identity_def)
    then obtain k where "known_identity p s ?on = Inr \<lparr> pv_org_id = org, pv_user_id = u', pv_team_id = k, pv_created = False \<rparr>"
      by (rule known_identity_ok [OF onboarded_ok [OF assms(2) fresh]])
    moreover have "(p, s) \<in> identity_key ` set (identity_rows ?m)" using Some find_identity_None_iff [of p s ?m] by auto
    ultimately show thesis using lost [OF None x] create by simp
  qed
qed

lemma provision_again:
  assumes "find_identity p s db = Some x"
  shows "provision p s email name o' u t meanwhile db = (known_identity p s db, db)"
  using assms by (simp add: provision_def)

text \<open>The loser of the race commits the organisation it had already inserted, which no identity owns.\<close>

lemma lost_race_leaves_an_organisation:
  assumes "identity_ok db" "identity_ok (meanwhile db)" "t \<notin> tm_id ` set (team_rows (meanwhile db))"
    and "find_identity p s db = None" "find_identity p s (meanwhile db) \<noteq> None"
    and "o' \<notin> ir_org_id ` set (identity_rows (meanwhile db))"
  shows "\<exists>r db'. provision p s email name o' u t meanwhile db = (Inr r, db') \<and> \<not> pv_created r \<and>
    o' \<in> fst ` set (org_rows db') \<and> o' \<notin> ir_org_id ` set (identity_rows db')"
  using assms(1-3)
proof (cases rule: provision_cases [where p = p and s = s and email = email and name = name and o' = o' and u = u])
  case (lost org u' k)
  have "o' \<in> fst ` set (upsert fst (o', name) (\<lambda>(i, _). (i, name)) rows)" for rows :: "(uuid \<times> string) list"
  proof (cases "o' \<in> fst ` set rows")
    case True
    have "map fst (update_where (\<lambda>r. fst r = o') (\<lambda>(i, _). (i, name)) rows) = map fst rows"
      by (rule map_key_update_where) (simp split: prod.splits)
    then have "fst ` set (update_where (\<lambda>r. fst r = o') (\<lambda>(i, _). (i, name)) rows) = fst ` set rows" by (metis set_map)
    then show ?thesis using True by (simp add: upsert_def)
  qed (simp add: upsert_new)
  then have "o' \<in> fst ` set (org_rows (onboarded email name o' u t (meanwhile db)))"
    by (simp add: onboarded_def) (simp add: upsert_org_def)
  then show ?thesis using lost(3) assms(6) by auto
qed (use assms(4,5) in simp_all)

section \<open>Properties\<close>

definition empty_tenancy :: tenancy where
  "empty_tenancy = \<lparr> org_rows = [], user_rows = [], team_rows = [], member_rows = [], identity_rows = [], token_rows = [] \<rparr>"

text \<open>A verified identity owns one organisation.  Whatever other sign-ins commit meanwhile, provisioning
  succeeds, the identity ends up with exactly one row, which names the organisation and user returned and
  is the old row when there was one; it reports creation exactly when nobody had claimed the identity,
  and then the owner maintains the organisation's team; every later sign-in returns the same
  organisation, user and team without creating anything.\<close>

theorem one_identity_one_project:
  assumes ok: "identity_ok db" "identity_ok (meanwhile db)"
    and grows: "set (identity_rows db) \<subseteq> set (identity_rows (meanwhile db))"
    and fresh: "t \<notin> tm_id ` set (team_rows (meanwhile db))" "o' \<notin> tm_org_id ` set (team_rows (meanwhile db))"
  shows "\<exists>r db'. provision p s email name o' u t meanwhile db = (Inr r, db') \<and> identity_ok db' \<and>
    find_identity p s db' = Some (pv_org_id r, pv_user_id r) \<and> set (identity_rows db) \<subseteq> set (identity_rows db') \<and>
    (pv_created r \<longleftrightarrow> find_identity p s db = None \<and> find_identity p s (meanwhile db) = None) \<and>
    (pv_created r \<longrightarrow> \<lparr> mb_team_id = pv_team_id r, mb_user_id = pv_user_id r, mb_role = ''maintainer'' \<rparr> \<in> set (member_rows db')) \<and>
    (\<forall>email2 name2 o2 u2 t2 meanwhile2. provision p s email2 name2 o2 u2 t2 meanwhile2 db' = (Inr (r\<lparr> pv_created := False \<rparr>), db'))"
  using ok fresh(1)
proof (cases rule: provision_cases [where p = p and s = s and email = email and name = name and o' = o' and u = u])
  case (known org u' k)
  have "known_identity p s db = Inr \<lparr> pv_org_id = org, pv_user_id = u', pv_team_id = k, pv_created = False \<rparr>"
    using known(2) provision_again [OF known(1), of email name o' u t meanwhile] by simp
  then show ?thesis using known ok provision_again [OF known(1)] by simp
next
  case (lost org u' k)
  let ?on = "onboarded email name o' u t (meanwhile db)"
  have f: "find_identity p s ?on = Some (org, u')" using lost(2) by (simp add: find_identity_def)
  have "provision p s email name o' u t meanwhile db = (known_identity p s ?on, ?on)"
  proof -
    have "(p, s) \<in> identity_key ` set (identity_rows (meanwhile db))"
      using lost(2) find_identity_None_iff [of p s "meanwhile db"] by auto
    then show ?thesis using lost(1) by (auto simp: provision_def provision_create_def onboarded_def [symmetric] Let_def identity_key_def)
  qed
  then have "known_identity p s ?on = Inr \<lparr> pv_org_id = org, pv_user_id = u', pv_team_id = k, pv_created = False \<rparr>"
    using lost(3) by simp
  then show ?thesis using lost f ok onboarded_ok [OF ok(2) fresh(1)] grows provision_again [OF f] by simp
next
  case won
  let ?row = "\<lparr> ir_provider = p, ir_subject = s, ir_user_id = u, ir_org_id = o', ir_email = email \<rparr>"
  let ?db' = "(onboarded email name o' u t (meanwhile db))\<lparr> identity_rows := identity_rows (meanwhile db) @ [?row] \<rparr>"
  have new: "(p, s) \<notin> identity_key ` set (identity_rows (meanwhile db))"
    using won(2) by (simp only: find_identity_None_iff not_False_eq_True)
  then have none: "find (\<lambda>r. ir_provider r = p \<and> ir_subject r = s) (identity_rows (meanwhile db)) = None"
    by (auto simp: find_None_iff identity_key_def image_iff)
  have snoc: "find P xs = None \<Longrightarrow> P y \<Longrightarrow> find P (xs @ [y]) = Some y" for P y and xs :: "identity_row list"
    by (induction xs) (auto split: if_splits)
  have f: "find_identity p s ?db' = Some (o', u)" by (simp add: find_identity_def snoc [OF none])
  have team: "personal_team o' ?db' = Some t" by (rule personal_team_onboarded [OF fresh]) simp
  have "identity_key ?row = (p, s)" by (simp add: identity_key_def)
  then have "identity_ok ?db'"
    using ok(2) new onboarded_teams [OF fresh(1), of email name o' u] by (auto simp: identity_ok_def)
  moreover have "known_identity p s ?db' = Inr \<lparr> pv_org_id = o', pv_user_id = u, pv_team_id = t, pv_created = False \<rparr>"
    unfolding known_identity_def f by (simp add: team)
  ultimately show ?thesis using won f grows onboarded_member provision_again [OF f] by auto
qed

lemma one_identity_one_project_witness:
  "\<exists>r db'. provision ''google'' ''uid-1'' ''a@b.c'' ''a'' 1 2 3 id empty_tenancy = (Inr r, db') \<and> pv_created r \<and>
    provision ''google'' ''uid-1'' ''a@b.c'' ''a'' 4 5 6 id db' = (Inr (r\<lparr> pv_created := False \<rparr>), db')"
proof -
  have e: "identity_ok empty_tenancy" "identity_ok (id empty_tenancy)" by (simp_all add: identity_ok_def empty_tenancy_def)
  have f: "find_identity ''google'' ''uid-1'' empty_tenancy = None" by (simp add: find_identity_def empty_tenancy_def)
  have n: "set (identity_rows empty_tenancy) \<subseteq> set (identity_rows (id empty_tenancy))"
      "3 \<notin> tm_id ` set (team_rows (id empty_tenancy))" "1 \<notin> tm_org_id ` set (team_rows (id empty_tenancy))"
    by (simp_all add: empty_tenancy_def)
  show ?thesis
    using one_identity_one_project [where db = empty_tenancy and meanwhile = id and t = 3 and o' = 1 and p = "''google''"
        and s = "''uid-1''" and email = "''a@b.c''" and name = "''a''" and u = 2, OF e n] f by auto
qed

section \<open>Keys\<close>

inductive key_step :: "tenancy \<Rightarrow> tenancy \<Rightarrow> bool" where
  S_create: "create_token now k org user name prefix h scopes project who db = Some db' \<Longrightarrow> key_step db db'"
| S_resolve: "resolve_token now h db = (x, db') \<Longrightarrow> key_step db db'"
| S_revoke: "revoke_token now org k db = (b, db') \<Longrightarrow> key_step db db'"

definition keys_unique :: "tenancy \<Rightarrow> bool" where
  "keys_unique db \<longleftrightarrow> distinct (map tk_id (token_rows db)) \<and> distinct (map tk_hash (token_rows db))"

text \<open>What a step leaves of a revoked key.\<close>

definition dead :: "string \<Rightarrow> tenancy \<Rightarrow> bool" where
  "dead h db \<longleftrightarrow> (\<exists>r\<in>set (token_rows db). tk_hash r = h \<and> tk_revoked_at r \<noteq> None)"

lemma dead_cong: "token_rows a = token_rows b \<Longrightarrow> dead h a = dead h b"
  by (simp add: dead_def)

lemma update_where_dead:
  assumes f: "\<And>r. tk_hash (f r) = tk_hash r" "\<And>r. tk_revoked_at r \<noteq> None \<Longrightarrow> tk_revoked_at (f r) \<noteq> None"
    and d: "dead h db" and rows: "token_rows db' = update_where p f (token_rows db)"
  shows "dead h db'"
proof -
  obtain r where r: "r \<in> set (token_rows db)" "tk_hash r = h" "tk_revoked_at r \<noteq> None" using d unfolding dead_def by blast
  have "(if p r then f r else r) \<in> set (token_rows db')" unfolding rows set_update_where using r(1) by (rule imageI)
  moreover have "tk_hash (if p r then f r else r) = h" using r(2) f(1) by simp
  moreover have "tk_revoked_at (if p r then f r else r) \<noteq> None" using r(3) f(2) [OF r(3)] by simp
  ultimately show ?thesis unfolding dead_def by blast
qed

lemma key_step_dead: "key_step db db' \<Longrightarrow> dead h db \<Longrightarrow> dead h db'"
proof (induction rule: key_step.induct)
  case (S_create now k org user name prefix h' scopes project who db db')
  then show ?case by (auto simp: create_token_def dead_def split: if_splits)
next
  case (S_resolve now h' db x db')
  have "token_rows db' = update_where (\<lambda>r. tk_hash r = h' \<and> tk_revoked_at r = None) (\<lambda>r. r\<lparr> tk_last_used_at := Some now \<rparr>) (token_rows db)"
    using S_resolve(1) by (auto simp: resolve_token_def Let_def)
  then show ?case by (rule update_where_dead [rotated 3]) (simp_all add: S_resolve(2))
next
  case (S_revoke now org k db b db')
  obtain p where "token_rows db' = update_where p (\<lambda>r. r\<lparr> tk_revoked_at := Some now \<rparr>) (token_rows db)"
    using S_revoke(1) by (auto simp: revoke_token_def Let_def)
  then show ?case by (rule update_where_dead [rotated 3]) (simp_all add: S_revoke(2))
qed

lemma key_step_unique: "key_step db db' \<Longrightarrow> keys_unique db \<Longrightarrow> keys_unique db'"
  by (induction rule: key_step.induct)
    (auto simp: create_token_def resolve_token_def revoke_token_def keys_unique_def Let_def split: if_splits)

lemma key_steps_keep:
  "key_step\<^sup>*\<^sup>* db db' \<Longrightarrow> keys_unique db \<and> dead h db \<Longrightarrow> keys_unique db' \<and> dead h db'"
  by (induction rule: rtranclp_induct) (auto intro: key_step_dead key_step_unique)

lemma resolve_token_SomeD:
  "fst (resolve_token now h db) = Some x \<Longrightarrow> \<exists>r\<in>set (token_rows db). tk_hash r = h \<and> tk_revoked_at r = None \<and>
     rt_id x = tk_id r \<and> rt_org_id x = tk_org_id r \<and> rt_user_id x = tk_user_id r \<and> rt_scopes x = tk_scopes r \<and> rt_project_id x = tk_project_id r"
  by (auto simp: resolve_token_def Let_def find_Some_iff)

lemma dead_not_resolved: "keys_unique db \<Longrightarrow> dead h db \<Longrightarrow> fst (resolve_token now h db) = None"
proof (rule ccontr)
  assume u: "keys_unique db" "dead h db" "fst (resolve_token now h db) \<noteq> None"
  then obtain r where r: "r \<in> set (token_rows db)" "tk_hash r = h" "tk_revoked_at r = None"
    using resolve_token_SomeD by fastforce
  obtain q where q: "q \<in> set (token_rows db)" "tk_hash q = h" "tk_revoked_at q \<noteq> None" using u(2) by (auto simp: dead_def)
  have "q = r" using u(1) r q by (auto simp: keys_unique_def distinct_map inj_on_def)
  then show False using r q by simp
qed

lemma team_ids_of_org: "k \<in> set (team_ids_of org user db) \<Longrightarrow> \<exists>t\<in>set (team_rows db). tm_id t = k \<and> tm_org_id t = org"
  by (auto simp: team_ids_of_def)

lemma resolve_bearer_dbD:
  assumes ok: "resolve_bearer hash_token now env bearer db = (Some ctx, db')" and none: "env_principal env bearer = None"
  obtains x where "starts_with bearer TOKEN_PREFIX" "fst (resolve_token now (hash_token bearer) db) = Some x"
    "ctx = \<lparr> ac_principal = \<lparr> p_org_id = rt_org_id x, p_user_id = rt_user_id x,
                  p_team_ids = team_ids_of (rt_org_id x) (rt_user_id x) db', p_project_id = rt_project_id x \<rparr>,
                ac_scopes = Some (rt_scopes x), ac_project_id = rt_project_id x, ac_token_id = Some (rt_id x) \<rparr>"
    "db' = snd (resolve_token now (hash_token bearer) db)"
proof (cases "starts_with bearer TOKEN_PREFIX")
  case True
  show ?thesis
  proof (cases "resolve_token now (hash_token bearer) db")
    case (Pair found db1)
    show ?thesis
    proof (cases found)
      case None
      then show ?thesis using ok by (simp add: resolve_bearer_def none True Pair)
    next
      case (Some y)
      show ?thesis
        using ok unfolding resolve_bearer_def none Pair Some
        by (intro that [of y]) (auto simp: True Pair Some)
    qed
  qed
next
  case False
  then show ?thesis using ok none by (simp add: resolve_bearer_def)
qed

text \<open>C24: A request is authenticated only by a live key.  If \<open>auth_of\<close> admits a request for a scope, it bore
  an environment token, or a \<open>brk_\<close> secret whose hash is that of a key that is not revoked; in the latter
  case the principal is the key's organisation, user and project, its teams are teams of that
  organisation, and the key has the scope or is an admin key.  Once a key is revoked, no later sequence of
  mintings, uses and revocations makes it resolve again.\<close>

theorem only_live_keys_authenticate:
  shows "(\<forall>ctx db'. auth_of hash_token now env header scope db = (Inr ctx, db') \<longrightarrow>
      (\<exists>bearer. header = Some (''Bearer '' @ bearer) \<and>
        (env_principal env bearer = Some (ac_principal ctx) \<and> ac_scopes ctx = None \<or>
         (\<exists>r\<in>set (token_rows db). starts_with bearer TOKEN_PREFIX \<and> tk_hash r = hash_token bearer \<and> tk_revoked_at r = None \<and>
            p_org_id (ac_principal ctx) = tk_org_id r \<and> p_user_id (ac_principal ctx) = tk_user_id r \<and>
            p_project_id (ac_principal ctx) = tk_project_id r \<and> ac_scopes ctx = Some (tk_scopes r) \<and>
            (scope \<in> set (tk_scopes r) \<or> ''admin'' \<in> set (tk_scopes r)) \<and>
            (\<forall>k\<in>set (p_team_ids (ac_principal ctx)). \<exists>t\<in>set (team_rows db). tm_id t = k \<and> tm_org_id t = tk_org_id r))))) \<and>
    (\<forall>h db2 later. keys_unique db \<and> dead h db \<and> key_step\<^sup>*\<^sup>* db db2 \<longrightarrow> fst (resolve_token later h db2) = None)"
proof -
  have auth: "\<exists>bearer. header = Some (''Bearer '' @ bearer) \<and>
        (env_principal env bearer = Some (ac_principal ctx) \<and> ac_scopes ctx = None \<or>
         (\<exists>r\<in>set (token_rows db). starts_with bearer TOKEN_PREFIX \<and> tk_hash r = hash_token bearer \<and> tk_revoked_at r = None \<and>
            p_org_id (ac_principal ctx) = tk_org_id r \<and> p_user_id (ac_principal ctx) = tk_user_id r \<and>
            p_project_id (ac_principal ctx) = tk_project_id r \<and> ac_scopes ctx = Some (tk_scopes r) \<and>
            (scope \<in> set (tk_scopes r) \<or> ''admin'' \<in> set (tk_scopes r)) \<and>
            (\<forall>k\<in>set (p_team_ids (ac_principal ctx)). \<exists>t\<in>set (team_rows db). tm_id t = k \<and> tm_org_id t = tk_org_id r)))"
    if ok: "auth_of hash_token now env header scope db = (Inr ctx, db')" for ctx db'
  proof -
    obtain bearer where b: "header = Some (''Bearer '' @ bearer)" "resolve_bearer hash_token now env bearer db = (Some ctx, db')" "allows ctx scope"
      using ok by (auto simp: auth_of_def strip_prefix_iff bind_eq_Some_conv split: option.splits prod.splits if_splits)
    show ?thesis
    proof (cases "env_principal env bearer")
      case (Some q)
      then show ?thesis using b by (auto simp: resolve_bearer_def)
    next
      case None
      obtain x where x: "starts_with bearer TOKEN_PREFIX" "fst (resolve_token now (hash_token bearer) db) = Some x"
          "ctx = \<lparr> ac_principal = \<lparr> p_org_id = rt_org_id x, p_user_id = rt_user_id x,
                        p_team_ids = team_ids_of (rt_org_id x) (rt_user_id x) db', p_project_id = rt_project_id x \<rparr>,
                      ac_scopes = Some (rt_scopes x), ac_project_id = rt_project_id x, ac_token_id = Some (rt_id x) \<rparr>"
          "db' = snd (resolve_token now (hash_token bearer) db)"
        by (rule resolve_bearer_dbD [OF b(2) None])
      obtain r where r: "r \<in> set (token_rows db)" "tk_hash r = hash_token bearer" "tk_revoked_at r = None" "rt_org_id x = tk_org_id r"
          "rt_user_id x = tk_user_id r" "rt_scopes x = tk_scopes r" "rt_project_id x = tk_project_id r"
        using resolve_token_SomeD [OF x(2)] by blast
      have teams: "team_rows db' = team_rows db" by (simp add: x(4) resolve_token_def Let_def)
      have "scope \<in> set (tk_scopes r) \<or> ''admin'' \<in> set (tk_scopes r)"
        using b(3) unfolding x(3) by (auto simp: allows_def list_ex_iff r(6))
      moreover have "\<forall>k\<in>set (p_team_ids (ac_principal ctx)). \<exists>t\<in>set (team_rows db). tm_id t = k \<and> tm_org_id t = tk_org_id r"
        using team_ids_of_org [of _ "tk_org_id r" "tk_user_id r" db'] unfolding x(3) by (simp add: r teams)
      moreover have "p_org_id (ac_principal ctx) = tk_org_id r" "p_user_id (ac_principal ctx) = tk_user_id r"
          "p_project_id (ac_principal ctx) = tk_project_id r" "ac_scopes ctx = Some (tk_scopes r)"
        unfolding x(3) by (simp_all add: r)
      ultimately show ?thesis using b(1) x(1) r(1-3) by blast
    qed
  qed
  have "fst (resolve_token later h db2) = None" if "keys_unique db" "dead h db" "key_step\<^sup>*\<^sup>* db db2" for h db2 later
    using dead_not_resolved key_steps_keep [OF that(3)] that(1,2) by blast
  then show ?thesis by (intro conjI allI impI) (erule auth, blast)
qed

definition example_tenancy :: tenancy where
  "example_tenancy = snd (revoke_token 9 1 70 (the (create_token 5 70 1 5 ''laptop'' ''brk_'' ''h'' DEVICE_SCOPES None 5 empty_tenancy)))"

lemma only_live_keys_authenticate_witness:
  "fst (resolve_token 20 ''h'' (snd (resolve_token 10 ''x'' example_tenancy))) = None"
proof -
  have "keys_unique example_tenancy \<and> dead ''h'' example_tenancy" by code_simp
  moreover have "key_step example_tenancy (snd (resolve_token 10 ''x'' example_tenancy))"
    by (rule S_resolve [of 10 "''x''" _ "fst (resolve_token 10 ''x'' example_tenancy)"]) simp
  ultimately show ?thesis using only_live_keys_authenticate [of id 0 "[]" None "[]" example_tenancy] by blast
qed

end
