(* ===== verification/Onboarding.thy ===== *)
theory Onboarding
  imports Tenancy
begin

text \<open>
  \<open>brainiac-store/src/onboard.rs\<close> and \<open>brainiac-server/src/onboard.rs\<close>: pairing a device.  An
  unauthenticated \<open>start\<close> opens a request, an operator approves or denies it, and the poll that claims
  an approved request mints the key.  The claim and the read before it are separate statements, so
  \<open>onboard_poll\<close> takes what other connections did in between.  A step relation with a log of
  what was opened, decided and minted carries the single-shot argument.
\<close>

section \<open>Store operations\<close>

record pairing_row =
  pr_id :: uuid
  pr_user_code :: string
  pr_device_hash :: string
  pr_remote :: string
  pr_label :: string
  pr_path :: string
  pr_status :: string
  pr_org_id :: "uuid option"
  pr_project_id :: "uuid option"
  pr_approved_by :: "uuid option"
  pr_created_at :: instant
  pr_expires_at :: instant
  pr_claimed_at :: "instant option"

record deployment =
  pairings :: "pairing_row list"
  dp_registry :: registry
  dp_tenancy :: tenancy

text \<open>\<open>None\<close>: the primary key or one of the two unique codes is taken.\<close>

definition start_pairing ::
  "instant \<Rightarrow> uuid \<Rightarrow> string \<Rightarrow> string \<Rightarrow> string \<Rightarrow> string \<Rightarrow> string \<Rightarrow> int \<Rightarrow> pairing_row list \<Rightarrow> pairing_row list option" where
  "start_pairing now k user_code device_hash remote label path ttl rows =
    (if k \<in> set (map pr_id rows) \<or> user_code \<in> set (map pr_user_code rows) \<or> device_hash \<in> set (map pr_device_hash rows) then None
     else Some (rows @
       [\<lparr> pr_id = k, pr_user_code = user_code, pr_device_hash = device_hash, pr_remote = remote, pr_label = label, pr_path = path,
          pr_status = ''pending'', pr_org_id = None, pr_project_id = None, pr_approved_by = None,
          pr_created_at = now, pr_expires_at = now + ttl, pr_claimed_at = None \<rparr>]))"

definition live_pending :: "instant \<Rightarrow> pairing_row \<Rightarrow> bool" where
  "live_pending now r = (pr_status r = ''pending'' \<and> pr_expires_at r > now)"

definition pending_count :: "instant \<Rightarrow> pairing_row list \<Rightarrow> nat" where
  "pending_count now rows = length (filter (live_pending now) rows)"

definition list_pending :: "instant \<Rightarrow> pairing_row list \<Rightarrow> pairing_row list" where
  "list_pending now rows = sort_by (\<lambda>a b. pr_created_at a \<le> pr_created_at b) (filter (live_pending now) rows)"

definition get_by_device_hash :: "string \<Rightarrow> pairing_row list \<Rightarrow> pairing_row option" where
  "get_by_device_hash h rows = find (\<lambda>r. pr_device_hash r = h) rows"

definition get_pairing :: "uuid \<Rightarrow> pairing_row list \<Rightarrow> pairing_row option" where
  "get_pairing k rows = find (\<lambda>r. pr_id r = k) rows"

definition approve_pairing ::
  "instant \<Rightarrow> uuid \<Rightarrow> uuid \<Rightarrow> uuid \<Rightarrow> uuid \<Rightarrow> pairing_row list \<Rightarrow> bool \<times> pairing_row list" where
  "approve_pairing now k org project who rows =
    (let hit = (\<lambda>r. pr_id r = k \<and> live_pending now r) in
     (rows_affected hit rows > 0,
      update_where hit (\<lambda>r. r\<lparr> pr_status := ''approved'', pr_org_id := Some org, pr_project_id := Some project,
        pr_approved_by := Some who \<rparr>) rows))"

definition deny_pairing :: "uuid \<Rightarrow> pairing_row list \<Rightarrow> bool \<times> pairing_row list" where
  "deny_pairing k rows =
    (let hit = (\<lambda>r. pr_id r = k \<and> pr_status r = ''pending'') in
     (rows_affected hit rows > 0, update_where hit (\<lambda>r. r\<lparr> pr_status := ''denied'' \<rparr>) rows))"

definition prune_expired :: "instant \<Rightarrow> pairing_row list \<Rightarrow> pairing_row list" where
  "prune_expired now rows = delete_where (\<lambda>r. pr_expires_at r < now - 86400) rows"

definition claimable :: "instant \<Rightarrow> string \<Rightarrow> pairing_row \<Rightarrow> bool" where
  "claimable now h r = (pr_device_hash r = h \<and> pr_status r = ''approved'' \<and> pr_expires_at r > now)"

definition mark_claimed :: "instant \<Rightarrow> pairing_row \<Rightarrow> pairing_row" where
  "mark_claimed now r = r\<lparr> pr_status := ''claimed'', pr_claimed_at := Some now \<rparr>"

text \<open>\<open>UPDATE ... RETURNING\<close>: the row as it is after the update.\<close>

definition claim_pairing :: "instant \<Rightarrow> string \<Rightarrow> pairing_row list \<Rightarrow> pairing_row option \<times> pairing_row list" where
  "claim_pairing now h rows =
    (map_option (mark_claimed now) (find (claimable now h) rows),
     update_where (claimable now h) (mark_claimed now) rows)"

section \<open>Handlers\<close>

definition PAIRING_TTL_SECS :: int where "PAIRING_TTL_SECS = 900"
definition POLL_INTERVAL_SECS :: int where "POLL_INTERVAL_SECS = 5"
definition MAX_PENDING :: nat where "MAX_PENDING = 100"
definition MAX_LABEL_CHARS :: nat where "MAX_LABEL_CHARS = 100"
definition MAX_REMOTE_CHARS :: nat where "MAX_REMOTE_CHARS = 200"
definition ONBOARD_SCOPES :: "string list" where "ONBOARD_SCOPES = [''read'', ''write'']"
definition CODE_ALPHABET :: string where "CODE_ALPHABET = ''ACDEFGHJKMNPQRTUVWXY234679''"

text \<open>The 16 bytes of a fresh uuid are the argument.\<close>

definition mint_user_code :: "nat list \<Rightarrow> string" where
  "mint_user_code bytes = map (\<lambda>b. CODE_ALPHABET ! (b mod length CODE_ALPHABET)) (take 8 bytes)"

definition mint_device_code :: "string \<Rightarrow> string \<Rightarrow> string" where
  "mint_device_code a b = ''obc_'' @ a @ b"

record start_body =
  sb_remote :: string
  sb_label :: "string option"
  sb_path :: "string option"

definition label_of :: "string option \<Rightarrow> string" where
  "label_of given =
    take MAX_LABEL_CHARS (case map_option trim given of None \<Rightarrow> ''unnamed device'' | Some s \<Rightarrow> if s = [] then ''unnamed device'' else s)"

record start_response =
  sr_user_code :: string
  sr_device_code :: string
  sr_remote :: string
  sr_expires_in_secs :: int
  sr_poll_interval_secs :: int

text \<open>\<open>k\<close>, \<open>bytes\<close>, \<open>a\<close> and \<open>b\<close> are the random values; pruning happens even where the request is refused.\<close>

definition onboard_start ::
  "(string \<Rightarrow> string) \<Rightarrow> instant \<Rightarrow> start_body \<Rightarrow> uuid \<Rightarrow> nat list \<Rightarrow> string \<Rightarrow> string \<Rightarrow> pairing_row list
    \<Rightarrow> (http_error + start_response) \<times> pairing_row list" where
  "onboard_start hash_token now body k bytes a b rows =
    (if length (sb_remote body) > MAX_REMOTE_CHARS then (Inl (BadRequest ''remote is too long''), rows)
     else case normalize_remote (sb_remote body) of
       None \<Rightarrow> (Inl (BadRequest (sb_remote body)), rows)
     | Some remote \<Rightarrow>
         (let label = label_of (sb_label body);
              path = normalize_path_prefix (case sb_path body of None \<Rightarrow> [] | Some p \<Rightarrow> p);
              rows1 = prune_expired now rows
          in if pending_count now rows1 \<ge> MAX_PENDING
             then (Inl (TooManyRequests ''too many pending onboarding requests''), rows1)
             else
               (let user_code = mint_user_code bytes; device_code = mint_device_code a b in
                case start_pairing now k user_code (hash_token device_code) remote label path PAIRING_TTL_SECS rows1 of
                  None \<Rightarrow> (Inl Internal, rows1)
                | Some rows2 \<Rightarrow>
                    (Inr \<lparr> sr_user_code = user_code, sr_device_code = device_code, sr_remote = remote,
                           sr_expires_in_secs = PAIRING_TTL_SECS, sr_poll_interval_secs = POLL_INTERVAL_SECS \<rparr>, rows2))))"

record poll_response =
  po_status :: string
  po_token :: "string option"
  po_project_id :: "uuid option"
  po_project_name :: "string option"
  po_org_id :: "uuid option"

definition bare :: "string \<Rightarrow> poll_response" where
  "bare status = \<lparr> po_status = status, po_token = None, po_project_id = None, po_project_name = None, po_org_id = None \<rparr>"

text \<open>The read and its early returns; \<open>None\<close>: go on to claim.\<close>

definition poll_state :: "instant \<Rightarrow> pairing_row \<Rightarrow> (http_error + poll_response) option" where
  "poll_state now r =
    (let expired = pr_expires_at r < now in
     if pr_status r = ''pending'' then Some (Inr (bare (if expired then ''expired'' else ''pending'')))
     else if pr_status r = ''approved'' \<and> expired then Some (Inr (bare ''expired''))
     else if pr_status r = ''denied'' then Some (Inr (bare ''denied''))
     else if pr_status r = ''claimed'' then Some (Inr (bare ''claimed''))
     else if pr_status r = ''approved'' then None
     else Some (Inl Internal))"

definition key_name :: "pairing_row \<Rightarrow> string" where
  "key_name r = ''onboard '' @ [CHR 0xC2, CHR 0xB7] @ '' '' @ pr_label r @ '' '' @ [CHR 0xC2, CHR 0xB7] @ '' '' @ last (segments (pr_remote r))"

text \<open>Claim and mint: the claim commits before the key is inserted, and stays if that fails.\<close>

definition claim_and_mint ::
  "(string \<Rightarrow> string) \<Rightarrow> instant \<Rightarrow> string \<Rightarrow> uuid \<Rightarrow> string \<Rightarrow> string \<Rightarrow> deployment \<Rightarrow> (http_error + poll_response) \<times> deployment" where
  "claim_and_mint hash_token now h k ra rb db =
    (case claim_pairing now h (pairings db) of
       (None, _) \<Rightarrow> (Inr (bare ''claimed''), db)
     | (Some r, rows) \<Rightarrow>
         (let db1 = db\<lparr> pairings := rows \<rparr> in
          case (pr_org_id r, pr_project_id r, pr_approved_by r) of
            (Some org, Some project, Some who) \<Rightarrow>
              (let name = map_option pj_name (find (\<lambda>p. pj_id p = project) (list_projects org (dp_registry db)));
                   (secret, prefix) = mint_secret ra rb
               in case create_token now k org who (key_name r) prefix (hash_token secret) ONBOARD_SCOPES (Some project) who (dp_tenancy db) of
                    None \<Rightarrow> (Inl Internal, db1)
                  | Some t \<Rightarrow>
                      (Inr \<lparr> po_status = ''approved'', po_token = Some secret, po_project_id = Some project,
                             po_project_name = name, po_org_id = Some org \<rparr>, db1\<lparr> dp_tenancy := t \<rparr>))
          | _ \<Rightarrow> (Inl Internal, db1)))"

definition onboard_poll ::
  "(string \<Rightarrow> string) \<Rightarrow> instant \<Rightarrow> instant \<Rightarrow> string \<Rightarrow> uuid \<Rightarrow> string \<Rightarrow> string \<Rightarrow> (deployment \<Rightarrow> deployment) \<Rightarrow> deployment
    \<Rightarrow> (http_error + poll_response) \<times> deployment" where
  "onboard_poll hash_token now later device_code k ra rb meanwhile db =
    (let h = hash_token device_code in
     case get_by_device_hash h (pairings db) of
       None \<Rightarrow> (Inl (NotFoundError ''unknown device code''), db)
     | Some r \<Rightarrow>
         (case poll_state now r of
            Some out \<Rightarrow> (out, db)
          | None \<Rightarrow> claim_and_mint hash_token later h k ra rb (meanwhile db)))"

text \<open>The three admin handlers, from the authenticated organisation and user on.\<close>

definition requests_list :: "instant \<Rightarrow> uuid \<Rightarrow> deployment \<Rightarrow> (pairing_row \<times> uuid \<times> string) list \<times> nat" where
  "requests_list now org db =
    (let rows = list_pending now (pairings db);
         matched = (\<lambda>r. find_by_remote org (pr_remote r) (pr_path r) (dp_registry db))
     in (concat (map (\<lambda>r. case matched r of None \<Rightarrow> [] | Some p \<Rightarrow> [(r, p)]) rows),
         length (filter (\<lambda>r. matched r = None) rows)))"

definition request_approve ::
  "instant \<Rightarrow> uuid \<Rightarrow> uuid \<Rightarrow> uuid \<Rightarrow> deployment \<Rightarrow> (http_error + uuid \<times> uuid \<times> string) \<times> deployment" where
  "request_approve now k org who db =
    (case get_pairing k (pairings db) of
       None \<Rightarrow> (Inl (NotFoundError ''pairing request not found''), db)
     | Some r \<Rightarrow>
         (case find_by_remote org (pr_remote r) (pr_path r) (dp_registry db) of
            None \<Rightarrow> (Inl (Conflict (pr_remote r)), db)
          | Some (project, name) \<Rightarrow>
              (case approve_pairing now k org project who (pairings db) of
                 (True, rows) \<Rightarrow> (Inr (k, project, name), db\<lparr> pairings := rows \<rparr>)
               | (False, _) \<Rightarrow> (Inl (NotFoundError ''pairing request expired or already decided''), db))))"

definition request_deny :: "uuid \<Rightarrow> deployment \<Rightarrow> (http_error + uuid) \<times> deployment" where
  "request_deny k db =
    (case deny_pairing k (pairings db) of
       (True, rows) \<Rightarrow> (Inr k, db\<lparr> pairings := rows \<rparr>)
     | (False, _) \<Rightarrow> (Inl (NotFoundError ''pairing request not found or already decided''), db))"

section \<open>What the deployment does over time\<close>

datatype pairing_event = Opened uuid | Approved uuid uuid uuid uuid | Denied uuid | Minted uuid token_row

definition new_keys :: "uuid \<Rightarrow> tenancy \<Rightarrow> tenancy \<Rightarrow> pairing_event list" where
  "new_keys k t t' = map (Minted k) (drop (length (token_rows t)) (token_rows t'))"

text \<open>
  One step of the deployment and what it adds to the log: a start, an approval, a denial, the claiming
  half of a poll, or anything at all done to the registry, the keys and the identities.
\<close>

inductive pairing_step :: "(string \<Rightarrow> string) \<Rightarrow> deployment \<Rightarrow> pairing_event list \<Rightarrow> deployment \<Rightarrow> bool"
  for hash_token where
  P_start: "onboard_start hash_token now body k bytes a b (pairings db) = (x, rows) \<Longrightarrow>
    pairing_step hash_token db (case x of Inr _ \<Rightarrow> [Opened k] | Inl _ \<Rightarrow> []) (db\<lparr> pairings := rows \<rparr>)"
| P_approve: "request_approve now k org who db = (x, db') \<Longrightarrow>
    pairing_step hash_token db (case x of Inr (_, project, _) \<Rightarrow> [Approved k org project who] | Inl _ \<Rightarrow> []) db'"
| P_deny: "request_deny k db = (x, db') \<Longrightarrow> pairing_step hash_token db (case x of Inr _ \<Rightarrow> [Denied k] | Inl _ \<Rightarrow> []) db'"
| P_claim: "claim_and_mint hash_token now h k ra rb db = (x, db') \<Longrightarrow>
    pairing_step hash_token db
      (case fst (claim_pairing now h (pairings db)) of None \<Rightarrow> [] | Some r \<Rightarrow> new_keys (pr_id r) (dp_tenancy db) (dp_tenancy db')) db'"
| P_other: "pairings db' = pairings db \<Longrightarrow> pairing_step hash_token db [] db'"

inductive pairing_run :: "(string \<Rightarrow> string) \<Rightarrow> deployment \<Rightarrow> pairing_event list \<Rightarrow> deployment \<Rightarrow> bool" for hash_token where
  R_start: "pairing_run hash_token db [] db"
| R_step: "pairing_run hash_token db es db1 \<Longrightarrow> pairing_step hash_token db1 ev db2 \<Longrightarrow> pairing_run hash_token db (es @ ev) db2"

inductive_cases pairing_stepE: "pairing_step hash_token db ev db'"

text \<open>A whole poll is a read, whatever runs in between, and a claim.\<close>

lemma onboard_poll_run:
  assumes run: "pairing_run hash_token db es (meanwhile db)"
    and poll: "onboard_poll hash_token now later device_code k ra rb meanwhile db = (x, db')"
  shows "\<exists>es'. pairing_run hash_token db es' db'"
proof (cases "\<exists>r. get_by_device_hash (hash_token device_code) (pairings db) = Some r \<and> poll_state now r = None")
  case True
  then have "claim_and_mint hash_token later (hash_token device_code) k ra rb (meanwhile db) = (x, db')"
    using poll by (auto simp: onboard_poll_def Let_def)
  from R_step [OF run P_claim [OF this]] show ?thesis by blast
next
  case False
  then have "db' = db" using poll by (auto simp: onboard_poll_def Let_def split: option.splits)
  then show ?thesis using R_start by blast
qed

fun opened :: "uuid \<Rightarrow> pairing_event \<Rightarrow> bool" where "opened k (Opened j) = (j = k)" | "opened k _ = False"
fun approved :: "uuid \<Rightarrow> pairing_event \<Rightarrow> bool" where "approved k (Approved j _ _ _) = (j = k)" | "approved k _ = False"
fun denied :: "uuid \<Rightarrow> pairing_event \<Rightarrow> bool" where "denied k (Denied j) = (j = k)" | "denied k _ = False"
fun minted :: "uuid \<Rightarrow> pairing_event \<Rightarrow> bool" where "minted k (Minted j _) = (j = k)" | "minted k _ = False"

definition tally :: "(pairing_event \<Rightarrow> bool) \<Rightarrow> pairing_event list \<Rightarrow> nat" where
  "tally p es = length (filter p es)"

lemma tally_simps [simp]:
  "tally p [] = 0" "tally p (e # rest) = of_bool (p e) + tally p rest" "tally p (a @ b) = tally p a + tally p b"
  by (simp_all add: tally_def)

definition status_of :: "uuid \<Rightarrow> pairing_row list \<Rightarrow> string option" where
  "status_of k rows = map_option pr_status (lookup pr_id k rows)"

text \<open>Each key is covered by an approval that is still unspent, each decision by an opening.\<close>

definition ledger_ok :: "pairing_event list \<Rightarrow> pairing_row list \<Rightarrow> bool" where
  "ledger_ok es rows \<longleftrightarrow> distinct (map pr_id rows) \<and>
    (\<forall>k. tally (minted k) es + of_bool (status_of k rows = Some ''approved'') \<le> tally (approved k) es) \<and>
    (\<forall>k. tally (approved k) es + tally (denied k) es + of_bool (status_of k rows = Some ''pending'') \<le> tally (opened k) es) \<and>
    (\<forall>r\<in>set rows. pr_status r = ''approved'' \<longrightarrow>
      (\<exists>org project who. Approved (pr_id r) org project who \<in> set es \<and>
        pr_org_id r = Some org \<and> pr_project_id r = Some project \<and> pr_approved_by r = Some who))"

lemma ledger_keys: "ledger_ok es rows \<Longrightarrow> distinct (map pr_id rows)"
  and ledger_minted: "ledger_ok es rows \<Longrightarrow>
    tally (minted k) es + of_bool (status_of k rows = Some ''approved'') \<le> tally (approved k) es"
  and ledger_decided: "ledger_ok es rows \<Longrightarrow>
    tally (approved k) es + tally (denied k) es + of_bool (status_of k rows = Some ''pending'') \<le> tally (opened k) es"
  and ledger_row: "ledger_ok es rows \<Longrightarrow> r \<in> set rows \<Longrightarrow> pr_status r = ''approved'' \<Longrightarrow>
    \<exists>org project who. Approved (pr_id r) org project who \<in> set es \<and>
      pr_org_id r = Some org \<and> pr_project_id r = Some project \<and> pr_approved_by r = Some who"
  unfolding ledger_ok_def by blast+

lemma ledger_okI:
  assumes "distinct (map pr_id rows)"
    and "\<And>k. tally (minted k) es + of_bool (status_of k rows = Some ''approved'') \<le> tally (approved k) es"
    and "\<And>k. tally (approved k) es + tally (denied k) es + of_bool (status_of k rows = Some ''pending'') \<le> tally (opened k) es"
    and "\<And>r. r \<in> set rows \<Longrightarrow> pr_status r = ''approved'' \<Longrightarrow> \<exists>org project who. Approved (pr_id r) org project who \<in> set es \<and>
      pr_org_id r = Some org \<and> pr_project_id r = Some project \<and> pr_approved_by r = Some who"
  shows "ledger_ok es rows"
  using assms unfolding ledger_ok_def by blast

lemma ledger_log: "ledger_ok es rows \<Longrightarrow> tally (minted k) es \<le> tally (approved k) es \<and>
    tally (approved k) es + tally (denied k) es \<le> tally (opened k) es"
  using ledger_minted [of es rows k] ledger_decided [of es rows k] by simp

lemma status_of_member: "distinct (map pr_id rows) \<Longrightarrow> r \<in> set rows \<Longrightarrow> status_of (pr_id r) rows = Some (pr_status r)"
  using lookup_Some_iff [of pr_id rows "pr_id r" r] by (simp add: status_of_def)

lemma status_of_prune: "status_of k (prune_expired now rows) = Some s \<Longrightarrow> distinct (map pr_id rows) \<Longrightarrow> status_of k rows = Some s"
  using lookup_Some_iff [of pr_id rows k] lookup_Some_iff [of pr_id "prune_expired now rows" k]
  by (auto simp: status_of_def prune_expired_def)

lemma prune_ledger: "ledger_ok es rows \<Longrightarrow> ledger_ok es (prune_expired now rows)"
proof -
  assume ok: "ledger_ok es rows"
  then have d: "distinct (map pr_id rows)" by (simp add: ledger_ok_def)
  have le: "of_bool (status_of k (prune_expired now rows) = Some s) \<le> (of_bool (status_of k rows = Some s) :: nat)" for k s
    using status_of_prune [OF _ d] by auto
  have "distinct (map pr_id (prune_expired now rows))" using d by (simp add: prune_expired_def)
  moreover have "set (prune_expired now rows) \<subseteq> set rows" by (auto simp: prune_expired_def)
  ultimately show ?thesis using ok le unfolding ledger_ok_def by (meson add_le_mono le_refl le_trans subsetD)
qed

lemma start_ledger:
  assumes ok: "ledger_ok es rows"
    and st: "start_pairing now k u h remote label path ttl rows = Some rows'"
  shows "ledger_ok (es @ [Opened k]) rows'"
proof -
  obtain r where r: "rows' = rows @ [r]" "pr_id r = k" "pr_status r = ''pending''" "k \<notin> pr_id ` set rows"
    using st by (auto simp: start_pairing_def split: if_splits)
  have new: "lookup pr_id k rows = None" using r(4) by (simp add: lookup_None_iff)
  have s: "status_of j rows' = (if j = k then Some ''pending'' else status_of j rows)" for j
    by (cases "lookup pr_id j rows") (auto simp: status_of_def r lookup_snoc new)
  have none: "status_of k rows = None" by (simp add: status_of_def new)
  show ?thesis
  proof (rule ledger_okI)
    show "distinct (map pr_id rows')" using ledger_keys [OF ok] r by simp
    show "tally (minted j) (es @ [Opened k]) + of_bool (status_of j rows' = Some ''approved'') \<le> tally (approved j) (es @ [Opened k])" for j
      using ledger_minted [OF ok, of j] none s by (cases "j = k") auto
    show "tally (approved j) (es @ [Opened k]) + tally (denied j) (es @ [Opened k]) +
        of_bool (status_of j rows' = Some ''pending'') \<le> tally (opened j) (es @ [Opened k])" for j
      using ledger_decided [OF ok, of j] none s by (cases "j = k") auto
    show "\<exists>org project who. Approved (pr_id q) org project who \<in> set (es @ [Opened k]) \<and>
        pr_org_id q = Some org \<and> pr_project_id q = Some project \<and> pr_approved_by q = Some who"
      if "q \<in> set rows'" "pr_status q = ''approved''" for q
      using ledger_row [OF ok, of q] that r by auto
  qed
qed

lemma approve_ledger:
  assumes ok: "ledger_ok es rows" and ap: "approve_pairing now k org project who rows = (True, rows')"
  shows "ledger_ok (es @ [Approved k org project who]) rows'"
proof -
  let ?hit = "\<lambda>r. pr_id r = k \<and> live_pending now r"
  let ?f = "\<lambda>r. r\<lparr> pr_status := ''approved'', pr_org_id := Some org, pr_project_id := Some project, pr_approved_by := Some who \<rparr>"
  have rows': "rows' = update_where ?hit ?f rows" and hit: "rows_affected ?hit rows > 0"
    using ap by (auto simp: approve_pairing_def Let_def)
  obtain r where r: "r \<in> set rows" "pr_id r = k" "live_pending now r" using hit rows_affected_zero [of ?hit rows] by auto
  have lk: "lookup pr_id k rows = Some r" using r lookup_Some_iff [OF ledger_keys [OF ok]] by auto
  have lu: "lookup pr_id j rows' = map_option (\<lambda>r. if ?hit r then ?f r else r) (lookup pr_id j rows)" for j
    unfolding rows' by (rule lookup_update_where) simp
  have s: "status_of j rows' = (if j = k then Some ''approved'' else status_of j rows)" for j
  proof (cases "j = k")
    case True
    then show ?thesis using r by (simp add: status_of_def lu lk)
  next
    case False
    then show ?thesis using lookup_SomeD [of pr_id j rows] by (cases "lookup pr_id j rows") (auto simp: status_of_def lu)
  qed
  have p: "status_of k rows = Some ''pending''" using r by (simp add: status_of_def lk live_pending_def)
  show ?thesis
  proof (rule ledger_okI)
    show "distinct (map pr_id rows')" using ledger_keys [OF ok] by (simp add: rows')
    show "tally (minted j) (es @ [Approved k org project who]) + of_bool (status_of j rows' = Some ''approved'')
        \<le> tally (approved j) (es @ [Approved k org project who])" for j
      using ledger_minted [OF ok, of j] p s by (cases "j = k") auto
    show "tally (approved j) (es @ [Approved k org project who]) + tally (denied j) (es @ [Approved k org project who]) +
        of_bool (status_of j rows' = Some ''pending'') \<le> tally (opened j) (es @ [Approved k org project who])" for j
      using ledger_decided [OF ok, of j] p s by (cases "j = k") auto
    show "\<exists>org' project' who'. Approved (pr_id q) org' project' who' \<in> set (es @ [Approved k org project who]) \<and>
        pr_org_id q = Some org' \<and> pr_project_id q = Some project' \<and> pr_approved_by q = Some who'"
      if q: "q \<in> set rows'" "pr_status q = ''approved''" for q
    proof -
      obtain q0 where q0: "q0 \<in> set rows" "q = (if ?hit q0 then ?f q0 else q0)" using q(1) by (auto simp: rows' set_update_where)
      show ?thesis
      proof (cases "?hit q0")
        case True
        then show ?thesis using q0(2) by simp
      next
        case False
        then have "q = q0" unfolding q0(2) by (rule if_not_P)
        then show ?thesis using ledger_row [OF ok, of q0] q0(1) q(2) by auto
      qed
    qed
  qed
qed

lemma deny_ledger:
  assumes ok: "ledger_ok es rows" and dn: "deny_pairing k rows = (True, rows')"
  shows "ledger_ok (es @ [Denied k]) rows'"
proof -
  let ?hit = "\<lambda>r. pr_id r = k \<and> pr_status r = ''pending''"
  let ?f = "\<lambda>r. r\<lparr> pr_status := ''denied'' \<rparr>"
  have rows': "rows' = update_where ?hit ?f rows" and hit: "rows_affected ?hit rows > 0"
    using dn by (auto simp: deny_pairing_def Let_def)
  obtain r where r: "r \<in> set rows" "pr_id r = k" "pr_status r = ''pending''" using hit rows_affected_zero [of ?hit rows] by auto
  have lk: "lookup pr_id k rows = Some r" using r lookup_Some_iff [OF ledger_keys [OF ok]] by auto
  have lu: "lookup pr_id j rows' = map_option (\<lambda>r. if ?hit r then ?f r else r) (lookup pr_id j rows)" for j
    unfolding rows' by (rule lookup_update_where) simp
  have s: "status_of j rows' = (if j = k then Some ''denied'' else status_of j rows)" for j
  proof (cases "j = k")
    case True
    then show ?thesis using r by (simp add: status_of_def lu lk)
  next
    case False
    then show ?thesis using lookup_SomeD [of pr_id j rows] by (cases "lookup pr_id j rows") (auto simp: status_of_def lu)
  qed
  have p: "status_of k rows = Some ''pending''" using r by (simp add: status_of_def lk)
  show ?thesis
  proof (rule ledger_okI)
    show "distinct (map pr_id rows')" using ledger_keys [OF ok] by (simp add: rows')
    show "tally (minted j) (es @ [Denied k]) + of_bool (status_of j rows' = Some ''approved'') \<le> tally (approved j) (es @ [Denied k])" for j
      using ledger_minted [OF ok, of j] p s by (cases "j = k") auto
    show "tally (approved j) (es @ [Denied k]) + tally (denied j) (es @ [Denied k]) +
        of_bool (status_of j rows' = Some ''pending'') \<le> tally (opened j) (es @ [Denied k])" for j
      using ledger_decided [OF ok, of j] p s by (cases "j = k") auto
    show "\<exists>org project who. Approved (pr_id q) org project who \<in> set (es @ [Denied k]) \<and>
        pr_org_id q = Some org \<and> pr_project_id q = Some project \<and> pr_approved_by q = Some who"
      if q: "q \<in> set rows'" "pr_status q = ''approved''" for q
    proof -
      obtain q0 where q0: "q0 \<in> set rows" "q = (if ?hit q0 then ?f q0 else q0)" using q(1) by (auto simp: rows' set_update_where)
      have "q = q0" using q0(2) q(2) by (cases "?hit q0") auto
      then show ?thesis using ledger_row [OF ok, of q0] q0(1) q(2) by auto
    qed
  qed
qed

lemma mark_claimed_sel [simp]:
  "pr_id (mark_claimed now r) = pr_id r" "pr_status (mark_claimed now r) = ''claimed''" "pr_remote (mark_claimed now r) = pr_remote r"
  "pr_org_id (mark_claimed now r) = pr_org_id r" "pr_project_id (mark_claimed now r) = pr_project_id r"
  "pr_approved_by (mark_claimed now r) = pr_approved_by r" "pr_label (mark_claimed now r) = pr_label r"
  by (simp_all add: mark_claimed_def)

text \<open>A claim spends the approval of its row, whether or not the key insert goes through.\<close>

lemma claim_ledger:
  assumes ok: "ledger_ok es rows" and cl: "claim_pairing now h rows = (Some r, rows')"
  shows "status_of (pr_id r) rows = Some ''approved''"
    and "ledger_ok es rows'"
    and "ledger_ok (es @ [Minted (pr_id r) t]) rows'"
    and "\<exists>org project who. Approved (pr_id r) org project who \<in> set es \<and>
      pr_org_id r = Some org \<and> pr_project_id r = Some project \<and> pr_approved_by r = Some who"
proof -
  have rows': "rows' = update_where (claimable now h) (mark_claimed now) rows" using cl by (simp add: claim_pairing_def)
  obtain r0 where r0: "find (claimable now h) rows = Some r0" "r = mark_claimed now r0" using cl by (auto simp: claim_pairing_def)
  have in0: "r0 \<in> set rows" "claimable now h r0" using r0(1) by (auto simp: find_Some_iff)
  then have st0: "pr_status r0 = ''approved''" by (simp add: claimable_def)
  show st: "status_of (pr_id r) rows = Some ''approved''"
    using status_of_member [OF ledger_keys [OF ok] in0(1)] st0 r0(2) by simp
  show "\<exists>org project who. Approved (pr_id r) org project who \<in> set es \<and>
      pr_org_id r = Some org \<and> pr_project_id r = Some project \<and> pr_approved_by r = Some who"
    using ledger_row [OF ok in0(1) st0] r0(2) by simp
  have lu: "lookup pr_id j rows' = map_option (\<lambda>r. if claimable now h r then mark_claimed now r else r) (lookup pr_id j rows)" for j
    unfolding rows' by (rule lookup_update_where) simp
  have mono: "status_of j rows' = Some s \<Longrightarrow> s \<noteq> ''claimed'' \<Longrightarrow> status_of j rows = Some s" for j s
    by (cases "lookup pr_id j rows") (auto simp: status_of_def lu split: if_splits)
  have spent: "status_of (pr_id r) rows' = Some ''claimed''"
  proof -
    have "lookup pr_id (pr_id r0) rows = Some r0" using in0(1) lookup_Some_iff [OF ledger_keys [OF ok]] by auto
    then show ?thesis using in0(2) r0(2) by (simp add: status_of_def lu)
  qed
  have d: "distinct (map pr_id rows')" using ledger_keys [OF ok] by (simp add: rows')
  have row: "\<exists>org project who. Approved (pr_id q) org project who \<in> set es \<and>
      pr_org_id q = Some org \<and> pr_project_id q = Some project \<and> pr_approved_by q = Some who"
    if q: "q \<in> set rows'" "pr_status q = ''approved''" for q
  proof -
    obtain q0 where q0: "q0 \<in> set rows" "q = (if claimable now h q0 then mark_claimed now q0 else q0)"
      using q(1) by (auto simp: rows' set_update_where)
    have "q = q0" using q0(2) q(2) by (cases "claimable now h q0") auto
    then show ?thesis using ledger_row [OF ok, of q0] q0(1) q(2) by auto
  qed
  have le: "of_bool (status_of j rows' = Some s) \<le> (of_bool (status_of j rows = Some s) :: nat)" if "s \<noteq> ''claimed''" for j s
    using mono [OF _ that] by auto
  have a: "tally (minted j) es + of_bool (status_of j rows' = Some ''approved'') \<le> tally (approved j) es" for j
    by (rule order_trans [OF add_left_mono [OF le] ledger_minted [OF ok, of j]]) simp
  have b: "tally (approved j) es + tally (denied j) es + of_bool (status_of j rows' = Some ''pending'') \<le> tally (opened j) es" for j
    by (rule order_trans [OF add_left_mono [OF le] ledger_decided [OF ok, of j]]) simp
  show "ledger_ok es rows'" by (rule ledger_okI [OF d a b row])
  show "ledger_ok (es @ [Minted (pr_id r) t]) rows'"
  proof (rule ledger_okI [OF d])
    show "tally (minted j) (es @ [Minted (pr_id r) t]) + of_bool (status_of j rows' = Some ''approved'')
        \<le> tally (approved j) (es @ [Minted (pr_id r) t])" for j
      using ledger_minted [OF ok, of j] a [of j] st spent by (cases "j = pr_id r") auto
    show "tally (approved j) (es @ [Minted (pr_id r) t]) + tally (denied j) (es @ [Minted (pr_id r) t]) +
        of_bool (status_of j rows' = Some ''pending'') \<le> tally (opened j) (es @ [Minted (pr_id r) t])" for j
      using b [of j] by simp
  qed (use row in auto)
qed

text \<open>What the claiming half of a poll does to the tables.\<close>

lemma claim_and_mint_claims:
  assumes cm: "claim_and_mint hash_token now h k ra rb db = (x, db')" and cl: "claim_pairing now h (pairings db) = (Some r, rows)"
  shows "pairings db' = rows"
  using cm cl by (auto simp: claim_and_mint_def Let_def mint_secret_def split: option.splits)

lemma claim_and_mint_key:
  assumes cm: "claim_and_mint hash_token now h k ra rb db = (x, db')" and cl: "claim_pairing now h (pairings db) = (Some r, rows)"
    and appr: "pr_org_id r = Some org" "pr_project_id r = Some project" "pr_approved_by r = Some who"
  shows "new_keys (pr_id r) (dp_tenancy db) (dp_tenancy db') = [] \<or>
    (\<exists>t. new_keys (pr_id r) (dp_tenancy db) (dp_tenancy db') = [Minted (pr_id r) t] \<and> tk_org_id t = org \<and> tk_user_id t = who \<and>
       tk_project_id t = Some project \<and> tk_scopes t = ONBOARD_SCOPES \<and> tk_revoked_at t = None)"
proof (cases "create_token now k org who (key_name r) (snd (mint_secret ra rb)) (hash_token (fst (mint_secret ra rb)))
    ONBOARD_SCOPES (Some project) who (dp_tenancy db)")
  case None
  then have "db' = db\<lparr> pairings := rows \<rparr>"
    using cm cl appr by (simp add: claim_and_mint_def Let_def case_prod_beta)
  then show ?thesis by (simp add: new_keys_def)
next
  case (Some t)
  then have "db' = db\<lparr> pairings := rows, dp_tenancy := t \<rparr>"
    using cm cl appr by (simp add: claim_and_mint_def Let_def case_prod_beta)
  then show ?thesis using Some by (auto simp: new_keys_def create_token_def split: if_splits)
qed

lemma start_step:
  assumes "ledger_ok es rows" and "onboard_start hash_token now body k bytes a b rows = (x, rows')"
  shows "ledger_ok (es @ (case x of Inr _ \<Rightarrow> [Opened k] | Inl _ \<Rightarrow> [])) rows'"
  using assms(2) assms(1) prune_ledger [OF assms(1)]
  by (auto simp: onboard_start_def Let_def split: if_splits option.splits elim!: start_ledger [rotated])

lemma approve_step:
  assumes "ledger_ok es (pairings db)" and "request_approve now k org who db = (x, db')"
  shows "ledger_ok (es @ (case x of Inr (_, project, _) \<Rightarrow> [Approved k org project who] | Inl _ \<Rightarrow> [])) (pairings db')"
  using assms
  by (auto simp: request_approve_def split: option.splits prod.splits bool.splits intro: approve_ledger)

lemma deny_step:
  assumes "ledger_ok es (pairings db)" and "request_deny k db = (x, db')"
  shows "ledger_ok (es @ (case x of Inr _ \<Rightarrow> [Denied k] | Inl _ \<Rightarrow> [])) (pairings db')"
  using assms by (auto simp: request_deny_def split: prod.splits bool.splits intro: deny_ledger)

definition paid_for :: "pairing_event list \<Rightarrow> pairing_event \<Rightarrow> bool" where
  "paid_for es e \<longleftrightarrow> (\<forall>k t. e = Minted k t \<longrightarrow> (\<exists>org project who. Approved k org project who \<in> set es \<and>
     tk_org_id t = org \<and> tk_user_id t = who \<and> tk_project_id t = Some project \<and> tk_scopes t = ONBOARD_SCOPES))"

lemma pairing_step_ledger:
  assumes "pairing_step hash_token db ev db'" "ledger_ok es (pairings db)"
  shows "ledger_ok (es @ ev) (pairings db') \<and> list_all (paid_for es) ev \<and> length ev \<le> 1"
  using assms
proof (induction rule: pairing_step.induct)
  case (P_start now body k bytes a b db x rows)
  then show ?case using start_step [OF P_start(2) P_start(1)] by (cases x) (auto simp: paid_for_def)
next
  case (P_approve now k org who db x db')
  then show ?case using approve_step [OF P_approve(2) P_approve(1)] by (cases x) (auto simp: paid_for_def)
next
  case (P_deny k db x db')
  then show ?case using deny_step [OF P_deny(2) P_deny(1)] by (cases x) (auto simp: paid_for_def)
next
  case (P_claim now h k ra rb db x db')
  show ?case
  proof (cases "claim_pairing now h (pairings db)")
    case (Pair found rows)
    show ?thesis
    proof (cases found)
      case None
      then have "db' = db" using P_claim(1) Pair by (simp add: claim_and_mint_def)
      then show ?thesis using P_claim(2) Pair None by simp
    next
      case (Some r)
      note cl = Pair [unfolded Some]
      obtain org project who where appr: "Approved (pr_id r) org project who \<in> set es"
          "pr_org_id r = Some org" "pr_project_id r = Some project" "pr_approved_by r = Some who"
        using claim_ledger(4) [OF P_claim(2) cl] by blast
      have p: "pairings db' = rows" by (rule claim_and_mint_claims [OF P_claim(1) cl])
      from claim_and_mint_key [OF P_claim(1) cl appr(2-4)] show ?thesis
      proof (elim disjE exE conjE)
        assume "new_keys (pr_id r) (dp_tenancy db) (dp_tenancy db') = []"
        then show ?thesis using claim_ledger(2) [OF P_claim(2) cl] by (simp add: cl p)
      next
        fix t assume t: "new_keys (pr_id r) (dp_tenancy db) (dp_tenancy db') = [Minted (pr_id r) t]" "tk_org_id t = org" "tk_user_id t = who"
          "tk_project_id t = Some project" "tk_scopes t = ONBOARD_SCOPES"
        then have "paid_for es (Minted (pr_id r) t)" using appr(1) unfolding paid_for_def by blast
        then show ?thesis using claim_ledger(3) [OF P_claim(2) cl] by (simp add: cl p t(1))
      qed
    qed
  qed
next
  case (P_other db' db)
  then show ?case by simp
qed

lemma pairing_run_ledger:
  assumes "pairing_run hash_token db0 es db" "pairings db0 = []"
  shows "ledger_ok es (pairings db) \<and> (\<forall>a e b. es = a @ e # b \<longrightarrow> paid_for a e)"
  using assms
proof (induction rule: pairing_run.induct)
  case (R_start db)
  have "ledger_ok [] []" by (rule ledger_okI) (simp_all add: status_of_def lookup_def)
  then show ?case using R_start by simp
next
  case (R_step db es db1 ev db2)
  have ih: "ledger_ok es (pairings db1)" "\<forall>a e b. es = a @ e # b \<longrightarrow> paid_for a e" using R_step by auto
  have st: "ledger_ok (es @ ev) (pairings db2)" "list_all (paid_for es) ev" "length ev \<le> 1"
    using pairing_step_ledger [OF R_step(2) ih(1)] by auto
  have "paid_for a e" if "es @ ev = a @ e # b" for a e b
  proof (cases ev)
    case Nil
    then show ?thesis using that ih(2) by simp
  next
    case (Cons e' rest)
    then have ev: "ev = [e']" using st(3) by simp
    show ?thesis
    proof (cases b rule: rev_cases)
      case Nil
      then show ?thesis using that ev st(2) by simp
    next
      case (snoc b' z)
      then have "es = a @ e # b'" using that ev by simp
      then show ?thesis using ih(2) by blast
    qed
  qed
  then show ?case using st(1) by blast
qed

text \<open>C2: Each pairing mints at most one key, and only after its own approval.  In every history of starts,
  approvals, denials, racing polls and other writes that begins with an empty pairing table, and for
  every pairing id: there are at most as many keys as approvals, and at most as many approvals and
  denials together as openings of that id; and every minted key is preceded by an approval of the same
  pairing whose organisation, operator and project are the key's, with scopes read and write and so
  without admin.\<close>

theorem pairing_mints_once:
  assumes "pairing_run hash_token db0 es db" and "pairings db0 = []"
  shows "(\<forall>k. tally (minted k) es \<le> tally (approved k) es \<and>
      tally (approved k) es + tally (denied k) es \<le> tally (opened k) es) \<and>
    (\<forall>earlier k t later. es = earlier @ Minted k t # later \<longrightarrow>
      (\<exists>org project who. Approved k org project who \<in> set earlier \<and> tk_org_id t = org \<and> tk_user_id t = who \<and>
        tk_project_id t = Some project \<and> tk_scopes t = [''read'', ''write''] \<and> ''admin'' \<notin> set (tk_scopes t)))"
  using pairing_run_ledger [OF assms] ledger_log [of es "pairings db"]
  by (fastforce simp: paid_for_def ONBOARD_SCOPES_def)

section \<open>A pairing that is approved in time pays out\<close>

lemma find_snoc: "\<forall>x\<in>set xs. \<not> P x \<Longrightarrow> P y \<Longrightarrow> find P (xs @ [y]) = Some y"
  by (induction xs) auto

lemma update_where_snoc: "\<forall>x\<in>set xs. \<not> p x \<Longrightarrow> p y \<Longrightarrow> update_where p f (xs @ [y]) = xs @ [f y]"
  by (simp add: update_where_def map_idI)

lemma fresh_prune:
  assumes "k \<notin> pr_id ` set rows" "h \<notin> pr_device_hash ` set rows" "u \<notin> pr_user_code ` set rows"
  shows "\<forall>r\<in>set (prune_expired now rows). pr_id r \<noteq> k \<and> pr_device_hash r \<noteq> h \<and> pr_user_code r \<noteq> u"
  using assms by (auto simp: prune_expired_def)

text \<open>The row a start leaves, as the later steps see it.\<close>

definition opened_row :: "instant \<Rightarrow> uuid \<Rightarrow> string \<Rightarrow> string \<Rightarrow> string \<Rightarrow> string \<Rightarrow> string \<Rightarrow> pairing_row" where
  "opened_row now k u h remote label path =
    \<lparr> pr_id = k, pr_user_code = u, pr_device_hash = h, pr_remote = remote, pr_label = label, pr_path = path,
       pr_status = ''pending'', pr_org_id = None, pr_project_id = None, pr_approved_by = None,
       pr_created_at = now, pr_expires_at = now + PAIRING_TTL_SECS, pr_claimed_at = None \<rparr>"

definition approved_row :: "uuid \<Rightarrow> uuid \<Rightarrow> uuid \<Rightarrow> pairing_row \<Rightarrow> pairing_row" where
  "approved_row org project who r =
    r\<lparr> pr_status := ''approved'', pr_org_id := Some org, pr_project_id := Some project, pr_approved_by := Some who \<rparr>"

lemma opened_row_sel [simp]:
  "pr_id (opened_row now k u h remote label path) = k" "pr_device_hash (opened_row now k u h remote label path) = h"
  "pr_remote (opened_row now k u h remote label path) = remote" "pr_path (opened_row now k u h remote label path) = path"
  "pr_status (opened_row now k u h remote label path) = ''pending''"
  "pr_expires_at (opened_row now k u h remote label path) = now + PAIRING_TTL_SECS"
  by (simp_all add: opened_row_def)

lemma approved_row_sel [simp]:
  "pr_id (approved_row org project who r) = pr_id r" "pr_device_hash (approved_row org project who r) = pr_device_hash r"
  "pr_status (approved_row org project who r) = ''approved''" "pr_expires_at (approved_row org project who r) = pr_expires_at r"
  "pr_org_id (approved_row org project who r) = Some org" "pr_project_id (approved_row org project who r) = Some project"
  "pr_approved_by (approved_row org project who r) = Some who" "pr_remote (approved_row org project who r) = pr_remote r"
  by (simp_all add: approved_row_def)

lemma mark_claimed_hash [simp]: "pr_device_hash (mark_claimed now r) = pr_device_hash r"
  by (simp add: mark_claimed_def)

lemma start_opens:
  assumes "length (sb_remote body) \<le> MAX_REMOTE_CHARS" "normalize_remote (sb_remote body) = Some remote"
    and "pending_count now (prune_expired now rows) < MAX_PENDING"
    and "\<forall>r\<in>set (prune_expired now rows). pr_id r \<noteq> k \<and> pr_device_hash r \<noteq> hash_token (mint_device_code a b) \<and>
      pr_user_code r \<noteq> mint_user_code bytes"
  shows "onboard_start hash_token now body k bytes a b rows =
    (Inr \<lparr> sr_user_code = mint_user_code bytes, sr_device_code = mint_device_code a b, sr_remote = remote,
           sr_expires_in_secs = PAIRING_TTL_SECS, sr_poll_interval_secs = POLL_INTERVAL_SECS \<rparr>,
     prune_expired now rows @ [opened_row now k (mint_user_code bytes) (hash_token (mint_device_code a b)) remote
       (label_of (sb_label body)) (normalize_path_prefix (case sb_path body of None \<Rightarrow> [] | Some p \<Rightarrow> p))])"
proof -
  have "start_pairing now k (mint_user_code bytes) (hash_token (mint_device_code a b)) remote label path PAIRING_TTL_SECS (prune_expired now rows) =
      Some (prune_expired now rows @ [opened_row now k (mint_user_code bytes) (hash_token (mint_device_code a b)) remote label path])" for label path
    using assms(4) unfolding start_pairing_def opened_row_def by auto
  then show ?thesis using assms(1-3) by (simp add: onboard_start_def Let_def)
qed

lemma approve_opens:
  assumes "\<forall>x\<in>set rs. pr_id x \<noteq> pr_id r" "pr_status r = ''pending''" "now < pr_expires_at r"
    and "find_by_remote org (pr_remote r) (pr_path r) (dp_registry db) = Some (project, name)" and "pairings db = rs @ [r]"
  shows "request_approve now (pr_id r) org who db =
    (Inr (pr_id r, project, name), db\<lparr> pairings := rs @ [approved_row org project who r] \<rparr>)"
proof -
  have g: "get_pairing (pr_id r) (pairings db) = Some r" using assms(1) by (simp add: get_pairing_def assms(5) find_snoc)
  have "approve_pairing now (pr_id r) org project who (pairings db) = (True, rs @ [approved_row org project who r])"
    using assms(1-3) unfolding approve_pairing_def Let_def assms(5)
    by (subst update_where_snoc) (auto simp: live_pending_def rows_affected_def approved_row_def)
  then show ?thesis using assms(4) g by (simp add: request_approve_def)
qed

lemma claim_pays:
  assumes "\<forall>x\<in>set rs. pr_device_hash x \<noteq> h" "pr_device_hash r = h" "pr_status r = ''approved''" "now < pr_expires_at r"
    and "pr_org_id r = Some org" "pr_project_id r = Some project" "pr_approved_by r = Some who"
    and "pairings db = rs @ [r]"
    and "k \<notin> tk_id ` set (token_rows (dp_tenancy db))" "hash_token (TOKEN_PREFIX @ ra @ rb) \<notin> tk_hash ` set (token_rows (dp_tenancy db))"
  obtains name t where "claim_and_mint hash_token now h k ra rb db =
      (Inr \<lparr> po_status = ''approved'', po_token = Some (TOKEN_PREFIX @ ra @ rb), po_project_id = Some project,
             po_project_name = name, po_org_id = Some org \<rparr>,
       db\<lparr> pairings := rs @ [mark_claimed now r], dp_tenancy := (dp_tenancy db)\<lparr> token_rows := token_rows (dp_tenancy db) @ [t] \<rparr> \<rparr>)"
    "tk_hash t = hash_token (TOKEN_PREFIX @ ra @ rb)" "tk_org_id t = org" "tk_user_id t = who" "tk_project_id t = Some project"
    "tk_scopes t = ONBOARD_SCOPES" "tk_revoked_at t = None"
proof -
  have c: "claim_pairing now h (pairings db) = (Some (mark_claimed now r), rs @ [mark_claimed now r])"
    using assms(1-4) by (simp add: claim_pairing_def assms(8) find_snoc update_where_snoc claimable_def)
  let ?t = "\<lparr> tk_id = k, tk_org_id = org, tk_user_id = who, tk_name = key_name (mark_claimed now r), tk_prefix = snd (mint_secret ra rb),
    tk_hash = hash_token (TOKEN_PREFIX @ ra @ rb), tk_scopes = ONBOARD_SCOPES, tk_project_id = Some project, tk_created_by = who,
    tk_created_at = now, tk_last_used_at = None, tk_revoked_at = None \<rparr>"
  have t: "create_token now k org who (key_name (mark_claimed now r)) (snd (mint_secret ra rb)) (hash_token (fst (mint_secret ra rb)))
      ONBOARD_SCOPES (Some project) who (dp_tenancy db) = Some ((dp_tenancy db)\<lparr> token_rows := token_rows (dp_tenancy db) @ [?t] \<rparr>)"
    using assms(9,10) by (simp add: create_token_def mint_secret_def Let_def)
  have s: "fst (mint_secret ra rb) = TOKEN_PREFIX @ ra @ rb" by (simp add: mint_secret_def Let_def)
  show thesis
    by (rule that [of "map_option pj_name (find (\<lambda>p. pj_id p = project) (list_projects org (dp_registry db)))" ?t])
      (simp_all add: claim_and_mint_def c assms(5-7) Let_def case_prod_beta t [unfolded s] s)
qed

text \<open>A fresh, unrevoked key answers for the scopes it has.\<close>

lemma new_key_authenticates:
  assumes "tk_hash t = hash_token (TOKEN_PREFIX @ s)" "tk_revoked_at t = None" "tk_org_id t = org" "tk_user_id t = who"
    "tk_project_id t = Some project" "tk_scopes t = ONBOARD_SCOPES"
    and "hash_token (TOKEN_PREFIX @ s) \<notin> tk_hash ` set rows" "env_principal env (TOKEN_PREFIX @ s) = None"
  shows "\<exists>ctx. fst (auth_of hash_token now env (Some (''Bearer '' @ TOKEN_PREFIX @ s)) ''write'' (db\<lparr> token_rows := rows @ [t] \<rparr>)) = Inr ctx \<and>
      p_org_id (ac_principal ctx) = org \<and> p_user_id (ac_principal ctx) = who \<and> p_project_id (ac_principal ctx) = Some project"
    and "fst (auth_of hash_token now env (Some (''Bearer '' @ TOKEN_PREFIX @ s)) ''admin'' (db\<lparr> token_rows := rows @ [t] \<rparr>)) = Inl (Forbidden ''admin'')"
proof -
  let ?db = "db\<lparr> token_rows := rows @ [t] \<rparr>"
  let ?x = "\<lparr> rt_id = tk_id t, rt_org_id = org, rt_user_id = who, rt_scopes = ONBOARD_SCOPES, rt_project_id = Some project \<rparr>"
  obtain db' where rs: "resolve_token now (hash_token (TOKEN_PREFIX @ s)) ?db = (Some ?x, db')"
  proof -
    have "find (\<lambda>r. tk_hash r = hash_token (TOKEN_PREFIX @ s) \<and> tk_revoked_at r = None) (rows @ [t]) = Some t"
      using assms(1,2,7) by (intro find_snoc) (auto simp: image_iff)
    then show thesis using that assms(3-6) by (simp add: resolve_token_def Let_def)
  qed
  have sp: "strip_prefix (''Bearer '' @ TOKEN_PREFIX @ s) ''Bearer '' = Some (TOKEN_PREFIX @ s)" by (simp add: strip_prefix_iff)
  have st: "starts_with (TOKEN_PREFIX @ s) TOKEN_PREFIX" by (simp add: starts_with_iff)
  let ?ctx = "\<lparr> ac_principal = \<lparr> p_org_id = org, p_user_id = who, p_team_ids = team_ids_of org who db', p_project_id = Some project \<rparr>,
      ac_scopes = Some ONBOARD_SCOPES, ac_project_id = Some project, ac_token_id = Some (tk_id t) \<rparr>"
  have rb: "resolve_bearer hash_token now env (TOKEN_PREFIX @ s) ?db = (Some ?ctx, db')"
    unfolding resolve_bearer_def assms(8) rs by (simp add: st)
  have al: "allows ?ctx ''write''" "\<not> allows ?ctx ''admin''" by (simp_all add: allows_def ONBOARD_SCOPES_def)
  have a: "fst (auth_of hash_token now env (Some (''Bearer '' @ TOKEN_PREFIX @ s)) ''write'' ?db) = Inr ?ctx"
    unfolding auth_of_def Option.bind.simps sp option.case rb prod.case using al(1) by simp
  show "\<exists>ctx. fst (auth_of hash_token now env (Some (''Bearer '' @ TOKEN_PREFIX @ s)) ''write'' ?db) = Inr ctx \<and>
      p_org_id (ac_principal ctx) = org \<and> p_user_id (ac_principal ctx) = who \<and> p_project_id (ac_principal ctx) = Some project"
    unfolding a by auto
  show "fst (auth_of hash_token now env (Some (''Bearer '' @ TOKEN_PREFIX @ s)) ''admin'' ?db) = Inl (Forbidden ''admin'')"
    unfolding auth_of_def Option.bind.simps sp option.case rb prod.case using al(2) by simp
qed

text \<open>C21: A pairing approved before it expires pays out.  Take a remote the start accepts and that is
  registered in the operator's organisation, fewer than \<open>MAX_PENDING\<close> live requests, fresh random values,
  and an approval and a poll before the expiry.  Then the start answers with a device code, the approval
  succeeds with the project the whitelist names, the poll with that code returns the secret, the secret
  authenticates for \<open>write\<close> as the approving operator within that project and not for \<open>admin\<close>, and a
  second poll reports \<open>claimed\<close> and no secret.\<close>

theorem approved_pairing_pays_out:
  assumes "length (sb_remote body) \<le> MAX_REMOTE_CHARS" "normalize_remote (sb_remote body) = Some remote"
    and room: "pending_count now (prune_expired now (pairings db)) < MAX_PENDING"
    and fresh: "k \<notin> pr_id ` set (pairings db)" "hash_token (mint_device_code a b) \<notin> pr_device_hash ` set (pairings db)"
      "mint_user_code bytes \<notin> pr_user_code ` set (pairings db)"
    and registered: "find_by_remote org remote (normalize_path_prefix (case sb_path body of None \<Rightarrow> [] | Some p \<Rightarrow> p)) (dp_registry db) = Some (project, name)"
    and in_time: "t1 < now + PAIRING_TTL_SECS" "t2 < now + PAIRING_TTL_SECS"
    and fresh_key: "k' \<notin> tk_id ` set (token_rows (dp_tenancy db))"
      "hash_token (TOKEN_PREFIX @ ra @ rb) \<notin> tk_hash ` set (token_rows (dp_tenancy db))" "env_principal env (TOKEN_PREFIX @ ra @ rb) = None"
  shows "\<exists>begun rows1 db2 answer db3. onboard_start hash_token now body k bytes a b (pairings db) = (Inr begun, rows1) \<and>
    request_approve t1 k org who (db\<lparr> pairings := rows1 \<rparr>) = (Inr (k, project, name), db2) \<and>
    onboard_poll hash_token t2 t2 (sr_device_code begun) k' ra rb id db2 = (Inr answer, db3) \<and>
    po_token answer = Some (TOKEN_PREFIX @ ra @ rb) \<and> po_project_id answer = Some project \<and> po_org_id answer = Some org \<and>
    (\<exists>ctx. fst (auth_of hash_token t3 env (Some (''Bearer '' @ TOKEN_PREFIX @ ra @ rb)) ''write'' (dp_tenancy db3)) = Inr ctx \<and>
      p_org_id (ac_principal ctx) = org \<and> p_user_id (ac_principal ctx) = who \<and> p_project_id (ac_principal ctx) = Some project) \<and>
    fst (auth_of hash_token t3 env (Some (''Bearer '' @ TOKEN_PREFIX @ ra @ rb)) ''admin'' (dp_tenancy db3)) = Inl (Forbidden ''admin'') \<and>
    onboard_poll hash_token t4 t4 (sr_device_code begun) k'' ra' rb' id db3 = (Inr (bare ''claimed''), db3)"
proof -
  let ?h = "hash_token (mint_device_code a b)" and ?rs = "prune_expired now (pairings db)"
  let ?r = "opened_row now k (mint_user_code bytes) ?h remote (label_of (sb_label body))
      (normalize_path_prefix (case sb_path body of None \<Rightarrow> [] | Some p \<Rightarrow> p))"
  let ?r2 = "approved_row org project who ?r"
  let ?db2 = "db\<lparr> pairings := ?rs @ [?r2] \<rparr>"
  have new: "\<forall>r\<in>set ?rs. pr_id r \<noteq> k \<and> pr_device_hash r \<noteq> ?h \<and> pr_user_code r \<noteq> mint_user_code bytes"
    by (rule fresh_prune [OF fresh])
  note opened = start_opens [where hash_token = hash_token and a = a and b = b and bytes = bytes and k = k, OF assms(1,2) room new]
  have appr: "request_approve t1 k org who (db\<lparr> pairings := ?rs @ [?r] \<rparr>) = (Inr (k, project, name), ?db2)"
    using approve_opens [of ?rs ?r t1 org "db\<lparr> pairings := ?rs @ [?r] \<rparr>" project name who] new in_time(1) registered by simp
  have new_hash: "\<forall>r\<in>set ?rs. pr_device_hash r \<noteq> ?h" using new by blast
  obtain nm t where pay: "claim_and_mint hash_token t2 ?h k' ra rb ?db2 =
      (Inr \<lparr> po_status = ''approved'', po_token = Some (TOKEN_PREFIX @ ra @ rb), po_project_id = Some project,
             po_project_name = nm, po_org_id = Some org \<rparr>,
       ?db2\<lparr> pairings := ?rs @ [mark_claimed t2 ?r2], dp_tenancy := (dp_tenancy ?db2)\<lparr> token_rows := token_rows (dp_tenancy ?db2) @ [t] \<rparr> \<rparr>)"
    and t: "tk_hash t = hash_token (TOKEN_PREFIX @ ra @ rb)" "tk_org_id t = org" "tk_user_id t = who" "tk_project_id t = Some project"
      "tk_scopes t = ONBOARD_SCOPES" "tk_revoked_at t = None"
    by (rule claim_pays [of ?rs ?h ?r2 t2 org project who ?db2 k' hash_token ra rb])
      (use new_hash in_time(2) fresh_key in simp_all)
  let ?db3 = "?db2\<lparr> pairings := ?rs @ [mark_claimed t2 ?r2], dp_tenancy := (dp_tenancy ?db2)\<lparr> token_rows := token_rows (dp_tenancy ?db2) @ [t] \<rparr> \<rparr>"
  have read: "get_by_device_hash ?h (pairings ?db2) = Some ?r2" using new_hash by (simp add: get_by_device_hash_def find_snoc)
  have go: "poll_state t2 ?r2 = None" using in_time(2) by (simp add: poll_state_def Let_def)
  have poll: "onboard_poll hash_token t2 t2 (mint_device_code a b) k' ra rb id ?db2 =
      (Inr \<lparr> po_status = ''approved'', po_token = Some (TOKEN_PREFIX @ ra @ rb), po_project_id = Some project,
             po_project_name = nm, po_org_id = Some org \<rparr>, ?db3)"
    unfolding onboard_poll_def Let_def read option.case go id_apply by (rule pay)
  have read3: "get_by_device_hash ?h (pairings ?db3) = Some (mark_claimed t2 ?r2)" using new_hash by (simp add: get_by_device_hash_def find_snoc)
  have stay: "poll_state t4 (mark_claimed t2 ?r2) = Some (Inr (bare ''claimed''))" by (simp add: poll_state_def Let_def)
  have again: "onboard_poll hash_token t4 t4 (mint_device_code a b) k'' ra' rb' id ?db3 = (Inr (bare ''claimed''), ?db3)"
    unfolding onboard_poll_def Let_def read3 option.case stay ..
  have ten: "dp_tenancy ?db3 = (dp_tenancy db)\<lparr> token_rows := token_rows (dp_tenancy db) @ [t] \<rparr>" by simp
  note live = new_key_authenticates [where hash_token = hash_token and now = t3 and db = "dp_tenancy db" and s = "ra @ rb",
    OF t(1,6,2-5) fresh_key(2,3), folded ten]
  let ?begun = "\<lparr> sr_user_code = mint_user_code bytes, sr_device_code = mint_device_code a b, sr_remote = remote,
      sr_expires_in_secs = PAIRING_TTL_SECS, sr_poll_interval_secs = POLL_INTERVAL_SECS \<rparr>"
  have code: "sr_device_code ?begun = mint_device_code a b" by simp
  let ?answer = "\<lparr> po_status = ''approved'', po_token = Some (TOKEN_PREFIX @ ra @ rb), po_project_id = Some project,
      po_project_name = nm, po_org_id = Some org \<rparr>"
  have answer: "po_token ?answer = Some (TOKEN_PREFIX @ ra @ rb)" "po_project_id ?answer = Some project" "po_org_id ?answer = Some org"
    by simp_all
  show ?thesis
    by (rule exI [of _ ?begun], rule exI [of _ "?rs @ [?r]"], rule exI [of _ ?db2], rule exI [of _ ?answer], rule exI [of _ ?db3], unfold code)
      (intro conjI; (rule opened | rule appr | rule poll | rule again | rule live | rule answer))
qed

definition example_body :: start_body where
  "example_body = \<lparr> sb_remote = ''git@'' @ ''github.com'' @ '':'' @ join ''/'' [''acme'', ''mono''] @ ''.git'', sb_label = None, sb_path = None \<rparr>"

definition example_deployment :: deployment where
  "example_deployment = \<lparr> pairings = [], dp_registry = example_registry, dp_tenancy = empty_tenancy \<rparr>"

lemma example_remote: "normalize_remote (sb_remote example_body) = Some ''github.com/acme/mono''" "length (sb_remote example_body) \<le> MAX_REMOTE_CHARS"
proof -
  have ok: "remote_ok ''github.com'' [''acme''] ''mono''" by code_simp
  have "sb_remote example_body \<in> set (spellings ''github.com'' [''acme''] ''mono'')"
    unfolding spellings_def url_tails_def example_body_def by simp
  moreover have "canonical_remote ''github.com'' [''acme''] ''mono'' = ''github.com/acme/mono''" by code_simp
  ultimately show "normalize_remote (sb_remote example_body) = Some ''github.com/acme/mono''"
    using normalize_spelling [OF ok] by simp
  show "length (sb_remote example_body) \<le> MAX_REMOTE_CHARS" by (simp add: example_body_def MAX_REMOTE_CHARS_def)
qed

lemma example_lookup: "find_by_remote 1 ''github.com/acme/mono'' [] example_registry = Some (30, ''mono'')"
  by code_simp

lemma example_premises:
  "pending_count 0 (prune_expired 0 (pairings example_deployment)) < MAX_PENDING"
  "50 \<notin> pr_id ` set (pairings example_deployment)" "h \<notin> pr_device_hash ` set (pairings example_deployment)"
  "u \<notin> pr_user_code ` set (pairings example_deployment)"
  "find_by_remote 1 ''github.com/acme/mono'' (normalize_path_prefix (case sb_path example_body of None \<Rightarrow> [] | Some p \<Rightarrow> p))
     (dp_registry example_deployment) = Some (30, ''mono'')"
  "(10::int) < 0 + PAIRING_TTL_SECS" "(30::int) < 0 + PAIRING_TTL_SECS"
  "60 \<notin> tk_id ` set (token_rows (dp_tenancy example_deployment))" "h \<notin> tk_hash ` set (token_rows (dp_tenancy example_deployment))"
  "env_principal [] bearer = None"
  by (simp_all add: example_deployment_def empty_tenancy_def pending_count_def prune_expired_def delete_where_def MAX_PENDING_def
      example_body_def normalize_path_prefix_def trim_by_def trim_start_by_def trim_end_by_def PAIRING_TTL_SECS_def env_principal_def
      example_lookup [simplified])

lemma approved_pairing_pays_out_witness:
  "\<exists>db2 answer db3. onboard_poll id 30 30 (mint_device_code ''x'' ''y'') 60 ''s'' ''t'' id db2 = (Inr answer, db3) \<and>
    po_token answer = Some (TOKEN_PREFIX @ ''s'' @ ''t'') \<and> po_project_id answer = Some 30"
proof -
  obtain begun rows1 db2 answer db3 where w:
    "onboard_start id 0 example_body 50 [0] ''x'' ''y'' (pairings example_deployment) = (Inr begun, rows1)"
    "onboard_poll id 30 30 (sr_device_code begun) 60 ''s'' ''t'' id db2 = (Inr answer, db3)"
    "po_token answer = Some (TOKEN_PREFIX @ ''s'' @ ''t'')" "po_project_id answer = Some 30"
    using approved_pairing_pays_out [where hash_token = id and bytes = "[0]" and a = "''x''" and b = "''y''"
        and ra = "''s''" and rb = "''t''" and env = "[]", OF example_remote(2,1) example_premises]
    by blast
  from w(1) have "sr_device_code begun = mint_device_code ''x'' ''y''"
    by (auto simp: onboard_start_def Let_def split: if_splits option.splits)
  then show ?thesis using w(2-4) by metis
qed

lemma pairing_mints_once_witness:
  "\<exists>es db t. pairing_run id example_deployment es db \<and> es = [Opened 50, Approved 50 1 30 7, Minted 50 t] \<and> tk_project_id t = Some 30 \<and>
    ''admin'' \<notin> set (tk_scopes t)"
proof -
  let ?r = "opened_row 0 50 (mint_user_code [0]) (mint_device_code ''x'' ''y'') ''github.com/acme/mono'' (label_of None) []"
  let ?db1 = "example_deployment\<lparr> pairings := [?r] \<rparr>"
  let ?db2 = "example_deployment\<lparr> pairings := [approved_row 1 30 7 ?r] \<rparr>"
  have e: "pairings example_deployment = []" "dp_registry example_deployment = example_registry"
      "token_rows (dp_tenancy example_deployment) = []" "sb_label example_body = None"
      "normalize_path_prefix (case sb_path example_body of None \<Rightarrow> [] | Some p \<Rightarrow> p) = []" "prune_expired 0 [] = []"
    by (simp_all add: example_deployment_def empty_tenancy_def prune_expired_def delete_where_def
        example_body_def normalize_path_prefix_def trim_by_def trim_start_by_def trim_end_by_def)
  obtain x where o1: "onboard_start id 0 example_body 50 [0] ''x'' ''y'' (pairings example_deployment) = (Inr x, [?r])"
    using start_opens [where hash_token = id and bytes = "[0]" and a = "''x''" and b = "''y''" and k = 50, OF example_remote(2,1) example_premises(1)]
    by (simp add: e)
  have r1: "pairing_run id example_deployment [Opened 50] ?db1"
    using R_step [OF R_start P_start [OF o1]] by simp
  have "request_approve 10 50 1 7 ?db1 = (Inr (50, 30, ''mono''), ?db2)"
    using approve_opens [of "[]" ?r 10 1 ?db1 30 "''mono''" 7] example_lookup by (simp add: e PAIRING_TTL_SECS_def opened_row_def)
  from R_step [OF r1 P_approve [OF this]] have r2: "pairing_run id example_deployment [Opened 50, Approved 50 1 30 7] ?db2" by simp
  obtain nm t where pay: "claim_and_mint id 30 (mint_device_code ''x'' ''y'') 60 ''s'' ''t'' ?db2 =
      (Inr \<lparr> po_status = ''approved'', po_token = Some (TOKEN_PREFIX @ ''s'' @ ''t''), po_project_id = Some 30, po_project_name = nm, po_org_id = Some 1 \<rparr>,
       ?db2\<lparr> pairings := [] @ [mark_claimed 30 (approved_row 1 30 7 ?r)], dp_tenancy := (dp_tenancy ?db2)\<lparr> token_rows := token_rows (dp_tenancy ?db2) @ [t] \<rparr> \<rparr>)"
    by (rule claim_pays [of "[]" "mint_device_code ''x'' ''y''" "approved_row 1 30 7 ?r" 30 1 30 7 ?db2 60 id "''s''" "''t''"])
      (simp_all add: e PAIRING_TTL_SECS_def)
  have "fst (claim_pairing 30 (mint_device_code ''x'' ''y'') (pairings ?db2)) = Some (mark_claimed 30 (approved_row 1 30 7 ?r))"
    by (simp add: claim_pairing_def claimable_def PAIRING_TTL_SECS_def)
  then obtain db3 where r3: "pairing_run id example_deployment ([Opened 50, Approved 50 1 30 7] @ [Minted 50 t]) db3"
    using R_step [OF r2 P_claim [OF pay]] by (auto simp: new_keys_def e)
  have split: "[Opened 50, Approved 50 1 30 7] @ [Minted 50 t] = [Opened 50, Approved 50 1 30 7] @ Minted 50 t # []" by simp
  have "tk_project_id t = Some 30 \<and> ''admin'' \<notin> set (tk_scopes t)"
    using pairing_mints_once [OF r3 e(1)] split by fastforce
  then show ?thesis using r3 by auto
qed

section \<open>Two corners\<close>

text \<open>A poll at the very second of expiry reports \<open>claimed\<close> though nothing was claimed or minted: the read
  takes \<open>expires_at < now\<close> for expired, the claim needs \<open>expires_at > now\<close>.\<close>

lemma poll_at_expiry_says_claimed:
  assumes "get_by_device_hash (hash_token dc) (pairings db) = Some r" "pr_status r = ''approved''" "pr_expires_at r = now"
    and "\<forall>x\<in>set (pairings db). pr_device_hash x = hash_token dc \<longrightarrow> x = r"
  shows "onboard_poll hash_token now now dc k ra rb id db = (Inr (bare ''claimed''), db)"
proof -
  have "poll_state now r = None" using assms(2,3) by (simp add: poll_state_def Let_def)
  moreover have no: "\<forall>x\<in>set (pairings db). \<not> claimable now (hash_token dc) x" using assms(3,4) by (auto simp: claimable_def)
  then have "claim_pairing now (hash_token dc) (pairings db) = (None, pairings db)"
    by (simp add: claim_pairing_def find_None_iff update_where_none)
  ultimately show ?thesis using assms(1) by (simp add: onboard_poll_def claim_and_mint_def Let_def)
qed

text \<open>A denial looks at neither the caller's organisation nor the whitelist: any admin may deny any pending id.\<close>

lemma deny_ignores_the_whitelist:
  "get_pairing k (pairings db) = Some r \<Longrightarrow> pr_status r = ''pending'' \<Longrightarrow> fst (request_deny k db) = Inr k"
proof -
  assume r: "get_pairing k (pairings db) = Some r" "pr_status r = ''pending''"
  then have "r \<in> set (pairings db)" "pr_id r = k" by (auto simp: get_pairing_def find_Some_iff)
  then have "rows_affected (\<lambda>r. pr_id r = k \<and> pr_status r = ''pending'') (pairings db) \<noteq> 0"
    using r(2) by (auto simp: rows_affected_zero)
  then show ?thesis by (simp add: request_deny_def deny_pairing_def Let_def)
qed

end
