(* ===== verification/Breaker.thy ===== *)
theory Breaker
  imports Prelude
begin

text \<open>
  \<open>brainiac-gateway/src/resilience.rs\<close>: the circuit breaker in front of a model provider and the retry
  loop that runs under it.  The breaker is one record behind one lock, so each of its three methods is an
  atomic step at an instant of a monotonic clock (milliseconds).  The provider is a parameter: the
  outcome of its \<open>n\<close>-th call.  An abstract circuit with three states is stated beside the code's record
  and the three methods are shown to implement it.
\<close>

section \<open>Configuration\<close>

record retry_config =
  max_attempts :: nat
  base_delay :: nat
  max_delay :: nat

definition default_retry :: retry_config where
  "default_retry = \<lparr> max_attempts = 3, base_delay = 500, max_delay = 8000 \<rparr>"

text \<open>The arguments are the parsed environment variables.\<close>

definition retry_from_env :: "nat option \<Rightarrow> nat option \<Rightarrow> retry_config" where
  "retry_from_env retries ms =
    (let cfg = (case retries of Some n \<Rightarrow> default_retry\<lparr> max_attempts := max n 1 \<rparr> | None \<Rightarrow> default_retry)
     in case ms of Some d \<Rightarrow> cfg\<lparr> base_delay := max d 1 \<rparr> | None \<Rightarrow> cfg)"

section \<open>The breaker\<close>

record breaker =
  consecutive_failures :: nat
  open_until :: "instant option"
  probing_since :: "instant option"
  threshold :: nat
  cooldown :: int

definition default_breaker :: breaker where
  "default_breaker = \<lparr> consecutive_failures = 0, open_until = None, probing_since = None, threshold = 5, cooldown = 30000 \<rparr>"

definition breaker_from_env :: "nat option \<Rightarrow> nat option \<Rightarrow> breaker" where
  "breaker_from_env n secs =
    (let cb = (case n of Some k \<Rightarrow> default_breaker\<lparr> threshold := max k 1 \<rparr> | None \<Rightarrow> default_breaker)
     in case secs of Some s \<Rightarrow> cb\<lparr> cooldown := int (max s 1) * 1000 \<rparr> | None \<Rightarrow> cb)"

datatype refusal = CircuitOpen nat | ProbeInFlight

definition check :: "instant \<Rightarrow> breaker \<Rightarrow> refusal option \<times> breaker" where
  "check now b =
    (case open_until b of
       None \<Rightarrow> (None, b)
     | Some until \<Rightarrow>
         (if now < until then (Some (CircuitOpen (consecutive_failures b)), b)
          else if (case probing_since b of Some since \<Rightarrow> now - since < cooldown b | None \<Rightarrow> False)
          then (Some ProbeInFlight, b)
          else (None, b\<lparr> probing_since := Some now, consecutive_failures := 0 \<rparr>)))"

definition record_success :: "breaker \<Rightarrow> breaker" where
  "record_success b = b\<lparr> consecutive_failures := 0, open_until := None, probing_since := None \<rparr>"

definition record_failure :: "instant \<Rightarrow> breaker \<Rightarrow> breaker" where
  "record_failure now b =
    (let n = consecutive_failures b + 1;
         was_probe = (probing_since b \<noteq> None);
         b' = b\<lparr> consecutive_failures := n, probing_since := None \<rparr>
     in if was_probe \<or> n \<ge> threshold b then b'\<lparr> open_until := Some (now + cooldown b) \<rparr> else b')"

section \<open>One request under the breaker\<close>

datatype outcome = TransportError | BodyReadError | NotCloneable | Status nat string

definition is_success :: "nat \<Rightarrow> bool" where "is_success s = (200 \<le> s \<and> s < 300)"
definition retryable :: "nat \<Rightarrow> bool" where "retryable s = (s = 429 \<or> (500 \<le> s \<and> s < 600))"

datatype send_error = Refused refusal | StreamingBody | BodyFailed | Permanent nat | GaveUp nat

text \<open>Delays in milliseconds: the exponent saturates at 32 bits, the noise is the clock's nanoseconds.\<close>

definition backoff :: "retry_config \<Rightarrow> nat \<Rightarrow> nat" where
  "backoff cfg attempt = min (base_delay cfg * min (2 ^ (attempt - 1)) (2 ^ 32 - 1)) (max_delay cfg)"

definition jitter :: "nat \<Rightarrow> nat \<Rightarrow> nat" where
  "jitter noise m = (if m = 0 then 0 else noise mod m)"

definition delay :: "retry_config \<Rightarrow> nat \<Rightarrow> nat \<Rightarrow> nat" where
  "delay cfg noise attempt = backoff cfg attempt + jitter noise (backoff cfg attempt div 2)"

text \<open>
  The loop after \<open>check\<close>: \<open>attempt\<close> is the number of the coming call, \<open>provider\<close> gives its outcome
  and \<open>clock\<close> the instant at which an outcome of that call is recorded.  The result carries the delays slept.
\<close>

function attempts_from ::
  "retry_config \<Rightarrow> (nat \<Rightarrow> outcome) \<Rightarrow> (nat \<Rightarrow> instant) \<Rightarrow> (nat \<Rightarrow> nat) \<Rightarrow> nat \<Rightarrow> breaker
    \<Rightarrow> (send_error + string) \<times> breaker \<times> nat list" where
  "attempts_from cfg provider clock noise attempt b =
    (let again =
       (if attempt \<ge> max_attempts cfg then (Inl (GaveUp attempt), record_failure (clock attempt) b, [])
        else (case attempts_from cfg provider clock noise (attempt + 1) b of
                (out, b', ds) \<Rightarrow> (out, b', delay cfg (noise attempt) attempt # ds)))
     in case provider attempt of
          NotCloneable \<Rightarrow> (Inl StreamingBody, b, [])
        | BodyReadError \<Rightarrow> (Inl BodyFailed, b, [])
        | TransportError \<Rightarrow> again
        | Status s body \<Rightarrow>
            (if is_success s then (Inr body, record_success b, [])
             else if retryable s then again
             else (Inl (Permanent s), record_failure (clock attempt) b, [])))"
  by pat_completeness auto
termination by (relation "measure (\<lambda>(cfg, _, _, _, attempt, _). max_attempts cfg - attempt)") auto

declare attempts_from.simps [simp del]

definition send_request ::
  "retry_config \<Rightarrow> instant \<Rightarrow> (nat \<Rightarrow> outcome) \<Rightarrow> (nat \<Rightarrow> instant) \<Rightarrow> (nat \<Rightarrow> nat) \<Rightarrow> breaker
    \<Rightarrow> (send_error + string) \<times> breaker \<times> nat list" where
  "send_request cfg now provider clock noise b =
    (case check now b of
       (Some r, b') \<Rightarrow> (Inl (Refused r), b', [])
     | (None, b') \<Rightarrow> attempts_from cfg provider clock noise 1 b')"

section \<open>The circuit the breaker implements\<close>

text \<open>Closed with a tally, tripped until an instant, or probing since one.\<close>

datatype circuit = Closed nat | Tripped instant nat | Probing instant instant

definition circuit_of :: "breaker \<Rightarrow> circuit" where
  "circuit_of b =
    (case open_until b of None \<Rightarrow> Closed (consecutive_failures b)
     | Some u \<Rightarrow> (case probing_since b of None \<Rightarrow> Tripped u (consecutive_failures b) | Some s \<Rightarrow> Probing u s))"

fun admit :: "int \<Rightarrow> instant \<Rightarrow> circuit \<Rightarrow> bool \<times> circuit" where
  "admit cd now (Closed n) = (True, Closed n)"
| "admit cd now (Tripped u n) = (if now < u then (False, Tripped u n) else (True, Probing u now))"
| "admit cd now (Probing u s) = (if now < u \<or> now - s < cd then (False, Probing u s) else (True, Probing u now))"

fun failed :: "nat \<Rightarrow> int \<Rightarrow> instant \<Rightarrow> circuit \<Rightarrow> circuit" where
  "failed k cd now (Closed n) = (if n + 1 \<ge> k then Tripped (now + cd) (n + 1) else Closed (n + 1))"
| "failed k cd now (Tripped u n) = Tripped (if n + 1 \<ge> k then now + cd else u) (n + 1)"
| "failed k cd now (Probing u s) = Tripped (now + cd) 1"

definition breaker_ok :: "breaker \<Rightarrow> bool" where
  "breaker_ok b \<longleftrightarrow> 1 \<le> threshold b \<and> 0 < cooldown b \<and>
    (open_until b = None \<longrightarrow> probing_since b = None \<and> consecutive_failures b < threshold b) \<and>
    (probing_since b \<noteq> None \<longrightarrow> consecutive_failures b = 0)"

lemma breaker_from_env_ok: "breaker_ok (breaker_from_env n secs)"
  by (cases n; cases secs) (simp_all add: breaker_from_env_def default_breaker_def breaker_ok_def Let_def)

lemma check_ok [keeps]: "breaker_ok b \<Longrightarrow> breaker_ok (snd (check now b))"
  by (auto simp: check_def breaker_ok_def split: option.splits)

lemma record_success_ok [keeps]: "breaker_ok b \<Longrightarrow> breaker_ok (record_success b)"
  by (auto simp: record_success_def breaker_ok_def)

lemma record_failure_ok [keeps]: "breaker_ok b \<Longrightarrow> breaker_ok (record_failure now b)"
  by (auto simp: record_failure_def breaker_ok_def Let_def)

text \<open>C35: The breaker implements a three-state circuit.  On every state the methods can reach,
  \<open>circuit_of\<close> commutes with each of them: \<open>check\<close> admits exactly when the circuit does and takes it to
  the same state, a success closes it with an empty tally, and a failure trips it at the threshold or
  when it was probing; and the states reachable from a configured breaker stay such states.\<close>

theorem breaker_implements_circuit:
  assumes "breaker_ok b"
  shows "(fst (check now b) = None, circuit_of (snd (check now b))) = admit (cooldown b) now (circuit_of b) \<and>
    circuit_of (record_success b) = Closed 0 \<and>
    circuit_of (record_failure now b) = failed (threshold b) (cooldown b) now (circuit_of b) \<and>
    breaker_ok (snd (check now b)) \<and> breaker_ok (record_success b) \<and> breaker_ok (record_failure now b) \<and>
    breaker_ok (breaker_from_env n secs)"
proof (intro conjI)
  show "(fst (check now b) = None, circuit_of (snd (check now b))) = admit (cooldown b) now (circuit_of b)"
    using assms by (auto simp: circuit_of_def check_def breaker_ok_def split: option.splits)
  show "circuit_of (record_success b) = Closed 0" by (simp add: circuit_of_def record_success_def)
  show "circuit_of (record_failure now b) = failed (threshold b) (cooldown b) now (circuit_of b)"
    using assms by (auto simp: circuit_of_def record_failure_def breaker_ok_def Let_def split: option.splits)
qed (use assms in \<open>simp_all add: keeps breaker_from_env_ok\<close>)

lemma breaker_implements_circuit_witness:
  "circuit_of (record_failure 7 (default_breaker\<lparr> consecutive_failures := 4 \<rparr>)) = Tripped 30007 5"
  using breaker_implements_circuit [of "default_breaker\<lparr> consecutive_failures := 4 \<rparr>" 7]
  by (simp add: breaker_ok_def default_breaker_def circuit_of_def)

section \<open>One probe per cooldown\<close>

datatype breaker_event = Asked instant | Succeeded | Failed instant

fun event_time :: "breaker_event \<Rightarrow> instant option" where
  "event_time (Asked t) = Some t" | "event_time Succeeded = None" | "event_time (Failed t) = Some t"

text \<open>The instants at which calls were admitted, oldest first.\<close>

fun admitted :: "breaker_event list \<Rightarrow> breaker \<Rightarrow> instant list" where
  "admitted [] b = []"
| "admitted (Asked t # es) b = (if fst (check t b) = None then t # admitted es (snd (check t b)) else admitted es b)"
| "admitted (Succeeded # es) b = admitted es (record_success b)"
| "admitted (Failed t # es) b = admitted es (record_failure t b)"

text \<open>The instant before which nothing is admitted.\<close>

definition earliest :: "breaker \<Rightarrow> instant \<Rightarrow> instant" where
  "earliest b u = (case probing_since b of None \<Rightarrow> u | Some s \<Rightarrow> max u (s + cooldown b))"

fun clock_ok :: "instant \<Rightarrow> breaker_event list \<Rightarrow> bool" where
  "clock_ok t [] = True"
| "clock_ok t (e # es) = (case event_time e of None \<Rightarrow> clock_ok t es | Some u \<Rightarrow> t \<le> u \<and> clock_ok u es)"

lemma check_open:
  assumes "open_until b = Some u"
  shows "fst (check t b) = None \<longleftrightarrow> earliest b u \<le> t"
  using assms by (auto simp: check_def earliest_def split: option.splits)

lemma check_refused: "fst (check t b) \<noteq> None \<Longrightarrow> snd (check t b) = b"
  by (auto simp: check_def split: option.splits)

lemma check_probes:
  assumes "open_until b = Some u" "fst (check t b) = None"
  shows "open_until (snd (check t b)) = Some u \<and> cooldown (snd (check t b)) = cooldown b \<and> t + cooldown b \<le> earliest (snd (check t b)) u"
  using assms by (auto simp: check_def earliest_def split: option.splits if_splits)

lemma failure_postpones:
  assumes "open_until b = Some u" "breaker_ok b" "t0 \<le> t" "\<And>s. probing_since b = Some s \<Longrightarrow> s \<le> t0" "u \<le> t0 + cooldown b"
  shows "\<exists>u'. open_until (record_failure t b) = Some u' \<and> earliest b u \<le> earliest (record_failure t b) u' \<and>
    u' \<le> t + cooldown b \<and> probing_since (record_failure t b) = None \<and> cooldown (record_failure t b) = cooldown b"
  using assms by (auto simp: record_failure_def earliest_def breaker_ok_def Let_def split: option.splits)

text \<open>C28: While no call succeeds an open circuit lets at most one call through per cooldown.  Take any sequence of
  admission requests and failures, in any interleaving of callers and with a clock that does not go
  back, on a breaker that is open: the first admission is not before the circuit's deadline nor within
  a cooldown of a running probe, and any two admissions are at least a cooldown apart, also where a
  probe was abandoned and taken over or an old call failed late.\<close>

theorem one_probe_per_cooldown:
  assumes "breaker_ok b" "open_until b = Some u" "Succeeded \<notin> set es" "clock_ok t0 es"
    and "\<And>s. probing_since b = Some s \<Longrightarrow> s \<le> t0" "u \<le> t0 + cooldown b"
  shows "sorted_wrt (\<lambda>s t. s + cooldown b \<le> t) (admitted es b) \<and> (\<forall>t\<in>set (admitted es b). earliest b u \<le> t)"
  using assms
proof (induction es arbitrary: b u t0)
  case (Cons e es)
  show ?case
  proof (cases e)
    case (Asked t)
    have t: "t0 \<le> t" "clock_ok t es" using Cons.prems(4) Asked by auto
    show ?thesis
    proof (cases "fst (check t b) = None")
      case True
      let ?b = "snd (check t b)"
      have p: "open_until ?b = Some u" "cooldown ?b = cooldown b" "t + cooldown b \<le> earliest ?b u" "earliest b u \<le> t"
        using check_probes [OF Cons.prems(2) True] check_open [OF Cons.prems(2)] True by auto
      have since: "s \<le> t" if "probing_since ?b = Some s" for s
        using that True Cons.prems(2) t(1) Cons.prems(5) by (auto simp: check_def split: if_splits option.splits)
      have "u \<le> t" using p(4) by (auto simp: earliest_def split: option.splits)
      moreover have "0 < cooldown b" using Cons.prems(1) by (simp add: breaker_ok_def)
      ultimately have "u \<le> t + cooldown ?b" using p(2) by simp
      from Cons.IH [OF check_ok [OF Cons.prems(1)] p(1) _ t(2) since this] Cons.prems(3)
      show ?thesis using True p Asked \<open>0 < cooldown b\<close> by (fastforce simp: p(2))
    next
      case False
      have "s \<le> t" if "probing_since b = Some s" for s using Cons.prems(5) [OF that] t(1) by simp
      moreover have "u \<le> t + cooldown b" using Cons.prems(6) t(1) by simp
      ultimately show ?thesis
        using Cons.IH [OF Cons.prems(1,2) _ t(2)] Cons.prems(3) False Asked by auto
    qed
  next
    case (Failed t)
    have t: "t0 \<le> t" "clock_ok t es" using Cons.prems(4) Failed by auto
    obtain u' where u': "open_until (record_failure t b) = Some u'" "earliest b u \<le> earliest (record_failure t b) u'"
        "u' \<le> t + cooldown b" "probing_since (record_failure t b) = None" "cooldown (record_failure t b) = cooldown b"
      using failure_postpones [OF Cons.prems(2,1) t(1) Cons.prems(5,6)] by blast
    have "s \<le> t" if "probing_since (record_failure t b) = Some s" for s using that u'(4) by simp
    moreover have "u' \<le> t + cooldown (record_failure t b)" using u'(3,5) by simp
    ultimately show ?thesis
      using Cons.IH [OF record_failure_ok [OF Cons.prems(1)] u'(1) _ t(2)] Cons.prems(3) Failed u'(2,5) by fastforce
  qed (use Cons.prems(3) in simp)
qed simp

lemma one_probe_per_cooldown_witness:
  "admitted [Asked 50, Asked 100, Asked 30000, Failed 31000, Asked 60000, Asked 61000]
      (default_breaker\<lparr> open_until := Some 100, consecutive_failures := 5 \<rparr>) = [100, 61000] \<and>
   (100 :: int) + 30000 \<le> 61000"
proof -
  let ?b = "default_breaker\<lparr> open_until := Some 100, consecutive_failures := 5 \<rparr>"
  let ?es = "[Asked 50, Asked 100, Asked 30000, Failed 31000, Asked 60000, Asked 61000]"
  have ok: "breaker_ok ?b" "open_until ?b = Some 100" "Succeeded \<notin> set ?es" "clock_ok 0 ?es" "(100::int) \<le> 0 + cooldown ?b"
      "\<And>s. probing_since ?b = Some s \<Longrightarrow> s \<le> 0"
    by (simp_all add: breaker_ok_def default_breaker_def)
  have "admitted ?es ?b = [100, 61000]" by (simp add: default_breaker_def check_def record_failure_def Let_def)
  then show ?thesis using one_probe_per_cooldown [OF ok(1,2,3,4) ok(6) ok(5)] by (simp add: default_breaker_def)
qed

section \<open>A request ends\<close>

definition transient :: "outcome \<Rightarrow> bool" where
  "transient out \<longleftrightarrow> out = TransportError \<or> (\<exists>s body. out = Status s body \<and> \<not> is_success s \<and> retryable s)"

lemma delay_bounds: "backoff cfg n \<le> delay cfg m n" "delay cfg m n \<le> max_delay cfg + max_delay cfg div 2"
proof -
  have "jitter m (backoff cfg n div 2) \<le> backoff cfg n div 2" by (simp add: jitter_def less_imp_le)
  moreover have "backoff cfg n \<le> max_delay cfg" by (simp add: backoff_def)
  ultimately show "backoff cfg n \<le> delay cfg m n" "delay cfg m n \<le> max_delay cfg + max_delay cfg div 2"
    unfolding delay_def by (simp, meson add_le_mono div_le_mono le_trans)
qed

text \<open>How a loop that started at call \<open>n\<close> with breaker \<open>b\<close> ended at call \<open>k\<close>.\<close>

definition ended ::
  "retry_config \<Rightarrow> (nat \<Rightarrow> outcome) \<Rightarrow> (nat \<Rightarrow> instant) \<Rightarrow> breaker \<Rightarrow> nat \<Rightarrow> send_error + string \<Rightarrow> breaker \<Rightarrow> bool" where
  "ended cfg provider clock b k out b' \<longleftrightarrow>
    (case out of
       Inr body \<Rightarrow> (\<exists>s. provider k = Status s body \<and> is_success s) \<and> b' = record_success b
     | Inl (GaveUp j) \<Rightarrow> j = k \<and> transient (provider k) \<and> max_attempts cfg \<le> k \<and> b' = record_failure (clock k) b
     | Inl (Permanent s) \<Rightarrow> (\<exists>body. provider k = Status s body) \<and> \<not> is_success s \<and> \<not> retryable s \<and> b' = record_failure (clock k) b
     | Inl StreamingBody \<Rightarrow> provider k = NotCloneable \<and> b' = b
     | Inl BodyFailed \<Rightarrow> provider k = BodyReadError \<and> b' = b
     | Inl (Refused _) \<Rightarrow> False)"

lemma attempts_end:
  assumes "attempts_from cfg provider clock noise n b = (out, b', ds)" "1 \<le> n"
  shows "\<exists>k\<ge>n. k \<le> max n (max_attempts cfg) \<and> (\<forall>i\<in>{n..<k}. transient (provider i)) \<and>
    ds = map (\<lambda>i. delay cfg (noise i) i) [n..<k] \<and> ended cfg provider clock b k out b'"
  using assms
proof (induction cfg provider clock noise n b arbitrary: out b' ds rule: attempts_from.induct)
  case (1 cfg provider clock noise n b)
  have fin: ?case if "attempts_from cfg provider clock noise n b = (x, y, [])" "ended cfg provider clock b n x y" for x y
    using that 1(2) by (intro exI [of _ n]) auto
  have again: ?case if tr: "transient (provider n)"
    and eq: "attempts_from cfg provider clock noise n b =
      (if n \<ge> max_attempts cfg then (Inl (GaveUp n), record_failure (clock n) b, [])
       else (case attempts_from cfg provider clock noise (n + 1) b of (out, b', ds) \<Rightarrow> (out, b', delay cfg (noise n) n # ds)))"
  proof (cases "n \<ge> max_attempts cfg")
    case True
    then show ?thesis using fin [of "Inl (GaveUp n)" "record_failure (clock n) b"] eq tr by (simp add: ended_def)
  next
    case False
    obtain x y es where r: "attempts_from cfg provider clock noise (n + 1) b = (x, y, es)" by (metis prod_cases3)
    then have o: "out = x" "b' = y" "ds = delay cfg (noise n) n # es" using 1(2) eq False by auto
    from 1(1) [OF False r] obtain k where k: "n + 1 \<le> k" "k \<le> max (n + 1) (max_attempts cfg)" "\<forall>i\<in>{n + 1..<k}. transient (provider i)"
        "es = map (\<lambda>i. delay cfg (noise i) i) [n + 1..<k]" "ended cfg provider clock b k x y"
      by auto
    have "\<forall>i\<in>{n..<k}. transient (provider i)" using k(3) tr by (metis atLeastLessThan_iff Suc_eq_plus1 Suc_leI le_neq_implies_less)
    moreover have "[n..<k] = n # [n + 1..<k]" using k(1) by (simp add: upt_rec [of n])
    ultimately show ?thesis using k o False by (intro exI [of _ k]) auto
  qed
  show ?case
  proof (cases "provider n")
    case TransportError
    then show ?thesis by (intro again) (simp_all add: transient_def attempts_from.simps [of cfg provider clock noise n b] Let_def)
  next
    case (Status s body)
    show ?thesis
    proof (cases "is_success s")
      case True
      then show ?thesis by (intro fin [of "Inr body" "record_success b"])
          (simp_all add: Status attempts_from.simps [of cfg provider clock noise n b] ended_def)
    next
      case False
      note notok = this
      show ?thesis
      proof (cases "retryable s")
        case True
        then show ?thesis using notok Status
          by (intro again) (auto simp: transient_def attempts_from.simps [of cfg provider clock noise n b] Let_def)
      next
        case False
        then show ?thesis by (intro fin [of "Inl (Permanent s)" "record_failure (clock n) b"])
            (simp_all add: notok Status attempts_from.simps [of cfg provider clock noise n b] ended_def)
      qed
    qed
  next
    case BodyReadError
    then show ?thesis by (intro fin [of "Inl BodyFailed" b]) (simp_all add: attempts_from.simps [of cfg provider clock noise n b] ended_def)
  next
    case NotCloneable
    then show ?thesis by (intro fin [of "Inl StreamingBody" b]) (simp_all add: attempts_from.simps [of cfg provider clock noise n b] ended_def)
  qed
qed



end
