(* ===== verification/Manual.thy ===== *)
theory Manual
  imports Types Redact
begin

text \<open>
  \<open>brainiac-pipeline/src/manual.rs\<close>: the wire format of a \<open>manual\<close> source, a statement with optional
  hints appended in prose.
\<close>

definition HINT_MARKER :: string where
  "HINT_MARKER = newline # newline # ''[Context for extraction: ''"

record manual_source =
  ms_content :: string
  ms_kind_hint :: "memory_kind option"
  ms_entities :: "string list"

definition kind_sentence :: "memory_kind \<Rightarrow> string" where
  "kind_sentence k =
    ''The author considers this primarily a '' @ memory_kind_as_str k @ '', but extract every distinct durable '' @
    ''learning it contains, not only the '' @ memory_kind_as_str k @ ''.''"

definition ENTITIES_LEAD :: string where "ENTITIES_LEAD = ''It concerns these entities: ''"

definition hints_of :: "memory_kind option \<Rightarrow> string list \<Rightarrow> string list" where
  "hints_of kind entities =
    (case kind of None \<Rightarrow> [] | Some k \<Rightarrow> [kind_sentence k])
    @ (if entities = [] then [] else [ENTITIES_LEAD @ join '', '' entities @ ''.''])"

definition encode_manual_source :: "string \<Rightarrow> memory_kind option \<Rightarrow> string list \<Rightarrow> string" where
  "encode_manual_source content kind entities =
    (let hints = hints_of kind entities in
     if hints = [] then content else content @ HINT_MARKER @ join '' '' hints @ '']'')"

text \<open>\<open>rfind\<close>: the offset of the last occurrence; \<open>split_once\<close>.\<close>

definition rfind_sub :: "'a list \<Rightarrow> 'a list \<Rightarrow> nat option" where
  "rfind_sub s n = map_option (\<lambda>i. length s - i - length n) (find_sub (rev s) (rev n))"

definition split_once :: "'a list \<Rightarrow> 'a list \<Rightarrow> ('a list \<times> 'a list) option" where
  "split_once s n = map_option (\<lambda>i. (take i s, drop (i + length n) s)) (find_sub s n)"

definition kind_hint_of :: "string \<Rightarrow> memory_kind option" where
  "kind_hint_of block =
    Option.bind (find (\<lambda>k. contains block (''primarily a '' @ k @ '',''))
      [''fact'', ''decision'', ''pattern'', ''pitfall'', ''howto'']) memory_kind_parse"

definition entities_of :: "string \<Rightarrow> string list" where
  "entities_of block =
    (case split_once block ENTITIES_LEAD of
       None \<Rightarrow> []
     | Some (_, rest) \<Rightarrow>
         filter (\<lambda>e. e \<noteq> []) (map trim (split_by (\<lambda>c. c = CHR '','')
           (trim_end_by (\<lambda>c. c = CHR ''.'') (trim_end_by is_ws (trim_end_by (\<lambda>c. c = CHR '']'') rest))))))"

definition decode_manual_source :: "string \<Rightarrow> manual_source" where
  "decode_manual_source raw =
    (case (if ends_with (trim_end_by is_ws raw) '']'' then rfind_sub raw HINT_MARKER else None) of
       None \<Rightarrow> \<lparr> ms_content = trim raw, ms_kind_hint = None, ms_entities = [] \<rparr>
     | Some i \<Rightarrow>
         (let rest = drop (i + length HINT_MARKER) raw;
              block = (case strip_suffix rest '']'' of None \<Rightarrow> rest | Some b \<Rightarrow> b)
          in \<lparr> ms_content = trim (take i raw), ms_kind_hint = kind_hint_of block, ms_entities = entities_of block \<rparr>))"

section \<open>The last occurrence\<close>

lemma rfind_sub_last:
  assumes "s = a @ n @ b" "\<forall>a' b'. s = a' @ n @ b' \<longrightarrow> length a' \<le> length a"
  shows "rfind_sub s n = Some (length a)"
proof -
  have "find_sub (rev s) (rev n) = Some (length (rev b))"
  proof (rule find_sub_first)
    show "rev s = rev b @ rev n @ rev a" using assms(1) by simp
    show "\<forall>a' b'. rev s = a' @ rev n @ b' \<longrightarrow> length (rev b) \<le> length a'"
    proof (intro allI impI)
      fix a' b' assume "rev s = a' @ rev n @ b'"
      then have "rev (rev s) = rev (a' @ rev n @ b')" by (rule arg_cong)
      then have e: "s = rev b' @ n @ rev a'" by simp
      then have "length (rev b') \<le> length a" using assms(2) by blast
      moreover have "length a + (length n + length b) = length b' + (length n + length a')"
        using arg_cong [OF e, of length] arg_cong [OF assms(1), of length] by simp
      ultimately show "length (rev b) \<le> length a'" by simp
    qed
  qed
  then show ?thesis using assms(1) by (simp add: rfind_sub_def)
qed

lemma marker_last:
  assumes "newline \<notin> set hint" "s = c @ HINT_MARKER @ hint" "s = a @ HINT_MARKER @ b"
  shows "length a \<le> length c"
proof (rule ccontr)
  assume "\<not> length a \<le> length c"
  then consider "length a = length c + 1" | "length c + 2 \<le> length a" by linarith
  then show False
  proof cases
    case 1
    have "s ! (length c + 2) = CHR ''[''" using assms(2) by (simp add: HINT_MARKER_def nth_append)
    moreover have "s ! (length a + 1) = newline" using assms(3) by (simp add: HINT_MARKER_def nth_append)
    ultimately show False using 1 by simp
  next
    case 2
    have "newline \<notin> set (drop (length c + 2) s)" using assms(1,2) by (simp add: HINT_MARKER_def)
    moreover have "newline \<in> set (drop (length a) s)" using assms(3) by (simp add: HINT_MARKER_def)
    moreover have "set (drop (length a) s) \<subseteq> set (drop (length c + 2) s)" using 2 by (rule set_drop_subset_set_drop)
    ultimately show False by blast
  qed
qed

section \<open>Splitting at the commas\<close>

abbreviation comma :: "char \<Rightarrow> bool" where
  "comma \<equiv> (\<lambda>c. c = CHR '','')"

lemma split_by_app: "p x \<Longrightarrow> split_by p (u @ x # v) = split_by p u @ split_by p v"
  by (induction u) (auto split: list.splits)

lemma last_split_by: "\<forall>c\<in>set w. \<not> p c \<Longrightarrow> \<exists>t. last (split_by p (a @ w)) = t @ w"
proof (induction a)
  case Nil
  then show ?case by (simp add: split_by_none)
next
  case (Cons c a)
  then obtain t where t: "last (split_by p (a @ w)) = t @ w" by blast
  obtain v vs where "split_by p (a @ w) = v # vs" using split_by_not_Nil by (metis list.exhaust)
  then show ?case using t by (cases "vs = []") (auto intro: exI [of _ "c # t"])
qed

lemma contains_upto:
  assumes "contains s (w @ [x])" "x \<notin> set w"
  shows "\<exists>p\<in>set (butlast (split_by (\<lambda>c. c = x) s)). ends_with p w"
proof -
  obtain a b where "s = (a @ w) @ x # b" using assms(1) by (auto simp: contains_iff)
  then have "split_by (\<lambda>c. c = x) s = split_by (\<lambda>c. c = x) (a @ w) @ split_by (\<lambda>c. c = x) b"
    using split_by_app [of "\<lambda>c. c = x" x "a @ w" b] by simp
  then have "last (split_by (\<lambda>c. c = x) (a @ w)) \<in> set (butlast (split_by (\<lambda>c. c = x) s))"
    by (simp add: butlast_append)
  moreover have "\<forall>c\<in>set w. \<not> c = x" using assms(2) by auto
  ultimately show ?thesis using last_split_by [of w "\<lambda>c. c = x" a] by (auto simp: ends_with_iff)
qed

lemma split_by_join:
  assumes "CHR '','' \<notin> set X" "\<forall>e\<in>set es. CHR '','' \<notin> set e" "es \<noteq> []" "CHR '','' \<notin> set Y"
  shows "split_by comma (X @ join '', '' es @ Y) =
    (case es of e # rest \<Rightarrow> if rest = [] then [X @ e @ Y] else (X @ e) # map (\<lambda>e. '' '' @ e) (butlast rest) @ ['' '' @ last rest @ Y])"
  using assms
proof (induction es arbitrary: X)
  case (Cons e es)
  show ?case
  proof (cases es)
    case Nil
    then show ?thesis using Cons.prems by (auto intro!: split_by_none)
  next
    case (Cons f fs)
    have "split_by comma (X @ join '', '' (e # es) @ Y) = (X @ e) # split_by comma ('' '' @ join '', '' es @ Y)"
      using split_by_append_sep [of "X @ e" comma "CHR '',''" "'' '' @ join '', '' es @ Y"] Cons.prems local.Cons
      by (auto simp: ball_Un)
    also have "split_by comma ('' '' @ join '', '' es @ Y) =
      (case es of e # rest \<Rightarrow> if rest = [] then ['' '' @ e @ Y] else ('' '' @ e) # map (\<lambda>e. '' '' @ e) (butlast rest) @ ['' '' @ last rest @ Y])"
      by (rule Cons.IH) (use Cons.prems local.Cons in auto)
    finally show ?thesis using local.Cons by auto
  qed
qed simp

section \<open>Reading the hints back\<close>

definition needle :: "memory_kind \<Rightarrow> string" where
  "needle k = ''primarily a '' @ memory_kind_as_str k"

definition entity_ok :: "string \<Rightarrow> bool" where
  "entity_ok e \<longleftrightarrow> e \<noteq> [] \<and> trim e = e \<and> newline \<notin> set e \<and> CHR '','' \<notin> set e \<and> last e \<noteq> CHR ''.'' \<and>
    (\<forall>k. \<not> ends_with e (needle k))"

lemma needle_chars: "CHR '','' \<notin> set (needle k)" "CHR '':'' \<notin> set (needle k)" "\<exists>n. needle k = CHR ''p'' # n"
  by (cases k; simp add: needle_def)+

text \<open>A kind is not read out of an entity's name, whatever stands before it.\<close>

lemma ends_with_lead:
  assumes "ends_with (X @ e) (needle k)" "X = '' '' \<or> (\<exists>Z. X = Z @ '': '')"
  shows "ends_with e (needle k)"
proof -
  obtain t where t: "X @ e = t @ needle k" using assms(1) by (auto simp: ends_with_iff)
  obtain n where n: "needle k = CHR ''p'' # n" using needle_chars(3) by blast
  from t consider u where "e = u @ needle k" | u where "X = t @ u" "needle k = u @ e" "u \<noteq> []"
    unfolding append_eq_append_conv2 by (metis append_Nil)
  then show ?thesis
  proof cases
    case 1
    then show ?thesis by (auto simp: ends_with_iff)
  next
    case 2
    then obtain u' where u: "u = CHR ''p'' # u'" using n by (cases u) auto
    from assms(2) show ?thesis
    proof
      assume "X = '' ''"
      then show ?thesis using 2(1) u by (cases t) auto
    next
      assume "\<exists>Z. X = Z @ '': ''"
      then obtain Z where "Z @ '': '' = t @ u" using 2(1) by auto
      then obtain w where "Z = t @ w \<and> w @ '': '' = u \<or> Z @ w = t \<and> '': '' = w @ u"
        unfolding append_eq_append_conv2 by blast
      then have "CHR '':'' \<in> set u"
      proof
        assume "Z = t @ w \<and> w @ '': '' = u"
        then show ?thesis by auto
      next
        assume "Z @ w = t \<and> '': '' = w @ u"
        then show ?thesis using u by (auto simp: Cons_eq_append_conv)
      qed
      then show ?thesis using needle_chars(2) [of k] 2(2) by auto
    qed
  qed
qed

lemma kind_sentence_pieces:
  "kind_sentence k = (''The author considers this '' @ needle k) @ CHR '','' #
     '' but extract every distinct durable learning it contains'' @ CHR '','' # '' not only the '' @ memory_kind_as_str k @ ''.''"
  by (simp add: kind_sentence_def needle_def)

lemma kind_piece: "ends_with (''The author considers this '' @ needle k) (needle j) \<longleftrightarrow> j = k"
  by (cases k; cases j; simp add: needle_def ends_with_def)

lemma extract_piece: "\<not> ends_with '' but extract every distinct durable learning it contains'' (needle j)"
  by (cases j; simp add: needle_def ends_with_def)

lemma entity_pieces:
  assumes "p \<in> set (butlast (split_by comma (X @ join '', '' es @ ''.'')))" "CHR '','' \<notin> set X" "es \<noteq> []"
    "\<forall>e\<in>set es. entity_ok e" "X = '' '' \<or> (\<exists>Z. X = Z @ '': '')"
  shows "\<not> ends_with p (needle j)"
proof -
  have c: "\<forall>e\<in>set es. CHR '','' \<notin> set e" using assms(4) by (simp add: entity_ok_def)
  obtain e rest where es: "es = e # rest" using assms(3) by (cases es) auto
  have "p = X @ e \<or> (\<exists>f\<in>set es. p = '' '' @ f)"
    using assms(1) split_by_join [OF assms(2) c assms(3), of "''.''"] es
    by (auto simp: butlast_append split: if_splits dest: in_set_butlastD)
  then have "\<exists>Y f. p = Y @ f \<and> f \<in> set es \<and> (Y = '' '' \<or> (\<exists>Z. Y = Z @ '': ''))" using assms(5) es by (metis list.set_intros(1))
  then show ?thesis using ends_with_lead assms(4) unfolding entity_ok_def by blast
qed

text \<open>The hint block, up to the closing bracket.\<close>

definition block_of :: "memory_kind option \<Rightarrow> string list \<Rightarrow> string" where
  "block_of kind es = join '' '' (hints_of kind es)"

lemma block_of_simps:
  "block_of (Some k) [] = kind_sentence k"
  "es \<noteq> [] \<Longrightarrow> block_of None es = ENTITIES_LEAD @ join '', '' es @ ''.''"
  "es \<noteq> [] \<Longrightarrow> block_of (Some k) es = kind_sentence k @ '' '' @ ENTITIES_LEAD @ join '', '' es @ ''.''"
  by (simp_all add: block_of_def hints_of_def)

lemma lead_ends: "\<exists>Z. ENTITIES_LEAD = Z @ '': ''"
  by (rule exI [of _ "''It concerns these entities''"]) (simp add: ENTITIES_LEAD_def)

lemma comma_free: "CHR '','' \<notin> set ENTITIES_LEAD" "CHR '','' \<notin> set (memory_kind_as_str k)"
  by (simp add: ENTITIES_LEAD_def, cases k) simp_all

lemma needle_in_block:
  assumes "kind = None \<longrightarrow> es \<noteq> []" "\<forall>e\<in>set es. entity_ok e"
  shows "contains (block_of kind es) (''primarily a '' @ memory_kind_as_str j @ '','') \<longleftrightarrow> kind = Some j"
proof
  assume "kind = Some j"
  then have "\<exists>t. block_of kind es = ''The author considers this '' @ (needle j @ '','') @ t"
    by (cases "es = []") (simp_all add: block_of_simps kind_sentence_pieces)
  then show "contains (block_of kind es) (''primarily a '' @ memory_kind_as_str j @ '','')"
    unfolding contains_iff needle_def by (metis append.assoc)
next
  assume "contains (block_of kind es) (''primarily a '' @ memory_kind_as_str j @ '','')"
  then have "contains (block_of kind es) (needle j @ [CHR '',''])" by (simp add: needle_def)
  then obtain p where p: "p \<in> set (butlast (split_by comma (block_of kind es)))" "ends_with p (needle j)"
    using contains_upto [OF _ needle_chars(1)] by metis
  show "kind = Some j"
  proof (cases kind)
    case None
    then have es: "es \<noteq> []" using assms(1) by simp
    from p(1) have "p \<in> set (butlast (split_by comma (ENTITIES_LEAD @ join '', '' es @ ''.'')))"
      by (simp only: None block_of_simps(2) [OF es])
    from entity_pieces [OF this comma_free(1) es assms(2) disjI2 [OF lead_ends]] p(2) show ?thesis by blast
  next
    case (Some k)
    let ?X = "'' not only the '' @ memory_kind_as_str k @ ''. '' @ ENTITIES_LEAD"
    let ?rest = "if es = [] then '' not only the '' @ memory_kind_as_str k @ ''.'' else ?X @ join '', '' es @ ''.''"
    have "block_of kind es = (''The author considers this '' @ needle k) @ CHR '','' #
        '' but extract every distinct durable learning it contains'' @ CHR '','' # ?rest"
      using Some by (cases "es = []") (simp_all add: block_of_simps kind_sentence_pieces)
    moreover have "\<forall>c\<in>set (''The author considers this '' @ needle k). \<not> comma c" using needle_chars(1) [of k] by auto
    moreover have "\<forall>c\<in>set '' but extract every distinct durable learning it contains''. \<not> comma c" by simp
    ultimately have "split_by comma (block_of kind es) = (''The author considers this '' @ needle k) #
        '' but extract every distinct durable learning it contains'' # split_by comma ?rest"
      by (simp only: split_by_append_sep)
    then consider "p = ''The author considers this '' @ needle k" |
      "p = '' but extract every distinct durable learning it contains''" | "p \<in> set (butlast (split_by comma ?rest))"
      using p(1) by (auto split: if_splits)
    then show ?thesis
    proof cases
      case 1
      then show ?thesis using p(2) Some by (simp only: kind_piece)
    next
      case 2
      then show ?thesis using p(2) extract_piece [of j] by (simp only: simp_thms)
    next
      case 3
      show ?thesis
      proof (cases "es = []")
        case True
        have "\<forall>c\<in>set ('' not only the '' @ memory_kind_as_str k @ ''.''). \<not> comma c" using comma_free(2) [of k] by auto
        from split_by_none [OF this] show ?thesis using 3 by (simp only: True if_True butlast.simps list.set) simp
      next
        case False
        obtain Z where "ENTITIES_LEAD = Z @ '': ''" using lead_ends by blast
        then have X: "\<exists>Z. ?X = Z @ '': ''" by (metis append.assoc)
        have "CHR '','' \<notin> set ?X" using comma_free by simp
        from entity_pieces [OF _ this False assms(2) disjI2 [OF X], of p j] 3 False p(2) show ?thesis by simp
      qed
    qed
  qed
qed

lemma kind_hint_of_block:
  assumes "kind = None \<longrightarrow> es \<noteq> []" "\<forall>e\<in>set es. entity_ok e"
  shows "kind_hint_of (block_of kind es) = kind"
proof -
  note n = needle_in_block [OF assms]
  note N = n [of MK_Fact, simplified] n [of MK_Decision, simplified] n [of MK_Pattern, simplified] n [of MK_Pitfall, simplified]
    n [of MK_Howto, simplified]
  show ?thesis
  proof (cases kind)
    case None
    then show ?thesis using N by (simp add: kind_hint_of_def)
  next
    case (Some k)
    then show ?thesis using N by (cases k) (simp_all add: kind_hint_of_def memory_kind_parse_def)
  qed
qed

lemma lead_first:
  assumes "es \<noteq> []"
  shows "split_once (block_of kind es) ENTITIES_LEAD =
    Some (case kind of None \<Rightarrow> [] | Some k \<Rightarrow> kind_sentence k @ '' '', join '', '' es @ ''.'')"
proof -
  define pre where "pre = (case kind of None \<Rightarrow> [] | Some k \<Rightarrow> kind_sentence k @ '' '')"
  have b: "block_of kind es = pre @ ENTITIES_LEAD @ join '', '' es @ ''.''"
    using assms by (cases kind) (simp_all add: block_of_simps pre_def)
  have noI: "CHR ''I'' \<notin> set pre"
  proof (cases kind)
    case (Some k)
    then show ?thesis by (cases k) (simp_all add: pre_def kind_sentence_def)
  qed (simp add: pre_def)
  have "find_sub (block_of kind es) ENTITIES_LEAD = Some (length pre)"
  proof (rule find_sub_first [OF b], intro allI impI)
    fix a' b' assume e: "block_of kind es = a' @ ENTITIES_LEAD @ b'"
    show "length pre \<le> length a'"
    proof (rule ccontr)
      assume less: "\<not> length pre \<le> length a'"
      then have "block_of kind es ! length a' = pre ! length a'" by (simp add: b nth_append)
      moreover have "block_of kind es ! length a' = CHR ''I''" by (simp add: e nth_append ENTITIES_LEAD_def)
      ultimately show False using noI less by (metis not_le nth_mem)
    qed
  qed
  then show ?thesis by (simp add: split_once_def b pre_def)
qed

lemma no_lead: "split_once (block_of kind []) ENTITIES_LEAD = None"
proof -
  have "CHR ''I'' \<notin> set (block_of kind [])"
  proof (cases kind)
    case (Some k)
    then show ?thesis by (cases k) (simp_all add: block_of_def hints_of_def kind_sentence_def)
  qed (simp add: block_of_def hints_of_def)
  moreover have "CHR ''I'' \<in> set (a @ ENTITIES_LEAD @ b)" for a b by (simp add: ENTITIES_LEAD_def)
  ultimately have "find_sub (block_of kind []) ENTITIES_LEAD = None" unfolding find_sub_None_iff by metis
  then show ?thesis by (simp add: split_once_def)
qed

lemma join_last:
  assumes "es \<noteq> []" "\<forall>e\<in>set es. e \<noteq> []"
  shows "join sep es \<noteq> [] \<and> last (join sep es) = last (last es)"
  using assms by (induction sep es rule: join.induct) auto

lemma trim_space: "trim ('' '' @ e) = trim e"
  by (simp add: trim_by_def trim_start_by_def is_ws_def)

lemma entities_of_block:
  assumes "\<forall>e\<in>set es. entity_ok e"
  shows "entities_of (block_of kind es) = es"
proof (cases "es = []")
  case True
  then show ?thesis by (simp add: entities_of_def no_lead)
next
  case False
  have ok: "\<forall>e\<in>set es. e \<noteq> [] \<and> trim e = e \<and> CHR '','' \<notin> set e" using assms by (simp add: entity_ok_def)
  have j: "join '', '' es \<noteq> []" "last (join '', '' es) \<noteq> CHR ''.''"
    using join_last [OF False, of "'', ''"] assms False by (auto simp: entity_ok_def)
  have "trim_end_by (\<lambda>c. c = CHR ''.'') (trim_end_by is_ws (trim_end_by (\<lambda>c. c = CHR '']'') (join '', '' es @ ''.'')))
      = trim_end_by (\<lambda>c. c = CHR ''.'') (join '', '' es @ ''.'')"
    by (simp add: trim_end_by_id is_ws_def)
  also have "\<dots> = trim_end_by (\<lambda>c. c = CHR ''.'') (join '', '' es)" by (simp add: trim_end_by_def)
  also have "\<dots> = join '', '' es" using j by (intro trim_end_by_id) simp
  finally have t: "trim_end_by (\<lambda>c. c = CHR ''.'') (trim_end_by is_ws (trim_end_by (\<lambda>c. c = CHR '']'') (join '', '' es @ ''.'')))
      = join '', '' es" .
  obtain e rest where es: "es = e # rest" using False by (cases es) auto
  have "split_by comma (join '', '' es) = e # map (\<lambda>e. '' '' @ e) rest"
  proof -
    have "split_by comma ([] @ join '', '' es @ []) =
      (case es of e # rest \<Rightarrow> if rest = [] then [[] @ e @ []] else ([] @ e) # map (\<lambda>e. '' '' @ e) (butlast rest) @ ['' '' @ last rest @ []])"
      by (rule split_by_join) (use ok False in auto)
    moreover have "map (\<lambda>e. '' '' @ e) rest = map (\<lambda>e. '' '' @ e) (butlast rest) @ ['' '' @ last rest]" if "rest \<noteq> []"
      using that by (metis append_butlast_last_id list.simps(8,9) map_append)
    ultimately show ?thesis using es by simp
  qed
  moreover have "map trim (map (\<lambda>e. '' '' @ e) rest) = rest"
    using ok es unfolding map_map comp_def trim_space by (simp add: map_idI)
  ultimately have "map trim (split_by comma (join '', '' es)) = es" using ok es by simp
  then show ?thesis using ok False by (simp add: entities_of_def lead_first t)
qed

lemma hint_chars:
  assumes "\<forall>e\<in>set es. entity_ok e"
  shows "newline \<notin> set (block_of kind es)"
proof -
  have j: "newline \<notin> set (join '', '' xs)" if "\<forall>e\<in>set xs. newline \<notin> set e" for xs
    using that by (induction "'', ''" xs rule: join.induct) auto
  have "newline \<notin> set (join '', '' es)" by (rule j) (use assms in \<open>simp add: entity_ok_def\<close>)
  moreover have "newline \<notin> set (kind_sentence k)" for k by (cases k) (simp_all add: kind_sentence_def)
  moreover have "newline \<notin> set ENTITIES_LEAD" by (simp add: ENTITIES_LEAD_def)
  ultimately show ?thesis by (cases kind; cases "es = []") (simp_all add: block_of_simps, simp_all add: block_of_def hints_of_def)
qed

section \<open>The round trip\<close>

lemma decode_block:
  assumes "newline \<notin> set block"
  shows "decode_manual_source (c @ HINT_MARKER @ block @ '']'') =
    \<lparr> ms_content = trim c, ms_kind_hint = kind_hint_of block, ms_entities = entities_of block \<rparr>"
proof -
  let ?raw = "c @ HINT_MARKER @ block @ '']''"
  have "trim_end_by is_ws ?raw = ?raw" by (rule trim_end_by_id) (simp add: is_ws_def)
  then have e: "ends_with (trim_end_by is_ws ?raw) '']''" by (simp add: ends_with_iff)
  have "newline \<notin> set (block @ '']'')" using assms by simp
  then have "rfind_sub ?raw HINT_MARKER = Some (length c)"
    using marker_last [of "block @ '']''" ?raw c] by (intro rfind_sub_last [where b = "block @ '']''"]) auto
  moreover have "strip_suffix (block @ '']'') '']'' = Some block" by (simp add: strip_suffix_iff)
  ultimately show ?thesis using e by (simp add: decode_manual_source_def)
qed

lemma decode_bare:
  assumes "\<not> (ends_with (trim_end_by is_ws c) '']'' \<and> contains c HINT_MARKER)"
  shows "decode_manual_source c = \<lparr> ms_content = trim c, ms_kind_hint = None, ms_entities = [] \<rparr>"
proof -
  have "rfind_sub c HINT_MARKER = None" if "\<not> contains c HINT_MARKER"
  proof -
    have "rev c \<noteq> a @ rev HINT_MARKER @ b" for a b
    proof
      assume "rev c = a @ rev HINT_MARKER @ b"
      then have "rev (rev c) = rev (a @ rev HINT_MARKER @ b)" by (rule arg_cong)
      then have "c = rev b @ HINT_MARKER @ rev a" by simp
      then show False using that unfolding contains_iff by blast
    qed
    then show ?thesis by (simp add: rfind_sub_def find_sub_None_iff)
  qed
  then show ?thesis using assms by (auto simp: decode_manual_source_def)
qed

text \<open>C31: What a \<open>memory_add\<close> states is what the pipeline reads back: a trimmed statement with any kind hint
  and any plain entity names comes out of the source text as it went in, whatever the statement itself
  contains, provided that a statement sent with no hint at all is not itself a hint block.\<close>

theorem manual_source_round_trip:
  assumes "trim content = content"
    and "\<forall>e\<in>set entities. entity_ok e"
    and "kind = None \<and> entities = [] \<longrightarrow> \<not> (ends_with content '']'' \<and> contains content HINT_MARKER)"
  shows "decode_manual_source (encode_manual_source content kind entities) =
    \<lparr> ms_content = content, ms_kind_hint = kind, ms_entities = entities \<rparr>"
proof (cases "kind = None \<and> entities = []")
  case True
  have "trim_end_by is_ws content = content"
    using assms(1) trim_by_ends(2) [of is_ws content] by (intro trim_end_by_id) auto
  then have "decode_manual_source content = \<lparr> ms_content = trim content, ms_kind_hint = None, ms_entities = [] \<rparr>"
    using assms(3) True by (intro decode_bare) simp
  then show ?thesis using True assms(1) by (simp add: encode_manual_source_def hints_of_def)
next
  case False
  then have "hints_of kind entities \<noteq> []" by (cases kind) (auto simp: hints_of_def)
  then have "encode_manual_source content kind entities = content @ HINT_MARKER @ block_of kind entities @ '']''"
    by (simp add: encode_manual_source_def block_of_def)
  moreover have "kind_hint_of (block_of kind entities) = kind" using False assms(2) by (intro kind_hint_of_block) auto
  ultimately show ?thesis
    using decode_block [OF hint_chars [OF assms(2)]] entities_of_block [OF assms(2)] assms(1) by simp
qed

lemma manual_source_round_trip_witness:
  "decode_manual_source (encode_manual_source ''The window collapses to 100 blocks.'' (Some MK_Pitfall) [''Polygon RPC'', ''eth_getLogs'']) =
    \<lparr> ms_content = ''The window collapses to 100 blocks.'', ms_kind_hint = Some MK_Pitfall, ms_entities = [''Polygon RPC'', ''eth_getLogs''] \<rparr>"
proof (rule manual_source_round_trip)
  show "trim ''The window collapses to 100 blocks.'' = ''The window collapses to 100 blocks.''" by (rule trim_by_id) (simp add: is_ws_def)
  have "entity_ok e" if "e \<in> {''Polygon RPC'', ''eth_getLogs''}" for e
  proof -
    have "\<not> ends_with e (needle k)" for k using that by (cases k) (auto simp: needle_def ends_with_def)
    moreover have "trim e = e" using that by (intro trim_by_id) (auto simp: is_ws_def)
    ultimately show ?thesis using that by (auto simp: entity_ok_def)
  qed
  then show "\<forall>e\<in>set [''Polygon RPC'', ''eth_getLogs'']. entity_ok e" by simp
qed simp

text \<open>A bare statement that quotes a hint block is split, and a comma in an entity's name makes two of it.\<close>

lemma quoted_marker_is_split:
  "decode_manual_source (encode_manual_source (''The log says'' @ HINT_MARKER @ ''primarily a howto,]'') None []) =
    \<lparr> ms_content = ''The log says'', ms_kind_hint = Some MK_Howto, ms_entities = [] \<rparr>"
proof -
  have "kind_hint_of ''primarily a howto,'' = Some MK_Howto"
    by (simp add: kind_hint_of_def contains_def memory_kind_parse_def)
  moreover have "entities_of ''primarily a howto,'' = []"
    by (simp add: entities_of_def split_once_def ENTITIES_LEAD_def)
  moreover have "trim ''The log says'' = ''The log says''" by (rule trim_by_id) (simp add: is_ws_def)
  ultimately show ?thesis
    using decode_block [of "''primarily a howto,''" "''The log says''"] by (simp add: encode_manual_source_def hints_of_def)
qed

lemma comma_splits_an_entity:
  "ms_entities (decode_manual_source (encode_manual_source ''Use it.'' None [''a, b''])) = [''a'', ''b'']"
proof -
  have "\<not> ends_with e (needle k)" if "e \<in> {''a'', ''b''}" for e k using that by (cases k) (auto simp: needle_def ends_with_def)
  then have ok: "\<forall>e\<in>set [''a'', ''b'']. entity_ok e" by (auto simp: entity_ok_def trim_by_id is_ws_def)
  have "encode_manual_source ''Use it.'' None [''a, b''] = ''Use it.'' @ HINT_MARKER @ block_of None [''a'', ''b''] @ '']''"
    by (simp add: encode_manual_source_def block_of_def hints_of_def)
  then show ?thesis using entities_of_block [OF ok, of None]
    by (simp only: decode_block [OF hint_chars [OF ok]] manual_source.simps)
qed

end
