(* ===== verification/Extract.thy ===== *)
theory Extract
  imports Retrieval Redact Manual Numbers
begin

text \<open>
  \<open>brainiac-pipeline/src/extract.rs\<close>: source text to raw memories, entities and relations.  Texts are
  ASCII here, so a character is a byte.  Parameters (\<open>extract_env\<close>): the redaction rules, SHA-256, the
  JSON reader, the embedder, the environment variables, and the provider, which answers its \<open>n\<close>-th call
  with a text and the model's name, or fails.  \<open>None\<close> is an error that rolls the transaction back.
\<close>

section \<open>What the model writes\<close>

record extracted_entity =
  ee_name :: string
  ee_kind :: string
  ee_aliases :: "string list"

record extracted_relation =
  er_src :: string
  er_rel :: string
  er_dst :: string

record extracted_memory =
  em_kind :: string
  em_title :: "string option"
  em_content :: string
  em_lifecycle :: "string option"
  em_detail_md :: "string option"
  em_visibility :: "string option"
  em_confidence :: "rat option"
  em_entities :: "extracted_entity list"
  em_relations :: "extracted_relation list"

definition default_entity_kind :: string where "default_entity_kind = ''concept''"

definition clean_aliases :: "extracted_entity \<Rightarrow> string list" where
  "clean_aliases e =
    fold (\<lambda>a out. let a = trim a in
        if a = [] \<or> lowercase a = lowercase (trim (ee_name e)) then out
        else if list_ex (\<lambda>x. lowercase x = lowercase a) out then out
        else out @ [a]) (ee_aliases e) []"

definition MAX_DETAIL_CHARS :: nat where "MAX_DETAIL_CHARS = 2000"
definition MAX_TITLE_CHARS :: nat where "MAX_TITLE_CHARS = 120"

definition clean_title :: "string option \<Rightarrow> string option" where
  "clean_title raw =
    (case raw of None \<Rightarrow> None
     | Some r \<Rightarrow> (let t = trim (trim_end_by (\<lambda>c. c = CHR ''.'') (trim r)) in
         if t = [] then None else Some (take MAX_TITLE_CHARS t)))"

text \<open>The UTF-8 bytes of the ellipsis; the outer \<open>None\<close> is a panic of the redactor.\<close>

definition ellipsis :: string where "ellipsis = [CHR 0xE2, CHR 0x80, CHR 0xA6]"

definition clean_detail :: "rule list \<Rightarrow> string option \<Rightarrow> string option option" where
  "clean_detail rules raw =
    (case raw of None \<Rightarrow> Some None
     | Some r \<Rightarrow>
         (if trim r = [] then Some None
          else case redact rules (trim r) of None \<Rightarrow> None
          | Some red \<Rightarrow>
              Some (if trim red = [] then None
                else Some (if length red > MAX_DETAIL_CHARS then take MAX_DETAIL_CHARS red @ [newline] @ ellipsis else red))))"

section \<open>Chunks\<close>

definition MAX_EXTRACT_TOKENS :: nat where "MAX_EXTRACT_TOKENS = 4096"
definition CHARS_PER_TOKEN :: nat where "CHARS_PER_TOKEN = 4"
definition CHUNK_TARGET_TOKENS :: nat where "CHUNK_TARGET_TOKENS = 3000"
definition MAX_CHUNK_CHARS :: nat where "MAX_CHUNK_CHARS = CHUNK_TARGET_TOKENS * CHARS_PER_TOKEN"
definition CHUNK_OVERLAP_CHARS :: nat where "CHUNK_OVERLAP_CHARS = 800"

text \<open>The loop, from the position \<open>start\<close>.\<close>

function chunks_from :: "string \<Rightarrow> nat \<Rightarrow> string list" where
  "chunks_from text start =
    (if start < length text then
       (let stop = min (start + MAX_CHUNK_CHARS) (length text);
            chunk = take (stop - start) (drop start text)
        in if stop = length text then [chunk]
           else chunk # chunks_from text (start + (MAX_CHUNK_CHARS - CHUNK_OVERLAP_CHARS)))
     else [])"
  by pat_completeness auto
termination
  by (relation "measure (\<lambda>(text, start). length text - start)")
    (auto simp: MAX_CHUNK_CHARS_def CHUNK_TARGET_TOKENS_def CHARS_PER_TOKEN_def CHUNK_OVERLAP_CHARS_def)

declare chunks_from.simps [simp del]

definition chunk_source :: "string \<Rightarrow> string list" where
  "chunk_source text = (if length text \<le> MAX_CHUNK_CHARS then [text] else chunks_from text 0)"

section \<open>JSON in prose\<close>

text \<open>The scan from the first opening bracket on: the offset of the bracket that closes it.\<close>

fun balanced :: "char \<Rightarrow> char \<Rightarrow> string \<Rightarrow> nat \<Rightarrow> nat \<Rightarrow> bool \<Rightarrow> bool \<Rightarrow> nat option" where
  "balanced ob cb [] i depth in_string escaped = None"
| "balanced ob cb (b # bs) i depth in_string escaped =
    (if in_string then
       (if escaped then balanced ob cb bs (i + 1) depth True False
        else if b = CHR 0x5C then balanced ob cb bs (i + 1) depth True True
        else balanced ob cb bs (i + 1) depth (b \<noteq> CHR 0x22) False)
     else if b = CHR 0x22 then balanced ob cb bs (i + 1) depth True escaped
     else if b = ob then balanced ob cb bs (i + 1) (depth + 1) False escaped
     else if b = cb then (if depth - 1 = 0 then Some i else balanced ob cb bs (i + 1) (depth - 1) False escaped)
     else balanced ob cb bs (i + 1) depth False escaped)"

definition json_slice :: "char \<Rightarrow> char \<Rightarrow> string \<Rightarrow> string option" where
  "json_slice ob cb s =
    (case find_sub s [ob] of None \<Rightarrow> None
     | Some start \<Rightarrow> map_option (\<lambda>i. take (i + 1) (drop start s)) (balanced ob cb (drop start s) 0 0 False False))"

definition extract_json_object :: "string \<Rightarrow> string option" where
  "extract_json_object s = json_slice CHR ''{'' CHR ''}'' s"

definition extract_json_array :: "string \<Rightarrow> string option" where
  "extract_json_array s = json_slice CHR ''['' CHR '']'' s"

section \<open>The environment\<close>

text \<open>
  The JSON reader in three uses: \<open>from_str::<Value>\<close> (an error text, or whether the value has a
  \<open>memories\<close> key), \<open>from_str::<ExtractionOutput>\<close> and \<open>from_str::<Vec<ExtractedMemory>>\<close>.
\<close>

record extract_env =
  xe_rules :: "rule list"
  xe_sha :: "string \<Rightarrow> string"
  xe_value :: "string \<Rightarrow> string + bool"
  xe_output :: "string \<Rightarrow> extracted_memory list option"
  xe_array :: "string \<Rightarrow> extracted_memory list option"
  xe_embed :: "string \<Rightarrow> real list option"
  xe_provider :: "nat \<Rightarrow> string \<Rightarrow> rat \<Rightarrow> (string \<times> string) option"
  xe_model_ref :: string
  xe_prompt :: string
  xe_var :: "string \<Rightarrow> string option"
  xe_version :: nat

definition parse_extraction :: "extract_env \<Rightarrow> string \<Rightarrow> string + extracted_memory list" where
  "parse_extraction env text =
    (let obj_str = extract_json_object text;
         obj_out = (case obj_str of None \<Rightarrow> None
           | Some s \<Rightarrow> (case xe_value env s of Inl _ \<Rightarrow> None | Inr has \<Rightarrow> if has then xe_output env s else None));
         arr_out = Option.bind (extract_json_array text) (xe_array env);
         failure = (case obj_str of
             None \<Rightarrow> ''no JSON object or array in response''
           | Some s \<Rightarrow> (case xe_value env s of
               Inl e \<Rightarrow> e
             | Inr has \<Rightarrow> if has then ''`memories` was not an array of the expected shape''
                         else ''response JSON had no `memories` field''))
     in case (obj_out, arr_out) of
          (Some x, Some a) \<Rightarrow> Inr (if length a > length x then a else x)
        | (Some x, None) \<Rightarrow> Inr x
        | (None, Some a) \<Rightarrow> if a \<noteq> [] then Inr a else Inl failure
        | (None, None) \<Rightarrow> Inl failure)"

text \<open>\<open>str::parse::<i64>\<close> of a trimmed variable.\<close>

definition parse_i64 :: "string \<Rightarrow> int option" where
  "parse_i64 s =
    (case s of
       c # cs \<Rightarrow>
         (if c = CHR ''-'' then
            (if cs = [] \<or> \<not> list_all is_digit cs \<or> nat_of_digits cs > 2 ^ 63 then None else Some (- int (nat_of_digits cs)))
          else case parse_u64 s of None \<Rightarrow> None | Some n \<Rightarrow> if n < 2 ^ 63 then Some (int n) else None)
     | [] \<Rightarrow> None)"

definition uppercase :: "string \<Rightarrow> string" where
  "uppercase s = map (\<lambda>c. if is_lower c then char_of (code c - 32) else c) s"

definition ttl_days :: "extract_env \<Rightarrow> memory_kind \<Rightarrow> int option" where
  "ttl_days env kind =
    (let d = (case Option.bind (xe_var env (''BRAINIAC_TTL_DAYS_'' @ uppercase (memory_kind_as_str kind))) (parse_i64 \<circ> trim) of
           Some n \<Rightarrow> n | None \<Rightarrow> int (default_ttl_days kind))
     in if d > 0 then Some d else None)"

section \<open>Asking the model\<close>

definition MAX_REPAIR_ATTEMPTS :: nat where "MAX_REPAIR_ATTEMPTS = 2"
definition PASS_TEMPERATURES :: "rat list" where "PASS_TEMPERATURES = [0, 3 / 10, 6 / 10]"
definition MAX_LLM_CALLS_PER_CHUNK :: nat where "MAX_LLM_CALLS_PER_CHUNK = 6"
definition MIN_CHARS_FOR_RESAMPLE :: nat where "MIN_CHARS_FOR_RESAMPLE = 300"

record call_budget =
  cb_calls :: nat
  cb_parse_failures :: nat
  cb_repairs :: nat

definition budget_default :: call_budget where
  "budget_default = \<lparr> cb_calls = 0, cb_parse_failures = 0, cb_repairs = 0 \<rparr>"

definition budget_exhausted :: "call_budget \<Rightarrow> bool" where
  "budget_exhausted b = (cb_calls b \<ge> MAX_LLM_CALLS_PER_CHUNK)"

record llm_extract =
  le_memories :: "extracted_memory list"
  le_model_ref :: string
  le_text :: "string option"

definition called :: "call_budget \<Rightarrow> call_budget" where
  "called b = b\<lparr> cb_calls := cb_calls b + 1 \<rparr>"

definition repair_prompt :: "string \<Rightarrow> string \<Rightarrow> nat \<Rightarrow> string" where
  "repair_prompt last_err last_text attempt =
    ''Your previous response could not be parsed as JSON ('' @ last_err @ '').'' @ [newline] @
    ''Here is the exact response that failed:'' @ [newline, newline] @ last_text @ [newline, newline] @
    ''Return ONLY the corrected JSON object matching the required schema '' @ [CHR 0xE2, CHR 0x80, CHR 0x94] @
    '' no prose, no code fences, nothing else.'' @
    (if attempt = MAX_REPAIR_ATTEMPTS
     then '' If there is genuinely no durable knowledge to extract, respond with exactly {'' @ [CHR 0x22] @ ''memories'' @ [CHR 0x22] @
       '':[]} '' @ [CHR 0xE2, CHR 0x80, CHR 0x94] @ '' but NEVER respond with prose or an explanation.''
     else [])"

text \<open>\<open>base\<close> is the number of calls made before this chunk.\<close>

fun repair_loop ::
  "extract_env \<Rightarrow> nat \<Rightarrow> rat \<Rightarrow> nat list \<Rightarrow> string \<Rightarrow> string \<Rightarrow> call_budget \<Rightarrow> llm_extract option \<times> call_budget" where
  "repair_loop env base temp [] last_err last_text b = (None, b)"
| "repair_loop env base temp (attempt # attempts) last_err last_text b =
    (if budget_exhausted b then (None, b)
     else case xe_provider env (base + cb_calls b) (repair_prompt last_err last_text attempt) temp of
       None \<Rightarrow> (None, called b)
     | Some (text, ref) \<Rightarrow>
         (case parse_extraction env text of
            Inr ms \<Rightarrow> (Some \<lparr> le_memories = ms, le_model_ref = ref, le_text = Some text \<rparr>,
                       (called b)\<lparr> cb_repairs := cb_repairs b + 1 \<rparr>)
          | Inl e \<Rightarrow> repair_loop env base temp attempts e text (called b)))"

definition extract_once ::
  "extract_env \<Rightarrow> nat \<Rightarrow> string \<Rightarrow> rat \<Rightarrow> call_budget \<Rightarrow> llm_extract option \<times> call_budget" where
  "extract_once env base user temp b =
    (case xe_provider env (base + cb_calls b) user temp of
       None \<Rightarrow> (None, called b)
     | Some (text, ref) \<Rightarrow>
         (case parse_extraction env text of
            Inr ms \<Rightarrow> (Some \<lparr> le_memories = ms, le_model_ref = ref, le_text = Some text \<rparr>, called b)
          | Inl e \<Rightarrow> repair_loop env base temp [1 ..< MAX_REPAIR_ATTEMPTS + 1] e text
                       ((called b)\<lparr> cb_parse_failures := cb_parse_failures b + 1 \<rparr>)))"

definition worth_resampling :: "string \<Rightarrow> bool" where
  "worth_resampling chunk = (length (trim chunk) \<ge> MIN_CHARS_FOR_RESAMPLE)"

text \<open>The passes that are left: \<open>fallback\<close> is the last well-formed empty answer, \<open>first\<close> is pass 0.\<close>

fun passes ::
  "extract_env \<Rightarrow> nat \<Rightarrow> string \<Rightarrow> rat list \<Rightarrow> bool \<Rightarrow> llm_extract option \<Rightarrow> call_budget \<Rightarrow> nat
    \<Rightarrow> llm_extract option \<times> call_budget \<times> nat" where
  "passes env base chunk [] first_pass fallback b resamples = (fallback, b, resamples)"
| "passes env base chunk (temp # temps) first_pass fallback b resamples =
    (let r = (if first_pass then resamples else resamples + 1) in
     case extract_once env base chunk temp b of
       (out, b') \<Rightarrow>
         (if (case out of Some call \<Rightarrow> le_memories call \<noteq> [] | None \<Rightarrow> False) then (out, b', r)
          else let fallback' = (case out of Some call \<Rightarrow> Some call | None \<Rightarrow> fallback) in
            if \<not> worth_resampling chunk \<or> budget_exhausted b' then (fallback', b', r)
            else passes env base chunk temps False fallback' b' r))"

definition extract_chunk :: "extract_env \<Rightarrow> nat \<Rightarrow> string \<Rightarrow> llm_extract option \<times> call_budget \<times> nat" where
  "extract_chunk env base chunk = passes env base chunk PASS_TEMPERATURES True None budget_default 0"

definition extract_verbatim :: "string \<Rightarrow> llm_extract" where
  "extract_verbatim raw_text =
    (let d = decode_manual_source raw_text;
         kind = (case ms_kind_hint d of Some k \<Rightarrow> k | None \<Rightarrow> MK_Fact)
     in \<lparr> le_memories =
            [\<lparr> em_kind = memory_kind_as_str kind, em_title = None, em_content = ms_content d, em_lifecycle = None,
                em_detail_md = None, em_visibility = None, em_confidence = None,
                em_entities = map (\<lambda>n. \<lparr> ee_name = n, ee_kind = default_entity_kind, ee_aliases = [] \<rparr>) (ms_entities d),
                em_relations = [] \<rparr>],
          le_model_ref = ''verbatim:manual'', le_text = None \<rparr>)"

section \<open>The call cache\<close>

record cache_row =
  cc_org_id :: uuid
  cc_key :: string
  cc_response :: string
  cc_model_ref :: string
  cc_fingerprint :: string
  cc_hits :: nat
  cc_last_used :: instant

record pipeline_db = store +
  x_cache :: "cache_row list"

text \<open>\<open>{b:02x}\<close> of one byte.\<close>

definition hex_digit :: "nat \<Rightarrow> char" where
  "hex_digit d = (if d < 10 then char_of (48 + d) else char_of (87 + d))"

definition hex_byte :: "char \<Rightarrow> string" where
  "hex_byte b = [hex_digit (code b div 16), hex_digit (code b mod 16)]"

definition hex :: "string \<Rightarrow> string" where
  "hex bytes = concat (map hex_byte bytes)"

definition hex16 :: "string \<Rightarrow> string" where
  "hex16 bytes = hex (take 8 bytes)"

definition prompt_fingerprint :: "extract_env \<Rightarrow> string" where
  "prompt_fingerprint env = hex16 (xe_sha env (xe_prompt env))"

text \<open>\<open>usize::to_le_bytes\<close>, and the bytes the key is hashed from.\<close>

definition le_bytes :: "nat \<Rightarrow> string" where
  "le_bytes n = map (\<lambda>i. char_of (n div 256 ^ i mod 256)) [0 ..< 8]"

definition cache_preimage :: "string list \<Rightarrow> string" where
  "cache_preimage parts = concat (map (\<lambda>p. le_bytes (length p) @ p) parts)"

definition cache_key :: "extract_env \<Rightarrow> string \<Rightarrow> string \<Rightarrow> string \<Rightarrow> string" where
  "cache_key env model_ref prompt_fp redacted = hex (xe_sha env (cache_preimage [prompt_fp, model_ref, redacted]))"

definition cache_hit :: "session \<Rightarrow> uuid \<Rightarrow> string \<Rightarrow> cache_row \<Rightarrow> bool" where
  "cache_hit ses org_id key r = (in_org ses (cc_org_id r) \<and> cc_org_id r = org_id \<and> cc_key r = key)"

definition cache_lookup :: "instant \<Rightarrow> session \<Rightarrow> uuid \<Rightarrow> string \<Rightarrow> cache_row list \<Rightarrow> string option \<times> cache_row list" where
  "cache_lookup now ses org_id key rows =
    (map_option cc_response (find (cache_hit ses org_id key) rows),
     update_where (cache_hit ses org_id key) (\<lambda>r. r\<lparr> cc_hits := cc_hits r + 1, cc_last_used := now \<rparr>) rows)"

text \<open>\<open>ON CONFLICT (org_id, cache_key) DO NOTHING\<close>; \<open>None\<close> is a panic of the redactor.\<close>

definition cache_store ::
  "extract_env \<Rightarrow> instant \<Rightarrow> uuid \<Rightarrow> string \<Rightarrow> string \<Rightarrow> string \<Rightarrow> string \<Rightarrow> cache_row list \<Rightarrow> cache_row list option" where
  "cache_store env now org_id key model_ref prompt_fp response rows =
    map_option (\<lambda>red. insert_or_ignore (\<lambda>r. (cc_org_id r, cc_key r))
        \<lparr> cc_org_id = org_id, cc_key = key, cc_response = red, cc_model_ref = model_ref, cc_fingerprint = prompt_fp,
           cc_hits = 0, cc_last_used = now \<rparr> rows)
      (redact (xe_rules env) response)"

section \<open>Writing the memories of a source\<close>

record extract_stats =
  xs_memories_written :: nat
  xs_entities_created :: "uuid list"
  xs_memory_ids :: "uuid list"
  xs_dropped_invalid :: nat
  xs_deduped :: nat
  xs_chunks :: nat
  xs_parse_failures :: nat
  xs_repairs :: nat
  xs_empty_resamples :: nat
  xs_recovered_from_empty :: nat
  xs_cache_hits :: nat
  xs_llm_calls :: nat
  xs_model_ref :: "string option"

text \<open>The arguments that do not change, and the state of a run: \<open>xt_used\<close> counts the ids drawn from \<open>fresh\<close>.\<close>

record extract_job =
  xj_now :: instant
  xj_session :: session
  xj_org :: uuid
  xj_team :: "uuid option"
  xj_source :: uuid
  xj_kind :: string
  xj_text :: string
  xj_run :: "uuid option"
  xj_project :: "uuid option"
  xj_fresh :: "nat \<Rightarrow> uuid"

record extract_state =
  xt_db :: pipeline_db
  xt_stats :: extract_stats
  xt_prov :: "uuid option"
  xt_used :: nat

definition memory_exists_for_source :: "session \<Rightarrow> uuid \<Rightarrow> uuid \<Rightarrow> string \<Rightarrow> corpus \<Rightarrow> bool" where
  "memory_exists_for_source ses org_id source_id content db =
    list_ex (\<lambda>m. sees_memory db ses m \<and> m_org_id m = org_id \<and> m_content m = content \<and>
        list_ex (\<lambda>p. in_org ses (pv_org_id p) \<and> m_provenance_id m = Some (pv_id p) \<and> pv_source_id p = Some source_id) (provenances db))
      (memories db)"

text \<open>One listed entity: found or created in the source's team, noted under its lower-case name, linked.\<close>

definition write_entity ::
  "extract_job \<Rightarrow> uuid \<Rightarrow> uuid \<Rightarrow> extracted_entity \<Rightarrow> (string \<rightharpoonup> uuid) \<times> extract_state \<Rightarrow> (string \<rightharpoonup> uuid) \<times> extract_state" where
  "write_entity job prov memory e acc =
    (case acc of (names, st) \<Rightarrow>
      (case find_by_name (xj_session job) (xj_org job) (xj_team job) (ee_name e) (s_graph (xt_db st)) of
         Some k \<Rightarrow>
           (names(lowercase (ee_name e) \<mapsto> k),
            st\<lparr> xt_db := (xt_db st)\<lparr> s_graph := link_entity memory k (s_graph (xt_db st)) \<rparr> \<rparr>)
       | None \<Rightarrow>
           (let k = xj_fresh job (xt_used st);
                kind = (case entity_kind_parse (ee_kind e) of Some ek \<Rightarrow> ek | None \<Rightarrow> entity_kind_default);
                g = insert_entity k (xj_org job) (xj_team job) (ee_name e) (entity_kind_as_str kind) (clean_aliases e) (Some prov)
                      (s_graph (xt_db st))
            in (names(lowercase (ee_name e) \<mapsto> k),
                st\<lparr> xt_db := (xt_db st)\<lparr> s_graph := link_entity memory k g \<rparr>,
                    xt_stats := (xt_stats st)\<lparr> xs_entities_created := xs_entities_created (xt_stats st) @ [k] \<rparr>,
                    xt_used := xt_used st + 1 \<rparr>))))"

definition drop_one :: "extract_state \<Rightarrow> extract_state" where
  "drop_one st = st\<lparr> xt_stats := (xt_stats st)\<lparr> xs_dropped_invalid := xs_dropped_invalid (xt_stats st) + 1 \<rparr> \<rparr>"

definition write_relation ::
  "extract_job \<Rightarrow> uuid \<Rightarrow> (string \<rightharpoonup> uuid) \<Rightarrow> extracted_relation \<Rightarrow> extract_state \<Rightarrow> extract_state" where
  "write_relation job memory names r st =
    (case (names (lowercase (er_src r)), names (lowercase (er_dst r))) of
       (Some src, Some dst) \<Rightarrow>
         (case edge_relation_parse (er_rel r) of
            None \<Rightarrow> drop_one st
          | Some rel \<Rightarrow>
              st\<lparr> xt_db := (xt_db st)\<lparr> s_graph := insert_edge (xj_fresh job (xt_used st)) (xj_org job) src dst
                     (edge_relation_as_str rel) (Some memory) (s_graph (xt_db st)) \<rparr>,
                  xt_used := xt_used st + 1 \<rparr>)
     | _ \<Rightarrow> drop_one st)"

definition new_row ::
  "extract_env \<Rightarrow> extract_job \<Rightarrow> uuid \<Rightarrow> uuid \<Rightarrow> memory_kind \<Rightarrow> string \<Rightarrow> string option \<Rightarrow> extracted_memory \<Rightarrow> new_memory" where
  "new_row env job k prov kind content detail m =
    \<lparr> nm_id = k, nm_org_id = xj_org job, nm_team_id = xj_team job, nm_owner_user_id = None,
       nm_visibility = (case Option.bind (em_visibility m) visibility_parse of Some v \<Rightarrow> v | None \<Rightarrow> Vis_Team),
       nm_status = MS_Raw, nm_kind = kind, nm_content = content, nm_title = clean_title (em_title m),
       nm_lifecycle = (case Option.bind (em_lifecycle m) lifecycle_parse of Some l \<Rightarrow> l | None \<Rightarrow> lifecycle_default),
       nm_detail_md = detail, nm_language = ''en'', nm_valid_from = Some (xj_now job),
       nm_valid_to = map_option (\<lambda>d. xj_now job + days d) (ttl_days env kind), nm_superseded_by = None,
       nm_confidence = map_option (\<lambda>c. min (max c 0) 1) (em_confidence m), nm_provenance_id = Some prov,
       nm_project_id = xj_project job \<rparr>"

text \<open>The body of the loop over the memories of a chunk: the firewalls, then the writes.\<close>

definition store_memory ::
  "extract_env \<Rightarrow> extract_job \<Rightarrow> uuid \<Rightarrow> memory_kind \<Rightarrow> string \<Rightarrow> string option \<Rightarrow> extracted_memory \<Rightarrow> extract_state \<Rightarrow> extract_state option" where
  "store_memory env job prov kind content detail m st =
    (let k = xj_fresh job (xt_used st);
         st1 = st\<lparr> xt_db := (xt_db st)\<lparr> s_corpus := insert_memory (xj_now job)
                     (new_row env job k prov kind content detail m) (s_corpus (xt_db st)) \<rparr>,
                   xt_used := xt_used st + 1 \<rparr>;
         (names, st2) = fold (write_entity job prov k) (em_entities m) (Map.empty, st1);
         st3 = fold (write_relation job k names) (em_relations m) st2
     in case xe_embed env content of
          None \<Rightarrow> None
        | Some v \<Rightarrow>
            Some (st3\<lparr> xt_db := (xt_db st3)\<lparr> s_embeddings := upsert_embedding k (xe_version env) v (s_embeddings (xt_db st3)) \<rparr>,
                       xt_stats := (xt_stats st3)\<lparr> xs_memory_ids := xs_memory_ids (xt_stats st3) @ [k],
                         xs_memories_written := xs_memories_written (xt_stats st3) + 1 \<rparr> \<rparr>))"

definition write_memory :: "extract_env \<Rightarrow> extract_job \<Rightarrow> uuid \<Rightarrow> extracted_memory \<Rightarrow> extract_state \<Rightarrow> extract_state option" where
  "write_memory env job prov m st =
    (case memory_kind_parse (em_kind m) of
       None \<Rightarrow> Some (drop_one st)
     | Some kind \<Rightarrow>
         (case redact (xe_rules env) (trim (em_content m)) of
            None \<Rightarrow> None
          | Some content \<Rightarrow>
              (if content = [] then Some (drop_one st)
               else if memory_exists_for_source (xj_session job) (xj_org job) (xj_source job) content (s_corpus (xt_db st))
               then Some (st\<lparr> xt_stats := (xt_stats st)\<lparr> xs_deduped := xs_deduped (xt_stats st) + 1 \<rparr> \<rparr>)
               else case clean_detail (xe_rules env) (em_detail_md m) of
                 None \<Rightarrow> None
               | Some detail \<Rightarrow> store_memory env job prov kind content detail m st)))"

fun write_memories :: "extract_env \<Rightarrow> extract_job \<Rightarrow> uuid \<Rightarrow> extracted_memory list \<Rightarrow> extract_state \<Rightarrow> extract_state option" where
  "write_memories env job prov [] st = Some st"
| "write_memories env job prov (m # ms) st = Option.bind (write_memory env job prov m st) (write_memories env job prov ms)"

text \<open>Where a chunk's extraction comes from: the cache, or the model, with the calls it cost.\<close>

definition count_calls :: "call_budget \<Rightarrow> nat \<Rightarrow> extract_stats \<Rightarrow> extract_stats" where
  "count_calls b resamples s =
    s\<lparr> xs_llm_calls := xs_llm_calls s + cb_calls b, xs_parse_failures := xs_parse_failures s + cb_parse_failures b,
       xs_repairs := xs_repairs s + cb_repairs b, xs_empty_resamples := xs_empty_resamples s + resamples \<rparr>"

definition live_extract ::
  "extract_env \<Rightarrow> extract_job \<Rightarrow> string \<Rightarrow> string \<Rightarrow> extract_state \<Rightarrow> (llm_extract \<times> extract_state) option" where
  "live_extract env job chunk key st =
    (case extract_chunk env (xs_llm_calls (xt_stats st)) chunk of
       (None, b, r) \<Rightarrow> None
     | (Some call, b, r) \<Rightarrow>
         (let found = le_memories call \<noteq> [];
              s = count_calls b r (xt_stats st);
              s' = (if r > 0 \<and> found then s\<lparr> xs_recovered_from_empty := xs_recovered_from_empty s + 1 \<rparr> else s)
          in case (if found then le_text call else None) of
               None \<Rightarrow> Some (call, st\<lparr> xt_stats := s' \<rparr>)
             | Some text \<Rightarrow>
                 map_option (\<lambda>rows. (call, st\<lparr> xt_stats := s', xt_db := (xt_db st)\<lparr> x_cache := rows \<rparr> \<rparr>))
                   (cache_store env (xj_now job) (xj_org job) key (le_model_ref call) (prompt_fingerprint env) text (x_cache (xt_db st)))))"

definition cached_memories :: "extract_env \<Rightarrow> string option \<Rightarrow> extracted_memory list option" where
  "cached_memories env resp =
    (case resp of None \<Rightarrow> None
     | Some text \<Rightarrow> (case parse_extraction env text of Inr ms \<Rightarrow> if ms \<noteq> [] then Some ms else None | Inl _ \<Rightarrow> None))"

definition model_extract ::
  "extract_env \<Rightarrow> extract_job \<Rightarrow> string \<Rightarrow> extract_state \<Rightarrow> (llm_extract \<times> extract_state) option" where
  "model_extract env job chunk st =
    (case redact (xe_rules env) chunk of
       None \<Rightarrow> None
     | Some redacted \<Rightarrow>
         (let key = cache_key env (xe_model_ref env) (prompt_fingerprint env) redacted;
              (resp, rows) = cache_lookup (xj_now job) (xj_session job) (xj_org job) key (x_cache (xt_db st));
              st1 = st\<lparr> xt_db := (xt_db st)\<lparr> x_cache := rows \<rparr> \<rparr>
          in case cached_memories env resp of
               Some ms \<Rightarrow>
                 Some (\<lparr> le_memories = ms, le_model_ref = xe_model_ref env, le_text = None \<rparr>,
                   st1\<lparr> xt_stats := (xt_stats st1)\<lparr> xs_cache_hits := xs_cache_hits (xt_stats st1) + 1 \<rparr> \<rparr>)
             | None \<Rightarrow> live_extract env job chunk key st1))"

text \<open>The single provenance row of a source, created on the first chunk.\<close>

definition ensure_provenance :: "extract_job \<Rightarrow> llm_extract \<Rightarrow> extract_state \<Rightarrow> uuid \<times> extract_state" where
  "ensure_provenance job call st =
    (case xt_prov st of
       Some p \<Rightarrow> (p, st)
     | None \<Rightarrow>
         (let p = xj_fresh job (xt_used st) in
          (p, st\<lparr> xt_stats := (xt_stats st)\<lparr> xs_model_ref := Some (le_model_ref call) \<rparr>,
                  xt_db := (xt_db st)\<lparr> s_corpus := insert_provenance
                     \<lparr> pv_id = p, pv_org_id = xj_org job, pv_actor_kind = [], pv_actor_id = ''extract-worker'',
                        pv_model_ref = Some (le_model_ref call), pv_source_id = Some (xj_source job),
                        pv_pipeline_run_id = xj_run job \<rparr> AK_Pipeline (s_corpus (xt_db st)) \<rparr>,
                  xt_prov := Some p, xt_used := xt_used st + 1 \<rparr>)))"

definition extract_one :: "extract_env \<Rightarrow> extract_job \<Rightarrow> bool \<Rightarrow> string \<Rightarrow> extract_state \<Rightarrow> extract_state option" where
  "extract_one env job verbatim chunk st =
    (case (if verbatim then Some (extract_verbatim chunk, st) else model_extract env job chunk st) of
       None \<Rightarrow> None
     | Some (call, st1) \<Rightarrow>
         (case ensure_provenance job call st1 of (p, st2) \<Rightarrow> write_memories env job p (le_memories call) st2))"

fun extract_all :: "extract_env \<Rightarrow> extract_job \<Rightarrow> bool \<Rightarrow> string list \<Rightarrow> extract_state \<Rightarrow> extract_state option" where
  "extract_all env job verbatim [] st = Some st"
| "extract_all env job verbatim (c # cs) st = Option.bind (extract_one env job verbatim c st) (extract_all env job verbatim cs)"

definition stats_default :: extract_stats where
  "stats_default =
    \<lparr> xs_memories_written = 0, xs_entities_created = [], xs_memory_ids = [], xs_dropped_invalid = 0, xs_deduped = 0,
       xs_chunks = 0, xs_parse_failures = 0, xs_repairs = 0, xs_empty_resamples = 0, xs_recovered_from_empty = 0,
       xs_cache_hits = 0, xs_llm_calls = 0, xs_model_ref = None \<rparr>"

definition run_extract :: "extract_env \<Rightarrow> extract_job \<Rightarrow> pipeline_db \<Rightarrow> extract_state option" where
  "run_extract env job db =
    (let verbatim = (xj_kind job = ''manual'');
         chunks = (if verbatim then [xj_text job] else chunk_source (xj_text job))
     in extract_all env job verbatim chunks
          \<lparr> xt_db = db, xt_stats = stats_default\<lparr> xs_chunks := length chunks \<rparr>, xt_prov = None, xt_used = 0 \<rparr>)"

section \<open>Chunks cover the source\<close>

lemma chunk_sizes: "MAX_CHUNK_CHARS = 12000" "CHUNK_OVERLAP_CHARS = 800"
  by (simp_all add: MAX_CHUNK_CHARS_def CHUNK_TARGET_TOKENS_def CHARS_PER_TOKEN_def CHUNK_OVERLAP_CHARS_def)

text \<open>Gluing the chunks back together: every chunk after the first without its overlap.\<close>

fun unchunk :: "string list \<Rightarrow> string" where
  "unchunk [] = []"
| "unchunk (c # cs) = c @ concat (map (drop CHUNK_OVERLAP_CHARS) cs)"

lemma chunks_from_cases:
  assumes "start < length s"
  obtains "length s \<le> start + 12000" "chunks_from s start = [drop start s]"
  | "start + 12000 < length s"
    "chunks_from s start = take 12000 (drop start s) # chunks_from s (start + 11200)"
  using assms that by (cases "length s \<le> start + 12000") (simp_all add: chunks_from.simps [of _ start] chunk_sizes Let_def min_def)

lemma chunks_from_spec:
  "start < length s \<Longrightarrow>
    unchunk (chunks_from s start) = drop start s \<and> chunks_from s start \<noteq> [] \<and>
    length (hd (chunks_from s start)) = min 12000 (length s - start) \<and>
    (\<forall>c\<in>set (chunks_from s start). length c \<le> 12000) \<and>
    (\<forall>i. start \<le> i \<longrightarrow> i + 800 \<le> length s \<longrightarrow> (\<exists>c\<in>set (chunks_from s start). contains c (take 800 (drop i s))))"
proof (induction s start rule: chunks_from.induct)
  case (1 s start)
  from 1(2) show ?case
  proof (cases rule: chunks_from_cases)
    case 1
    have "contains (drop start s) (take 800 (drop i s))" if "start \<le> i" for i
    proof -
      have "drop start s = take (i - start) (drop start s) @ take 800 (drop i s) @ drop 800 (drop i s)"
        using that by (metis append_take_drop_id drop_drop le_add_diff_inverse2)
      then show ?thesis unfolding contains_iff by blast
    qed
    then show ?thesis using 1 by auto
  next
    case 2
    have IH: "unchunk (chunks_from s (start + 11200)) = drop (start + 11200) s \<and> chunks_from s (start + 11200) \<noteq> [] \<and>
        length (hd (chunks_from s (start + 11200))) = min 12000 (length s - (start + 11200)) \<and>
        (\<forall>c\<in>set (chunks_from s (start + 11200)). length c \<le> 12000) \<and>
        (\<forall>i. start + 11200 \<le> i \<longrightarrow> i + 800 \<le> length s \<longrightarrow>
          (\<exists>c\<in>set (chunks_from s (start + 11200)). contains c (take 800 (drop i s))))"
      using 1(1) [OF 1(2) refl refl] 2(1) by (simp add: chunk_sizes)
    then obtain c cs where c: "chunks_from s (start + 11200) = c # cs" by (meson neq_Nil_conv)
    have len: "800 \<le> length c" using IH c 2(1) by simp
    have "unchunk (chunks_from s start) = take 12000 (drop start s) @ drop 800 c @ concat (map (drop 800) cs)"
      using 2(2) c by (simp add: chunk_sizes)
    also have "drop 800 c @ concat (map (drop 800) cs) = drop 800 (drop (start + 11200) s)"
    proof -
      have "c @ concat (map (drop 800) cs) = drop (start + 11200) s" using IH c by (simp add: chunk_sizes)
      then have "drop 800 (c @ concat (map (drop 800) cs)) = drop 800 (drop (start + 11200) s)" by (rule arg_cong)
      then show ?thesis using len by simp
    qed
    also have "\<dots> = drop 12000 (drop start s)" by (simp add: add.commute)
    finally have u: "unchunk (chunks_from s start) = drop start s" by (simp only: append_take_drop_id)
    have w: "\<exists>c\<in>set (chunks_from s start). contains c (take 800 (drop i s))" if i: "start \<le> i" "i + 800 \<le> length s" for i
    proof (cases "start + 11200 \<le> i")
      case True
      then show ?thesis using IH i 2(2) by auto
    next
      case False
      have "take 12000 (drop start s) =
          take (i - start) (drop start s) @ take (12000 - (i - start)) (drop (i - start) (drop start s))"
        using take_add [of "i - start" "12000 - (i - start)" "drop start s"] i False by simp
      moreover have "drop (i - start) (drop start s) = drop i s" using i by simp
      ultimately have "take 12000 (drop start s) = take (i - start) (drop start s) @ take (12000 - (i - start)) (drop i s)" by simp
      moreover have "take (12000 - (i - start)) (drop i s) = take 800 (drop i s) @ drop 800 (take (12000 - (i - start)) (drop i s))"
      proof -
        have "min 800 (12000 - (i - start)) = 800" using False by simp
        then have "take 800 (take (12000 - (i - start)) (drop i s)) = take 800 (drop i s)" by (simp only: take_take)
        then show ?thesis using append_take_drop_id [of 800 "take (12000 - (i - start)) (drop i s)"] by simp
      qed
      ultimately have "contains (take 12000 (drop start s)) (take 800 (drop i s))" unfolding contains_iff by metis
      then show ?thesis using 2(2) by auto
    qed
    show ?thesis using IH 2 u w by auto
  qed
qed

section \<open>The call budget\<close>

lemma budget_simps [simp]:
  "cb_calls (called b) = cb_calls b + 1" "cb_parse_failures (called b) = cb_parse_failures b" "cb_repairs (called b) = cb_repairs b"
  by (simp_all add: called_def)

text \<open>What an answer carries is what its text parses to.\<close>

definition reads_as :: "extract_env \<Rightarrow> llm_extract \<Rightarrow> bool" where
  "reads_as env call \<longleftrightarrow> (\<exists>t. le_text call = Some t \<and> parse_extraction env t = Inr (le_memories call))"

lemma repair_loop_spec:
  "repair_loop env base temp attempts e t b = (out, b') \<Longrightarrow> cb_calls b \<le> 6 \<Longrightarrow>
    cb_calls b \<le> cb_calls b' \<and> cb_calls b' \<le> 6 \<and> cb_calls b' \<le> cb_calls b + length attempts \<and>
    cb_parse_failures b' = cb_parse_failures b \<and> cb_repairs b \<le> cb_repairs b' \<and> cb_repairs b' \<le> cb_repairs b + 1 \<and>
    (\<forall>call. out = Some call \<longrightarrow> reads_as env call)"
proof (induction env base temp attempts e t b rule: repair_loop.induct)
  case (2 env base temp attempt attempts e t b)
  show ?case
  proof (cases "budget_exhausted b")
    case False
    then have less: "cb_calls b < 6" by (simp add: budget_exhausted_def MAX_LLM_CALLS_PER_CHUNK_def)
    show ?thesis
    proof (cases "xe_provider env (base + cb_calls b) (repair_prompt e t attempt) temp")
      case None
      then show ?thesis using 2(2) False less by auto
    next
      case (Some a)
      obtain answer ref where a: "a = (answer, ref)" by (cases a)
      show ?thesis
      proof (cases "parse_extraction env answer")
        case (Inl e')
        then show ?thesis using 2(1) [OF False Some a [symmetric] Inl] 2(2) Some a False less by auto
      next
        case (Inr ms)
        then show ?thesis using 2(2) Some a False less by (auto simp: reads_as_def)
      qed
    qed
  qed (use 2 in auto)
qed simp

lemma extract_once_spec:
  assumes "extract_once env base user temp b = (out, b')" "cb_calls b < 6"
  shows "cb_calls b < cb_calls b'" "cb_calls b' \<le> 6" "cb_calls b' \<le> cb_calls b + 3"
    "cb_parse_failures b \<le> cb_parse_failures b'" "cb_parse_failures b' \<le> cb_parse_failures b + 1"
    "cb_repairs b \<le> cb_repairs b'" "cb_repairs b' - cb_repairs b \<le> cb_parse_failures b' - cb_parse_failures b"
    "out = Some call \<Longrightarrow> reads_as env call"
proof -
  have "cb_calls b < cb_calls b' \<and> cb_calls b' \<le> 6 \<and> cb_calls b' \<le> cb_calls b + 3 \<and>
    cb_parse_failures b \<le> cb_parse_failures b' \<and> cb_parse_failures b' \<le> cb_parse_failures b + 1 \<and>
    cb_repairs b \<le> cb_repairs b' \<and> cb_repairs b' - cb_repairs b \<le> cb_parse_failures b' - cb_parse_failures b \<and>
    (\<forall>call. out = Some call \<longrightarrow> reads_as env call)"
  proof (cases "xe_provider env (base + cb_calls b) user temp")
    case None
    then show ?thesis using assms by (auto simp: extract_once_def)
  next
    case (Some a)
    obtain answer ref where a: "a = (answer, ref)" by (cases a)
    show ?thesis
    proof (cases "parse_extraction env answer")
      case (Inl e)
      let ?b = "(called b)\<lparr> cb_parse_failures := cb_parse_failures b + 1 \<rparr>"
      have r: "repair_loop env base temp [1 ..< MAX_REPAIR_ATTEMPTS + 1] e answer ?b = (out, b')"
        using assms(1) Some a Inl by (simp add: extract_once_def)
      have n: "length [1 ..< MAX_REPAIR_ATTEMPTS + 1] = 2" by (simp add: MAX_REPAIR_ATTEMPTS_def)
      from repair_loop_spec [OF r] assms(2) show ?thesis unfolding n by auto
    next
      case (Inr ms)
      then show ?thesis using assms Some a by (auto simp: extract_once_def reads_as_def)
    qed
  qed
  then show "cb_calls b < cb_calls b'" "cb_calls b' \<le> 6" "cb_calls b' \<le> cb_calls b + 3"
    "cb_parse_failures b \<le> cb_parse_failures b'" "cb_parse_failures b' \<le> cb_parse_failures b + 1"
    "cb_repairs b \<le> cb_repairs b'" "cb_repairs b' - cb_repairs b \<le> cb_parse_failures b' - cb_parse_failures b"
    "out = Some call \<Longrightarrow> reads_as env call" by auto
qed

lemma passes_spec:
  "passes env base chunk temps first fallback b r = (out, b', r') \<Longrightarrow> temps \<noteq> [] \<Longrightarrow> cb_calls b < 6 \<Longrightarrow>
    cb_repairs b \<le> cb_parse_failures b \<Longrightarrow> \<forall>call. fallback = Some call \<longrightarrow> reads_as env call \<Longrightarrow>
    cb_calls b < cb_calls b' \<and> cb_calls b' \<le> 6 \<and> r \<le> r' \<and> r' + (if first then 1 else 0) \<le> r + length temps \<and>
    cb_repairs b' \<le> cb_parse_failures b' \<and>
    (\<not> worth_resampling chunk \<longrightarrow> cb_calls b' \<le> cb_calls b + 3 \<and> r' = (if first then r else r + 1)) \<and>
    (\<forall>call. out = Some call \<longrightarrow> reads_as env call)"
proof (induction env base chunk temps first fallback b r rule: passes.induct)
  case (2 env base chunk temp temps first fallback b r)
  obtain o1 b1 where o1: "extract_once env base chunk temp b = (o1, b1)" by (cases "extract_once env base chunk temp b")
  note spec = extract_once_spec [OF o1 2(4)]
  have rep: "cb_repairs b1 \<le> cb_parse_failures b1" using spec(4,7) 2(5) by linarith
  define r1 where "r1 = (if first then r else r + 1)"
  define hit where "hit \<longleftrightarrow> (case o1 of Some call \<Rightarrow> le_memories call \<noteq> [] | None \<Rightarrow> False)"
  define f1 where "f1 = (case o1 of Some call \<Rightarrow> Some call | None \<Rightarrow> fallback)"
  have step: "passes env base chunk (temp # temps) first fallback b r =
      (if hit then (o1, b1, r1)
       else if \<not> worth_resampling chunk \<or> budget_exhausted b1 then (f1, b1, r1)
       else passes env base chunk temps False f1 b1 r1)"
    by (simp add: o1 r1_def hit_def f1_def Let_def)
  have f: "\<forall>call. f1 = Some call \<longrightarrow> reads_as env call" using spec(8) 2(6) by (auto simp: f1_def split: option.splits)
  have r1: "r \<le> r1" "r1 + (if first then 1 else 0) \<le> r + length (temp # temps)" by (simp_all add: r1_def)
  show ?case
  proof (cases "hit \<or> \<not> worth_resampling chunk \<or> budget_exhausted b1 \<or> temps = []")
    case True
    then have "(out = o1 \<or> out = f1) \<and> b' = b1 \<and> r' = r1" using 2(2) unfolding step by (auto split: if_splits)
    then show ?thesis using spec r1 rep f by (auto simp: r1_def)
  next
    case False
    then have n: "\<not> hit" "worth_resampling chunk" "\<not> budget_exhausted b1" "temps \<noteq> []" by auto
    then have rec: "passes env base chunk temps False f1 b1 r1 = (out, b', r')" using 2(2) unfolding step by simp
    have less: "cb_calls b1 < 6" using n(3) by (simp add: budget_exhausted_def MAX_LLM_CALLS_PER_CHUNK_def)
    have "cb_calls b1 < cb_calls b' \<and> cb_calls b' \<le> 6 \<and> r1 \<le> r' \<and> r' \<le> r1 + length temps \<and>
        cb_repairs b' \<le> cb_parse_failures b' \<and> (\<forall>call. out = Some call \<longrightarrow> reads_as env call)"
      using 2(1) [OF r1_def o1 [symmetric]] rec n less rep f unfolding hit_def f1_def by auto
    then show ?thesis using spec(1) n(2) r1 by (auto simp: r1_def)
  qed
qed simp

section \<open>The cache key\<close>

lemma hex_digit_inj:
  assumes "a < 16" "b < 16" "hex_digit a = hex_digit b"
  shows "a = b"
proof -
  have c: "code (hex_digit d) = (if d < 10 then 48 + d else 87 + d)" if "d < 16" for d
    using that by (simp add: hex_digit_def)
  have "(if a < 10 then 48 + a else 87 + a) = (if b < 10 then 48 + b else 87 + b)"
    using c [OF assms(1)] c [OF assms(2)] assms(3) by metis
  then show ?thesis using assms(1,2) by (auto split: if_splits)
qed

lemma hex_byte_inj: "hex_byte a = hex_byte b \<Longrightarrow> a = b"
proof -
  assume "hex_byte a = hex_byte b"
  then have "hex_digit (code a div 16) = hex_digit (code b div 16)" "hex_digit (code a mod 16) = hex_digit (code b mod 16)"
    by (simp_all add: hex_byte_def)
  moreover have "code x div 16 < 16" for x by (cases x) (simp add: less_mult_imp_div_less)
  ultimately have "code a div 16 = code b div 16" "code a mod 16 = code b mod 16" by (auto intro: hex_digit_inj)
  then have "code a = code b" by (metis div_mult_mod_eq)
  then show ?thesis by simp
qed

lemma hex_inj: "hex s = hex t \<Longrightarrow> s = t"
proof (induction s arbitrary: t)
  case Nil
  then show ?case by (cases t) (simp_all add: hex_def hex_byte_def)
next
  case (Cons c s)
  then obtain d t' where t: "t = d # t'" by (cases t) (simp_all add: hex_def hex_byte_def)
  then have "hex_byte c = hex_byte d" "hex s = hex t'" using Cons.prems by (simp_all add: hex_def hex_byte_def)
  then show ?case using Cons.IH hex_byte_inj t by blast
qed

lemma le_bytes_Suc:
  "map (\<lambda>i. char_of (n div 256 ^ i mod 256) :: char) [0 ..< Suc k] =
    char_of (n mod 256) # map (\<lambda>i. char_of (n div 256 div 256 ^ i mod 256)) [0 ..< k]"
  for n :: nat
  by (simp only: map_upt_Suc power_0 div_by_1 power_Suc div_mult2_eq)

lemma le_bytes_inj:
  "n < 256 ^ k \<Longrightarrow> m < 256 ^ k \<Longrightarrow>
    map (\<lambda>i. char_of (n div 256 ^ i mod 256) :: char) [0 ..< k] = map (\<lambda>i. char_of (m div 256 ^ i mod 256)) [0 ..< k] \<Longrightarrow> n = m"
  for n m :: nat
proof (induction k arbitrary: n m)
  case (Suc k)
  from Suc.prems(3) have e: "char_of (n mod 256) = (char_of (m mod 256) :: char)"
    "map (\<lambda>i. char_of (n div 256 div 256 ^ i mod 256) :: char) [0 ..< k] = map (\<lambda>i. char_of (m div 256 div 256 ^ i mod 256)) [0 ..< k]"
    unfolding le_bytes_Suc by simp_all
  have "n div 256 = m div 256" by (rule Suc.IH [OF _ _ e(2)]) (use Suc.prems in \<open>simp_all add: less_mult_imp_div_less mult.commute\<close>)
  moreover have "n mod 256 = m mod 256" using arg_cong [OF e(1), of "of_char :: char \<Rightarrow> nat"] by simp
  ultimately show ?case by (metis div_mult_mod_eq)
qed simp

lemma length_le_bytes [simp]: "length (le_bytes n) = 8"
  by (simp add: le_bytes_def)

lemma cache_preimage_inj:
  "\<forall>p\<in>set ps. length p < 2 ^ 64 \<Longrightarrow> \<forall>p\<in>set qs. length p < 2 ^ 64 \<Longrightarrow> cache_preimage ps = cache_preimage qs \<Longrightarrow> ps = qs"
proof (induction ps arbitrary: qs)
  case Nil
  then show ?case by (cases qs) (auto simp: cache_preimage_def le_bytes_def)
next
  case (Cons p ps)
  obtain q qs' where qs: "qs = q # qs'"
    using Cons.prems(3) by (cases qs) (auto simp: cache_preimage_def le_bytes_def)
  have e: "le_bytes (length p) @ (p @ cache_preimage ps) = le_bytes (length q) @ (q @ cache_preimage qs')"
    using Cons.prems(3) qs by (simp add: cache_preimage_def)
  then have b: "le_bytes (length p) = le_bytes (length q)" "p @ cache_preimage ps = q @ cache_preimage qs'"
    by (simp_all add: append_eq_append_conv)
  have "length p = length q"
    using le_bytes_inj [of "length p" 8 "length q"] b(1) Cons.prems(1,2) qs by (simp add: le_bytes_def)
  then have "p = q" "cache_preimage ps = cache_preimage qs'" using b(2) by (simp_all add: append_eq_append_conv)
  then show ?case using Cons.IH [of qs'] Cons.prems(1,2) qs by simp
qed

section \<open>What a run writes\<close>

text \<open>What the entities and the relations of a memory leave alone.\<close>

definition graph_only :: "extract_state \<Rightarrow> extract_state \<Rightarrow> bool" where
  "graph_only st st' \<longleftrightarrow>
    s_corpus (xt_db st') = s_corpus (xt_db st) \<and> s_embeddings (xt_db st') = s_embeddings (xt_db st) \<and>
    x_cache (xt_db st') = x_cache (xt_db st) \<and> xt_prov st' = xt_prov st \<and>
    xs_memory_ids (xt_stats st') = xs_memory_ids (xt_stats st) \<and> xs_memories_written (xt_stats st') = xs_memories_written (xt_stats st)"

lemma graph_only_trans: "graph_only a b \<Longrightarrow> graph_only b c \<Longrightarrow> graph_only a c"
  by (simp add: graph_only_def)

lemma write_entity_frame: "graph_only st (snd (write_entity job p k e (names, st)))"
  by (simp add: write_entity_def graph_only_def Let_def split: option.splits)

lemma write_relation_frame: "graph_only st (write_relation job k names r st)"
  by (simp add: write_relation_def graph_only_def drop_one_def Let_def split: option.splits)

lemma write_entities_frame: "graph_only (snd acc) (snd (fold (write_entity job p k) es acc))"
proof (induction es arbitrary: acc)
  case (Cons e es)
  have "graph_only (snd acc) (snd (write_entity job p k e acc))"
    using write_entity_frame [of "snd acc" job p k e "fst acc"] by (simp only: prod.collapse)
  then show ?case using Cons.IH [of "write_entity job p k e acc"] unfolding fold_simps by (rule graph_only_trans)
qed (simp add: graph_only_def)

lemma write_relations_frame: "graph_only st (fold (write_relation job k names) rs st)"
proof (induction rs arbitrary: st)
  case (Cons r rs)
  then show ?case using write_relation_frame graph_only_trans by (metis fold_simps(2))
qed (simp add: graph_only_def)

text \<open>A row the extract stage writes.\<close>

definition raw_row :: "extract_env \<Rightarrow> extract_job \<Rightarrow> uuid \<Rightarrow> mem_row \<Rightarrow> bool" where
  "raw_row env job p r \<longleftrightarrow>
    m_status r = MS_Raw \<and> m_org_id r = xj_org job \<and> m_team_id r = xj_team job \<and> m_project_id r = xj_project job \<and>
    m_owner_user_id r = None \<and> m_provenance_id r = Some p \<and> m_superseded_by r = None \<and> mr_deleted_at r = None \<and>
    m_valid_from r = Some (xj_now job) \<and> m_valid_to r = map_option (\<lambda>d. xj_now job + days d) (ttl_days env (m_kind r)) \<and>
    m_content r \<noteq> [] \<and> (\<exists>t. redact (xe_rules env) t = Some (m_content r)) \<and>
    (\<forall>c. m_confidence r = Some c \<longrightarrow> 0 \<le> c \<and> c \<le> 1) \<and>
    (\<forall>t. mr_title r = Some t \<longrightarrow> t \<noteq> [] \<and> length t \<le> MAX_TITLE_CHARS)"

lemma clean_title_bound: "clean_title raw = Some t \<Longrightarrow> t \<noteq> [] \<and> length t \<le> MAX_TITLE_CHARS"
  by (auto simp: clean_title_def Let_def MAX_TITLE_CHARS_def split: option.splits if_splits)

definition of_source :: "session \<Rightarrow> uuid \<Rightarrow> uuid \<Rightarrow> corpus \<Rightarrow> mem_row \<Rightarrow> bool" where
  "of_source ses org source db m \<longleftrightarrow>
    sees_memory db ses m \<and> m_org_id m = org \<and>
    list_ex (\<lambda>p. in_org ses (pv_org_id p) \<and> m_provenance_id m = Some (pv_id p) \<and> pv_source_id p = Some source) (provenances db)"

lemma memory_exists_iff:
  "memory_exists_for_source ses org source c db \<longleftrightarrow> (\<exists>m\<in>set (memories db). of_source ses org source db m \<and> m_content m = c)"
  by (auto simp: memory_exists_for_source_def of_source_def list_ex_iff)

lemma of_source_memories [simp]: "of_source ses org source (db\<lparr> memories := ms \<rparr>) = of_source ses org source db"
  by (simp add: of_source_def fun_eq_iff sees_memory_def)

text \<open>No two rows the session sees repeat a statement of one source.\<close>

definition once_per_source :: "session \<Rightarrow> uuid \<Rightarrow> uuid \<Rightarrow> corpus \<Rightarrow> bool" where
  "once_per_source ses org source db \<longleftrightarrow> distinct (map m_content (filter (of_source ses org source db) (memories db)))"

lemma store_memory_row:
  assumes "store_memory env job p kind content detail m st = Some st'"
  obtains r where "s_corpus (xt_db st') = (s_corpus (xt_db st))\<lparr> memories := memories (s_corpus (xt_db st)) @ [r] \<rparr>"
    "xt_prov st' = xt_prov st" "xs_memory_ids (xt_stats st') = xs_memory_ids (xt_stats st) @ [m_id r]"
    "xs_memories_written (xt_stats st') = xs_memories_written (xt_stats st) + 1" "m_content r = content"
    "m_visibility r = (case Option.bind (em_visibility m) visibility_parse of Some v \<Rightarrow> v | None \<Rightarrow> Vis_Team)"
    "content \<noteq> [] \<Longrightarrow> redact (xe_rules env) (trim (em_content m)) = Some content \<Longrightarrow> raw_row env job p r"
proof -
  define k where "k = xj_fresh job (xt_used st)"
  define n where "n = new_row env job k p kind content detail m"
  define st1 where "st1 = st\<lparr> xt_db := (xt_db st)\<lparr> s_corpus := insert_memory (xj_now job) n (s_corpus (xt_db st)) \<rparr>, xt_used := xt_used st + 1 \<rparr>"
  obtain names st2 where st2: "fold (write_entity job p k) (em_entities m) (Map.empty, st1) = (names, st2)" by (metis surj_pair)
  define st3 where "st3 = fold (write_relation job k names) (em_relations m) st2"
  obtain v where st': "st' = st3\<lparr> xt_db := (xt_db st3)\<lparr> s_embeddings := upsert_embedding k (xe_version env) v (s_embeddings (xt_db st3)) \<rparr>,
      xt_stats := (xt_stats st3)\<lparr> xs_memory_ids := xs_memory_ids (xt_stats st3) @ [k],
        xs_memories_written := xs_memories_written (xt_stats st3) + 1 \<rparr> \<rparr>"
    using assms st2 unfolding store_memory_def Let_def k_def [symmetric] n_def [symmetric] st1_def [symmetric]
    by (auto simp: st3_def split: option.splits)
  have "graph_only st1 st2" using write_entities_frame [of "(Map.empty, st1)" job p k "em_entities m"] st2 by simp
  then have g: "graph_only st1 st3" using write_relations_frame graph_only_trans unfolding st3_def by blast
  define r where "r = last (memories (insert_memory (xj_now job) n (s_corpus (xt_db st))))"
  have r: "insert_memory (xj_now job) n (s_corpus (xt_db st)) = (s_corpus (xt_db st))\<lparr> memories := memories (s_corpus (xt_db st)) @ [r] \<rparr>"
    "m_id r = k" "m_content r = content" by (simp_all add: r_def insert_memory_def n_def new_row_def)
  show ?thesis
  proof (rule that [of r])
    show "s_corpus (xt_db st') = (s_corpus (xt_db st))\<lparr> memories := memories (s_corpus (xt_db st)) @ [r] \<rparr>"
      using g r(1) by (simp add: st' graph_only_def st1_def)
    show "raw_row env job p r" if "content \<noteq> []" "redact (xe_rules env) (trim (em_content m)) = Some content"
      using that by (auto simp: r_def insert_memory_def raw_row_def n_def new_row_def dest: clean_title_bound)
    show "m_visibility r = (case Option.bind (em_visibility m) visibility_parse of Some v \<Rightarrow> v | None \<Rightarrow> Vis_Team)"
      by (simp add: r_def insert_memory_def n_def new_row_def)
  qed (use g r in \<open>simp_all add: st' graph_only_def st1_def\<close>)
qed

text \<open>A memory the firewalls and the dedup let go.\<close>

definition settled :: "extract_env \<Rightarrow> extract_job \<Rightarrow> corpus \<Rightarrow> extracted_memory \<Rightarrow> bool" where
  "settled env job db m \<longleftrightarrow>
    memory_kind_parse (em_kind m) = None \<or>
    (\<exists>c. redact (xe_rules env) (trim (em_content m)) = Some c \<and>
      (c = [] \<or> memory_exists_for_source (xj_session job) (xj_org job) (xj_source job) c db))"

lemma write_memory_cases:
  assumes "write_memory env job p m st = Some st'"
  obtains "s_corpus (xt_db st') = s_corpus (xt_db st)" "xt_prov st' = xt_prov st"
      "xs_memory_ids (xt_stats st') = xs_memory_ids (xt_stats st)" "xs_memories_written (xt_stats st') = xs_memories_written (xt_stats st)"
      "settled env job (s_corpus (xt_db st)) m"
  | r where "\<not> settled env job (s_corpus (xt_db st)) m" "s_corpus (xt_db st') = (s_corpus (xt_db st))\<lparr> memories := memories (s_corpus (xt_db st)) @ [r] \<rparr>" "xt_prov st' = xt_prov st"
      "xs_memory_ids (xt_stats st') = xs_memory_ids (xt_stats st) @ [m_id r]"
      "xs_memories_written (xt_stats st') = xs_memories_written (xt_stats st) + 1"
      "raw_row env job p r" "\<not> memory_exists_for_source (xj_session job) (xj_org job) (xj_source job) (m_content r) (s_corpus (xt_db st))"
      "m_visibility r = (case Option.bind (em_visibility m) visibility_parse of Some v \<Rightarrow> v | None \<Rightarrow> Vis_Team)"
      "redact (xe_rules env) (trim (em_content m)) = Some (m_content r)"
proof (cases "memory_kind_parse (em_kind m)")
  case None
  then show ?thesis using assms that(1) by (auto simp: write_memory_def drop_one_def settled_def)
next
  case (Some kind)
  note k = Some
  obtain content where c: "redact (xe_rules env) (trim (em_content m)) = Some content"
    using assms k by (auto simp: write_memory_def split: option.splits)
  consider "content = []" |
    "content \<noteq> []" "memory_exists_for_source (xj_session job) (xj_org job) (xj_source job) content (s_corpus (xt_db st))" |
    "content \<noteq> []" "\<not> memory_exists_for_source (xj_session job) (xj_org job) (xj_source job) content (s_corpus (xt_db st))" by blast
  then show ?thesis
  proof cases
    case 1
    then have "st' = drop_one st" using assms k c by (simp add: write_memory_def)
    then show ?thesis using that(1) c 1 by (simp add: drop_one_def settled_def)
  next
    case 2
    then have "st' = st\<lparr> xt_stats := (xt_stats st)\<lparr> xs_deduped := xs_deduped (xt_stats st) + 1 \<rparr> \<rparr>"
      using assms k c by (simp add: write_memory_def)
    then show ?thesis using that(1) c 2 by (simp add: settled_def)
  next
    case 3
    then obtain detail where "store_memory env job p kind content detail m st = Some st'"
      using assms k c by (auto simp: write_memory_def split: option.splits)
    from store_memory_row [OF this] obtain r where r:
      "s_corpus (xt_db st') = (s_corpus (xt_db st))\<lparr> memories := memories (s_corpus (xt_db st)) @ [r] \<rparr>" "xt_prov st' = xt_prov st"
      "xs_memory_ids (xt_stats st') = xs_memory_ids (xt_stats st) @ [m_id r]"
      "xs_memories_written (xt_stats st') = xs_memories_written (xt_stats st) + 1" "m_content r = content"
      "m_visibility r = (case Option.bind (em_visibility m) visibility_parse of Some v \<Rightarrow> v | None \<Rightarrow> Vis_Team)"
      "content \<noteq> [] \<Longrightarrow> redact (xe_rules env) (trim (em_content m)) = Some content \<Longrightarrow> raw_row env job p r"
      by metis
    show ?thesis by (rule that(2) [OF _ r(1-4)]) (use r 3 c k in \<open>simp_all add: settled_def\<close>)
  qed
qed

text \<open>From a state to a later one of the same run, with the rows appended in between.\<close>

definition extends :: "extract_env \<Rightarrow> extract_job \<Rightarrow> uuid \<Rightarrow> extract_state \<Rightarrow> extract_state \<Rightarrow> mem_row list \<Rightarrow> bool" where
  "extends env job p st st' rows \<longleftrightarrow>
    s_corpus (xt_db st') = (s_corpus (xt_db st))\<lparr> memories := memories (s_corpus (xt_db st)) @ rows \<rparr> \<and>
    xt_prov st' = xt_prov st \<and> (\<forall>r\<in>set rows. raw_row env job p r) \<and>
    xs_memory_ids (xt_stats st') = xs_memory_ids (xt_stats st) @ map m_id rows \<and>
    xs_memories_written (xt_stats st') = xs_memories_written (xt_stats st) + length rows"

abbreviation once :: "extract_job \<Rightarrow> extract_state \<Rightarrow> bool" where
  "once job st \<equiv> once_per_source (xj_session job) (xj_org job) (xj_source job) (s_corpus (xt_db st))"

lemma write_memory_extends:
  assumes "write_memory env job p m st = Some st'"
  shows "(\<exists>rows. extends env job p st st' rows) \<and> (once job st \<longrightarrow> once job st')"
  using assms
proof (cases rule: write_memory_cases)
  case 1
  then have "extends env job p st st' []" by (simp add: extends_def)
  then show ?thesis using 1(1) by auto
next
  case (2 r)
  then have "extends env job p st st' [r]" by (simp add: extends_def)
  moreover have "once job st'" if "once job st"
    using that 2(7) unfolding once_per_source_def 2(2) memory_exists_iff of_source_memories by auto
  ultimately show ?thesis by blast
qed

lemma write_memories_extends:
  "write_memories env job p ms st = Some st' \<Longrightarrow> (\<exists>rows. extends env job p st st' rows) \<and> (once job st \<longrightarrow> once job st')"
proof (induction ms arbitrary: st)
  case Nil
  then have "extends env job p st st' []" by (simp add: extends_def)
  then show ?case using Nil by auto
next
  case (Cons m ms)
  then obtain st1 where st1: "write_memory env job p m st = Some st1" "write_memories env job p ms st1 = Some st'"
    by (auto simp: bind_eq_Some_conv)
  from write_memory_extends [OF st1(1)] Cons.IH [OF st1(2)] obtain r1 r2 where
    e: "extends env job p st st1 r1" "extends env job p st1 st' r2" by blast
  have "extends env job p st st' (r1 @ r2)" using e by (auto simp: extends_def)
  then show ?case using write_memory_extends [OF st1(1)] Cons.IH [OF st1(2)] by blast
qed

text \<open>Asking for a chunk's extraction touches the cache and the call counts only.\<close>

lemma model_extract_frame:
  assumes "model_extract env job chunk st = Some (call, st')"
  shows "s_corpus (xt_db st') = s_corpus (xt_db st)" "xt_prov st' = xt_prov st"
    "xs_memory_ids (xt_stats st') = xs_memory_ids (xt_stats st)" "xs_memories_written (xt_stats st') = xs_memories_written (xt_stats st)"
proof -
  have live: "s_corpus (xt_db s2) = s_corpus (xt_db s1) \<and> xt_prov s2 = xt_prov s1 \<and>
      xs_memory_ids (xt_stats s2) = xs_memory_ids (xt_stats s1) \<and> xs_memories_written (xt_stats s2) = xs_memories_written (xt_stats s1)"
    if "live_extract env job chunk key s1 = Some (c, s2)" for key s1 s2 c
    using that by (auto simp: live_extract_def count_calls_def Let_def split: prod.splits option.splits if_splits)
  have "s_corpus (xt_db st') = s_corpus (xt_db st) \<and> xt_prov st' = xt_prov st \<and>
      xs_memory_ids (xt_stats st') = xs_memory_ids (xt_stats st) \<and> xs_memories_written (xt_stats st') = xs_memories_written (xt_stats st)"
    using assms by (auto simp: model_extract_def Let_def dest!: live split: prod.splits option.splits)
  then show "s_corpus (xt_db st') = s_corpus (xt_db st)" "xt_prov st' = xt_prov st"
    "xs_memory_ids (xt_stats st') = xs_memory_ids (xt_stats st)" "xs_memories_written (xt_stats st') = xs_memories_written (xt_stats st)" by auto
qed

text \<open>What a run makes of the corpus: its rows, and the one provenance row that ties them to the source.\<close>

definition written_corpus :: "extract_job \<Rightarrow> corpus \<Rightarrow> uuid \<Rightarrow> string \<Rightarrow> mem_row list \<Rightarrow> corpus" where
  "written_corpus job db p ref rows =
    db\<lparr> memories := memories db @ rows,
        provenances := provenances db @ [\<lparr> pv_id = p, pv_org_id = xj_org job, pv_actor_kind = ''pipeline'',
          pv_actor_id = ''extract-worker'', pv_model_ref = Some ref, pv_source_id = Some (xj_source job),
          pv_pipeline_run_id = xj_run job \<rparr>] \<rparr>"

lemma written_corpus_append:
  "(written_corpus job db p ref rows)\<lparr> memories := memories (written_corpus job db p ref rows) @ new \<rparr> =
    written_corpus job db p ref (rows @ new)"
  by (simp add: written_corpus_def)

text \<open>The state of a run against the database it began with.\<close>

definition run_inv :: "extract_env \<Rightarrow> extract_job \<Rightarrow> corpus \<Rightarrow> extract_state \<Rightarrow> mem_row list \<Rightarrow> bool" where
  "run_inv env job db st rows \<longleftrightarrow>
    xs_memory_ids (xt_stats st) = map m_id rows \<and> xs_memories_written (xt_stats st) = length rows \<and>
    (case xt_prov st of
       None \<Rightarrow> rows = [] \<and> s_corpus (xt_db st) = db
     | Some p \<Rightarrow> (\<forall>r\<in>set rows. raw_row env job p r) \<and>
         (\<exists>ref. s_corpus (xt_db st) = written_corpus job db p ref rows))"

definition ids_fresh :: "extract_job \<Rightarrow> corpus \<Rightarrow> bool" where
  "ids_fresh job db \<longleftrightarrow> (\<forall>m\<in>set (memories db). \<forall>i. m_provenance_id m \<noteq> Some (xj_fresh job i))"

lemma ensure_provenance_inv:
  assumes "ensure_provenance job call st = (p, st')" "run_inv env job db st rows"
  shows "run_inv env job db st' rows \<and> xt_prov st' = Some p \<and> (ids_fresh job db \<and> once job st \<longrightarrow> once job st')"
proof (cases "xt_prov st")
  case (Some q)
  then show ?thesis using assms by (simp add: ensure_provenance_def)
next
  case None
  then have r: "rows = []" "s_corpus (xt_db st) = db" using assms(2) by (simp_all add: run_inv_def)
  have p: "p = xj_fresh job (xt_used st)" "xt_prov st' = Some p"
    "s_corpus (xt_db st') = written_corpus job db p (le_model_ref call) []"
    "xs_memory_ids (xt_stats st') = xs_memory_ids (xt_stats st)" "xs_memories_written (xt_stats st') = xs_memories_written (xt_stats st)"
    using assms(1) None r(2) by (auto simp: ensure_provenance_def Let_def insert_provenance_def written_corpus_def)
  have "once job st'" if "ids_fresh job db" "once job st"
  proof -
    have "of_source ses org source (s_corpus (xt_db st')) m = of_source ses org source db m" if "m \<in> set (memories db)" for ses org source m
      using \<open>ids_fresh job db\<close> that by (auto simp: of_source_def p(1,3) ids_fresh_def sees_memory_def written_corpus_def)
    then have "filter (of_source ses org source (s_corpus (xt_db st'))) (memories db) = filter (of_source ses org source db) (memories db)"
      for ses org source by (rule filter_cong [OF refl])
    then show ?thesis using that(2) by (simp add: once_per_source_def r(2) p(3) written_corpus_def)
  qed
  moreover have "run_inv env job db st' rows"
    using assms(2) p(4,5) r(1) unfolding run_inv_def p(2) option.case
    by (intro conjI exI [of _ "le_model_ref call"]) (simp_all add: p(3))
  ultimately show ?thesis using p(2) by blast
qed

lemma extract_one_inv:
  assumes "extract_one env job verbatim chunk st = Some st'" "run_inv env job db st rows"
  shows "\<exists>rows'. run_inv env job db st' rows' \<and> xt_prov st' \<noteq> None \<and> (ids_fresh job db \<and> once job st \<longrightarrow> once job st')"
proof -
  obtain call st1 where c: "(if verbatim then Some (extract_verbatim chunk, st) else model_extract env job chunk st) = Some (call, st1)"
    using assms(1) by (auto simp: extract_one_def split: option.splits)
  obtain p st2 where p: "ensure_provenance job call st1 = (p, st2)" by (metis surj_pair)
  have w: "write_memories env job p (le_memories call) st2 = Some st'"
    using assms(1) c p by (auto simp: extract_one_def)
  have i1: "run_inv env job db st1 rows \<and> s_corpus (xt_db st1) = s_corpus (xt_db st)"
  proof (cases verbatim)
    case True
    then show ?thesis using c assms(2) by simp
  next
    case False
    then have "model_extract env job chunk st = Some (call, st1)" using c by simp
    show ?thesis using assms(2) unfolding run_inv_def model_extract_frame [OF \<open>model_extract env job chunk st = Some (call, st1)\<close>] by simp
  qed
  note i2 = ensure_provenance_inv [OF p conjunct1 [OF i1]]
  obtain new where e: "extends env job p st2 st' new" using write_memories_extends [OF w] by blast
  from i2 have "xt_prov st2 = Some p" "run_inv env job db st2 rows" by simp_all
  then have "\<exists>ref. s_corpus (xt_db st2) = written_corpus job db p ref rows" by (simp add: run_inv_def)
  then obtain ref where "s_corpus (xt_db st2) = written_corpus job db p ref rows" ..
  then have "s_corpus (xt_db st') = written_corpus job db p ref (rows @ new)" using e by (simp add: extends_def written_corpus_append)
  then have w': "\<exists>ref. s_corpus (xt_db st') = written_corpus job db p ref (rows @ new)" ..
  have x: "xt_prov st' = Some p" "xs_memory_ids (xt_stats st') = map m_id (rows @ new)" "xs_memories_written (xt_stats st') = length (rows @ new)"
    using i2 e by (simp_all add: run_inv_def extends_def)
  have "\<forall>r\<in>set (rows @ new). raw_row env job p r" using i2 e by (auto simp: run_inv_def extends_def)
  then have "run_inv env job db st' (rows @ new)" unfolding run_inv_def x option.case using w' by blast
  moreover have "xt_prov st' \<noteq> None" using i2 e by (simp add: extends_def)
  moreover have "once job st'" if "ids_fresh job db" "once job st"
    using that i1 i2 write_memories_extends [OF w] by simp
  ultimately show ?thesis by blast
qed

lemma extract_all_inv:
  "extract_all env job verbatim cs st = Some st' \<Longrightarrow> run_inv env job db st rows \<Longrightarrow>
    \<exists>rows'. run_inv env job db st' rows' \<and> (cs \<noteq> [] \<longrightarrow> xt_prov st' \<noteq> None) \<and> (ids_fresh job db \<and> once job st \<longrightarrow> once job st')"
proof (induction cs arbitrary: st rows)
  case (Cons c cs)
  then obtain st1 where st1: "extract_one env job verbatim c st = Some st1" "extract_all env job verbatim cs st1 = Some st'"
    by (auto simp: bind_eq_Some_conv)
  from extract_one_inv [OF st1(1) Cons.prems(2)] obtain r1 where
    r1: "run_inv env job db st1 r1" "xt_prov st1 \<noteq> None" "ids_fresh job db \<and> once job st \<longrightarrow> once job st1" by blast
  from Cons.IH [OF st1(2) r1(1)] obtain r2 where
    r2: "run_inv env job db st' r2" "cs \<noteq> [] \<longrightarrow> xt_prov st' \<noteq> None" "ids_fresh job db \<and> once job st1 \<longrightarrow> once job st'" by blast
  have "xt_prov st' \<noteq> None" using r1(2) r2(2) st1(2) by (cases cs) auto
  then show ?case using r1(3) r2 by blast
qed auto

section \<open>A redelivered statement\<close>

text \<open>Rows only accumulate, so what a source has stated stays found, in the same or in a later run.\<close>

lemma exists_written:
  assumes "memory_exists_for_source ses org source c db"
  shows "memory_exists_for_source ses org source c (db\<lparr> memories := memories db @ rows \<rparr>)"
    and "memory_exists_for_source ses org source c (written_corpus job db p ref rows)"
  using assms by (auto simp: memory_exists_for_source_def written_corpus_def list_ex_iff sees_memory_def)

lemma not_rewritten:
  assumes "settled env job (s_corpus (xt_db st)) m" "write_memory env job p m st = Some st'"
  shows "s_corpus (xt_db st') = s_corpus (xt_db st)" "xs_memories_written (xt_stats st') = xs_memories_written (xt_stats st)"
  using assms(2) by (cases rule: write_memory_cases; use assms(1) in simp)+

lemma settled_later: "settled env job db m \<Longrightarrow> settled env job (written_corpus job' db p ref rows) m"
  unfolding settled_def using exists_written(2) by blast

lemma raw_row_seen:
  assumes "raw_row env job p r" "m_visibility r \<noteq> Vis_Private" "s_worker (xj_session job)" "in_org (xj_session job) (xj_org job)"
  shows "sees_memory db (xj_session job) r"
  using assms by (auto simp: raw_row_def sees_memory_def memories_read_def project_isolation_def in_org_def Let_def)

text \<open>A row without an owner that is private is read by nobody, the worker included.\<close>

lemma unowned_private_rows_are_lost: "m_visibility r = Vis_Private \<Longrightarrow> m_owner_user_id r = None \<Longrightarrow> \<not> sees_memory db ses r"
  by (simp add: sees_memory_def memories_read_def Let_def)

lemma write_memory_settles:
  assumes "write_memory env job p m st = Some st'" "em_visibility m = None" "s_worker (xj_session job)"
    "in_org (xj_session job) (xj_org job)"
    "\<exists>q\<in>set (provenances (s_corpus (xt_db st))). pv_id q = p \<and> pv_org_id q = xj_org job \<and> pv_source_id q = Some (xj_source job)"
  shows "settled env job (s_corpus (xt_db st')) m"
  using assms(1)
proof (cases rule: write_memory_cases)
  case 1
  then show ?thesis by simp
next
  case (2 r)
  obtain q where q: "q \<in> set (provenances (s_corpus (xt_db st')))" "pv_id q = p" "pv_org_id q = xj_org job" "pv_source_id q = Some (xj_source job)"
    using assms(5) 2(2) by auto
  have "sees_memory (s_corpus (xt_db st')) (xj_session job) r"
    using raw_row_seen [OF 2(6) _ assms(3,4)] 2(8) assms(2) by simp
  then have "of_source (xj_session job) (xj_org job) (xj_source job) (s_corpus (xt_db st')) r"
    using 2(6) q assms(4) unfolding of_source_def list_ex_iff by (auto simp: raw_row_def in_org_def)
  moreover have "r \<in> set (memories (s_corpus (xt_db st')))" using 2(2) by simp
  ultimately show ?thesis using 2(9) unfolding memory_exists_iff settled_def by blast
qed

section \<open>Properties\<close>

lemma chunk_source_not_Nil: "chunk_source s \<noteq> []"
proof (cases "length s \<le> MAX_CHUNK_CHARS")
  case False
  then have "0 < length s" by (cases s) auto
  then show ?thesis using chunks_from_spec [of 0 s] False by (simp add: chunk_source_def)
qed (simp add: chunk_source_def)

text \<open>C30: Chunking loses nothing: gluing the chunks back together, each after the first without its overlap,
  gives the source; no chunk is longer than the budget; and every passage of up to 800 characters, wherever it
  stands, is whole in some chunk.\<close>

theorem chunks_cover_the_source:
  "unchunk (chunk_source s) = s \<and> (\<forall>c\<in>set (chunk_source s). length c \<le> MAX_CHUNK_CHARS) \<and>
    (\<forall>i. i + CHUNK_OVERLAP_CHARS \<le> length s \<longrightarrow>
      (\<exists>c\<in>set (chunk_source s). contains c (take CHUNK_OVERLAP_CHARS (drop i s))))"
proof (cases "length s \<le> MAX_CHUNK_CHARS")
  case True
  have "contains s (take n (drop i s))" for i n
    unfolding contains_iff by (metis append_take_drop_id)
  then show ?thesis using True by (simp add: chunk_source_def)
next
  case False
  then have c: "chunk_source s = chunks_from s 0" "0 < length s" by (auto simp: chunk_source_def)
  show ?thesis using chunks_from_spec [OF c(2)] by (simp add: c(1) chunk_sizes)
qed

lemma chunks_cover_the_source_witness:
  "unchunk (chunk_source (replicate 20000 CHR ''x'')) = replicate 20000 CHR ''x'' \<and>
   (\<exists>c\<in>set (chunk_source (replicate 20000 CHR ''x'')). contains c (take CHUNK_OVERLAP_CHARS (drop 11900 (replicate 20000 CHR ''x''))))"
proof -
  have "11900 + CHUNK_OVERLAP_CHARS \<le> length (replicate 20000 CHR ''x'')" by (simp add: chunk_sizes)
  then show ?thesis using chunks_cover_the_source [of "replicate 20000 CHR ''x''"] by blast
qed

text \<open>One chunk costs between one and six model calls, however the provider answers, with at most two extra
  passes and no more repairs than malformed first answers; a short chunk is never sampled again; what is
  returned is the reading of a text the provider really wrote; and when the first answer has memories, it is
  the answer, for one call.\<close>

theorem chunk_extraction_is_bounded:
  assumes "extract_chunk env base chunk = (out, b, r)"
  shows "1 \<le> cb_calls b \<and> cb_calls b \<le> MAX_LLM_CALLS_PER_CHUNK \<and> r \<le> 2 \<and> cb_repairs b \<le> cb_parse_failures b \<and>
    (length (trim chunk) < MIN_CHARS_FOR_RESAMPLE \<longrightarrow> r = 0 \<and> cb_calls b \<le> 1 + MAX_REPAIR_ATTEMPTS) \<and>
    (\<forall>call. out = Some call \<longrightarrow> reads_as env call) \<and>
    (\<forall>answer ref ms. xe_provider env base chunk 0 = Some (answer, ref) \<and> parse_extraction env answer = Inr ms \<and> ms \<noteq> [] \<longrightarrow>
      out = Some \<lparr> le_memories = ms, le_model_ref = ref, le_text = Some answer \<rparr> \<and> cb_calls b = 1)"
proof -
  have p: "passes env base chunk PASS_TEMPERATURES True None budget_default 0 = (out, b, r)"
    using assms by (simp add: extract_chunk_def)
  have "PASS_TEMPERATURES \<noteq> []" "cb_calls budget_default < 6" "cb_repairs budget_default \<le> cb_parse_failures budget_default"
    "length PASS_TEMPERATURES = 3" "cb_calls budget_default = 0"
    by (simp_all add: PASS_TEMPERATURES_def budget_default_def)
  note spec = passes_spec [OF p this(1-3)] this(4,5)
  have short: "worth_resampling chunk \<longleftrightarrow> \<not> length (trim chunk) < MIN_CHARS_FOR_RESAMPLE" by (auto simp: worth_resampling_def)
  have first: "out = Some \<lparr> le_memories = ms, le_model_ref = ref, le_text = Some answer \<rparr> \<and> cb_calls b = 1"
    if "xe_provider env base chunk 0 = Some (answer, ref)" "parse_extraction env answer = Inr ms" "ms \<noteq> []" for answer ref ms
  proof -
    have "extract_once env base chunk 0 budget_default =
        (Some \<lparr> le_memories = ms, le_model_ref = ref, le_text = Some answer \<rparr>, called budget_default)"
      using that spec(3) by (simp add: extract_once_def)
    then show ?thesis using p that(3) spec(3) by (auto simp: PASS_TEMPERATURES_def)
  qed
  show ?thesis using spec first unfolding MAX_LLM_CALLS_PER_CHUNK_def MAX_REPAIR_ATTEMPTS_def short by auto
qed

text \<open>A cached answer is only ever served for the prompt, the model and the redacted text it was given for:
  two keys agree only if all three do, unless SHA-256 collides on the two inputs, and a lookup answers from
  the caller's own organisation.\<close>

theorem cache_keys_are_faithful:
  assumes "\<forall>t\<in>{fp, ref, red, fp', ref', red'}. length t < 2 ^ 64"
    and "xe_sha env (cache_preimage [fp, ref, red]) = xe_sha env (cache_preimage [fp', ref', red']) \<longrightarrow>
      cache_preimage [fp, ref, red] = cache_preimage [fp', ref', red']"
  shows "(cache_key env ref fp red = cache_key env ref' fp' red' \<longleftrightarrow> ref = ref' \<and> fp = fp' \<and> red = red') \<and>
    (\<forall>now ses org rows answer. fst (cache_lookup now ses org (cache_key env ref fp red) rows) = Some answer \<longrightarrow>
      (\<exists>r\<in>set rows. cc_org_id r = org \<and> org = p_org_id (s_principal ses) \<and> cc_key r = cache_key env ref fp red \<and> cc_response r = answer))"
proof -
  have "ref = ref' \<and> fp = fp' \<and> red = red'" if "cache_key env ref fp red = cache_key env ref' fp' red'"
  proof -
    have "cache_preimage [fp, ref, red] = cache_preimage [fp', ref', red']"
      using that assms(2) hex_inj by (auto simp: cache_key_def)
    from cache_preimage_inj [OF _ _ this] assms(1) show ?thesis by simp
  qed
  moreover have "\<exists>r\<in>set rows. cc_org_id r = org \<and> org = p_org_id (s_principal ses) \<and> cc_key r = key \<and> cc_response r = answer"
    if "fst (cache_lookup now ses org key rows) = Some answer" for now ses org rows answer key
  proof -
    have "map_option cc_response (find (cache_hit ses org key) rows) = Some answer" using that by (simp add: cache_lookup_def)
    then obtain r where "find (cache_hit ses org key) rows = Some r" "cc_response r = answer" by (auto simp: map_option_eq_Some)
    then show ?thesis unfolding find_Some_iff cache_hit_def in_org_def by (metis nth_mem)
  qed
  ultimately show ?thesis by blast
qed

lemma run_extract_inv:
  assumes "run_extract env job db = Some st"
  shows "\<exists>rows p. run_inv env job (s_corpus db) st rows \<and> xt_prov st = Some p \<and>
    (ids_fresh job (s_corpus db) \<and> once_per_source (xj_session job) (xj_org job) (xj_source job) (s_corpus db) \<longrightarrow> once job st)"
proof -
  define cs where "cs = (if xj_kind job = ''manual'' then [xj_text job] else chunk_source (xj_text job))"
  define st0 where "st0 = \<lparr> xt_db = db, xt_stats = stats_default\<lparr> xs_chunks := length cs \<rparr>, xt_prov = None, xt_used = 0 \<rparr>"
  have cs: "cs \<noteq> []" using chunk_source_not_Nil by (simp add: cs_def)
  have x: "extract_all env job (xj_kind job = ''manual'') cs st0 = Some st"
    using assms by (simp add: run_extract_def cs_def st0_def Let_def)
  have i: "run_inv env job (s_corpus db) st0 []" by (simp add: run_inv_def st0_def stats_default_def)
  from extract_all_inv [OF x i] cs obtain rows where rows: "run_inv env job (s_corpus db) st rows" "xt_prov st \<noteq> None"
    "ids_fresh job (s_corpus db) \<and> once job st0 \<longrightarrow> once job st" by blast
  moreover have "once job st0 \<longleftrightarrow> once_per_source (xj_session job) (xj_org job) (xj_source job) (s_corpus db)"
    by (simp add: st0_def)
  ultimately show ?thesis by auto
qed


text \<open>One chunk on a fresh state.\<close>

lemma verbatim_run:
  assumes "run_extract env job db = Some st" "xj_kind job = ''manual''"
  obtains p ref st2 where "s_corpus (xt_db st2) = written_corpus job (s_corpus db) p ref []" "xs_memories_written (xt_stats st2) = 0"
    "write_memory env job p (hd (le_memories (extract_verbatim (xj_text job)))) st2 = Some st"
proof -
  define st0 where "st0 = \<lparr> xt_db = db, xt_stats = stats_default\<lparr> xs_chunks := 1 \<rparr>, xt_prov = None, xt_used = 0 \<rparr>"
  have one: "extract_one env job True (xj_text job) st0 = Some st"
    using assms by (cases "extract_one env job True (xj_text job) st0") (simp_all add: run_extract_def st0_def)
  obtain p st2 where p: "ensure_provenance job (extract_verbatim (xj_text job)) st0 = (p, st2)" by (metis surj_pair)
  have ms: "le_memories (extract_verbatim (xj_text job)) = [hd (le_memories (extract_verbatim (xj_text job)))]"
    by (simp add: extract_verbatim_def Let_def)
  have w: "write_memory env job p (hd (le_memories (extract_verbatim (xj_text job)))) st2 = Some st"
  proof -
    have "write_memories env job p [hd (le_memories (extract_verbatim (xj_text job)))] st2 = Some st"
      using one p ms by (simp add: extract_one_def)
    then show ?thesis by (cases "write_memory env job p (hd (le_memories (extract_verbatim (xj_text job)))) st2") simp_all
  qed
  have "run_inv env job (s_corpus db) st0 []" by (simp add: run_inv_def st0_def stats_default_def)
  from ensure_provenance_inv [OF p this] have i: "run_inv env job (s_corpus db) st2 []" "xt_prov st2 = Some p" by blast+
  then have "\<exists>ref. s_corpus (xt_db st2) = written_corpus job (s_corpus db) p ref []" "xs_memories_written (xt_stats st2) = 0"
    by (simp_all add: run_inv_def)
  then show ?thesis using that w by blast
qed

lemma written_corpus_prov:
  "\<exists>q\<in>set (provenances (written_corpus job db p ref rows)). pv_id q = p \<and> pv_org_id q = xj_org job \<and> pv_source_id q = Some (xj_source job)"
  by (auto simp: written_corpus_def)

text \<open>C27: A redelivered \<open>memory_add\<close> writes nothing: once a manual source has been extracted, extracting it
  again, whenever and by whichever run, writes no memory and leaves the memories as they are.\<close>

theorem manual_redelivery_is_idempotent:
  assumes "run_extract env job db = Some st" "xj_kind job = ''manual''"
    and "s_worker (xj_session job)" "xj_org job = p_org_id (s_principal (xj_session job))"
    and "run_extract env (job\<lparr> xj_now := now, xj_run := run, xj_fresh := fresh \<rparr>) (xt_db st) = Some st'"
  shows "xs_memories_written (xt_stats st') = 0 \<and> memories (s_corpus (xt_db st')) = memories (s_corpus (xt_db st))"
proof -
  let ?job = "job\<lparr> xj_now := now, xj_run := run, xj_fresh := fresh \<rparr>"
  let ?m = "hd (le_memories (extract_verbatim (xj_text job)))"
  obtain p ref st2 where s: "s_corpus (xt_db st2) = written_corpus job (s_corpus db) p ref []" "write_memory env job p ?m st2 = Some st"
    by (rule verbatim_run [OF assms(1,2)])
  have v: "em_visibility ?m = None" by (simp add: extract_verbatim_def Let_def)
  have "settled env job (s_corpus (xt_db st)) ?m"
    by (rule write_memory_settles [OF s(2) v assms(3)]) (simp add: assms(4) in_org_def, simp only: s(1) written_corpus_prov)
  then have seen: "settled env ?job (s_corpus (xt_db st)) ?m" by (simp add: settled_def)
  have "xj_kind ?job = ''manual''" using assms(2) by simp
  then obtain q ref' st3 where t: "s_corpus (xt_db st3) = written_corpus ?job (s_corpus (xt_db st)) q ref' []"
    "xs_memories_written (xt_stats st3) = 0" "write_memory env ?job q (hd (le_memories (extract_verbatim (xj_text ?job)))) st3 = Some st'"
    by (rule verbatim_run [OF assms(5)])
  have "settled env ?job (s_corpus (xt_db st3)) ?m" unfolding t(1) by (rule settled_later [OF seen])
  from not_rewritten [OF this] t show ?thesis by (simp add: written_corpus_def)
qed

text \<open>An environment without redaction rules, whose hash is the identity and whose model finds nothing.\<close>

definition example_env :: extract_env where
  "example_env =
    \<lparr> xe_rules = [], xe_sha = (\<lambda>s. s), xe_value = (\<lambda>_. Inr True), xe_output = (\<lambda>_. Some []), xe_array = (\<lambda>_. None),
       xe_embed = (\<lambda>_. Some [1]), xe_provider = (\<lambda>_ _ _. Some (''{}'', ''model'')), xe_model_ref = ''model'', xe_prompt = [],
       xe_var = (\<lambda>_. None), xe_version = 1 \<rparr>"

definition example_job :: extract_job where
  "example_job =
    \<lparr> xj_now = 40, xj_session = \<lparr> s_principal = \<lparr> p_org_id = 1, p_user_id = 9, p_team_ids = [], p_project_id = None \<rparr>, s_worker = True \<rparr>,
       xj_org = 1, xj_team = Some 7, xj_source = 80, xj_kind = ''manual'', xj_text = ''Retry twice.'', xj_run = Some 81,
       xj_project = None, xj_fresh = (\<lambda>i. 1000 + i) \<rparr>"

definition example_pipeline :: pipeline_db where
  "example_pipeline = store.extend example_store (pipeline_db.fields [])"

lemma example_runs:
  assumes "xj_kind job = ''manual''"
  shows "\<exists>st. run_extract example_env job db = Some st"
proof -
  have "write_memory example_env job p m st \<noteq> None" if "em_detail_md m = None" for p m st
    using that by (auto simp: write_memory_def store_memory_def clean_detail_def example_env_def Let_def split: option.splits prod.splits)
  then have "write_memories example_env job p ms st \<noteq> None" if "\<forall>m\<in>set ms. em_detail_md m = None" for p ms st
    using that by (induction ms arbitrary: st) (auto simp: bind_eq_None_conv)
  moreover have "\<forall>m\<in>set (le_memories (extract_verbatim t)). em_detail_md m = None" for t
    by (simp add: extract_verbatim_def Let_def)
  ultimately have "write_memories example_env job p (le_memories (extract_verbatim t)) st \<noteq> None" for p t st by blast
  then have "extract_one example_env job True c st \<noteq> None" for c st by (simp add: extract_one_def split: prod.splits)
  then have "extract_all example_env job True [c] st \<noteq> None" for c st by (simp add: bind_eq_None_conv)
  then have "run_extract example_env job db \<noteq> None" by (simp only: run_extract_def assms Let_def if_True simp_thms)
  then show ?thesis by simp
qed

lemma chunk_extraction_is_bounded_witness:
  "1 \<le> cb_calls (fst (snd (extract_chunk example_env 0 ''ok, thanks''))) \<and>
   cb_calls (fst (snd (extract_chunk example_env 0 ''ok, thanks''))) \<le> 6"
proof -
  have "extract_chunk example_env 0 ''ok, thanks'' = (fst (extract_chunk example_env 0 ''ok, thanks''),
      fst (snd (extract_chunk example_env 0 ''ok, thanks'')), snd (snd (extract_chunk example_env 0 ''ok, thanks'')))" by simp
  from chunk_extraction_is_bounded [OF this] show ?thesis unfolding MAX_LLM_CALLS_PER_CHUNK_def by blast
qed

lemma cache_keys_are_faithful_witness:
  "cache_key example_env ''model'' ''p'' ''text'' \<noteq> cache_key example_env ''model'' ''p'' ''other text''"
proof -
  have "(cache_key example_env ''model'' ''p'' ''text'' = cache_key example_env ''model'' ''p'' ''other text'') \<longleftrightarrow>
      ''model'' = ''model'' \<and> ''p'' = ''p'' \<and> ''text'' = ''other text''"
    by (rule conjunct1 [OF cache_keys_are_faithful]) (simp_all add: example_env_def)
  then show ?thesis by simp
qed


lemma manual_redelivery_is_idempotent_witness:
  "xs_memories_written (xt_stats (the (run_extract example_env (example_job\<lparr> xj_now := 99, xj_run := Some 82, xj_fresh := (\<lambda>i. 2000 + i) \<rparr>)
    (xt_db (the (run_extract example_env example_job example_pipeline)))))) = 0"
proof -
  have k: "xj_kind example_job = ''manual''" "s_worker (xj_session example_job)"
    "xj_org example_job = p_org_id (s_principal (xj_session example_job))" by (simp_all add: example_job_def)
  obtain st where st: "run_extract example_env example_job example_pipeline = Some st" using example_runs [OF k(1)] by blast
  let ?job = "example_job\<lparr> xj_now := 99, xj_run := Some 82, xj_fresh := (\<lambda>i. 2000 + i) \<rparr>"
  have "xj_kind ?job = ''manual''" using k(1) by simp
  then obtain st' where st': "run_extract example_env ?job (xt_db st) = Some st'" using example_runs by blast
  from manual_redelivery_is_idempotent [OF st k st'] show ?thesis by (simp add: st st')
qed

end
