(* ===== verification/Graph.thy ===== *)
theory Graph
  imports Extract
begin

text \<open>
  What the graph tables hold after extraction: a typing of their rows over the closed vocabularies of
  \<open>types.rs\<close> and the foreign keys between entities, edges, memories and embeddings.
\<close>

definition graph_typed :: "uuid set \<Rightarrow> graph_db \<Rightarrow> bool" where
  "graph_typed M g \<longleftrightarrow>
    (\<forall>e\<in>set (entities g). entity_kind_parse (en_kind e) \<noteq> None) \<and>
    (\<forall>d\<in>set (edges_tab g). edge_relation_parse (ed_relation d) \<noteq> None \<and>
       ed_src d \<in> en_id ` set (entities g) \<and> ed_dst d \<in> en_id ` set (entities g) \<and>
       (\<forall>m. ed_memory_id d = Some m \<longrightarrow> m \<in> M)) \<and>
    (\<forall>p\<in>set (memory_entities g). fst p \<in> M \<and> snd p \<in> en_id ` set (entities g))"

definition typed_store :: "'a store_scheme \<Rightarrow> bool" where
  "typed_store s \<longleftrightarrow>
    graph_typed (m_id ` set (memories (s_corpus s))) (s_graph s) \<and>
    eb_memory_id ` set (embeddings (s_embeddings s)) \<subseteq> m_id ` set (memories (s_corpus s))"

named_theorems typed

lemma graph_typed_mono: "graph_typed M g \<Longrightarrow> M \<subseteq> N \<Longrightarrow> graph_typed N g"
  by (auto simp: graph_typed_def)

lemma insert_entity_ids: "en_id ` set (entities (insert_entity k org team name kind aliases prov g)) = insert k (en_id ` set (entities g))"
  by (simp add: insert_entity_def)

lemma graph_typed_insert_entity [typed]:
  assumes "graph_typed M g" "entity_kind_parse kind \<noteq> None"
  shows "graph_typed M (insert_entity k org team name kind aliases prov g)"
proof -
  let ?g = "insert_entity k org team name kind aliases prov g"
  have kinds: "entity_kind_parse (en_kind e) \<noteq> None" if "e \<in> set (entities ?g)" for e
  proof -
    have "e \<in> set (entities g) \<or> en_kind e = kind" using that by (auto simp: insert_entity_def insert_or_ignore_def split: if_splits)
    then show ?thesis using assms by (auto simp: graph_typed_def)
  qed
  have rest: "edges_tab ?g = edges_tab g" "memory_entities ?g = memory_entities g" by (simp_all add: insert_entity_def)
  show ?thesis using assms(1) kinds unfolding graph_typed_def insert_entity_ids rest by blast
qed

lemma graph_typed_link [typed]:
  "graph_typed M g \<Longrightarrow> m \<in> M \<Longrightarrow> e \<in> en_id ` set (entities g) \<Longrightarrow> graph_typed M (link_entity m e g)"
  by (auto simp: graph_typed_def link_entity_def dest!: subsetD [OF set_insert_or_ignore_subset])

lemma graph_typed_edge [typed]:
  "graph_typed M g \<Longrightarrow> m \<in> M \<Longrightarrow> src \<in> en_id ` set (entities g) \<Longrightarrow> dst \<in> en_id ` set (entities g) \<Longrightarrow>
    edge_relation_parse rel \<noteq> None \<Longrightarrow> graph_typed M (insert_edge k org src dst rel (Some m) g)"
  by (auto simp: graph_typed_def insert_edge_def dest!: subsetD [OF set_insert_or_ignore_subset])

lemma find_by_name_known: "find_by_name ses org team name g = Some k \<Longrightarrow> k \<in> en_id ` set (entities g)"
  by (auto simp: find_by_name_def find_Some_iff)

section \<open>The loops over entities and relations\<close>

definition names_known :: "(string \<rightharpoonup> uuid) \<Rightarrow> extract_state \<Rightarrow> bool" where
  "names_known names st \<longleftrightarrow> ran names \<subseteq> en_id ` set (entities (s_graph (xt_db st)))"

abbreviation graph_ok :: "uuid set \<Rightarrow> extract_state \<Rightarrow> bool" where
  "graph_ok M st \<equiv> graph_typed M (s_graph (xt_db st))"

lemma write_entity_typed:
  assumes "graph_ok M st" "names_known names st" "k \<in> M" "write_entity job p k e (names, st) = (names', st')"
  shows "graph_ok M st'" "names_known names' st'"
proof -
  have "graph_ok M st' \<and> names_known names' st'"
  proof (cases "find_by_name (xj_session job) (xj_org job) (xj_team job) (ee_name e) (s_graph (xt_db st))")
    case (Some i)
    note i = find_by_name_known [OF Some]
    have "names' = names(lowercase (ee_name e) \<mapsto> i)" "s_graph (xt_db st') = link_entity k i (s_graph (xt_db st))"
      using assms(4) Some by (auto simp: write_entity_def)
    then show ?thesis
      using assms(1-3) i graph_typed_link by (auto simp: names_known_def link_entity_def ran_def split: if_splits)
  next
    case None
    define i where "i = xj_fresh job (xt_used st)"
    define kind where "kind = (case entity_kind_parse (ee_kind e) of Some ek \<Rightarrow> ek | None \<Rightarrow> entity_kind_default)"
    define g where "g = insert_entity i (xj_org job) (xj_team job) (ee_name e) (entity_kind_as_str kind) (clean_aliases e) (Some p) (s_graph (xt_db st))"
    have eq: "names' = names(lowercase (ee_name e) \<mapsto> i)" "s_graph (xt_db st') = link_entity k i g"
      using assms(4) None by (auto simp: write_entity_def Let_def i_def g_def kind_def)
    have ids: "en_id ` set (entities g) = insert i (en_id ` set (entities (s_graph (xt_db st))))" by (simp add: g_def insert_entity_ids)
    have "graph_typed M g" unfolding g_def
      by (rule graph_typed_insert_entity [OF assms(1)]) (simp add: entity_kind_voc.parse_as_str)
    then have "graph_ok M st'" unfolding eq(2) using ids assms(3) by (intro graph_typed_link) auto
    moreover have "entities (link_entity k i g) = entities g" by (simp add: link_entity_def)
    then have "names_known names' st'" using assms(2) ids unfolding names_known_def eq by (auto simp: ran_def split: if_splits)
    ultimately show ?thesis by simp
  qed
  then show "graph_ok M st'" "names_known names' st'" by simp_all
qed

lemma write_entities_typed:
  "fold (write_entity job p k) es (names, st) = (names', st') \<Longrightarrow> graph_ok M st \<Longrightarrow> names_known names st \<Longrightarrow> k \<in> M \<Longrightarrow>
    graph_ok M st' \<and> names_known names' st'"
proof (induction es arbitrary: names st)
  case (Cons e es)
  obtain n1 s1 where one: "write_entity job p k e (names, st) = (n1, s1)" by (metis surj_pair)
  show ?case using Cons.IH [of n1 s1] Cons.prems write_entity_typed [OF Cons.prems(2-4) one] one by simp
qed simp

lemma write_relation_typed:
  assumes "graph_ok M st" "names_known names st" "k \<in> M"
  shows "graph_ok M (write_relation job k names r st)" "names_known names (write_relation job k names r st)"
proof -
  have known: "x \<in> en_id ` set (entities (s_graph (xt_db st)))" if "names n = Some x" for n x
    using assms(2) that unfolding names_known_def by (meson ranI subsetD)
  have "graph_typed M (insert_edge i (xj_org job) src dst (edge_relation_as_str rel) (Some k) (s_graph (xt_db st)))"
    if "names a = Some src" "names b = Some dst" for i src dst rel a b
    by (rule graph_typed_edge [OF assms(1,3) known [OF that(1)] known [OF that(2)]]) (simp add: edge_relation_voc.parse_as_str)
  then show "graph_ok M (write_relation job k names r st)"
    using assms(1) by (auto simp: write_relation_def drop_one_def split: option.splits)
  show "names_known names (write_relation job k names r st)"
    using assms(2) by (auto simp: write_relation_def drop_one_def names_known_def insert_edge_def split: option.splits)
qed

lemma write_relations_typed:
  "graph_ok M st \<Longrightarrow> names_known names st \<Longrightarrow> k \<in> M \<Longrightarrow> graph_ok M (fold (write_relation job k names) rs st)"
  by (induction rs arbitrary: st) (auto intro: write_relation_typed)

section \<open>The whole run\<close>

lemma insert_memory_ids: "m_id ` set (memories (insert_memory now n db)) = insert (nm_id n) (m_id ` set (memories db))"
  by (simp add: insert_memory_def)

lemma upsert_embedding_ids:
  "eb_memory_id ` set (embeddings (upsert_embedding k v x e)) \<subseteq> insert k (eb_memory_id ` set (embeddings e))"
  by (auto simp: upsert_embedding_def set_update_where split: if_splits)

lemma store_memory_typed:
  assumes "store_memory env job p kind content detail m st = Some st'" "typed_store (xt_db st)"
  shows "typed_store (xt_db st')"
proof -
  define k where "k = xj_fresh job (xt_used st)"
  define n where "n = new_row env job k p kind content detail m"
  define st1 where "st1 = st\<lparr> xt_db := (xt_db st)\<lparr> s_corpus := insert_memory (xj_now job) n (s_corpus (xt_db st)) \<rparr>, xt_used := xt_used st + 1 \<rparr>"
  obtain names st2 where st2: "fold (write_entity job p k) (em_entities m) (Map.empty, st1) = (names, st2)" by (metis surj_pair)
  define st3 where "st3 = fold (write_relation job k names) (em_relations m) st2"
  obtain v where st': "st' = st3\<lparr> xt_db := (xt_db st3)\<lparr> s_embeddings := upsert_embedding k (xe_version env) v (s_embeddings (xt_db st3)) \<rparr>,
      xt_stats := (xt_stats st3)\<lparr> xs_memory_ids := xs_memory_ids (xt_stats st3) @ [k],
        xs_memories_written := xs_memories_written (xt_stats st3) + 1 \<rparr> \<rparr>"
    using assms(1) st2 unfolding store_memory_def Let_def k_def [symmetric] n_def [symmetric] st1_def [symmetric]
    by (auto simp: st3_def split: option.splits)
  let ?M = "insert k (m_id ` set (memories (s_corpus (xt_db st))))"
  have "graph_only st1 st2" using write_entities_frame [of "(Map.empty, st1)" job p k "em_entities m"] st2 by simp
  then have "graph_only st1 st3" using write_relations_frame graph_only_trans unfolding st3_def by blast
  then have same: "s_corpus (xt_db st3) = insert_memory (xj_now job) n (s_corpus (xt_db st))" "s_embeddings (xt_db st3) = s_embeddings (xt_db st)"
    by (simp_all add: graph_only_def st1_def)
  have ids: "m_id ` set (memories (s_corpus (xt_db st'))) = ?M"
    by (simp add: st' same insert_memory_ids) (simp add: n_def new_row_def)
  have "graph_typed (m_id ` set (memories (s_corpus (xt_db st)))) (s_graph (xt_db st))" using assms(2) by (simp add: typed_store_def)
  from graph_typed_mono [OF this subset_insertI] have "graph_ok ?M st1" by (simp add: st1_def)
  moreover have "names_known Map.empty st1" by (simp add: names_known_def)
  ultimately have "graph_ok ?M st2 \<and> names_known names st2" using write_entities_typed [OF st2] by simp
  then have "graph_ok ?M st3" unfolding st3_def using write_relations_typed by blast
  then have "graph_typed ?M (s_graph (xt_db st'))" by (simp add: st')
  moreover have "eb_memory_id ` set (embeddings (s_embeddings (xt_db st'))) \<subseteq> ?M"
  proof -
    have "eb_memory_id ` set (embeddings (s_embeddings (xt_db st'))) \<subseteq> insert k (eb_memory_id ` set (embeddings (s_embeddings (xt_db st))))"
      using upsert_embedding_ids [of k "xe_version env" v "s_embeddings (xt_db st)"] by (simp add: st' same(2))
    moreover have "eb_memory_id ` set (embeddings (s_embeddings (xt_db st))) \<subseteq> m_id ` set (memories (s_corpus (xt_db st)))"
      using assms(2) by (simp add: typed_store_def)
    ultimately show ?thesis by blast
  qed
  ultimately show ?thesis unfolding typed_store_def ids by simp
qed

lemma write_memory_typed:
  assumes "write_memory env job p m st = Some st'" "typed_store (xt_db st)"
  shows "typed_store (xt_db st')"
proof (cases "\<exists>kind content detail. store_memory env job p kind content detail m st = Some st'")
  case True
  then show ?thesis using store_memory_typed assms(2) by blast
next
  case False
  then have "xt_db st' = xt_db st"
    using assms(1) by (auto simp: write_memory_def drop_one_def split: option.splits if_splits)
  then show ?thesis using assms(2) by simp
qed

lemma write_memories_typed: "write_memories env job p ms st = Some st' \<Longrightarrow> typed_store (xt_db st) \<Longrightarrow> typed_store (xt_db st')"
  by (induction ms arbitrary: st) (auto simp: bind_eq_Some_conv intro: write_memory_typed)

lemma model_extract_tables:
  assumes "model_extract env job chunk st = Some (call, st')"
  shows "s_graph (xt_db st') = s_graph (xt_db st) \<and> s_embeddings (xt_db st') = s_embeddings (xt_db st)"
proof -
  have live: "s_graph (xt_db s2) = s_graph (xt_db s1) \<and> s_embeddings (xt_db s2) = s_embeddings (xt_db s1)"
    if "live_extract env job chunk key s1 = Some (c, s2)" for key s1 s2 c
    using that by (auto simp: live_extract_def count_calls_def Let_def split: prod.splits option.splits if_splits)
  show ?thesis using assms by (auto simp: model_extract_def Let_def dest!: live split: prod.splits option.splits)
qed

lemma extract_one_typed:
  assumes "extract_one env job verbatim chunk st = Some st'" "typed_store (xt_db st)"
  shows "typed_store (xt_db st')"
proof -
  obtain call st1 where c: "(if verbatim then Some (extract_verbatim chunk, st) else model_extract env job chunk st) = Some (call, st1)"
    using assms(1) by (auto simp: extract_one_def split: option.splits)
  obtain p st2 where p: "ensure_provenance job call st1 = (p, st2)" by (metis surj_pair)
  have w: "write_memories env job p (le_memories call) st2 = Some st'"
    using assms(1) c p by (auto simp: extract_one_def)
  have "typed_store (xt_db st1)"
  proof (cases verbatim)
    case True
    then show ?thesis using c assms(2) by simp
  next
    case False
    then have m: "model_extract env job chunk st = Some (call, st1)" using c by simp
    show ?thesis using assms(2) model_extract_tables [OF m] model_extract_frame(1) [OF m] by (simp add: typed_store_def)
  qed
  moreover have "memories (s_corpus (xt_db st2)) = memories (s_corpus (xt_db st1)) \<and> s_graph (xt_db st2) = s_graph (xt_db st1) \<and>
      s_embeddings (xt_db st2) = s_embeddings (xt_db st1)"
    using p by (auto simp: ensure_provenance_def Let_def insert_provenance_def split: option.splits)
  ultimately have "typed_store (xt_db st2)" by (simp add: typed_store_def)
  then show ?thesis by (rule write_memories_typed [OF w])
qed

lemma extract_all_typed: "extract_all env job verbatim cs st = Some st' \<Longrightarrow> typed_store (xt_db st) \<Longrightarrow> typed_store (xt_db st')"
  by (induction cs arbitrary: st) (auto simp: bind_eq_Some_conv intro: extract_one_typed)

text \<open>C23: Extraction keeps the knowledge graph well typed, whatever the model answers: every entity's kind and
  every edge's relation is in its closed vocabulary, an edge joins two stored entities and carries a stored
  memory, a memory-entity link joins a stored memory with a stored entity, and an embedding belongs to a stored
  memory.\<close>

theorem extracted_graph_is_typed:
  assumes "run_extract env job db = Some st" and "typed_store db"
  shows "typed_store (xt_db st)"
proof -
  have "\<exists>cs verbatim s. extract_all env job verbatim cs \<lparr> xt_db = db, xt_stats = s, xt_prov = None, xt_used = 0 \<rparr> = Some st"
    using assms(1) unfolding run_extract_def Let_def by blast
  then show ?thesis using extract_all_typed assms(2) by fastforce
qed

text \<open>A statement about two entities, one of them known already.\<close>

definition example_graph_job :: extract_job where
  "example_graph_job = example_job\<lparr> xj_text :=
    encode_manual_source ''Retry twice.'' (Some MK_Pitfall) [''Mercury'', ''retry queue''] \<rparr>"

definition example_known :: pipeline_db where
  "example_known = example_pipeline\<lparr> s_graph := (s_graph example_pipeline)\<lparr> entities :=
    [\<lparr> en_id = 3, en_org_id = 1, en_team_id = Some 7, en_name = ''mercury'', en_kind = ''service'', en_aliases = [], en_provenance_id = None \<rparr>] \<rparr> \<rparr>"

lemma extracted_graph_is_typed_witness:
  "typed_store (xt_db (the (run_extract example_env example_graph_job example_known)))"
proof -
  have "xj_kind example_graph_job = ''manual''" by (simp add: example_graph_job_def example_job_def)
  from example_runs [OF this] obtain st where st: "run_extract example_env example_graph_job example_known = Some st" by blast
  have "typed_store example_known" by (simp add: typed_store_def graph_typed_def example_known_def example_pipeline_def
      store.extend_def pipeline_db.fields_def example_store_def entity_kind_voc.parse_as_str [of EK_Service, simplified])
  from extracted_graph_is_typed [OF st this] show ?thesis by (simp add: st)
qed

end
