(* ===== verification/Citations.thy ===== *)
theory Citations
  imports Text Numbers Types
begin

text \<open>
  The text half of \<open>brainiac-pipeline/src/compose.rs\<close>: the citation firewall over a model's markdown and
  the evidence copied after it.  The canonical text of a uuid belongs to the \<open>uuid\<close> crate; printing and
  parsing it are parameters, and \<open>uuid_text\<close> states what its documentation promises.
\<close>

definition uuid_text :: "(uuid \<Rightarrow> string) \<Rightarrow> (string \<Rightarrow> uuid option) \<Rightarrow> bool" where
  "uuid_text sh pa \<longleftrightarrow> (\<forall>k. pa (sh k) = Some k) \<and> (\<forall>k. set (sh k) \<subseteq> set ''0123456789abcdef-'')"

text \<open>\<open>split(sep)\<close> on a non-empty text.\<close>

function split_on :: "string \<Rightarrow> string \<Rightarrow> string list" where
  "split_on sep s =
    (case find_sub s sep of
       None \<Rightarrow> [s]
     | Some i \<Rightarrow> if sep = [] then [s] else take i s # split_on sep (drop (i + length sep) s))"
  by pat_completeness auto
termination
proof (relation "measure (length \<circ> snd)")
  fix sep s :: string and i assume "find_sub s sep = Some i" "sep \<noteq> []"
  then show "((sep, drop (i + length sep) s), sep, s) \<in> measure (length \<circ> snd)"
    using find_sub_SomeD [of s sep i] by (cases s) auto
qed simp

declare split_on.simps [simp del]

section \<open>The citation firewall\<close>

definition citation_of :: "(string \<Rightarrow> uuid option) \<Rightarrow> uuid list \<Rightarrow> string \<Rightarrow> uuid option" where
  "citation_of pa allowed raw =
    (case pa (trim raw) of Some k \<Rightarrow> if k \<in> set allowed then Some k else None | None \<Rightarrow> None)"

text \<open>The loop: the text pushed so far is what the result is prefixed with, \<open>cited\<close> and \<open>invented\<close> as there.\<close>

function scan_citations ::
  "(uuid \<Rightarrow> string) \<Rightarrow> (string \<Rightarrow> uuid option) \<Rightarrow> uuid list \<Rightarrow> string \<Rightarrow> uuid list \<Rightarrow> string \<times> uuid list \<times> bool" where
  "scan_citations sh pa allowed rest cited =
    (case find_sub rest ''[m:'' of
       None \<Rightarrow> (rest, cited, False)
     | Some i \<Rightarrow>
         (case find_sub (drop (i + 3) rest) '']'' of
            None \<Rightarrow> (rest, cited, False)
          | Some e \<Rightarrow>
              (case citation_of pa allowed (take e (drop (i + 3) rest)) of
                 Some k \<Rightarrow>
                   (case scan_citations sh pa allowed (drop (i + 4 + e) rest) (if k \<in> set cited then cited else cited @ [k]) of
                      (t, c, bad) \<Rightarrow> (take i rest @ ''[m:'' @ sh k @ '']'' @ t, c, bad))
               | None \<Rightarrow>
                   (case scan_citations sh pa allowed (drop (i + 4 + e) rest) cited of
                      (t, c, bad) \<Rightarrow> (take i rest @ t, c, True)))))"
  by pat_completeness auto
termination
proof (relation "measure (\<lambda>(_, _, _, rest, _). length rest)", goal_cases)
  case (2 sh pa allowed rest)
  then show ?case by (cases rest) auto
next
  case (3 sh pa allowed rest)
  then show ?case by (cases rest) auto
qed simp

declare scan_citations.simps [simp del]

definition EMPTY_SECTION :: string where "EMPTY_SECTION = ''(no knowledge captured yet)''"

definition scaffolding :: "string \<Rightarrow> bool" where
  "scaffolding p =
    (p = [] \<or> starts_with p ''#'' \<or> starts_with p ''```'' \<or> starts_with p ''|'' \<or> p = EMPTY_SECTION)"

definition uncited :: "string \<Rightarrow> bool" where
  "uncited para = (let p = trim para in \<not> scaffolding p \<and> \<not> contains p ''[m:'')"

definition enforce_citations ::
  "(uuid \<Rightarrow> string) \<Rightarrow> (string \<Rightarrow> uuid option) \<Rightarrow> string \<Rightarrow> uuid list \<Rightarrow> string \<times> uuid list \<times> bool" where
  "enforce_citations sh pa md allowed =
    (case scan_citations sh pa allowed md [] of
       (cleaned, cited, invented) \<Rightarrow> (cleaned, cited, invented \<or> list_ex uncited (split_on [newline, newline] cleaned)))"

section \<open>The evidence\<close>

definition evidence_of :: "(uuid \<Rightarrow> string) \<Rightarrow> 'a memory_scheme \<Rightarrow> string" where
  "evidence_of sh m =
    (case m_detail_md m of
       None \<Rightarrow> []
     | Some d \<Rightarrow>
         (if trim d = [] then []
          else [newline] @ trim d @ [newline, newline] @ ''<sub>[m:'' @ sh (m_id m) @ '']</sub>'' @ [newline]))"

definition evidence_blocks :: "(uuid \<Rightarrow> string) \<Rightarrow> 'a memory_scheme list \<Rightarrow> uuid list \<Rightarrow> string" where
  "evidence_blocks sh mems cited = concat (map (evidence_of sh) (filter (\<lambda>m. m_id m \<in> set cited) mems))"

definition lifecycle_note :: "lifecycle \<Rightarrow> string" where
  "lifecycle_note l =
    (case l of LC_Shipped \<Rightarrow> [] | LC_InFlight \<Rightarrow> '' [NOT-YET-SHIPPED: decided, in progress]''
     | LC_Proposed \<Rightarrow> '' [NOT-YET-SHIPPED: proposed only]'')"

definition render_memories :: "(uuid \<Rightarrow> string) \<Rightarrow> 'a memory_scheme list \<Rightarrow> string" where
  "render_memories sh mems =
    concat (map (\<lambda>m. ''- id='' @ sh (m_id m) @ '' kind='' @ memory_kind_as_str (m_kind m) @ lifecycle_note (m_lifecycle m)
      @ '' :: '' @ m_content m @ [newline]) mems)"

section \<open>What the firewall lets through\<close>

text \<open>The complete markers of a text, left to right, and the text without them.\<close>

function markers :: "string \<Rightarrow> string list \<times> string" where
  "markers s =
    (case find_sub s ''[m:'' of
       None \<Rightarrow> ([], s)
     | Some i \<Rightarrow>
         (case find_sub (drop (i + 3) s) '']'' of
            None \<Rightarrow> ([], s)
          | Some e \<Rightarrow> (case markers (drop (i + 4 + e) s) of (ms, t) \<Rightarrow> (take e (drop (i + 3) s) # ms, take i s @ t))))"
  by pat_completeness auto
termination
proof (relation "measure length", goal_cases)
  case (2 s i e)
  then show ?case by (cases s) auto
qed simp

declare markers.simps [simp del]

lemma starts_with_self [simp]: "starts_with (p @ t) p"
  by (auto simp: starts_with_iff)

lemma find_sub_keeps: "find_sub s p = Some i \<Longrightarrow> find_sub (take i s @ p @ t) p = Some i"
proof (induction s arbitrary: i)
  case Nil
  then show ?case by (cases t) (auto split: if_splits)
next
  case (Cons c cs)
  show ?case
  proof (cases "starts_with (c # cs) p")
    case True
    then have "i = 0" using Cons.prems by simp
    moreover have "find_sub (p @ t) p = Some 0" using starts_with_self [of p t] by (cases "p @ t") auto
    ultimately show ?thesis by simp
  next
    case False
    then obtain j where j: "i = Suc j" "find_sub cs p = Some j" using Cons.prems by auto
    obtain u where u: "cs = take j cs @ p @ u"
      using find_sub_SomeD [OF j(2)] by (metis append_take_drop_id starts_with_iff)
    have "\<not> starts_with (c # take j cs @ p @ t) p"
    proof
      assume "starts_with (c # take j cs @ p @ t) p"
      then obtain w where "c # take j cs @ p @ t = p @ w" by (auto simp: starts_with_iff)
      then have "take (length p) ((c # take j cs @ p) @ t) = p" by (simp del: append_Cons add: append_Cons [symmetric])
      moreover have "take (length p) (xs @ t) = take (length p) xs" if "length p \<le> length xs" for xs
        using that by simp
      ultimately have "take (length p) (c # take j cs @ p) = p" by (metis length_append length_Cons le_add2 le_SucI)
      then obtain v where "c # take j cs @ p = p @ v" by (metis append_take_drop_id)
      then have "c # cs = p @ v @ u" using u by (metis append_Cons append_assoc)
      then have "starts_with (c # cs) p"
        by (auto simp: starts_with_iff)
      then show False using False by simp
    qed
    then show ?thesis using Cons.IH [OF j(2)] j(1) by simp
  qed
qed

lemma find_sub_char:
  assumes "c \<notin> set s"
  shows "find_sub (s @ [c] @ t) [c] = Some (length s)"
  using assms by (induction s) auto

text \<open>A marker written by the loop is found again where it was, and read back as the same citation.\<close>

lemma uuid_text_plain:
  assumes "uuid_text sh pa"
  shows "CHR '']'' \<notin> set (sh k)" "trim (sh k) = sh k" "pa (sh k) = Some k"
proof -
  have hex: "set (sh k) \<subseteq> set ''0123456789abcdef-''" and pa: "pa (sh k) = Some k" using assms by (auto simp: uuid_text_def)
  show "CHR '']'' \<notin> set (sh k)" using hex by auto
  have "\<forall>c\<in>set (sh k). \<not> is_ws c" using hex by (auto simp: is_ws_def)
  then show "trim (sh k) = sh k" by (intro trim_by_id) (auto simp: hd_in_set last_in_set)
  show "pa (sh k) = Some k" by (rule pa)
qed

lemma marker_again:
  assumes u: "uuid_text sh pa" and f: "find_sub rest ''[m:'' = Some i"
  shows "find_sub (take i rest @ ''[m:'' @ sh k @ '']'' @ t) ''[m:'' = Some i"
    and "find_sub (drop (i + 3) (take i rest @ ''[m:'' @ sh k @ '']'' @ t)) '']'' = Some (length (sh k))"
    and "take (length (sh k)) (drop (i + 3) (take i rest @ ''[m:'' @ sh k @ '']'' @ t)) = sh k"
    and "drop (i + 4 + length (sh k)) (take i rest @ ''[m:'' @ sh k @ '']'' @ t) = t"
    and "take i (take i rest @ ''[m:'' @ sh k @ '']'' @ t) = take i rest"
proof -
  have i: "length (take i rest) = i" using find_sub_SomeD [OF f] by simp
  show "find_sub (take i rest @ ''[m:'' @ sh k @ '']'' @ t) ''[m:'' = Some i" by (rule find_sub_keeps [OF f])
  have d: "drop (i + 3) (take i rest @ ''[m:'' @ sh k @ '']'' @ t) = sh k @ '']'' @ t" using i by simp
  show "find_sub (drop (i + 3) (take i rest @ ''[m:'' @ sh k @ '']'' @ t)) '']'' = Some (length (sh k))"
    unfolding d by (rule find_sub_char [OF uuid_text_plain(1) [OF u]])
  show "take (length (sh k)) (drop (i + 3) (take i rest @ ''[m:'' @ sh k @ '']'' @ t)) = sh k" unfolding d by simp
  have "drop (i + 4 + length (sh k)) x = drop (length (sh k) + 1) (drop (i + 3) x)" for x :: string
    unfolding drop_drop by (rule arg_cong [where f = "\<lambda>n. drop n x"]) simp
  then show "drop (i + 4 + length (sh k)) (take i rest @ ''[m:'' @ sh k @ '']'' @ t) = t" by (simp only: d) simp
  show "take i (take i rest @ ''[m:'' @ sh k @ '']'' @ t) = take i rest" using i by simp
qed

lemma scan_none:
  "find_sub rest ''[m:'' = None \<Longrightarrow> scan_citations sh pa allowed rest cited = (rest, cited, False)"
  "find_sub rest ''[m:'' = Some i \<Longrightarrow> find_sub (drop (i + 3) rest) '']'' = None \<Longrightarrow>
    scan_citations sh pa allowed rest cited = (rest, cited, False)"
  "find_sub rest ''[m:'' = None \<Longrightarrow> markers rest = ([], rest)"
  "find_sub rest ''[m:'' = Some i \<Longrightarrow> find_sub (drop (i + 3) rest) '']'' = None \<Longrightarrow> markers rest = ([], rest)"
  by (simp_all add: scan_citations.simps [of sh pa allowed rest cited] markers.simps [of rest])

lemma scan_hit:
  assumes "find_sub rest ''[m:'' = Some i" "find_sub (drop (i + 3) rest) '']'' = Some e"
    "citation_of pa allowed (take e (drop (i + 3) rest)) = Some k"
    "scan_citations sh pa allowed (drop (i + 4 + e) rest) (if k \<in> set cited then cited else cited @ [k]) = (t, c, bad)"
  shows "scan_citations sh pa allowed rest cited = (take i rest @ ''[m:'' @ sh k @ '']'' @ t, c, bad)"
  using assms by (simp add: scan_citations.simps [of sh pa allowed rest cited])

lemma markers_hit:
  assumes "find_sub s ''[m:'' = Some i" "find_sub (drop (i + 3) s) '']'' = Some e"
  shows "markers s = (take e (drop (i + 3) s) # fst (markers (drop (i + 4 + e) s)), take i s @ snd (markers (drop (i + 4 + e) s)))"
  using assms by (simp add: markers.simps [of s] case_prod_beta)

lemma scan_cited:
  assumes "scan_citations sh pa allowed rest cited = (t, c, bad)"
  shows "set cited \<subseteq> set c \<and> set c \<subseteq> set cited \<union> set allowed \<and> (distinct cited \<longrightarrow> distinct c)"
  using assms
proof (induction sh pa allowed rest cited arbitrary: t c bad rule: scan_citations.induct)
  case (1 sh pa allowed rest cited)
  show ?case
  proof (cases "find_sub rest ''[m:''")
    case None
    then show ?thesis using 1(3) scan_none(1) by auto
  next
    case (Some i)
    note i = this
    show ?thesis
    proof (cases "find_sub (drop (i + 3) rest) '']''")
      case None
      then show ?thesis using 1(3) scan_none(2) [OF i] by auto
    next
      case (Some e)
      note e = this
      show ?thesis
      proof (cases "citation_of pa allowed (take e (drop (i + 3) rest))")
        case None
        obtain t' c' b' where r: "scan_citations sh pa allowed (drop (i + 4 + e) rest) cited = (t', c', b')" by (metis prod_cases3)
        have "c = c'" using 1(3) i e None r by (simp add: scan_citations.simps [of sh pa allowed rest cited])
        then show ?thesis using 1(1) [OF i e None r] by simp
      next
        case (Some k)
        let ?cited = "if k \<in> set cited then cited else cited @ [k]"
        obtain t' c' b' where r: "scan_citations sh pa allowed (drop (i + 4 + e) rest) ?cited = (t', c', b')" by (metis prod_cases3)
        have "c = c'" using 1(3) scan_hit [OF i e Some r] by simp
        moreover have "k \<in> set allowed" using Some by (auto simp: citation_of_def split: option.splits if_splits)
        ultimately show ?thesis using 1(2) [OF i e Some r] by (auto split: if_splits)
      qed
    qed
  qed
qed

text \<open>Where nothing was invented, the output differs from the input in the spelling of the markers only, its
  markers are citations, and a second pass changes nothing.\<close>

lemma scan_clean:
  assumes "uuid_text sh pa" "scan_citations sh pa allowed rest cited = (t, c, False)"
  shows "scan_citations sh pa allowed t cited = (t, c, False) \<and> snd (markers t) = snd (markers rest) \<and>
    (\<forall>raw\<in>set (fst (markers t)). \<exists>k\<in>set c. raw = sh k)"
  using assms
proof (induction sh pa allowed rest cited arbitrary: t c rule: scan_citations.induct)
  case (1 sh pa allowed rest cited)
  show ?case
  proof (cases "find_sub rest ''[m:''")
    case None
    then show ?thesis using 1(4) scan_none(1,3) [OF None] by auto
  next
    case (Some i)
    note i = this
    show ?thesis
    proof (cases "find_sub (drop (i + 3) rest) '']''")
      case None
      then show ?thesis using 1(4) scan_none(2,4) [OF i None] by auto
    next
      case (Some e)
      note e = this
      show ?thesis
      proof (cases "citation_of pa allowed (take e (drop (i + 3) rest))")
        case None
        obtain t' c' b' where r: "scan_citations sh pa allowed (drop (i + 4 + e) rest) cited = (t', c', b')" by (metis prod_cases3)
        have False using 1(4) i e None r by (simp add: scan_citations.simps [of sh pa allowed rest cited])
        then show ?thesis ..
      next
        case (Some k)
        let ?cited = "if k \<in> set cited then cited else cited @ [k]"
        obtain t' c' b' where r: "scan_citations sh pa allowed (drop (i + 4 + e) rest) ?cited = (t', c', b')" by (metis prod_cases3)
        have o: "t = take i rest @ ''[m:'' @ sh k @ '']'' @ t'" "c = c'" "b' = False" using 1(4) scan_hit [OF i e Some r] by auto
        note ih = 1(2) [OF i e Some 1(3) r [unfolded o(3)]]
        note m = marker_again [OF 1(3) i, where k = k and t = t', folded o(1)]
        have al: "k \<in> set allowed" using Some by (auto simp: citation_of_def split: option.splits if_splits)
        have "citation_of pa allowed (take (length (sh k)) (drop (i + 3) t)) = Some k"
          using uuid_text_plain(2,3) [OF 1(3), of k] al by (simp only: m(3)) (simp add: citation_of_def)
        moreover have "scan_citations sh pa allowed (drop (i + 4 + length (sh k)) t) ?cited = (t', c', False)"
          unfolding m(4) using ih by blast
        ultimately have again: "scan_citations sh pa allowed t cited = (take i t @ ''[m:'' @ sh k @ '']'' @ t', c', False)"
          by (rule scan_hit [OF m(1,2)])
        have ti: "take i t = take i rest" using m(5) o(1) by simp
        have ms: "markers t = (sh k # fst (markers t'), take i rest @ snd (markers t'))"
          using markers_hit [OF m(1,2)] unfolding m(3,4) ti .
        have mr: "snd (markers rest) = take i rest @ snd (markers (drop (i + 4 + e) rest))" using markers_hit [OF i e] by simp
        have "k \<in> set c'" using scan_cited [OF r] by (auto split: if_splits)
        then show ?thesis using ih again ms mr ti o(1,2) by auto
      qed
    qed
  qed
qed

text \<open>C33: What the citation firewall passes rests on memories the model was given.  With any uuid printer and
  parser that agree, every id it reports is one of the allowed ones, once.  If it does not flag the text,
  then every complete marker left in it is the canonical spelling of a reported id, the text outside the
  markers is the model's, every prose paragraph carries a citation mark, and enforcing again changes
  nothing.\<close>

theorem citations_are_enforced:
  assumes "uuid_text sh pa" and "enforce_citations sh pa md allowed = (cleaned, cited, unbacked)"
  shows "set cited \<subseteq> set allowed \<and> distinct cited \<and>
    (\<not> unbacked \<longrightarrow>
      (\<forall>raw\<in>set (fst (markers cleaned)). \<exists>k\<in>set cited. raw = sh k) \<and> snd (markers cleaned) = snd (markers md) \<and>
      (\<forall>para\<in>set (split_on [newline, newline] cleaned). scaffolding (trim para) \<or> contains (trim para) ''[m:'') \<and>
      enforce_citations sh pa cleaned allowed = (cleaned, cited, False))"
proof -
  obtain t c b where s: "scan_citations sh pa allowed md [] = (t, c, b)" by (metis prod_cases3)
  then have o: "cleaned = t" "cited = c" "unbacked \<longleftrightarrow> b \<or> list_ex uncited (split_on [newline, newline] t)"
    using assms(2) by (auto simp: enforce_citations_def)
  have a: "set cited \<subseteq> set allowed" "distinct cited" using scan_cited [OF s] o by auto
  have "(\<forall>raw\<in>set (fst (markers cleaned)). \<exists>k\<in>set cited. raw = sh k) \<and> snd (markers cleaned) = snd (markers md) \<and>
      (\<forall>para\<in>set (split_on [newline, newline] cleaned). scaffolding (trim para) \<or> contains (trim para) ''[m:'') \<and>
      enforce_citations sh pa cleaned allowed = (cleaned, cited, False)" if "\<not> unbacked"
  proof -
    have b: "b = False" "\<not> list_ex uncited (split_on [newline, newline] cleaned)" using that o by auto
    note c = scan_clean [OF assms(1) s [unfolded b(1)], folded o(1,2)]
    have "\<forall>para\<in>set (split_on [newline, newline] cleaned). scaffolding (trim para) \<or> contains (trim para) ''[m:''"
      using b(2) by (auto simp: list_ex_iff uncited_def Let_def)
    moreover have "enforce_citations sh pa cleaned allowed = (cleaned, cited, False)"
      using c b(2) by (simp add: enforce_citations_def)
    ultimately show ?thesis using c by blast
  qed
  then show ?thesis using a by blast
qed

text \<open>Decimal numerals are one printer and parser that agree.\<close>

definition parse_decimal :: "string \<Rightarrow> uuid option" where
  "parse_decimal s = (if s \<noteq> [] \<and> list_all is_digit s then Some (nat_of_digits s) else None)"

lemma decimal_uuid_text: "uuid_text show_nat parse_decimal"
proof -
  have "parse_decimal (show_nat k) = Some k" for k
    using show_nat_digits [of _ k] by (auto simp: parse_decimal_def list_all_iff)
  moreover have "set (show_nat k) \<subseteq> set ''0123456789abcdef-''" for k
  proof -
    have "c \<in> set ''0123456789''" if "is_digit c" for c
    proof -
      have "\<forall>n\<in>set [48..<58]. (char_of (n :: nat) :: char) \<in> set ''0123456789''" by code_simp
      moreover have "code c \<in> set [48..<58]" using that unfolding set_upt is_digit_def atLeastLessThan_iff by linarith
      ultimately show ?thesis by (metis char_of_char)
    qed
    then have "set (show_nat k) \<subseteq> set ''0123456789''" using show_nat_digits [of _ k] by blast
    also have "\<dots> \<subseteq> set ''0123456789abcdef-''" by simp
    finally show ?thesis .
  qed
  ultimately show ?thesis by (simp add: uuid_text_def)
qed

lemma citations_are_enforced_witness:
  "enforce_citations show_nat parse_decimal ''It ships [m: 7].'' [7] = (''It ships [m:7].'', [7], False) \<and>
   snd (markers ''It ships [m:7].'') = snd (markers ''It ships [m: 7].'')"
proof -
  have "show_nat 7 = ''7''" proof -
    have "(char_of (55 :: nat) :: char) = CHR ''7''" by code_simp
    then show ?thesis by (simp add: show_nat.simps digit_char_def)
  qed
  then have e: "enforce_citations show_nat parse_decimal ''It ships [m: 7].'' [7] = (''It ships [m:7].'', [7], False)"
    by (simp add: enforce_citations_def scan_citations.simps split_on.simps citation_of_def parse_decimal_def nat_of_digits_def
        trim_by_def trim_start_by_def trim_end_by_def is_ws_def is_digit_def digit_val_def uncited_def scaffolding_def EMPTY_SECTION_def contains_def)
  then show ?thesis using citations_are_enforced [OF decimal_uuid_text e] by simp
qed

text \<open>A marker that is never closed is neither checked nor stripped, and its opening counts as a citation.\<close>

lemma unterminated_marker_passes:
  "enforce_citations sh pa ''All is well [m:'' [] = (''All is well [m:'', [], False)"
  by (simp add: enforce_citations_def scan_citations.simps split_on.simps uncited_def scaffolding_def EMPTY_SECTION_def contains_def
      trim_by_def trim_start_by_def trim_end_by_def is_ws_def)

end
