(* ===== verification/Compose.thy ===== *)
theory Compose
  imports Retrieval Standards Citations
begin

text \<open>
  \<open>brainiac-pipeline/src/{compose,standards_page}.rs\<close>: a page is composed from the memories its sections
  bind to.  Parameters: the retrieval services, the uuid printer and parser, and the chat provider, which
  gets the user text of the prompt and answers with a text and the model's name, or fails (\<open>None\<close>).  A
  composition reads one state of the tables and writes nothing; \<open>None\<close> is an error that rolls it back.
  The columns \<open>valid_from\<close> and \<open>valid_to\<close> of \<open>edges\<close> are never written, so the diagram's validity test
  is always true.
\<close>

record knowledge = store +
  k_library :: library_db

section \<open>The visibility firewall\<close>

definition admits_memory :: "'d document_scheme \<Rightarrow> 'm memory_scheme \<Rightarrow> uuid list \<Rightarrow> bool" where
  "admits_memory doc m isolated =
    (if (case m_project_id m of Some p \<Rightarrow> p \<in> set isolated \<and> d_project_id doc \<noteq> Some p | None \<Rightarrow> False) then False
     else if \<not> (case d_project_id doc of None \<Rightarrow> True | Some p \<Rightarrow> m_project_id m = None \<or> m_project_id m = Some p) then False
     else (case d_visibility doc of
         Vis_Org \<Rightarrow> m_visibility m = Vis_Org
       | Vis_Team \<Rightarrow> m_visibility m = Vis_Org \<or> (m_visibility m = Vis_Team \<and> m_team_id m = d_team_id doc)
       | Vis_Private \<Rightarrow> False))"

definition expand_entity_anchors :: "session \<Rightarrow> uuid list \<Rightarrow> graph_db \<Rightarrow> uuid list" where
  "expand_entity_anchors ses ids g =
    remdups (map li_entity_id (filter (\<lambda>l. li_canonical_id l \<in> set ids) (entity_links g))
      @ map en_id (filter (\<lambda>e. sees_entity ses e \<and> en_id e \<in> set ids) (entities g)))"

text \<open>The candidates, in the order the three sources push them.\<close>

definition section_request :: "section_binding \<Rightarrow> retrieval_request" where
  "section_request b =
    \<lparr> rq_query = b_query b, rq_k = b_max_items b * 2, rq_as_of = None,
       rq_filters = retrieval_filters_default\<lparr> rf_kinds := b_kinds b, rf_min_status := Some MS_Canonical \<rparr> \<rparr>"

definition bound_candidates ::
  "services \<Rightarrow> instant \<Rightarrow> session \<Rightarrow> nat \<Rightarrow> section_binding \<Rightarrow> 'a store_scheme \<Rightarrow> memory list option" where
  "bound_candidates sv now ses version b kn =
    (let st = store.truncate kn;
         anchored = (if b_entities b = [] then []
           else for_entities ses (expand_entity_anchors ses (b_entities b) (s_graph st)) (b_max_items b * 3) (s_graph st) (s_corpus st));
         recent = (case b_window_days b of None \<Rightarrow> []
           | Some d \<Rightarrow> recent_canonical now ses d (b_max_items b * 3) (s_corpus st))
     in map_option (\<lambda>found. map row_to_memory (anchored @ recent) @ found)
          (if trim (b_query b) = [] then Some []
           else map_option (map rh_memory) (search_plain sv now ses version (section_request b) st)))"

definition section_keeps :: "'d document_scheme \<Rightarrow> section_binding \<Rightarrow> uuid list \<Rightarrow> memory \<Rightarrow> bool" where
  "section_keeps doc b isolated m =
    (admits_memory doc m isolated \<and> m_status m = MS_Canonical \<and> m_superseded_by m = None \<and>
     (b_kinds b = [] \<or> m_kind m \<in> set (b_kinds b)) \<and> (b_lifecycle b = [] \<or> m_lifecycle m \<in> set (b_lifecycle b)))"

definition isolated_in :: "memory list \<Rightarrow> corpus \<Rightarrow> uuid list" where
  "isolated_in ms db = filter (\<lambda>p. p \<in> set (isolated_projects db)) (remdups (concat (map (\<lambda>m. case m_project_id m of None \<Rightarrow> [] | Some p \<Rightarrow> [p]) ms)))"

definition bound_memories ::
  "services \<Rightarrow> instant \<Rightarrow> session \<Rightarrow> nat \<Rightarrow> 'd document_scheme \<Rightarrow> section_binding \<Rightarrow> 'a store_scheme \<Rightarrow> memory list option" where
  "bound_memories sv now ses version doc b kn =
    map_option (\<lambda>out. take (b_max_items b)
        (filter (section_keeps doc b (isolated_in out (s_corpus kn))) (fold (insert_or_ignore m_id) out [])))
      (bound_candidates sv now ses version b kn)"

section \<open>The standards projection\<close>

definition SCAFFOLD_MIN_RULES :: nat where "SCAFFOLD_MIN_RULES = 3"

text \<open>Texts outside ASCII are their UTF-8 bytes.\<close>

definition em_dash :: string where "em_dash = [CHR 0xE2, CHR 0x80, CHR 0x94]"

definition enforcement_note :: "string \<Rightarrow> string" where
  "enforcement_note e =
    (if e = ''mandatory'' then ''**Mandatory.**''
     else if e = ''experimental'' then ''*Experimental '' @ em_dash @ '' trial it, tell us how it went.*''
     else ''Recommended.'')"

definition memory_refs :: "uuid \<Rightarrow> library_db \<Rightarrow> uuid list" where
  "memory_refs s lib = map sp_ref_id (filter (\<lambda>p. sp_kind p = SPK_Memory) (provenance_of s lib))"

definition render_rule :: "(uuid \<Rightarrow> string) \<Rightarrow> library_db \<Rightarrow> std_row \<Rightarrow> string" where
  "render_rule sh lib r =
    [newline] @ ''### '' @ st_statement r @ [newline, newline] @ enforcement_note (enforcement_as_str (st_enforcement r)) @ [newline]
    @ (case st_rationale r of None \<Rightarrow> [] | Some t \<Rightarrow> [newline] @ t @ [newline])
    @ (case st_detail_md r of None \<Rightarrow> [] | Some t \<Rightarrow> [newline] @ t @ [newline])
    @ (let ms = memory_refs (st_id r) lib in
       if ms \<noteq> [] then [newline] @ ''<sub>why: '' @ join '' '' (map (\<lambda>k. ''[m:'' @ sh k @ '']'') ms) @ ''</sub>'' @ [newline]
       else if st_decreed_by r \<noteq> None
       then [newline] @ ''<sub>why: decreed '' @ em_dash @ '' adopted without prior evidence, signed by a maintainer</sub>'' @ [newline]
       else [])"

fun render_rules :: "(uuid \<Rightarrow> string) \<Rightarrow> library_db \<Rightarrow> string \<Rightarrow> std_row list \<Rightarrow> string" where
  "render_rules sh lib category [] = []"
| "render_rules sh lib category (r # rs) =
    (if st_category r \<noteq> category then [newline] @ ''## '' @ st_category r @ [newline] else [])
    @ render_rule sh lib r @ render_rules sh lib (st_category r) rs"

definition STANDARDS_PREAMBLE :: string where
  "STANDARDS_PREAMBLE = ''Every rule below was ratified by a named human. Nothing reaches this page '' @
    ''until it passes that gate, and nothing on it was written by a model '' @ em_dash @ '' each '' @
    ''statement is reproduced exactly as it was adopted.'' @ [newline]"

definition render_stack :: "(uuid \<Rightarrow> string) \<Rightarrow> session \<Rightarrow> string \<Rightarrow> library_db \<Rightarrow> string \<times> uuid list" where
  "render_stack sh ses stack lib =
    (let rules = list_standards ses (Some stack) (Some SL_Adopted) lib in
     if rules = [] then (''(no rules adopted for this stack yet)'' @ [newline], [])
     else (STANDARDS_PREAMBLE @ render_rules sh lib [] rules,
           sort_by (\<le>) (remdups (concat (map (\<lambda>r. memory_refs (st_id r) lib) rules)))))"

section \<open>One section\<close>

record composed_section =
  cs_markdown :: string
  cs_cited :: "uuid list"
  cs_unbacked :: bool

type_synonym chat = "string \<Rightarrow> (string \<times> string) option"

text \<open>The parameters of a composition that stay fixed.\<close>

record kitchen =
  kt_show :: "uuid \<Rightarrow> string"
  kt_parse :: "string \<Rightarrow> uuid option"
  kt_services :: services
  kt_chat :: chat
  kt_version :: nat

definition section_prompt :: "(uuid \<Rightarrow> string) \<Rightarrow> string \<Rightarrow> string \<Rightarrow> memory list \<Rightarrow> string" where
  "section_prompt sh title heading mems =
    ''PAGE: '' @ title @ [newline] @ ''SECTION: '' @ heading @ [newline, newline] @ ''MEMORIES:'' @ [newline] @ render_memories sh mems"

text \<open>The second component is the name of the first model that answered on this page.\<close>

definition compose_section ::
  "kitchen \<Rightarrow> instant \<Rightarrow> session \<Rightarrow> 'd document_scheme \<Rightarrow> document_section \<Rightarrow> string option \<Rightarrow> knowledge
    \<Rightarrow> (composed_section \<times> string option) option" where
  "compose_section kt now ses doc s model kn =
    (if ds_mode s = SM_Pinned
     then Some (\<lparr> cs_markdown = (case ds_pinned_content s of None \<Rightarrow> [] | Some t \<Rightarrow> t), cs_cited = [], cs_unbacked = False \<rparr>, model)
     else case ds_binding s of
       None \<Rightarrow> None
     | Some b \<Rightarrow>
         (case b_stack b of
            Some stack \<Rightarrow>
              (let (md, cited) = render_stack (kt_show kt) ses stack (k_library kn) in
               Some (\<lparr> cs_markdown = md, cs_cited = cited, cs_unbacked = False \<rparr>, model))
          | None \<Rightarrow>
              (case bound_memories (kt_services kt) now ses (kt_version kt) doc b kn of
                 None \<Rightarrow> None
               | Some mems \<Rightarrow>
                   (if mems = [] then Some (\<lparr> cs_markdown = EMPTY_SECTION, cs_cited = [], cs_unbacked = False \<rparr>, model)
                    else case kt_chat kt (section_prompt (kt_show kt) (d_title doc) (ds_heading s) mems) of
                      None \<Rightarrow> None
                    | Some (answer, ref) \<Rightarrow>
                        (let (clean, cited, unbacked) =
                           enforce_citations (kt_show kt) (kt_parse kt) (trim answer) (map m_id mems)
                         in Some (\<lparr> cs_markdown = clean @ evidence_blocks (kt_show kt) mems cited, cs_cited = cited,
                                    cs_unbacked = unbacked \<rparr>,
                                  case model of None \<Rightarrow> Some ref | Some r \<Rightarrow> Some r))))))"

section \<open>The diagram\<close>

definition mermaid_label :: "string \<Rightarrow> string" where
  "mermaid_label s = map (\<lambda>c. if c = quote_char then CHR 0x27 else c) s"

definition mermaid_node :: "nat \<Rightarrow> string \<Rightarrow> string" where
  "mermaid_node n name = ''  n'' @ show_nat n @ ''['' @ [quote_char] @ mermaid_label name @ [quote_char] @ '']'' @ [newline]"

text \<open>The position of a name in \<open>node_of\<close>, appended when it is new.\<close>

definition node_index :: "string list \<Rightarrow> string \<Rightarrow> nat" where
  "node_index names n = length (takeWhile (\<lambda>x. x \<noteq> n) names)"

definition mermaid_edge :: "string list \<Rightarrow> string \<times> string \<times> bool \<Rightarrow> string" where
  "mermaid_edge names e =
    (case e of (neighbor, relation, outgoing) \<Rightarrow>
       (let n = show_nat (node_index names neighbor + 1); rel = mermaid_label relation in
        if outgoing then ''  n0 -->|'' @ rel @ ''| n'' @ n @ [newline] else ''  n'' @ n @ '' -->|'' @ rel @ ''| n0'' @ [newline]))"

definition render_mermaid :: "string \<Rightarrow> (string \<times> string \<times> bool) list \<Rightarrow> string" where
  "render_mermaid center es =
    (let names = fold (insert_or_ignore (\<lambda>x. x)) (map fst es) [] in
     ''```mermaid'' @ [newline] @ ''graph LR'' @ [newline] @ mermaid_node 0 center
     @ concat (map (\<lambda>(i, n). mermaid_node (i + 1) n) (enumerate 0 names))
     @ concat (map (mermaid_edge names) es) @ ''```'' @ [newline])"

definition neighborhood_rows :: "session \<Rightarrow> uuid \<Rightarrow> graph_db \<Rightarrow> (string \<times> string \<times> bool) list" where
  "neighborhood_rows ses canonical g =
    (let mine = map li_entity_id (filter (\<lambda>l. li_canonical_id l = canonical) (entity_links g));
         name = (\<lambda>k. map en_name (filter (\<lambda>e. sees_entity ses e \<and> en_id e = k) (entities g)));
         rows = concat (map (\<lambda>e. let outgoing = ed_src e \<in> set mine in
              concat (map (\<lambda>s. map (\<lambda>d. (if outgoing then d else s, ed_relation e, outgoing)) (name (ed_dst e))) (name (ed_src e))))
            (filter (\<lambda>e. sees_edge ses e \<and> (ed_src e \<in> set mine \<or> ed_dst e \<in> set mine)) (edges_tab g)))
     in take 24 (sort_by (\<lambda>(n, r, _) (n', r', _). if n = n' then string_le r r' else string_le n n') (remdups rows)))"

definition mermaid_neighborhood :: "kitchen \<Rightarrow> session \<Rightarrow> 'd document_scheme \<Rightarrow> graph_db \<Rightarrow> string option" where
  "mermaid_neighborhood kt ses doc g =
    (if d_doc_kind doc \<noteq> DK_EntityPage then None
     else case Option.bind (strip_prefix (d_slug doc) ''entity-'') (kt_parse kt) of
       None \<Rightarrow> None
     | Some k \<Rightarrow>
         (case find (\<lambda>c. sees_canonical ses c \<and> ce_id c = k) (canonicals g) of
            None \<Rightarrow> None
          | Some c \<Rightarrow>
              (let rows = neighborhood_rows ses k g in
               if rows = [] then None else Some (render_mermaid (ce_name c) rows))))"

section \<open>The page\<close>

record compose_outcome =
  co_content_md :: string
  co_composed_from :: "uuid list"
  co_policy :: revision_policy
  co_reason :: string
  co_model_ref :: "string option"
  co_trigger :: string

record page_draft =
  pg_body :: string
  pg_from :: "uuid list"
  pg_unbacked :: bool
  pg_model :: "string option"

definition add_section :: "document_section \<Rightarrow> composed_section \<Rightarrow> string option \<Rightarrow> page_draft \<Rightarrow> page_draft" where
  "add_section s c model p =
    \<lparr> pg_body = pg_body p @ [newline] @ ''## '' @ ds_heading s @ [newline, newline] @ cs_markdown c @ [newline],
       pg_from = fold (insert_or_ignore (\<lambda>k. k)) (cs_cited c) (pg_from p),
       pg_unbacked = (pg_unbacked p \<or> cs_unbacked c), pg_model = model \<rparr>"

fun compose_sections ::
  "kitchen \<Rightarrow> instant \<Rightarrow> session \<Rightarrow> 'd document_scheme \<Rightarrow> knowledge \<Rightarrow> document_section list \<Rightarrow> page_draft \<Rightarrow> page_draft option" where
  "compose_sections kt now ses doc kn [] p = Some p"
| "compose_sections kt now ses doc kn (s # ss) p =
    (case compose_section kt now ses doc s (pg_model p) kn of
       None \<Rightarrow> None
     | Some (c, model) \<Rightarrow>
         compose_sections kt now ses doc kn ss (add_section s c model p))"

definition revision_policy_of ::
  "doc_kind \<Rightarrow> bool \<Rightarrow> document_revision option \<Rightarrow> uuid list \<Rightarrow> revision_policy \<times> string" where
  "revision_policy_of kind unbacked previous from =
    (if unbacked then (RP_NeedsReview, ''a claim on this page is not backed by a cited memory'')
     else case previous of
       None \<Rightarrow> (RP_NeedsReview, ''first revision of this page '' @ em_dash @ '' a human publishes it into existence'')
     | Some prev \<Rightarrow>
         (let dropped = filter (\<lambda>k. k \<notin> set from) (r_composed_from prev) in
          if dropped = [] then
            (RP_AutoPublished, ''additive: every previously published claim survives and all claims are cited'')
          else if kind = DK_Digest then
            (RP_AutoPublished, ''digest window rolled: '' @ show_nat (length dropped) @ '' item(s) aged out; every current claim is cited'')
          else (RP_NeedsReview, show_nat (length dropped) @ '' previously published claim(s) no longer appear on this page'')))"

definition compose_document ::
  "kitchen \<Rightarrow> instant \<Rightarrow> session \<Rightarrow> 'd document_scheme \<Rightarrow> string \<Rightarrow> knowledge \<Rightarrow> compose_outcome option" where
  "compose_document kt now ses doc trigger kn =
    (let previous = current_revision ses (d_id doc) (s_corpus kn);
         start = \<lparr> pg_body = ''# '' @ d_title doc @ [newline], pg_from = [], pg_unbacked = False, pg_model = None \<rparr>
     in case compose_sections kt now ses doc kn (sections (d_id doc) (s_corpus kn)) start of
          None \<Rightarrow> None
        | Some p \<Rightarrow>
            (let body = pg_body p @ (case mermaid_neighborhood kt ses doc (s_graph kn) of
                   None \<Rightarrow> [] | Some d \<Rightarrow> [newline] @ ''## Neighborhood'' @ [newline, newline] @ d);
                 (policy, reason) = revision_policy_of (d_doc_kind doc) (pg_unbacked p) previous (pg_from p)
             in Some \<lparr> co_content_md = body, co_composed_from = pg_from p, co_policy = policy, co_reason = reason,
                       co_model_ref = pg_model p, co_trigger = trigger \<rparr>))"

text \<open>The principals compositions run as; the synthetic users are two fixed ids.\<close>

definition compose_principal :: "uuid \<Rightarrow> uuid \<Rightarrow> uuid option \<Rightarrow> principal" where
  "compose_principal compose_user org project =
    \<lparr> p_org_id = org, p_user_id = compose_user, p_team_ids = [], p_project_id = project \<rparr>"

definition pipeline_principal :: "uuid \<Rightarrow> uuid \<Rightarrow> principal" where
  "pipeline_principal worker_user org =
    \<lparr> p_org_id = org, p_user_id = worker_user, p_team_ids = [], p_project_id = None \<rparr>"

section \<open>Pages the machine opens\<close>

definition SCAFFOLD_MIN_MEMORIES :: nat where "SCAFFOLD_MIN_MEMORIES = 4"
definition SCAFFOLD_MIN_TEAMS :: nat where "SCAFFOLD_MIN_TEAMS = 2"

fun fold_some :: "('a \<Rightarrow> 's \<Rightarrow> 's option) \<Rightarrow> 'a list \<Rightarrow> 's \<Rightarrow> 's option" where
  "fold_some f [] s = Some s"
| "fold_some f (x # xs) s = Option.bind (f x s) (fold_some f xs)"

text \<open>A draft page with composed sections, born dirty: \<open>ids\<close> are the fresh ids, the page's first.\<close>

definition draft_page ::
  "instant \<Rightarrow> session \<Rightarrow> uuid \<Rightarrow> string \<Rightarrow> string \<Rightarrow> doc_kind \<Rightarrow> (string \<times> section_binding) list \<Rightarrow> (nat \<Rightarrow> uuid) \<Rightarrow> corpus \<Rightarrow> corpus option" where
  "draft_page now ses org slug title kind parts ids db =
    map_option (mark_dirty now ses (ids 0))
      (Option.bind
        (insert_document now \<lparr> nd_id = ids 0, nd_org_id = org, nd_team_id = None, nd_slug = slug, nd_title = title,
           nd_visibility = Vis_Org, nd_doc_kind = kind, nd_project_id = None \<rparr> db)
        (fold_some (\<lambda>(i, heading, b). insert_section
             \<lparr> ds_id = ids (i + 1), ds_document_id = ids 0, ds_position = int i, ds_heading = heading, ds_mode = SM_Composed,
                ds_binding = Some b, ds_pinned_content = None \<rparr>) (enumerate 0 parts)))"

definition org_knowledge_of :: "session \<Rightarrow> graph_db \<Rightarrow> corpus \<Rightarrow> uuid \<Rightarrow> mem_row list" where
  "org_knowledge_of ses g db canonical =
    filter (\<lambda>m. sees_memory db ses m \<and> m_status m = MS_Canonical \<and> m_visibility m = Vis_Org \<and> m_superseded_by m = None \<and>
      list_ex (\<lambda>l. li_canonical_id l = canonical \<and> (m_id m, li_entity_id l) \<in> set (memory_entities g)) (entity_links g)) (memories db)"

definition memory_count :: "session \<Rightarrow> graph_db \<Rightarrow> corpus \<Rightarrow> uuid \<Rightarrow> nat" where
  "memory_count ses g db c = length (remdups (map m_id (org_knowledge_of ses g db c)))"

definition team_count :: "session \<Rightarrow> graph_db \<Rightarrow> corpus \<Rightarrow> uuid \<Rightarrow> nat" where
  "team_count ses g db c =
    length (remdups (concat (map (\<lambda>m. case m_team_id m of None \<Rightarrow> [] | Some t \<Rightarrow> [t]) (org_knowledge_of ses g db c))))"

definition has_page :: "session \<Rightarrow> doc_kind \<Rightarrow> string \<Rightarrow> corpus \<Rightarrow> bool" where
  "has_page ses kind slug db = list_ex (\<lambda>d. sees_document ses d \<and> d_doc_kind d = kind \<and> d_slug d = slug) (documents db)"

definition earns_page :: "kitchen \<Rightarrow> session \<Rightarrow> graph_db \<Rightarrow> corpus \<Rightarrow> canonical_row \<Rightarrow> bool" where
  "earns_page kt ses g db c =
    (sees_canonical ses c \<and> \<not> has_page ses DK_EntityPage (''entity-'' @ kt_show kt (ce_id c)) db \<and>
     SCAFFOLD_MIN_MEMORIES \<le> memory_count ses g db (ce_id c) \<and> SCAFFOLD_MIN_TEAMS \<le> team_count ses g db (ce_id c))"

definition entity_page_parts :: "canonical_row \<Rightarrow> (string \<times> section_binding) list" where
  "entity_page_parts c =
    (let part = (\<lambda>lc kinds. section_binding_default\<lparr> b_entities := [ce_id c], b_kinds := kinds, b_lifecycle := lc,
          b_query := ce_name c, b_max_items := 10 \<rparr>)
     in [(''How it works today'', part [LC_Shipped] [MK_Fact, MK_Decision, MK_Pattern]),
         (''Pitfalls'', part [LC_Shipped] [MK_Pitfall]),
         (''How to work with it'', part [LC_Shipped] [MK_Howto]),
         (''On its way (not yet shipped)'', part [LC_InFlight, LC_Proposed] [])])"

definition scaffold_entity_pages ::
  "kitchen \<Rightarrow> instant \<Rightarrow> session \<Rightarrow> uuid \<Rightarrow> nat \<Rightarrow> (nat \<Rightarrow> nat \<Rightarrow> uuid) \<Rightarrow> graph_db \<Rightarrow> corpus \<Rightarrow> (uuid list \<times> corpus) option" where
  "scaffold_entity_pages kt now ses org limit fresh g db =
    (let rows = take limit (sort_by (\<lambda>a b. memory_count ses g db (ce_id b) \<le> memory_count ses g db (ce_id a))
           (filter (earns_page kt ses g db) (canonicals g)))
     in map_option (\<lambda>db'. (map (\<lambda>i. fresh i 0) [0 ..< length rows], db'))
          (fold_some (\<lambda>(i, c). draft_page now ses org (''entity-'' @ kt_show kt (ce_id c)) (ce_name c) DK_EntityPage
             (entity_page_parts c) (fresh i)) (enumerate 0 rows) db))"

definition adopted_rules :: "session \<Rightarrow> uuid \<Rightarrow> string \<Rightarrow> library_db \<Rightarrow> nat" where
  "adopted_rules ses org stack lib =
    length (filter (\<lambda>s. sees_std ses s \<and> st_org_id s = org \<and> st_lifecycle s = SL_Adopted \<and> st_stack s = stack) (standards lib))"

definition scaffold_standards_pages ::
  "instant \<Rightarrow> session \<Rightarrow> uuid \<Rightarrow> nat \<Rightarrow> (nat \<Rightarrow> nat \<Rightarrow> uuid) \<Rightarrow> library_db \<Rightarrow> corpus \<Rightarrow> (uuid list \<times> corpus) option" where
  "scaffold_standards_pages now ses org limit fresh lib db =
    (let stacks = filter (\<lambda>s. SCAFFOLD_MIN_RULES \<le> adopted_rules ses org s lib \<and>
             \<not> list_ex (\<lambda>d. sees_document ses d \<and> d_org_id d = org \<and> d_doc_kind d = DK_StandardsPage \<and> d_slug d = ''standards-'' @ s) (documents db))
           (remdups (map st_stack (standards lib)));
         rows = take limit (sort_by (\<lambda>a b. adopted_rules ses org b lib \<le> adopted_rules ses org a lib) stacks)
     in map_option (\<lambda>db'. (map (\<lambda>i. fresh i 0) [0 ..< length rows], db'))
          (fold_some (\<lambda>(i, s). draft_page now ses org (''standards-'' @ s) (s @ '' standards'') DK_StandardsPage
             [(''The rules'', section_binding_default\<lparr> b_stack := Some s \<rparr>)] (fresh i)) (enumerate 0 rows) db))"

definition DIGEST_WINDOW_DAYS :: int where "DIGEST_WINDOW_DAYS = 7"
definition DIGEST_MIN_RECENT :: nat where "DIGEST_MIN_RECENT = 3"
definition DIGEST_REFRESH_SECS :: int where "DIGEST_REFRESH_SECS = 24 * 3600"
definition DIGEST_SLUG :: string where "DIGEST_SLUG = ''digest-weekly''"

definition recent_org_changes :: "instant \<Rightarrow> session \<Rightarrow> uuid \<Rightarrow> corpus \<Rightarrow> nat" where
  "recent_org_changes now ses org db =
    length (filter (\<lambda>m. sees_memory db ses m \<and> m_org_id m = org \<and> m_status m = MS_Canonical \<and> m_visibility m = Vis_Org \<and>
      m_superseded_by m = None \<and> mr_deleted_at m = None \<and> mr_updated_at m > now - days DIGEST_WINDOW_DAYS) (memories db))"

text \<open>The outer \<open>None\<close> is an error, the inner one \<open>Ok(None)\<close>.\<close>

definition scaffold_digest ::
  "instant \<Rightarrow> session \<Rightarrow> uuid \<Rightarrow> (nat \<Rightarrow> uuid) \<Rightarrow> corpus \<Rightarrow> (uuid option \<times> corpus) option" where
  "scaffold_digest now ses org fresh db =
    (if list_ex (\<lambda>d. sees_document ses d \<and> d_org_id d = org \<and> d_slug d = DIGEST_SLUG) (documents db) then Some (None, db)
     else if recent_org_changes now ses org db < DIGEST_MIN_RECENT then Some (None, db)
     else map_option (\<lambda>db'. (Some (fresh 0), db'))
       (draft_page now ses org DIGEST_SLUG ''This week in the knowledge base'' DK_Digest
         [(''What changed this week'', section_binding_default\<lparr> b_window_days := Some DIGEST_WINDOW_DAYS, b_max_items := 12 \<rparr>)] fresh db))"

definition refresh_digests :: "instant \<Rightarrow> session \<Rightarrow> uuid \<Rightarrow> corpus \<Rightarrow> nat \<times> corpus" where
  "refresh_digests now ses org db =
    (let hit = (\<lambda>d. sees_document ses d \<and> d_org_id d = org \<and> d_doc_kind d = DK_Digest \<and> d_dirty_at d = None \<and>
         \<not> list_ex (\<lambda>r. r_document_id r = d_id d \<and> r_created_at r > now - DIGEST_REFRESH_SECS) (doc_revisions db))
     in (rows_affected hit (documents db), db\<lparr> documents := update_where hit (touch_dirty now) (documents db) \<rparr>))"

text \<open>The operator's query, outside row-level security.\<close>

definition orgs_with_compose_work :: "knowledge \<Rightarrow> uuid list" where
  "orgs_with_compose_work kn =
    remdups (map d_org_id (documents (s_corpus kn)) @ map ce_org_id (canonicals (s_graph kn))
      @ map st_org_id (filter (\<lambda>s. st_lifecycle s = SL_Adopted) (standards (k_library kn))))"

section \<open>The compose loop of the worker\<close>

definition COMPOSE_BACKOFF_BASE_SECS :: int where "COMPOSE_BACKOFF_BASE_SECS = 60"
definition COMPOSE_BACKOFF_MAX_SECS :: int where "COMPOSE_BACKOFF_MAX_SECS = 3600"

record compose_stats =
  cp_composed :: nat
  cp_auto_published :: nat
  cp_needs_review :: nat
  cp_failed :: nat

record worker_users =
  wu_compose :: uuid
  wu_worker :: uuid

definition worker_session :: "worker_users \<Rightarrow> uuid \<Rightarrow> session" where
  "worker_session us org = \<lparr> s_principal = pipeline_principal (wu_worker us) org, s_worker = True \<rparr>"

text \<open>An org page composes without the worker flag and without teams, any other page as the worker.\<close>

definition compose_session :: "worker_users \<Rightarrow> uuid \<Rightarrow> 'd document_scheme \<Rightarrow> session" where
  "compose_session us org doc =
    (case d_visibility doc of
       Vis_Org \<Rightarrow> \<lparr> s_principal = compose_principal (wu_compose us) org (d_project_id doc), s_worker = False \<rparr>
     | _ \<Rightarrow> worker_session us org)"

text \<open>
  One page: \<open>rid\<close> is the fresh id of its revision, \<open>judge\<close> the verdict the faithfulness judge records for
  a revision a human will read (\<open>None\<close>: not sampled, or it failed), and \<open>meanwhile\<close> what others commit
  between the composition's reads and the insert of its revision.
\<close>

definition compose_page ::
  "kitchen \<Rightarrow> worker_users \<Rightarrow> instant \<Rightarrow> uuid \<Rightarrow> uuid \<Rightarrow> (uuid \<Rightarrow> string option) \<Rightarrow> (corpus \<Rightarrow> corpus) \<Rightarrow> doc_row
    \<Rightarrow> compose_stats \<times> knowledge \<Rightarrow> compose_stats \<times> knowledge" where
  "compose_page kt us now org rid judge meanwhile doc acc =
    (case acc of (stats, kn) \<Rightarrow>
      (let ses = compose_session us org doc in
       case compose_document kt now ses doc ''memory_change'' kn of
         Some out \<Rightarrow>
           (let db1 = insert_revision now ses
                  \<lparr> nr_id = rid, nr_document_id = d_id doc, nr_content_md = co_content_md out, nr_composed_from = co_composed_from out,
                     nr_trigger = co_trigger out, nr_policy_decision = co_policy out, nr_claimed_updated_at = Some (d_updated_at doc) \<rparr>
                  (meanwhile (s_corpus kn));
                db2 = (if co_policy out \<noteq> RP_AutoPublished
                       then (case judge rid of None \<Rightarrow> db1 | Some v \<Rightarrow> set_revision_faithfulness rid v db1) else db1)
            in (stats\<lparr> cp_composed := cp_composed stats + 1,
                       cp_auto_published := cp_auto_published stats + (if co_policy out = RP_AutoPublished then 1 else 0),
                       cp_needs_review := cp_needs_review stats + (if co_policy out = RP_AutoPublished then 0 else 1) \<rparr>,
                kn\<lparr> s_corpus := db2 \<rparr>))
       | None \<Rightarrow>
           (stats\<lparr> cp_failed := cp_failed stats + 1 \<rparr>,
            kn\<lparr> s_corpus := snd (record_compose_failure now (worker_session us org) (d_id doc)
                  COMPOSE_BACKOFF_BASE_SECS COMPOSE_BACKOFF_MAX_SECS (meanwhile (s_corpus kn))) \<rparr>)))"

definition compose_tick ::
  "kitchen \<Rightarrow> worker_users \<Rightarrow> instant \<Rightarrow> uuid \<Rightarrow> nat \<Rightarrow> (nat \<Rightarrow> uuid) \<Rightarrow> (uuid \<Rightarrow> string option) \<Rightarrow> (nat \<Rightarrow> corpus \<Rightarrow> corpus) \<Rightarrow> knowledge
    \<Rightarrow> compose_stats \<times> knowledge" where
  "compose_tick kt us now org limit fresh judge meanwhile kn =
    fold (\<lambda>(i, doc). compose_page kt us now org (fresh i) judge (meanwhile i) doc)
      (enumerate 0 (dirty_documents now (worker_session us org) limit (s_corpus kn)))
      (\<lparr> cp_composed = 0, cp_auto_published = 0, cp_needs_review = 0, cp_failed = 0 \<rparr>, kn)"

section \<open>The audience of a page\<close>

text \<open>A memory a page may rest on: a row the composing session reads, signed, standing, and within the audience.\<close>

definition entitled :: "session \<Rightarrow> corpus \<Rightarrow> 'd document_scheme \<Rightarrow> memory \<Rightarrow> bool" where
  "entitled ses db doc m \<longleftrightarrow>
    (\<exists>r\<in>set (memories db). m = row_to_memory r \<and> sees_memory db ses r) \<and> m_status m = MS_Canonical \<and> m_superseded_by m = None \<and>
    d_visibility doc \<noteq> Vis_Private \<and>
    (m_visibility m = Vis_Org \<or> (d_visibility doc = Vis_Team \<and> m_visibility m = Vis_Team \<and> m_team_id m = d_team_id doc)) \<and>
    (\<forall>p. m_project_id m = Some p \<longrightarrow> d_project_id doc = Some p \<or> (d_project_id doc = None \<and> p \<notin> set (isolated_projects db)))"

lemma search_plain_row:
  assumes "keys_ok (s_corpus st)" "search_plain sv now ses v req st = Some hits" "h \<in> set hits"
  shows "\<exists>r\<in>set (memories (s_corpus st)). rh_memory h = row_to_memory r \<and> sees_memory (s_corpus st) ses r"
proof -
  obtain out where out: "engine (sv\<lparr> sv_rerank := None \<rparr>) now ses v req False st = Some out" "hits = gr_hits out"
    using assms(2) by (auto simp: search_plain_def search_reranked_def)
  obtain ranked where r: "ranked_hits (sv\<lparr> sv_rerank := None \<rparr>) now ses v req st = Some ranked"
    using out(1) by (auto simp: engine_def split: option.splits)
  have "gr_hits out = attach_anchors ses (s_graph st) (take (rq_k req) ranked)"
    using out(1) r by (auto simp: engine_def cut_plain)
  then have "map rh_memory hits = map rh_memory (take (rq_k req) ranked)" by (simp only: out(2) attach_anchors_frame)
  then have "set (map rh_memory hits) = set (map rh_memory (take (rq_k req) ranked))" by (rule arg_cong)
  then have "rh_memory h \<in> rh_memory ` set (take (rq_k req) ranked)" using assms(3) by auto
  then obtain h' where "h' \<in> set ranked" "rh_memory h' = rh_memory h" by (auto dest: in_set_takeD)
  then show ?thesis using ranked_hits_spec(2) [OF assms(1) r, of h'] by (auto simp: may_serve_def)
qed

lemma sources_seen:
  "r \<in> set (for_entities ses es n g db) \<Longrightarrow> r \<in> set (memories db) \<and> sees_memory db ses r"
  "r \<in> set (recent_canonical now ses d n db) \<Longrightarrow> r \<in> set (memories db) \<and> sees_memory db ses r"
  by (auto simp: for_entities_def for_entities_filtered_def recent_canonical_def newest_first_def dest!: in_set_takeD split: if_splits)

lemma bound_candidates_row:
  assumes "keys_ok (s_corpus kn)" "bound_candidates sv now ses v b kn = Some out" "m \<in> set out"
  shows "\<exists>r\<in>set (memories (s_corpus kn)). m = row_to_memory r \<and> sees_memory (s_corpus kn) ses r"
proof -
  have c: "s_corpus (store.truncate kn) = s_corpus kn" by (simp add: store.truncate_def)
  define anchored where "anchored = (if b_entities b = [] then []
      else for_entities ses (expand_entity_anchors ses (b_entities b) (s_graph (store.truncate kn))) (b_max_items b * 3)
        (s_graph (store.truncate kn)) (s_corpus (store.truncate kn)))"
  define recent where "recent = (case b_window_days b of None \<Rightarrow> []
      | Some d \<Rightarrow> recent_canonical now ses d (b_max_items b * 3) (s_corpus (store.truncate kn)))"
  define search where "search = (if trim (b_query b) = [] then Some []
      else map_option (map rh_memory) (search_plain sv now ses v (section_request b) (store.truncate kn)))"
  obtain found where f: "search = Some found" "out = map row_to_memory (anchored @ recent) @ found"
    using assms(2) unfolding bound_candidates_def Let_def anchored_def [symmetric] recent_def [symmetric] search_def [symmetric] by auto
  from assms(3) f(2) consider r where "r \<in> set anchored" "m = row_to_memory r" | r where "r \<in> set recent" "m = row_to_memory r" | "m \<in> set found"
    by auto
  then show ?thesis
  proof cases
    case 1
    then show ?thesis using sources_seen(1) unfolding anchored_def c by (metis empty_iff list.set(1))
  next
    case 2
    then obtain d where "r \<in> set (recent_canonical now ses d (b_max_items b * 3) (s_corpus kn))"
      unfolding recent_def c by (cases "b_window_days b") auto
    from sources_seen(2) [OF this] show ?thesis using 2(2) by blast
  next
    case 3
    then obtain hits h where "search_plain sv now ses v (section_request b) (store.truncate kn) = Some hits" "h \<in> set hits" "m = rh_memory h"
      using f(1) unfolding search_def by (auto split: if_splits)
    then show ?thesis using search_plain_row [of "store.truncate kn"] assms(1) unfolding c by blast
  qed
qed

lemma fold_insert_subset: "set (fold (insert_or_ignore key) rs rows) \<subseteq> set rs \<union> set rows"
  by (induction rs arbitrary: rows) (use set_insert_or_ignore_subset in fastforce)+

lemma admits_memory_iff:
  "admits_memory doc m isolated \<longleftrightarrow>
    d_visibility doc \<noteq> Vis_Private \<and>
    (m_visibility m = Vis_Org \<or> (d_visibility doc = Vis_Team \<and> m_visibility m = Vis_Team \<and> m_team_id m = d_team_id doc)) \<and>
    (\<forall>p. m_project_id m = Some p \<longrightarrow> d_project_id doc = Some p \<or> (d_project_id doc = None \<and> p \<notin> set isolated))"
  by (cases "m_project_id m"; cases "d_project_id doc"; cases "d_visibility doc"; auto simp: admits_memory_def)

lemma bound_memories_entitled:
  assumes keys: "keys_ok (s_corpus kn)" and b: "bound_memories sv now ses v doc b kn = Some ms" and m: "m \<in> set ms"
  shows "entitled ses (s_corpus kn) doc m"
proof -
  obtain out where out: "bound_candidates sv now ses v b kn = Some out"
    "ms = take (b_max_items b) (filter (section_keeps doc b (isolated_in out (s_corpus kn))) (fold (insert_or_ignore m_id) out []))"
    using b by (auto simp: bound_memories_def)
  have m': "m \<in> set out" "section_keeps doc b (isolated_in out (s_corpus kn)) m"
    using m fold_insert_subset [of m_id out "[]"] unfolding out(2) by (auto dest!: in_set_takeD)
  have iso: "p \<in> set (isolated_in out (s_corpus kn))" if "m_project_id m = Some p" "p \<in> set (isolated_projects (s_corpus kn))" for p
    using m'(1) that by (force simp: isolated_in_def)
  show ?thesis using m'(2) iso bound_candidates_row [OF keys out(1) m'(1)]
    unfolding entitled_def section_keeps_def admits_memory_iff by blast
qed

text \<open>What a rule of a stack page cites.\<close>

definition ruled :: "session \<Rightarrow> library_db \<Rightarrow> string \<Rightarrow> uuid \<Rightarrow> bool" where
  "ruled ses lib stack k \<longleftrightarrow>
    (\<exists>r\<in>set (standards lib). sees_std ses r \<and> st_stack r = stack \<and> st_lifecycle r = SL_Adopted \<and>
      (\<exists>p\<in>set (std_provenance lib). sp_standard_id p = st_id r \<and> sp_kind p = SPK_Memory \<and> sp_ref_id p = k))"

lemma render_stack_ruled: "k \<in> set (snd (render_stack sh ses stack lib)) \<Longrightarrow> ruled ses lib stack k"
  by (auto simp: render_stack_def Let_def memory_refs_def provenance_of_def list_standards_def ruled_def split: if_splits)

lemma compose_section_cites:
  assumes keys: "keys_ok (s_corpus kn)" and c: "compose_section kt now ses doc s model kn = Some (c, model')" and k: "k \<in> set (cs_cited c)"
  shows "ds_mode s = SM_Composed \<and> (\<exists>b. ds_binding s = Some b \<and>
    (case b_stack b of Some stack \<Rightarrow> ruled ses (k_library kn) stack k | None \<Rightarrow> \<exists>m. m_id m = k \<and> entitled ses (s_corpus kn) doc m))"
proof -
  have mode: "ds_mode s = SM_Composed" using c k by (cases "ds_mode s") (auto simp: compose_section_def)
  then obtain b where b: "ds_binding s = Some b" using c by (auto simp: compose_section_def split: option.splits)
  show ?thesis
  proof (cases "b_stack b")
    case (Some stack)
    then have "cs_cited c = snd (render_stack (kt_show kt) ses stack (k_library kn))"
      using c mode b by (auto simp: compose_section_def split: prod.splits)
    then show ?thesis using mode b Some render_stack_ruled k by auto
  next
    case None
    obtain mems where mems: "bound_memories (kt_services kt) now ses (kt_version kt) doc b kn = Some mems"
      using c mode b None by (auto simp: compose_section_def split: option.splits)
    have "mems \<noteq> []" using c mode b None mems k by (auto simp: compose_section_def)
    then obtain answer ref where ans: "kt_chat kt (section_prompt (kt_show kt) (d_title doc) (ds_heading s) mems) = Some (answer, ref)"
      using c mode b None mems by (auto simp: compose_section_def split: option.splits)
    obtain t ks ub where e: "scan_citations (kt_show kt) (kt_parse kt) (map m_id mems) (trim answer) [] = (t, ks, ub)" by (metis prod_cases3)
    have "cs_cited c = ks"
      using c mode b None mems \<open>mems \<noteq> []\<close> ans e by (auto simp: compose_section_def enforce_citations_def)
    then have "k \<in> m_id ` set mems" using scan_cited [OF e] k by auto
    then show ?thesis using bound_memories_entitled [OF keys mems] mode b None by auto
  qed
qed

lemma fold_insert_set: "set (fold (insert_or_ignore (\<lambda>k. k)) ks acc) = set ks \<union> set acc"
  using fold_insert_or_ignore_keys [of "\<lambda>k. k" ks acc] by simp

lemma fold_insert_distinct: "distinct acc \<Longrightarrow> distinct (fold (insert_or_ignore (\<lambda>k. k)) ks acc)"
  using fold_insert_or_ignore_distinct [of "\<lambda>k. k" acc ks] by simp

text \<open>What a section composes to does not depend on which model answered before it.\<close>

lemma compose_section_model:
  assumes "compose_section kt now ses doc s m kn = Some (c, r)" "compose_section kt now ses doc s m' kn = Some (c', r')"
  shows "c = c'"
proof (cases "ds_mode s = SM_Pinned")
  case True
  then show ?thesis using assms by (simp add: compose_section_def)
next
  case False
  then obtain b where b: "ds_binding s = Some b" using assms(1) by (auto simp: compose_section_def split: option.splits)
  show ?thesis
  proof (cases "b_stack b")
    case (Some stack)
    then show ?thesis using assms False b by (auto simp: compose_section_def split: prod.splits)
  next
    case None
    then obtain mems where mems: "bound_memories (kt_services kt) now ses (kt_version kt) doc b kn = Some mems"
      using assms(1) False b by (auto simp: compose_section_def split: option.splits)
    show ?thesis
      using assms False b None mems
      by (cases "mems = []"; cases "kt_chat kt (section_prompt (kt_show kt) (d_title doc) (ds_heading s) mems)")
        (auto simp: compose_section_def split: prod.splits)
  qed
qed

text \<open>Every step of the section loop, seen from its end.\<close>

lemma add_section_sel:
  "set (pg_from (add_section s c model p)) = set (cs_cited c) \<union> set (pg_from p)"
  "distinct (pg_from p) \<Longrightarrow> distinct (pg_from (add_section s c model p))"
  "pg_unbacked (add_section s c model p) \<longleftrightarrow> pg_unbacked p \<or> cs_unbacked c"
  "\<exists>rest. pg_body (add_section s c model p) = pg_body p @ rest"
  by (auto simp: add_section_def fold_insert_set intro: fold_insert_distinct)

lemma compose_sections_spec:
  assumes "compose_sections kt now ses doc kn ss p = Some q"
  shows "(\<forall>k\<in>set (pg_from q). k \<in> set (pg_from p) \<or>
      (\<exists>s\<in>set ss. \<exists>model model' c. compose_section kt now ses doc s model kn = Some (c, model') \<and> k \<in> set (cs_cited c)))"
    and "distinct (pg_from p) \<Longrightarrow> distinct (pg_from q)"
    and "pg_unbacked q \<longleftrightarrow> pg_unbacked p \<or>
      (\<exists>s\<in>set ss. \<exists>model model' c. compose_section kt now ses doc s model kn = Some (c, model') \<and> cs_unbacked c)"
    and "\<exists>rest. pg_body q = pg_body p @ rest"
  using assms
proof (induction ss arbitrary: p)
  case Nil
  {
    case 1
    then show ?case by simp
  next
    case 2
    then show ?case by simp
  next
    case 3
    then show ?case by simp
  next
    case 4
    then show ?case by simp
  }
next
  case (Cons s ss)
  have step: "\<exists>c model. compose_section kt now ses doc s (pg_model p) kn = Some (c, model) \<and>
      compose_sections kt now ses doc kn ss (add_section s c model p) = Some q"
    if "compose_sections kt now ses doc kn (s # ss) p = Some q" for p
    using that by (auto split: option.splits)
  {
    case 1
    from step [OF 1] obtain c model where c: "compose_section kt now ses doc s (pg_model p) kn = Some (c, model)"
      and r: "compose_sections kt now ses doc kn ss (add_section s c model p) = Some q" by blast
    show ?case
    proof
      fix k assume "k \<in> set (pg_from q)"
      then consider "k \<in> set (pg_from (add_section s c model p))" |
        s' m m' c' where "s' \<in> set ss" "compose_section kt now ses doc s' m kn = Some (c', m')" "k \<in> set (cs_cited c')"
        using Cons.IH(1) [OF r] by blast
      then show "k \<in> set (pg_from p) \<or>
        (\<exists>s\<in>set (s # ss). \<exists>model model' c. compose_section kt now ses doc s model kn = Some (c, model') \<and> k \<in> set (cs_cited c))"
      proof cases
        case 1
        then show ?thesis using c by (auto simp: add_section_sel(1))
      next
        case 2
        then show ?thesis by (meson list.set_intros(2))
      qed
    qed
  next
    case 2
    from step [OF 2(2)] obtain c model where
      r: "compose_sections kt now ses doc kn ss (add_section s c model p) = Some q" by blast
    show ?case by (rule Cons.IH(2) [OF add_section_sel(2) [OF 2(1)] r])
  next
    case 3
    from step [OF 3] obtain c model where c: "compose_section kt now ses doc s (pg_model p) kn = Some (c, model)"
      and r: "compose_sections kt now ses doc kn ss (add_section s c model p) = Some q" by blast
    have "(\<exists>m m' c'. compose_section kt now ses doc s m kn = Some (c', m') \<and> cs_unbacked c') \<longleftrightarrow> cs_unbacked c"
      using compose_section_model [OF c] c by metis
    then show ?case using Cons.IH(3) [OF r] by (simp add: add_section_sel(3) disj_assoc)
  next
    case 4
    from step [OF 4] obtain c model where
      r: "compose_sections kt now ses doc kn ss (add_section s c model p) = Some q" by blast
    from Cons.IH(4) [OF r] add_section_sel(4) [of s c model p] show ?case by (metis append_assoc)
  }
qed

text \<open>What one section writes stays on the page.\<close>

lemma compose_sections_body:
  assumes "compose_sections kt now ses doc kn ss p = Some q" "s \<in> set ss"
  shows "\<exists>c model model' pre post. compose_section kt now ses doc s model kn = Some (c, model') \<and>
    pg_body q = pre @ cs_markdown c @ post"
  using assms
proof (induction ss arbitrary: p)
  case (Cons s' ss)
  then obtain c model where c: "compose_section kt now ses doc s' (pg_model p) kn = Some (c, model)"
    and r: "compose_sections kt now ses doc kn ss (add_section s' c model p) = Some q" by (auto split: option.splits)
  show ?case
  proof (cases "s = s'")
    case True
    obtain rest where "pg_body q = pg_body (add_section s' c model p) @ rest" using compose_sections_spec(4) [OF r] by blast
    then have "pg_body q = (pg_body p @ [newline] @ ''## '' @ ds_heading s' @ [newline, newline]) @ cs_markdown c @ ([newline] @ rest)"
      by (simp add: add_section_def)
    then show ?thesis using c True by blast
  next
    case False
    then show ?thesis using Cons.IH [OF r] Cons.prems(2) by simp
  qed
qed simp

lemma compose_document_page:
  assumes "compose_document kt now ses doc trigger kn = Some out"
  obtains p rest where
    "compose_sections kt now ses doc kn (sections (d_id doc) (s_corpus kn))
      \<lparr> pg_body = ''# '' @ d_title doc @ [newline], pg_from = [], pg_unbacked = False, pg_model = None \<rparr> = Some p"
    "co_composed_from out = pg_from p" "co_content_md out = pg_body p @ rest"
    "co_policy out = fst (revision_policy_of (d_doc_kind doc) (pg_unbacked p) (current_revision ses (d_id doc) (s_corpus kn)) (pg_from p))"
  using assms by (auto simp: compose_document_def Let_def split: option.splits prod.splits)

lemma revision_policy_iff:
  "fst (revision_policy_of kind unbacked previous from) = RP_AutoPublished \<longleftrightarrow>
    \<not> unbacked \<and> (\<exists>prev. previous = Some prev \<and> (set (r_composed_from prev) \<subseteq> set from \<or> kind = DK_Digest))"
  by (auto simp: revision_policy_of_def Let_def filter_empty_conv subset_iff split: option.splits)

text \<open>The section a page draws on, and what it may cite.\<close>

definition section_may_cite :: "session \<Rightarrow> 'd document_scheme \<Rightarrow> document_section \<Rightarrow> knowledge \<Rightarrow> uuid \<Rightarrow> bool" where
  "section_may_cite ses doc s kn k \<longleftrightarrow>
    ds_mode s = SM_Composed \<and>
    (\<exists>b. ds_binding s = Some b \<and>
      (case b_stack b of
         Some stack \<Rightarrow> ruled ses (k_library kn) stack k
       | None \<Rightarrow> \<exists>m. m_id m = k \<and> entitled ses (s_corpus kn) doc m))"

section \<open>Properties\<close>

text \<open>C9: A composed page is capped by its audience: every memory id it is recorded as composed from comes
  from one of its composed sections, and is either a memory the composing session reads that is canonical,
  unsuperseded, within the page's visibility and on the page's side of every project wall, or the evidence
  of an adopted rule of the section's stack; and no id is recorded twice.\<close>

theorem composed_pages_are_capped:
  assumes "keys_ok (s_corpus kn)"
    and "compose_document kt now ses doc trigger kn = Some out"
  shows "(\<forall>k\<in>set (co_composed_from out). \<exists>s\<in>set (sections (d_id doc) (s_corpus kn)). section_may_cite ses doc s kn k) \<and>
    distinct (co_composed_from out)"
proof -
  obtain p rest where p: "compose_sections kt now ses doc kn (sections (d_id doc) (s_corpus kn))
      \<lparr> pg_body = ''# '' @ d_title doc @ [newline], pg_from = [], pg_unbacked = False, pg_model = None \<rparr> = Some p"
    and ids: "co_composed_from out = pg_from p"
    using compose_document_page [OF assms(2)] by metis
  have "\<exists>s\<in>set (sections (d_id doc) (s_corpus kn)). section_may_cite ses doc s kn k" if "k \<in> set (pg_from p)" for k
    using compose_sections_spec(1) [OF p] that compose_section_cites [OF assms(1)]
    unfolding section_may_cite_def by fastforce
  then show ?thesis using compose_sections_spec(2) [OF p] ids by simp
qed

text \<open>C11: A revision publishes itself only when it has earned it: no section composed to a claim without a
  citation, the page already has a published revision, and every memory that one was composed from is
  still there (a digest's window may roll); and the prose a human pinned is on the page as it was written.\<close>

theorem publication_is_earned:
  assumes "compose_document kt now ses doc trigger kn = Some out"
  shows "(co_policy out = RP_AutoPublished \<longleftrightarrow>
      (\<forall>s\<in>set (sections (d_id doc) (s_corpus kn)). \<forall>model model' c.
        compose_section kt now ses doc s model kn = Some (c, model') \<longrightarrow> \<not> cs_unbacked c) \<and>
      (\<exists>prev. current_revision ses (d_id doc) (s_corpus kn) = Some prev \<and>
        (set (r_composed_from prev) \<subseteq> set (co_composed_from out) \<or> d_doc_kind doc = DK_Digest))) \<and>
    (\<forall>s\<in>set (sections (d_id doc) (s_corpus kn)). \<forall>prose. ds_mode s = SM_Pinned \<and> ds_pinned_content s = Some prose \<longrightarrow>
      (\<exists>pre post. co_content_md out = pre @ prose @ post))"
proof -
  obtain p rest where p: "compose_sections kt now ses doc kn (sections (d_id doc) (s_corpus kn))
      \<lparr> pg_body = ''# '' @ d_title doc @ [newline], pg_from = [], pg_unbacked = False, pg_model = None \<rparr> = Some p"
    and out: "co_composed_from out = pg_from p" "co_content_md out = pg_body p @ rest"
      "co_policy out = fst (revision_policy_of (d_doc_kind doc) (pg_unbacked p) (current_revision ses (d_id doc) (s_corpus kn)) (pg_from p))"
    by (rule compose_document_page [OF assms])
  have "\<exists>pre post. co_content_md out = pre @ prose @ post"
    if s: "s \<in> set (sections (d_id doc) (s_corpus kn))" "ds_mode s = SM_Pinned" "ds_pinned_content s = Some prose" for s prose
  proof -
    obtain c model model' pre post where c: "compose_section kt now ses doc s model kn = Some (c, model')"
      and "pg_body p = pre @ cs_markdown c @ post" using compose_sections_body [OF p s(1)] by blast
    moreover have "cs_markdown c = prose" using c s(2,3) by (auto simp: compose_section_def)
    ultimately have "co_content_md out = pre @ prose @ (post @ rest)" using out(2) by simp
    then show ?thesis by blast
  qed
  moreover have "pg_unbacked p \<longleftrightarrow> (\<exists>s\<in>set (sections (d_id doc) (s_corpus kn)). \<exists>model model' c.
      compose_section kt now ses doc s model kn = Some (c, model') \<and> cs_unbacked c)"
    using compose_sections_spec(3) [OF p] by simp
  ultimately show ?thesis unfolding out(1,3) revision_policy_iff by blast
qed

text \<open>A page with a pinned section and one that lists what changed in the last week.\<close>

definition example_kitchen :: kitchen where
  "example_kitchen =
    \<lparr> kt_show = show_nat, kt_parse = parse_decimal, kt_services = example_services,
       kt_chat = (\<lambda>_. Some (''It ships [m:1].'', ''model'')), kt_version = 1 \<rparr>"

definition example_knowledge :: knowledge where
  "example_knowledge =
    store.extend (example_store\<lparr> s_corpus := (s_corpus example_store)\<lparr> doc_sections :=
        [\<lparr> ds_id = 70, ds_document_id = 50, ds_position = 1, ds_heading = ''News'', ds_mode = SM_Composed,
            ds_binding = Some (section_binding_default\<lparr> b_window_days := Some 7 \<rparr>), ds_pinned_content = None \<rparr>,
         \<lparr> ds_id = 71, ds_document_id = 50, ds_position = 0, ds_heading = ''About'', ds_mode = SM_Pinned,
            ds_binding = None, ds_pinned_content = Some ''Prose.'' \<rparr>] \<rparr> \<rparr>)
      (knowledge.fields example_library)"

lemma example_knowledge_keys: "keys_ok (s_corpus example_knowledge)"
  by code_simp

definition example_pinned :: document_section where
  "example_pinned = sections 50 (s_corpus example_knowledge) ! 0"

definition example_news :: document_section where
  "example_news = sections 50 (s_corpus example_knowledge) ! 1"

lemma example_sections: "sections 50 (s_corpus example_knowledge) = [example_pinned, example_news]"
  unfolding example_pinned_def example_news_def by code_simp

lemma example_pinned_section:
  "compose_section example_kitchen 30 example_session example_doc example_pinned model example_knowledge =
    Some (\<lparr> cs_markdown = ''Prose.'', cs_cited = [], cs_unbacked = False \<rparr>, model)"
proof -
  have "ds_mode example_pinned = SM_Pinned" "ds_pinned_content example_pinned = Some ''Prose.''" by code_simp+
  then show ?thesis by (simp add: compose_section_def)
qed

text \<open>The session reads memory 2 as well, which the page's audience does not.\<close>

lemma example_news_memories:
  "bound_memories example_services 30 example_session 1 example_doc (the (ds_binding example_news)) example_knowledge =
    Some [row_to_memory (example_row 1 Vis_Org MS_Canonical)]"
proof -
  obtain b where b: "ds_binding example_news = Some b" "b_entities b = []" "b_query b = []" "b_window_days b = Some 7" "b_max_items b = 12"
    "b_kinds b = []" "b_lifecycle b = []"
  proof -
    have "ds_binding example_news = Some (section_binding_default\<lparr> b_window_days := Some 7 \<rparr>)" by code_simp
    then show ?thesis by (rule that) (simp_all add: section_binding_default_def default_max_items_def)
  qed
  have t: "trim [] = []" by code_simp
  have r: "recent_canonical 30 example_session 7 36 (s_corpus (store.truncate example_knowledge)) =
      [example_row 2 Vis_Team MS_Canonical, example_row 1 Vis_Org MS_Canonical]" by code_simp
  have "bound_candidates example_services 30 example_session 1 b example_knowledge =
      Some [row_to_memory (example_row 2 Vis_Team MS_Canonical), row_to_memory (example_row 1 Vis_Org MS_Canonical)]"
    unfolding bound_candidates_def b t Let_def by (simp add: r)
  moreover have "isolated_in [row_to_memory (example_row 2 Vis_Team MS_Canonical), row_to_memory (example_row 1 Vis_Org MS_Canonical)]
      (s_corpus example_knowledge) = []"
    "fold (insert_or_ignore m_id) [row_to_memory (example_row 2 Vis_Team MS_Canonical), row_to_memory (example_row 1 Vis_Org MS_Canonical)] [] =
      [row_to_memory (example_row 2 Vis_Team MS_Canonical), row_to_memory (example_row 1 Vis_Org MS_Canonical)]"
    "\<not> admits_memory example_doc (row_to_memory (example_row 2 Vis_Team MS_Canonical)) []"
    "admits_memory example_doc (row_to_memory (example_row 1 Vis_Org MS_Canonical)) []"
    "m_status (row_to_memory (example_row 1 Vis_Org MS_Canonical)) = MS_Canonical"
    "m_superseded_by (row_to_memory (example_row 1 Vis_Org MS_Canonical)) = None" by code_simp+
  ultimately show ?thesis by (simp add: bound_memories_def b section_keeps_def)
qed

lemma example_answer:
  "enforce_citations show_nat parse_decimal (trim ''It ships [m:1].'') [1] = (''It ships [m:1].'', [1], False)"
proof -
  have "(char_of (49 :: nat) :: char) = CHR ''1''" by code_simp
  then have "show_nat 1 = ''1''" by (simp add: show_nat.simps digit_char_def)
  then show ?thesis
    by (simp add: enforce_citations_def scan_citations.simps split_on.simps citation_of_def parse_decimal_def nat_of_digits_def
        trim_by_def trim_start_by_def trim_end_by_def is_ws_def is_digit_def digit_val_def uncited_def scaffolding_def EMPTY_SECTION_def contains_def)
qed

lemma example_news_section:
  "\<exists>c. compose_section example_kitchen 30 example_session example_doc example_news None example_knowledge = Some (c, Some ''model'') \<and>
    cs_cited c = [1] \<and> \<not> cs_unbacked c"
proof -
  have n: "ds_mode example_news = SM_Composed" "ds_binding example_news = Some (the (ds_binding example_news))"
    "b_stack (the (ds_binding example_news)) = None" by code_simp+
  obtain b where b: "ds_binding example_news = Some b" "b_stack b = None"
    "bound_memories example_services 30 example_session 1 example_doc b example_knowledge =
      Some [row_to_memory (example_row 1 Vis_Org MS_Canonical)]"
    using n(2,3) example_news_memories by metis
  have k: "kt_services example_kitchen = example_services" "kt_version example_kitchen = 1" "kt_show example_kitchen = show_nat"
    "kt_parse example_kitchen = parse_decimal" "\<And>p. kt_chat example_kitchen p = Some (''It ships [m:1].'', ''model'')"
    by (simp_all add: example_kitchen_def)
  have i: "map m_id [row_to_memory (example_row 1 Vis_Org MS_Canonical)] = [1]" by code_simp
  show ?thesis
    unfolding compose_section_def n(1) b(1) section_mode.simps if_False option.case b(2) k b(3) i example_answer Let_def prod.case
    by (simp add: n(1))
qed

lemma example_page:
  "\<exists>out. compose_document example_kitchen 30 example_session example_doc ''memory_change'' example_knowledge = Some out \<and>
    co_composed_from out = [1] \<and> co_policy out = RP_NeedsReview"
proof -
  obtain c where c: "compose_section example_kitchen 30 example_session example_doc example_news None example_knowledge = Some (c, Some ''model'')"
    "cs_cited c = [1]" using example_news_section by blast
  have d: "d_id example_doc = 50" "current_revision example_session 50 (s_corpus example_knowledge) = None" by code_simp+
  show ?thesis
    unfolding compose_document_def d example_sections
    by (simp add: example_pinned_section c add_section_def insert_or_ignore_def revision_policy_of_def Let_def split: prod.splits)
qed

lemma composed_pages_are_capped_witness:
  "\<exists>s\<in>set (sections 50 (s_corpus example_knowledge)). section_may_cite example_session example_doc s example_knowledge 1"
proof -
  obtain out where out: "compose_document example_kitchen 30 example_session example_doc ''memory_change'' example_knowledge = Some out"
    "co_composed_from out = [1]" using example_page by blast
  have "d_id example_doc = 50" by code_simp
  then show ?thesis using composed_pages_are_capped [OF example_knowledge_keys out(1)] out(2) by simp
qed

lemma publication_is_earned_witness:
  "\<exists>out pre post. compose_document example_kitchen 30 example_session example_doc ''memory_change'' example_knowledge = Some out \<and>
    co_content_md out = pre @ ''Prose.'' @ post"
proof -
  obtain out where out: "compose_document example_kitchen 30 example_session example_doc ''memory_change'' example_knowledge = Some out"
    using example_page by blast
  have "d_id example_doc = 50" "ds_mode example_pinned = SM_Pinned" "ds_pinned_content example_pinned = Some ''Prose.''" by code_simp+
  then show ?thesis using publication_is_earned [OF out] out by (metis example_sections list.set_intros(1))
qed

end
