(* ===== verification/Pipeline.thy ===== *)
theory Pipeline
  imports Extract Compose Queue
begin

text \<open>
  \<open>brainiac-pipeline/src/{policy,resolve,contradict,worker}.rs\<close>: the stages after extraction and the
  worker that runs them.  Further parameters (\<open>pipeline_env\<close>): the distance of vectors, the rounding of a
  similarity to \<open>f32\<close>, the readers of the two verdicts, the two stages' providers, and number formats.  A
  provider is asked once per entity, and once per compared pair, so its answer may depend on which.
\<close>

section \<open>The promotion policy\<close>

record policy_context =
  open_contradictions :: nat

definition evaluate :: "'a memory_scheme \<Rightarrow> memory_status \<Rightarrow> policy_context \<Rightarrow> policy_decision \<times> string" where
  "evaluate m to ctx =
    (let conf = (case m_confidence m of None \<Rightarrow> 0 | Some c \<Rightarrow> c) in
     if to = MS_Canonical then (PD_NeedsReview, ''canonical_requires_maintainer'')
     else if open_contradictions ctx > 0 then (PD_NeedsReview, ''contradiction_pending'')
     else if to = MS_Candidate \<and> m_status m = MS_Raw \<and> m_kind m = MK_Pitfall \<and> m_visibility m = Vis_Team \<and> conf \<ge> 9 / 10
     then (PD_AutoApproved, ''pitfall_high_conf_auto_candidate'')
     else if to = MS_Candidate \<and> m_status m = MS_Raw \<and> m_kind m = MK_Decision \<and> conf \<ge> 95 / 100
     then (PD_AutoApproved, ''decision_explicit_auto_candidate'')
     else (PD_NeedsReview, ''default_needs_review''))"

section \<open>Resolving entities\<close>

record pipeline_env = extract_env +
  pe_metric :: "real list \<Rightarrow> real list \<Rightarrow> real"
  pe_f32 :: "real \<Rightarrow> rat"
  pe_adjudication :: "string \<Rightarrow> (bool \<times> rat) option"
  pe_verdict :: "string \<Rightarrow> (string \<times> string option \<times> string option) option"
  pe_resolver :: "uuid \<Rightarrow> string \<Rightarrow> string option"
  pe_judge :: "uuid \<Rightarrow> nat \<Rightarrow> string \<Rightarrow> (string \<times> string) option"
  pe_parse_f32 :: "string \<Rightarrow> rat option"
  pe_show3 :: "rat \<Rightarrow> string"

definition AUTO_LINK_SIMILARITY :: rat where "AUTO_LINK_SIMILARITY = 95 / 100"
definition ADJUDICATION_FLOOR :: rat where "ADJUDICATION_FLOOR = 55 / 100"
definition ADJUDICATION_AUTO_CONFIDENCE :: rat where "ADJUDICATION_AUTO_CONFIDENCE = 85 / 100"

datatype resolve_outcome =
  RO_Linked uuid string
| RO_NeedsReview "uuid option"
| RO_NewCanonical uuid

definition record_aliases :: "session \<Rightarrow> uuid \<Rightarrow> string \<Rightarrow> string list \<Rightarrow> graph_db \<Rightarrow> graph_db" where
  "record_aliases ses c name aliases g = accumulate_canonical_aliases ses c (name # aliases) g"

definition surface_forms :: "string \<Rightarrow> string list \<Rightarrow> string list" where
  "surface_forms name aliases = filter (\<lambda>s. s \<noteq> []) (map (lowercase \<circ> trim) (name # aliases))"

fun backfill :: "(string \<Rightarrow> real list option) \<Rightarrow> nat \<Rightarrow> (uuid \<times> string) list \<Rightarrow> graph_db \<Rightarrow> graph_db option" where
  "backfill emb v [] g = Some g"
| "backfill emb v ((c, name) # cs) g =
    (case emb name of None \<Rightarrow> None | Some e \<Rightarrow> backfill emb v cs (upsert_canonical_embedding c v e g))"

definition link_known :: "session \<Rightarrow> uuid \<Rightarrow> uuid \<Rightarrow> rat \<Rightarrow> string \<Rightarrow> string \<Rightarrow> string list \<Rightarrow> graph_db \<Rightarrow> resolve_outcome \<times> graph_db" where
  "link_known ses e c conf meth name aliases g =
    (RO_Linked c meth, record_aliases ses c name aliases (link e c conf meth None g))"

definition bootstrap ::
  "instant \<Rightarrow> session \<Rightarrow> nat \<Rightarrow> uuid \<Rightarrow> uuid \<Rightarrow> uuid \<Rightarrow> string \<Rightarrow> string \<Rightarrow> string list \<Rightarrow> real list \<Rightarrow> graph_db
    \<Rightarrow> resolve_outcome \<times> graph_db" where
  "bootstrap now ses v org c e name kind aliases q g =
    (RO_NewCanonical c,
     link e c 1 ''embedding_block'' None (record_aliases ses c name aliases
       (upsert_canonical_embedding c v q (insert_canonical now c org name kind g))))"

text \<open>\<open>c\<close> is the fresh id a bootstrapped canonical gets.\<close>

definition resolve_entity ::
  "pipeline_env \<Rightarrow> instant \<Rightarrow> session \<Rightarrow> uuid \<Rightarrow> uuid \<Rightarrow> uuid \<Rightarrow> string \<Rightarrow> string \<Rightarrow> string list \<Rightarrow> graph_db
    \<Rightarrow> (resolve_outcome \<times> graph_db) option" where
  "resolve_entity env now ses org c e name kind aliases g =
    (case find_canonical_by_name_or_alias ses org kind (surface_forms name aliases) g of
       Some (k, _) \<Rightarrow> Some (link_known ses e k 1 ''alias_lexical'' name aliases g)
     | None \<Rightarrow>
         (case xe_embed env name of None \<Rightarrow> None
          | Some q \<Rightarrow>
              (case backfill (xe_embed env) (xe_version env) (canonicals_missing_embedding ses org (xe_version env) g) g of
                 None \<Rightarrow> None
               | Some g1 \<Rightarrow>
                   (case nearest_canonical (pe_metric env) ses org (xe_version env) q 1 g1 of
                      [] \<Rightarrow> Some (bootstrap now ses (xe_version env) org c e name kind aliases q g1)
                    | (k, kname, _, s) # _ \<Rightarrow>
                        (let sim = pe_f32 env s in
                         if sim \<ge> AUTO_LINK_SIMILARITY then Some (link_known ses e k sim ''embedding_block'' name aliases g1)
                         else if sim \<ge> ADJUDICATION_FLOOR then
                           (case pe_resolver env e (''Name A: '' @ name @ [newline] @ ''Name B: '' @ kname) of
                              None \<Rightarrow> None
                            | Some answer \<Rightarrow>
                                (case Option.bind (extract_json_object answer) (pe_adjudication env) of
                                   None \<Rightarrow> None
                                 | Some (same, conf) \<Rightarrow>
                                     (if same \<and> conf \<ge> ADJUDICATION_AUTO_CONFIDENCE
                                      then Some (link_known ses e k conf ''llm_adjudicated'' name aliases g1)
                                      else Some (RO_NeedsReview (Some k), g1))))
                         else Some (bootstrap now ses (xe_version env) org c e name kind aliases q g1))))))"

section \<open>Looking for contradictions\<close>

definition NEIGHBORS :: nat where "NEIGHBORS = 6"
definition DEFAULT_ANCHORLESS_MIN_SIMILARITY :: rat where "DEFAULT_ANCHORLESS_MIN_SIMILARITY = 30 / 100"
definition ANCHORLESS_BUDGET :: nat where "ANCHORLESS_BUDGET = 2"
definition F32_MIN :: rat where "F32_MIN = - (2 ^ 128 - 2 ^ 104)"

text \<open>\<open>pe_parse_f32\<close> answers \<open>None\<close> for a text that is not a finite number.\<close>

definition anchorless_min_similarity :: "pipeline_env \<Rightarrow> rat" where
  "anchorless_min_similarity env =
    (case Option.bind (xe_var env ''BRAINIAC_CONTRADICT_ANCHORLESS_MIN_SIM'') (pe_parse_f32 env \<circ> trim) of
       Some v \<Rightarrow> if v \<ge> -1 then v else DEFAULT_ANCHORLESS_MIN_SIMILARITY
     | None \<Rightarrow> DEFAULT_ANCHORLESS_MIN_SIMILARITY)"

definition admit_anchorless :: "(rat \<times> 'a) list \<Rightarrow> rat \<Rightarrow> nat \<Rightarrow> (rat \<times> 'a) list" where
  "admit_anchorless pool min_similarity budget =
    take budget (sort_by (\<lambda>a b. fst b \<le> fst a) (filter (\<lambda>(sim, _). sim \<ge> min_similarity) pool))"

definition anchorless_marker :: "pipeline_env \<Rightarrow> rat \<Rightarrow> string" where
  "anchorless_marker env sim = '' [reached without a shared entity anchor; cosine '' @ pe_show3 env sim @ '']''"

record contradict_stats =
  ct_compared :: nat
  ct_opened :: nat
  ct_anchorless_compared :: nat

text \<open>The pairs worth a call: the anchored ones as they come, then the bounded anchorless ones.\<close>

definition contradict_queue ::
  "pipeline_env \<Rightarrow> session \<Rightarrow> real list \<Rightarrow> 'a memory_scheme \<Rightarrow> 'b store_scheme \<Rightarrow> (rat option \<times> mem_row) list" where
  "contradict_queue env ses query m db =
    (let near = search_vector (pe_metric env) ses (xe_version env) query NEIGHBORS retrieval_filters_default (s_embeddings db) (s_corpus db);
         anchor_ids = anchors_of_memories [m_id m] (s_graph db);
         ids = filter (\<lambda>i. i \<noteq> m_id m) (map fst near);
         candidates = get_by_ids ses ids (s_corpus db);
         shares = (\<lambda>x. list_ex (\<lambda>a. a \<in> set anchor_ids) (anchors_of_memories [m_id x] (s_graph db)));
         sim = (\<lambda>x. case map_of (rev near) (m_id x) of Some s \<Rightarrow> pe_f32 env s | None \<Rightarrow> F32_MIN)
     in map (\<lambda>x. (None, x)) (filter shares candidates)
        @ map (\<lambda>(s, x). (Some s, x))
            (admit_anchorless (map (\<lambda>x. (sim x, x)) (filter (\<lambda>x. \<not> shares x) candidates))
              (anchorless_min_similarity env) ANCHORLESS_BUDGET))"

definition suggestion :: "pipeline_env \<Rightarrow> string option \<Rightarrow> string option \<Rightarrow> rat option \<Rightarrow> string" where
  "suggestion env winner reason sim =
    ''suggested: supersede ('' @ (if winner = Some ''a'' then ''a_over_b'' else ''b_over_a'') @ '') '' @ em_dash @ '' '' @
    (case reason of None \<Rightarrow> [] | Some t \<Rightarrow> t) @ (case sim of None \<Rightarrow> [] | Some s \<Rightarrow> anchorless_marker env s)"

text \<open>The loop; \<open>new_id\<close> gives the id of the dispute opened at a comparison.\<close>

fun compare_all ::
  "pipeline_env \<Rightarrow> uuid \<Rightarrow> 'a memory_scheme \<Rightarrow> (nat \<Rightarrow> uuid) \<Rightarrow> (rat option \<times> mem_row) list \<Rightarrow> contradict_stats \<times> corpus
    \<Rightarrow> (contradict_stats \<times> corpus) option" where
  "compare_all env org m new_id [] acc = Some acc"
| "compare_all env org m new_id ((sim, x) # rest) acc =
    (case acc of (st, db) \<Rightarrow>
      (let st1 = st\<lparr> ct_compared := ct_compared st + 1,
                     ct_anchorless_compared := ct_anchorless_compared st + (if sim \<noteq> None then 1 else 0) \<rparr>
       in case pe_judge env (m_id m) (ct_compared st) (''A: '' @ m_content x @ [newline] @ ''B: '' @ m_content m) of
            None \<Rightarrow> None
          | Some (answer, ref) \<Rightarrow>
              (case Option.bind (extract_json_object answer) (pe_verdict env) of
                 None \<Rightarrow> compare_all env org m new_id rest (st1, db)
               | Some (relation, winner, reason) \<Rightarrow>
                   (if relation = ''supersede'' then
                      compare_all env org m new_id rest
                        (st1\<lparr> ct_opened := ct_opened st1 + 1 \<rparr>,
                         insert_contradiction (new_id (ct_compared st)) org (m_id x) (m_id m) ref (suggestion env winner reason sim) db)
                    else compare_all env org m new_id rest (st1, db)))))"

definition run_contradict ::
  "pipeline_env \<Rightarrow> session \<Rightarrow> uuid \<Rightarrow> 'a memory_scheme \<Rightarrow> (nat \<Rightarrow> uuid) \<Rightarrow> 'b store_scheme \<Rightarrow> (contradict_stats \<times> corpus) option" where
  "run_contradict env ses org m new_id db =
    (case xe_embed env (m_content m) of
       None \<Rightarrow> None
     | Some query \<Rightarrow>
         compare_all env org m new_id (contradict_queue env ses query m db)
           (\<lparr> ct_compared = 0, ct_opened = 0, ct_anchorless_compared = 0 \<rparr>, s_corpus db))"


section \<open>The policy\<close>

text \<open>What a memory must be for the policy to promote it without a reviewer.\<close>

definition earned :: "'a memory_scheme \<Rightarrow> bool" where
  "earned m \<longleftrightarrow>
    m_status m = MS_Raw \<and>
    ((m_kind m = MK_Pitfall \<and> m_visibility m = Vis_Team \<and> (\<exists>c. m_confidence m = Some c \<and> 9 / 10 \<le> c)) \<or>
     (m_kind m = MK_Decision \<and> (\<exists>c. m_confidence m = Some c \<and> 95 / 100 \<le> c)))"

lemma auto_approved_iff:
  "fst (evaluate m to ctx) = PD_AutoApproved \<longleftrightarrow> to = MS_Candidate \<and> open_contradictions ctx = 0 \<and> earned m"
  by (auto simp: evaluate_def earned_def Let_def split: option.splits)

section \<open>A false merge\<close>

lemma link_set:
  "set (entity_links (link e c conf meth who g)) \<subseteq>
    {l. (l \<in> set (entity_links g) \<and> link_key l \<noteq> (e, c)) \<or> (link_key l = (e, c) \<and> li_confidence l = conf \<and> li_method l = meth)}"
  by (auto simp: link_def set_update_where link_key_def image_iff)

lemma link_frame [simp]:
  "entities (link e c conf meth who g) = entities g" "canonicals (link e c conf meth who g) = canonicals g"
  "canonical_embeddings (link e c conf meth who g) = canonical_embeddings g"
  by (simp_all add: link_def)

lemma record_aliases_links [simp]: "entity_links (record_aliases ses c name aliases g) = entity_links g"
  by (simp add: record_aliases_def accumulate_canonical_aliases_def)

lemma backfill_frame:
  "backfill emb v cs g = Some g' \<Longrightarrow>
    entities g' = entities g \<and> canonicals g' = canonicals g \<and> entity_links g' = entity_links g"
  by (induction cs arbitrary: g) (auto simp: upsert_canonical_embedding_def split: option.splits)

text \<open>Why an entity may be attached to a canonical that was there before.\<close>

definition vouched ::
  "pipeline_env \<Rightarrow> session \<Rightarrow> uuid \<Rightarrow> string \<Rightarrow> string \<Rightarrow> string list \<Rightarrow> graph_db \<Rightarrow> uuid \<Rightarrow> rat \<Rightarrow> string \<Rightarrow> bool" where
  "vouched env ses org name kind aliases g c conf meth \<longleftrightarrow>
    (meth = ''alias_lexical'' \<and> conf = 1 \<and>
      (\<exists>r\<in>set (canonicals g). ce_id r = c \<and> ce_org_id r = org \<and> sees_canonical ses r \<and> lowercase (ce_kind r) = lowercase kind \<and>
        (\<exists>s\<in>set (ce_name r # ce_aliases r). lowercase s \<in> set (surface_forms name aliases)))) \<or>
    (meth = ''embedding_block'' \<and> AUTO_LINK_SIMILARITY \<le> conf \<and> (\<exists>s. conf = pe_f32 env s)) \<or>
    (meth = ''llm_adjudicated'' \<and> ADJUDICATION_AUTO_CONFIDENCE \<le> conf)"

lemma find_holds: "find P xs = Some x \<Longrightarrow> x \<in> set xs \<and> P x"
  by (auto simp: find_Some_iff)

lemma lexical_hit_vouches:
  assumes "find_canonical_by_name_or_alias ses org kind (surface_forms name aliases) g = Some (c, k)"
  shows "vouched env ses org name kind aliases g c 1 ''alias_lexical''"
proof -
  obtain r where "ce_id r = c"
    and "find (\<lambda>c. sees_canonical ses c \<and> ce_org_id c = org \<and> lowercase (ce_kind c) = lowercase kind \<and>
          (lowercase (ce_name c) \<in> set (surface_forms name aliases) \<or>
           list_ex (\<lambda>al. lowercase al \<in> set (surface_forms name aliases)) (ce_aliases c))) (canonicals g) = Some r"
    using assms by (auto simp: find_canonical_by_name_or_alias_def split: if_splits)
  with find_holds [OF this(2)] have r: "r \<in> set (canonicals g)" "ce_id r = c" "sees_canonical ses r" "ce_org_id r = org"
      "lowercase (ce_kind r) = lowercase kind"
      "lowercase (ce_name r) \<in> set (surface_forms name aliases) \<or> list_ex (\<lambda>al. lowercase al \<in> set (surface_forms name aliases)) (ce_aliases r)"
    by blast+
  then have "\<exists>s\<in>set (ce_name r # ce_aliases r). lowercase s \<in> set (surface_forms name aliases)"
    by (auto simp: list_ex_iff)
  then show ?thesis using r unfolding vouched_def by blast
qed

text \<open>The four ways a resolution ends.\<close>

lemma resolve_entity_cases:
  assumes "resolve_entity env now ses org c e name kind aliases g = Some (out, g')"
  obtains (linked) k conf meth g1 where "out = RO_Linked k meth" "(out, g') = link_known ses e k conf meth name aliases g1"
      "entity_links g1 = entity_links g" "canonicals g1 = canonicals g" "vouched env ses org name kind aliases g k conf meth"
  | (review) k where "out = RO_NeedsReview (Some k)" "entity_links g' = entity_links g" "canonicals g' = canonicals g"
  | (fresh) q g1 where "(out, g') = bootstrap now ses (xe_version env) org c e name kind aliases q g1"
      "entity_links g1 = entity_links g" "canonicals g1 = canonicals g"
proof (cases "find_canonical_by_name_or_alias ses org kind (surface_forms name aliases) g")
  case (Some p)
  then show ?thesis
    using assms linked [of _ _ 1 g] lexical_hit_vouches by (cases p) (auto simp: resolve_entity_def link_known_def)
next
  case None
  obtain q g1 where q: "xe_embed env name = Some q"
    and g1: "backfill (xe_embed env) (xe_version env) (canonicals_missing_embedding ses org (xe_version env) g) g = Some g1"
    using assms None by (auto simp: resolve_entity_def split: option.splits)
  note same = backfill_frame [OF g1]
  show ?thesis
  proof (cases "nearest_canonical (pe_metric env) ses org (xe_version env) q 1 g1")
    case Nil
    then have "(out, g') = bootstrap now ses (xe_version env) org c e name kind aliases q g1"
      using assms None q g1 by (simp add: resolve_entity_def)
    then show ?thesis using fresh same by blast
  next
    case (Cons hit rest)
    obtain k kname kk s where hit: "hit = (k, kname, kk, s)" by (metis surj_pair)
    define sim where "sim = pe_f32 env s"
    have out: "(if sim \<ge> AUTO_LINK_SIMILARITY then Some (link_known ses e k sim ''embedding_block'' name aliases g1)
         else if sim \<ge> ADJUDICATION_FLOOR then
           (case pe_resolver env e (''Name A: '' @ name @ [newline] @ ''Name B: '' @ kname) of
              None \<Rightarrow> None
            | Some answer \<Rightarrow>
                (case Option.bind (extract_json_object answer) (pe_adjudication env) of
                   None \<Rightarrow> None
                 | Some (same, conf) \<Rightarrow>
                     (if same \<and> conf \<ge> ADJUDICATION_AUTO_CONFIDENCE
                      then Some (link_known ses e k conf ''llm_adjudicated'' name aliases g1)
                      else Some (RO_NeedsReview (Some k), g1))))
         else Some (bootstrap now ses (xe_version env) org c e name kind aliases q g1)) = Some (out, g')"
      using assms unfolding resolve_entity_def None option.case q g1 Cons list.case hit prod.case Let_def sim_def .
    consider (auto) "sim \<ge> AUTO_LINK_SIMILARITY" | (ask) "\<not> sim \<ge> AUTO_LINK_SIMILARITY" "sim \<ge> ADJUDICATION_FLOOR"
      | (far) "\<not> sim \<ge> AUTO_LINK_SIMILARITY" "\<not> sim \<ge> ADJUDICATION_FLOOR" by blast
    then show ?thesis
    proof cases
      case auto
      then have "(out, g') = link_known ses e k sim ''embedding_block'' name aliases g1" using out by simp
      moreover have "vouched env ses org name kind aliases g k sim ''embedding_block''"
        using auto unfolding vouched_def sim_def by blast
      ultimately show ?thesis using linked [of k "''embedding_block''" sim g1] same by (simp add: link_known_def)
    next
      case far
      then have "(out, g') = bootstrap now ses (xe_version env) org c e name kind aliases q g1" using out by simp
      then show ?thesis using fresh same by blast
    next
      case ask
      then obtain answer verdict conf where v: "Option.bind (extract_json_object answer) (pe_adjudication env) = Some (verdict, conf)"
          "(if verdict \<and> conf \<ge> ADJUDICATION_AUTO_CONFIDENCE then Some (link_known ses e k conf ''llm_adjudicated'' name aliases g1)
            else Some (RO_NeedsReview (Some k), g1)) = Some (out, g')"
        using out by (auto split: option.splits)
      show ?thesis
      proof (cases "verdict \<and> conf \<ge> ADJUDICATION_AUTO_CONFIDENCE")
        case True
        then have "(out, g') = link_known ses e k conf ''llm_adjudicated'' name aliases g1" using v(2) by simp
        moreover have "vouched env ses org name kind aliases g k conf ''llm_adjudicated''" using True unfolding vouched_def by blast
        ultimately show ?thesis using linked [of k "''llm_adjudicated''" conf g1] same by (simp add: link_known_def)
      next
        case False
        then have "(RO_NeedsReview (Some k), g1) = (out, g')" using v(2) by (simp only: if_False option.inject)
        then show ?thesis using review [of k] same by auto
      qed
    qed
  qed
qed

lemma link_keeps: "l \<in> set (entity_links g) \<Longrightarrow> li_entity_id l \<noteq> e \<Longrightarrow> l \<in> set (entity_links (link e c conf meth who g))"
  by (auto simp: link_def set_update_where link_key_def image_iff)


section \<open>Detection stays advisory\<close>

text \<open>A dispute the stage opens about \<open>m\<close>.\<close>

definition opened_for :: "uuid \<Rightarrow> 'a memory_scheme \<Rightarrow> uuid set \<Rightarrow> contradiction_row \<Rightarrow> bool" where
  "opened_for org m others r \<longleftrightarrow>
    c_org_id r = org \<and> c_status r = ''open'' \<and> c_memory_a r \<in> others \<and> c_memory_b r = m_id m \<and>
    c_resolved_by r = None \<and> c_resolved_at r = None"

definition opens :: "uuid \<Rightarrow> 'a memory_scheme \<Rightarrow> uuid set \<Rightarrow> contradiction_row list \<Rightarrow> corpus \<Rightarrow> corpus \<Rightarrow> bool" where
  "opens org m others rows db db' \<longleftrightarrow>
    db' = db\<lparr> contradictions := contradictions db @ rows \<rparr> \<and> (\<forall>r\<in>set rows. opened_for org m others r)"

lemma opens_trans: "opens org m A xs db db1 \<Longrightarrow> opens org m A ys db1 db2 \<Longrightarrow> opens org m A (xs @ ys) db db2"
  by (auto simp: opens_def)

lemma compare_all_spec:
  "compare_all env org m new_id q (st, db) = Some (st', db') \<Longrightarrow>
    ct_compared st' = ct_compared st + length q \<and>
    ct_anchorless_compared st' = ct_anchorless_compared st + length (filter (\<lambda>(s, _). s \<noteq> None) q) \<and>
    (\<exists>rows. opens org m (m_id ` snd ` set q) rows db db' \<and> ct_opened st' = ct_opened st + length rows \<and> length rows \<le> length q)"
proof (induction q arbitrary: st db)
  case Nil
  then show ?case by (auto simp: opens_def)
next
  case (Cons p q)
  obtain sim x where p: "p = (sim, x)" by (cases p)
  define st1 where "st1 = st\<lparr> ct_compared := ct_compared st + 1,
      ct_anchorless_compared := ct_anchorless_compared st + (if sim \<noteq> None then 1 else 0) \<rparr>"
  obtain rows0 st2 db2 where step: "compare_all env org m new_id q (st2, db2) = Some (st', db')"
      "opens org m {m_id x} rows0 db db2" "length rows0 \<le> 1" "ct_opened st2 = ct_opened st + length rows0"
      "ct_compared st2 = ct_compared st1" "ct_anchorless_compared st2 = ct_anchorless_compared st1"
  proof -
    obtain answer ref where a: "pe_judge env (m_id m) (ct_compared st) (''A: '' @ m_content x @ [newline] @ ''B: '' @ m_content m) = Some (answer, ref)"
      using Cons.prems by (auto simp: p Let_def split: option.splits)
    note v = Cons.prems [unfolded p compare_all.simps prod.case Let_def a option.case, folded st1_def]
    show ?thesis
    proof (cases "\<exists>w r. Option.bind (extract_json_object answer) (pe_verdict env) = Some (''supersede'', w, r)")
      case True
      then obtain w t where "Option.bind (extract_json_object answer) (pe_verdict env) = Some (''supersede'', w, t)" by blast
      then have "compare_all env org m new_id q (st1\<lparr> ct_opened := ct_opened st1 + 1 \<rparr>,
          insert_contradiction (new_id (ct_compared st)) org (m_id x) (m_id m) ref (suggestion env w t sim) db) = Some (st', db')"
        using v by simp
      moreover obtain r where "insert_contradiction (new_id (ct_compared st)) org (m_id x) (m_id m) ref (suggestion env w t sim) db
          = db\<lparr> contradictions := contradictions db @ [r] \<rparr>" "opened_for org m {m_id x} r"
        by (simp add: insert_contradiction_def opened_for_def)
      ultimately show ?thesis
        using that [of "st1\<lparr> ct_opened := ct_opened st1 + 1 \<rparr>" _ "[r]"] by (simp add: opens_def st1_def)
    next
      case False
      then have "compare_all env org m new_id q (st1, db) = Some (st', db')"
        using v by (auto split: option.splits if_splits)
      then show ?thesis by (rule that [of _ _ "[]"]) (simp_all add: opens_def st1_def)
    qed
  qed
  from Cons.IH [OF step(1)] obtain rows where rows: "opens org m (m_id ` snd ` set q) rows db2 db'"
      "ct_opened st' = ct_opened st2 + length rows" "length rows \<le> length q" by blast
  have "opens org m (m_id ` snd ` set (p # q)) (rows0 @ rows) db db'"
    by (rule opens_trans) (use step(2) rows(1) in \<open>auto simp: opens_def opened_for_def p\<close>)
  moreover have "ct_opened st' = ct_opened st + length (rows0 @ rows)" "length (rows0 @ rows) \<le> length (p # q)"
    using step(3,4) rows(2,3) by simp_all
  ultimately show ?case using Cons.IH [OF step(1)] step(5,6) by (auto simp: st1_def p)
qed

lemma get_by_ids_bound:
  assumes "distinct (map m_id (memories db))"
  shows "length (get_by_ids ses ids db) \<le> length ids"
proof (cases "ids = []")
  case False
  have "length (get_by_ids ses ids db) = card (m_id ` set (get_by_ids ses ids db))"
    using assms False by (metis (no_types, lifting) distinct_card distinct_map_filter get_by_ids_def length_map list.set_map)
  also have "\<dots> \<le> card (set ids)" using False by (intro card_mono) (auto simp: get_by_ids_def)
  finally show ?thesis using card_length le_trans by blast
qed (simp add: get_by_ids_def)

lemma admit_anchorless_spec:
  "set (admit_anchorless pool bar n) \<subseteq> {p \<in> set pool. bar \<le> fst p}" "length (admit_anchorless pool bar n) \<le> n"
  "length (admit_anchorless pool bar n) \<le> length pool"
  by (auto simp: admit_anchorless_def min.coboundedI1 dest!: in_set_takeD)

lemma contradict_queue_spec:
  assumes "distinct (map m_id (memories (s_corpus db)))" and "q = contradict_queue env ses query m db"
  shows "length q \<le> NEIGHBORS" "length (filter (\<lambda>(s, _). s \<noteq> None) q) \<le> ANCHORLESS_BUDGET"
    "(s, x) \<in> set q \<Longrightarrow> x \<in> set (memories (s_corpus db)) \<and> sees_memory (s_corpus db) ses x \<and> m_id x \<noteq> m_id m"
    "(Some sim, x) \<in> set q \<Longrightarrow> anchorless_min_similarity env \<le> sim"
proof -
  define near where "near = search_vector (pe_metric env) ses (xe_version env) query NEIGHBORS retrieval_filters_default (s_embeddings db) (s_corpus db)"
  define ids where "ids = filter (\<lambda>i. i \<noteq> m_id m) (map fst near)"
  define cands where "cands = get_by_ids ses ids (s_corpus db)"
  define shares where "shares = (\<lambda>x. list_ex (\<lambda>a. a \<in> set (anchors_of_memories [m_id m] (s_graph db))) (anchors_of_memories [m_id (x :: mem_row)] (s_graph db)))"
  define sim' where "sim' = (\<lambda>x. case map_of (rev near) (m_id (x :: mem_row)) of Some s \<Rightarrow> pe_f32 env s | None \<Rightarrow> F32_MIN)"
  have q: "q = map (\<lambda>x. (None, x)) (filter shares cands)
        @ map (\<lambda>(s, x). (Some s, x)) (admit_anchorless (map (\<lambda>x. (sim' x, x)) (filter (\<lambda>x. \<not> shares x) cands))
              (anchorless_min_similarity env) ANCHORLESS_BUDGET)"
    unfolding assms(2) contradict_queue_def Let_def near_def ids_def cands_def shares_def sim'_def ..
  have "length cands \<le> length ids" unfolding cands_def by (rule get_by_ids_bound [OF assms(1)])
  also have "length ids \<le> NEIGHBORS"
    using search_vector_length le_trans [OF length_filter_le] unfolding ids_def near_def by (metis length_map)
  finally have len: "length cands \<le> NEIGHBORS" .
  have "length (filter shares cands) + length (filter (\<lambda>x. \<not> shares x) cands) = length cands" by (rule sum_length_filter_compl)
  then show "length q \<le> NEIGHBORS"
    using len admit_anchorless_spec(3) [of "map (\<lambda>x. (sim' x, x)) (filter (\<lambda>x. \<not> shares x) cands)" "anchorless_min_similarity env" ANCHORLESS_BUDGET]
    by (simp add: q)
  show "length (filter (\<lambda>(s, _). s \<noteq> None) q) \<le> ANCHORLESS_BUDGET"
    using admit_anchorless_spec(2) by (simp add: q filter_map comp_def case_prod_unfold)
  have c: "x \<in> set (memories (s_corpus db)) \<and> sees_memory (s_corpus db) ses x \<and> m_id x \<noteq> m_id m" if "x \<in> set cands" for x
    using that by (auto simp: cands_def get_by_ids_def ids_def split: if_splits)
  show "x \<in> set (memories (s_corpus db)) \<and> sees_memory (s_corpus db) ses x \<and> m_id x \<noteq> m_id m" if "(s, x) \<in> set q"
    using that subsetD [OF admit_anchorless_spec(1)] c by (fastforce simp: q)
  show "anchorless_min_similarity env \<le> sim" if "(Some sim, x) \<in> set q"
    using that subsetD [OF admit_anchorless_spec(1)] by (fastforce simp: q)
qed

text \<open>C20: The contradiction stage costs at most six comparisons for a memory, at most two of them without a
  shared entity, and it only advises: it appends open disputes between a visible other memory and the new one,
  one for each comparison it counts as opened, and changes nothing else in the corpus, so no memory is ever
  deprecated by a model's verdict.\<close>

theorem contradiction_stage_is_advisory:
  assumes "run_contradict env ses org m new_id db = Some (st, cp)" and "distinct (map m_id (memories (s_corpus db)))"
  shows "ct_compared st \<le> NEIGHBORS \<and> ct_anchorless_compared st \<le> ANCHORLESS_BUDGET \<and> ct_opened st \<le> ct_compared st \<and>
    (\<exists>rows. cp = (s_corpus db)\<lparr> contradictions := contradictions (s_corpus db) @ rows \<rparr> \<and> length rows = ct_opened st \<and>
      (\<forall>r\<in>set rows. opened_for org m
        {m_id x |x. x \<in> set (memories (s_corpus db)) \<and> sees_memory (s_corpus db) ses x \<and> m_id x \<noteq> m_id m} r))"
proof -
  obtain query where c: "compare_all env org m new_id (contradict_queue env ses query m db)
      (\<lparr> ct_compared = 0, ct_opened = 0, ct_anchorless_compared = 0 \<rparr>, s_corpus db) = Some (st, cp)"
    using assms(1) by (auto simp: run_contradict_def split: option.splits)
  define q where "q = contradict_queue env ses query m db"
  note bounds = contradict_queue_spec [OF assms(2) q_def]
  have "m_id ` snd ` set q \<subseteq> {m_id x |x. x \<in> set (memories (s_corpus db)) \<and> sees_memory (s_corpus db) ses x \<and> m_id x \<noteq> m_id m}"
    using bounds(3) by force
  moreover from compare_all_spec [OF c] obtain rows where rows: "opens org m (m_id ` snd ` set q) rows (s_corpus db) cp"
      "ct_opened st = length rows" "length rows \<le> length q" "ct_compared st = length q"
      "ct_anchorless_compared st = length (filter (\<lambda>(s, _). s \<noteq> None) q)"
    by (auto simp: q_def)
  ultimately have "\<forall>r\<in>set rows. opened_for org m
      {m_id x |x. x \<in> set (memories (s_corpus db)) \<and> sees_memory (s_corpus db) ses x \<and> m_id x \<noteq> m_id m} r"
    unfolding opens_def opened_for_def by blast
  then show ?thesis using rows bounds(1,2) unfolding opens_def by (intro conjI exI [of _ rows]) simp_all
qed

section \<open>A concrete pipeline\<close>

text \<open>Every embedding is the same vector at distance 0, which reads as similarity 1; every answer says ``supersede''.\<close>

definition example_pipeline_env :: pipeline_env where
  "example_pipeline_env = extract_env.extend example_env
    (pipeline_env.fields (\<lambda>_ _. 0) (\<lambda>_. 1) (\<lambda>_. None) (\<lambda>_. Some (''supersede'', None, None)) (\<lambda>_ _. None)
      (\<lambda>_ _ _. Some (''{}'', ''model'')) (\<lambda>_. None) (\<lambda>_. ''1.000''))"

definition mercury_service :: graph_db where
  "mercury_service =
    \<lparr> entities = [\<lparr> en_id = 3, en_org_id = 1, en_team_id = None, en_name = ''Mercury'', en_kind = ''person'', en_aliases = [], en_provenance_id = None \<rparr>],
       canonicals = [\<lparr> ce_id = 5, ce_org_id = 1, ce_name = ''Mercury'', ce_kind = ''service'', ce_aliases = [], ce_created_at = 0 \<rparr>],
       entity_links = [], edges_tab = [], memory_entities = [], canonical_embeddings = [] \<rparr>"

definition mercury_session :: session where
  "mercury_session = \<lparr> s_principal = \<lparr> p_org_id = 1, p_user_id = 9, p_team_ids = [], p_project_id = None \<rparr>, s_worker = True \<rparr>"

lemma mercury_lexical:
  "find_canonical_by_name_or_alias mercury_session 1 ''person'' fs mercury_service = None"
  by (simp add: find_canonical_by_name_or_alias_def mercury_service_def lowercase_def)

lemma mercury_resolves:
  "\<exists>g. resolve_entity example_pipeline_env 0 mercury_session 1 6 3 ''Mercury'' ''person'' [] mercury_service
    = Some (RO_Linked 5 ''embedding_block'', g) \<and>
    entity_links g = [\<lparr> li_entity_id = 3, li_canonical_id = 5, li_confidence = 1, li_method = ''embedding_block'', li_confirmed_by = None \<rparr>]"
  unfolding resolve_entity_def mercury_lexical option.case
  by (simp add: example_pipeline_env_def example_env_def extract_env.extend_def pipeline_env.fields_def
      canonicals_missing_embedding_def mercury_service_def mercury_session_def sees_canonical_def in_org_def
      upsert_canonical_embedding_def nearest_canonical_def lacks_embedding_def AUTO_LINK_SIMILARITY_def link_known_def sort_by_def
      link_def)



text \<open>Two signed rules about retries, near to each other and without a common entity.\<close>

definition example_disputed :: pipeline_db where
  "example_disputed = example_pipeline\<lparr> s_embeddings := \<lparr> versions = [], embeddings =
      [\<lparr> eb_memory_id = 1, eb_version_id = 1, eb_embedding = [1] \<rparr>, \<lparr> eb_memory_id = 2, eb_version_id = 1, eb_embedding = [1] \<rparr>],
    next_version = 2 \<rparr> \<rparr>"

lemma disputed_corpus:
  "s_corpus example_disputed = example_corpus\<lparr> memories :=
    [example_row 1 Vis_Org MS_Canonical, example_row 2 Vis_Team MS_Canonical, (example_row 3 Vis_Org MS_Candidate)\<lparr> m_content := ''other'' \<rparr>,
     example_row 4 Vis_Org MS_Candidate] \<rparr>"
  "s_graph example_disputed = \<lparr> entities = [], canonicals = [], entity_links = [], edges_tab = [], memory_entities = [], canonical_embeddings = [] \<rparr>"
  by (simp_all add: example_disputed_def example_pipeline_def store.extend_def pipeline_db.fields_def example_store_def
      example_corpus_def example_row_def)

lemma disputed_near:
  "search_vector (\<lambda>_ _. 0) mercury_session 1 [1] NEIGHBORS retrieval_filters_default (s_embeddings example_disputed) (s_corpus example_disputed)
    = [(1, 1), (2, 1)]"
  unfolding search_vector_def disputed_corpus
  by (simp add: example_disputed_def example_row_def sees_memory_def memories_read_def project_isolation_def mercury_session_def example_corpus_def
      where_filters_def filter_kinds_def allowed_statuses_def retrieval_filters_default_def sort_candidates_def sort_by_def
      candidate_le_def NEIGHBORS_def)

lemma disputed_run:
  "map_option (ct_opened \<circ> fst) (run_contradict example_pipeline_env mercury_session 1 (example_row 2 Vis_Team MS_Canonical) (\<lambda>i. 90 + i)
    example_disputed) = Some 1"
proof -
  have "extract_json_object ''{}'' = Some ''{}''" by code_simp
  moreover have "anchorless_min_similarity example_pipeline_env \<le> 1"
    by (simp add: anchorless_min_similarity_def example_pipeline_env_def example_env_def extract_env.extend_def pipeline_env.fields_def
        DEFAULT_ANCHORLESS_MIN_SIMILARITY_def)
  moreover have env: "xe_embed example_pipeline_env = (\<lambda>_. Some [1])" "xe_version example_pipeline_env = 1"
    "pe_metric example_pipeline_env = (\<lambda>_ _. 0)" "pe_f32 example_pipeline_env = (\<lambda>_. 1)"
    "pe_judge example_pipeline_env = (\<lambda>_ _ _. Some (''{}'', ''model''))" "pe_verdict example_pipeline_env = (\<lambda>_. Some (''supersede'', None, None))"
    by (simp_all add: example_pipeline_env_def example_env_def extract_env.extend_def pipeline_env.fields_def)
  ultimately show ?thesis
    unfolding run_contradict_def env option.case contradict_queue_def disputed_near Let_def
    by (simp add: disputed_corpus get_by_ids_def anchors_of_memories_def example_row_def sees_memory_def memories_read_def project_isolation_def
        mercury_session_def example_corpus_def admit_anchorless_def sort_by_def ANCHORLESS_BUDGET_def env Let_def)
qed

lemma contradiction_stage_is_advisory_witness:
  "ct_compared (fst (the (run_contradict example_pipeline_env mercury_session 1 (example_row 2 Vis_Team MS_Canonical) (\<lambda>i. 90 + i)
     example_disputed))) \<in> {1..6}"
proof -
  obtain st cp where r: "run_contradict example_pipeline_env mercury_session 1 (example_row 2 Vis_Team MS_Canonical) (\<lambda>i. 90 + i)
      example_disputed = Some (st, cp)" "ct_opened st = 1" using disputed_run by auto
  have "distinct (map m_id (memories (s_corpus example_disputed)))" by (simp add: disputed_corpus example_row_def)
  from contradiction_stage_is_advisory [OF r(1) this] show ?thesis using r by (simp add: NEIGHBORS_def)
qed

end
