(* ===== verification/Worker.thy ===== *)
theory Worker
  imports Pipeline
begin

text \<open>
  \<open>brainiac-pipeline/src/worker.rs\<close>: one job end to end, its acknowledgement, and the tick that drains a
  claimed batch.  A job's transaction either commits as a whole or leaves the store as it was, so
  \<open>process_job\<close> answers the new store or \<open>None\<close>, with the statistics gathered until then; jobs run one
  after another in the order they finish (an argument of \<open>tick\<close>), their transactions being independent.
  What differs from job to job (model answers, clocks, fresh ids, error text, whether the audit row could be
  written) is a record \<open>job_run\<close>.  Failures of the queue's own statements, which abort a tick, are left out.
\<close>

section \<open>Configuration\<close>

definition INGEST_QUEUE :: string where "INGEST_QUEUE = ''ingest''"
definition DEFAULT_CONCURRENCY :: nat where "DEFAULT_CONCURRENCY = 4"
definition DEFAULT_BATCH :: int where "DEFAULT_BATCH = 8"
definition DEFAULT_VISIBILITY_SECS :: int where "DEFAULT_VISIBILITY_SECS = 300"
definition DEFAULT_BACKOFF_BASE_SECS :: int where "DEFAULT_BACKOFF_BASE_SECS = 30"

record worker_config =
  wc_concurrency :: nat
  wc_batch :: int
  wc_visibility_secs :: int
  wc_backoff_base_secs :: int

definition worker_config_default :: worker_config where
  "worker_config_default =
    \<lparr> wc_concurrency = DEFAULT_CONCURRENCY, wc_batch = DEFAULT_BATCH, wc_visibility_secs = DEFAULT_VISIBILITY_SECS,
       wc_backoff_base_secs = DEFAULT_BACKOFF_BASE_SECS \<rparr>"

definition env_parse :: "(string \<Rightarrow> 'a option) \<Rightarrow> (string \<Rightarrow> string option) \<Rightarrow> string \<Rightarrow> 'a \<Rightarrow> 'a" where
  "env_parse parse var key dflt =
    (case Option.bind (var key) (parse \<circ> trim) of Some v \<Rightarrow> v | None \<Rightarrow> dflt)"

definition config_from_env :: "(string \<Rightarrow> string option) \<Rightarrow> worker_config" where
  "config_from_env var =
    (let d = worker_config_default in
     \<lparr> wc_concurrency = max (env_parse parse_u64 var ''BRAINIAC_WORKER_CONCURRENCY'' (wc_concurrency d)) 1,
        wc_batch = max (env_parse parse_i64 var ''BRAINIAC_WORKER_BATCH'' (wc_batch d)) 1,
        wc_visibility_secs = env_parse parse_i64 var ''BRAINIAC_WORKER_VISIBILITY_SECS'' (wc_visibility_secs d),
        wc_backoff_base_secs = env_parse parse_i64 var ''BRAINIAC_WORKER_BACKOFF_BASE_SECS'' (wc_backoff_base_secs d) \<rparr>)"

section \<open>State and statistics\<close>

record run_stats =
  rs_memories :: nat
  rs_auto_promoted :: nat
  rs_needs_review :: nat
  rs_contradictions_opened :: nat
  rs_entities_created :: nat
  rs_entities_resolved :: nat
  rs_chunks :: nat
  rs_llm_calls :: nat
  rs_parse_failures :: nat
  rs_repairs :: nat
  rs_deduped :: nat
  rs_model_ref :: "string option"

definition run_stats_default :: run_stats where
  "run_stats_default =
    \<lparr> rs_memories = 0, rs_auto_promoted = 0, rs_needs_review = 0, rs_contradictions_opened = 0, rs_entities_created = 0,
       rs_entities_resolved = 0, rs_chunks = 0, rs_llm_calls = 0, rs_parse_failures = 0, rs_repairs = 0, rs_deduped = 0,
       rs_model_ref = None \<rparr>"

text \<open>A row of \<open>pipeline_runs\<close>; its counts are \<open>int4\<close> columns, filled with \<open>as i32\<close>.\<close>

record pipeline_run =
  ru_id :: uuid
  ru_org_id :: uuid
  ru_status :: string
  ru_detail :: "string option"
  ru_started_at :: instant
  ru_finished_at :: instant
  ru_source_id :: uuid
  ru_model_ref :: "string option"
  ru_memories_written :: int
  ru_entities_created :: int
  ru_entities_resolved :: int
  ru_contradictions_opened :: int
  ru_auto_promoted :: int
  ru_needs_review :: int
  ru_chunks :: int
  ru_llm_calls :: int
  ru_repairs :: int
  ru_parse_failures :: int
  ru_deduped :: int

definition as_i32 :: "nat \<Rightarrow> int" where
  "as_i32 n = sint (word_of_nat n :: 32 word)"

record worker_db =
  w_store :: pipeline_db
  w_queue :: queue_db
  w_runs :: "pipeline_run list"

record job_run =
  jr_env :: pipeline_env
  jr_started :: instant
  jr_finished :: instant
  jr_run_id :: uuid
  jr_fresh :: "nat \<Rightarrow> uuid"
  jr_canonical :: "uuid \<Rightarrow> uuid"
  jr_dispute :: "uuid \<Rightarrow> nat \<Rightarrow> uuid"
  jr_promotion :: "uuid \<Rightarrow> uuid"
  jr_error :: string
  jr_row_written :: bool

definition enqueue_source :: "instant \<Rightarrow> uuid \<Rightarrow> uuid \<Rightarrow> string \<Rightarrow> queue_db \<Rightarrow> nat \<times> queue_db" where
  "enqueue_source now org source body q =
    send now INGEST_QUEUE \<lparr> jp_org_id = Some org, jp_source_id = Some source, jp_body = body \<rparr> q"

definition parse_job_ids :: "job \<Rightarrow> (uuid \<times> uuid) option" where
  "parse_job_ids j =
    (case (jp_org_id (j_payload j), jp_source_id (j_payload j)) of (Some org, Some src) \<Rightarrow> Some (org, src) | _ \<Rightarrow> None)"

definition summarize_error :: "string \<Rightarrow> string" where
  "summarize_error s = (if length s > 500 then take 500 s @ ellipsis else s)"

section \<open>One source\<close>

fun resolve_all ::
  "job_run \<Rightarrow> session \<Rightarrow> uuid \<Rightarrow> uuid list \<Rightarrow> run_stats \<times> graph_db \<Rightarrow> run_stats \<times> graph_db option" where
  "resolve_all jr ses org [] (run, g) = (run, Some g)"
| "resolve_all jr ses org (e # es) (run, g) =
    (case find (\<lambda>r. sees_entity ses r \<and> en_id r = e) (entities g) of
       None \<Rightarrow> (run, None)
     | Some r \<Rightarrow>
         (case resolve_entity (jr_env jr) (jr_started jr) ses org (jr_canonical jr e) e (en_name r) (en_kind r) (en_aliases r) g of
            None \<Rightarrow> (run, None)
          | Some (out, g') \<Rightarrow> resolve_all jr ses org es (run\<lparr> rs_entities_resolved := rs_entities_resolved run + 1 \<rparr>, g')))"

text \<open>The body of the loop over the new memories: disputes, the policy's decision, its audit row, the transition.\<close>

definition promote_one ::
  "job_run \<Rightarrow> session \<Rightarrow> uuid \<Rightarrow> mem_row \<Rightarrow> run_stats \<times> pipeline_db \<Rightarrow> run_stats \<times> pipeline_db option" where
  "promote_one jr ses org m acc =
    (case acc of (run, db) \<Rightarrow>
      (case run_contradict (jr_env jr) ses org m (jr_dispute jr (m_id m)) db of
         None \<Rightarrow> (run, None)
       | Some (c, cp) \<Rightarrow>
           (let run1 = run\<lparr> rs_contradictions_opened := rs_contradictions_opened run + ct_opened c \<rparr>;
                (decision, rl) = evaluate m MS_Candidate \<lparr> open_contradictions = ct_opened c \<rparr>;
                cp1 = insert_promotion (jr_promotion jr (m_id m)) org (m_id m) (m_status m) MS_Candidate decision rl cp
            in if decision = PD_AutoApproved
               then (run1\<lparr> rs_auto_promoted := rs_auto_promoted run1 + 1 \<rparr>,
                     Some (db\<lparr> s_corpus := snd (set_memory_status (jr_started jr) ses (m_id m) MS_Candidate cp1) \<rparr>))
               else (run1\<lparr> rs_needs_review := rs_needs_review run1 + 1 \<rparr>, Some (db\<lparr> s_corpus := cp1 \<rparr>)))))"

fun promote_all ::
  "job_run \<Rightarrow> session \<Rightarrow> uuid \<Rightarrow> mem_row list \<Rightarrow> run_stats \<times> pipeline_db \<Rightarrow> run_stats \<times> pipeline_db option" where
  "promote_all jr ses org [] (run, db) = (run, Some db)"
| "promote_all jr ses org (m # ms) acc =
    (case promote_one jr ses org m acc of
       (run, None) \<Rightarrow> (run, None)
     | (run, Some db) \<Rightarrow> promote_all jr ses org ms (run, db))"

definition count_extracted :: "extract_stats \<Rightarrow> run_stats \<Rightarrow> run_stats" where
  "count_extracted x run =
    run\<lparr> rs_memories := rs_memories run + xs_memories_written x,
         rs_entities_created := rs_entities_created run + length (xs_entities_created x),
         rs_chunks := rs_chunks run + xs_chunks x, rs_llm_calls := rs_llm_calls run + xs_llm_calls x,
         rs_parse_failures := rs_parse_failures run + xs_parse_failures x, rs_repairs := rs_repairs run + xs_repairs x,
         rs_deduped := rs_deduped run + xs_deduped x,
         rs_model_ref := (if rs_model_ref run = None then xs_model_ref x else rs_model_ref run) \<rparr>"

definition job_of :: "job_run \<Rightarrow> session \<Rightarrow> uuid \<Rightarrow> uuid \<Rightarrow> uuid option \<times> string \<times> string \<times> uuid option \<Rightarrow> extract_job" where
  "job_of jr ses org source row =
    (case row of (team, kind, raw, project) \<Rightarrow>
      \<lparr> xj_now = jr_started jr, xj_session = ses, xj_org = org, xj_team = team, xj_source = source, xj_kind = kind,
         xj_text = raw, xj_run = Some (jr_run_id jr), xj_project = project, xj_fresh = jr_fresh jr \<rparr>)"

definition process_job ::
  "job_run \<Rightarrow> worker_users \<Rightarrow> uuid \<Rightarrow> uuid \<Rightarrow> run_stats \<times> pipeline_db \<Rightarrow> run_stats \<times> pipeline_db option" where
  "process_job jr us org source acc =
    (case acc of (run, db) \<Rightarrow>
      (let ses = worker_session us org in
       case get_source_text ses source (s_corpus db) of
         None \<Rightarrow> (run, None)
       | Some row \<Rightarrow>
           (case run_extract (extract_env.truncate (jr_env jr)) (job_of jr ses org source row) db of
              None \<Rightarrow> (run, None)
            | Some st \<Rightarrow>
                (let run1 = count_extracted (xt_stats st) run; db1 = xt_db st in
                 case resolve_all jr ses org (xs_entities_created (xt_stats st)) (run1, s_graph db1) of
                   (run2, None) \<Rightarrow> (run2, None)
                 | (run2, Some g) \<Rightarrow>
                     promote_all jr ses org (get_by_ids ses (xs_memory_ids (xt_stats st)) (s_corpus db1))
                       (run2, db1\<lparr> s_graph := g \<rparr>)))))"

section \<open>The acknowledgement\<close>

definition write_pipeline_run ::
  "job_run \<Rightarrow> uuid \<Rightarrow> uuid \<Rightarrow> string \<Rightarrow> string option \<Rightarrow> run_stats \<Rightarrow> pipeline_run list \<Rightarrow> pipeline_run list" where
  "write_pipeline_run jr org source status detail run rows =
    (if jr_row_written jr
     then rows @
       [\<lparr> ru_id = jr_run_id jr, ru_org_id = org, ru_status = status, ru_detail = detail, ru_started_at = jr_started jr,
          ru_finished_at = jr_finished jr, ru_source_id = source, ru_model_ref = rs_model_ref run,
          ru_memories_written = as_i32 (rs_memories run), ru_entities_created = as_i32 (rs_entities_created run),
          ru_entities_resolved = as_i32 (rs_entities_resolved run),
          ru_contradictions_opened = as_i32 (rs_contradictions_opened run),
          ru_auto_promoted = as_i32 (rs_auto_promoted run), ru_needs_review = as_i32 (rs_needs_review run),
          ru_chunks = as_i32 (rs_chunks run), ru_llm_calls = as_i32 (rs_llm_calls run), ru_repairs = as_i32 (rs_repairs run),
          ru_parse_failures = as_i32 (rs_parse_failures run), ru_deduped = as_i32 (rs_deduped run) \<rparr>]
     else rows)"

definition process_claimed_job ::
  "job_run \<Rightarrow> worker_users \<Rightarrow> worker_config \<Rightarrow> job \<Rightarrow> worker_db \<Rightarrow> run_stats \<times> worker_db" where
  "process_claimed_job jr us cfg j w =
    (case parse_job_ids j of
       Some (org, source) \<Rightarrow>
         (case process_job jr us org source (run_stats_default, w_store w) of
            (run, Some db) \<Rightarrow>
              (run, w\<lparr> w_store := db, w_runs := write_pipeline_run jr org source ''ok'' None run (w_runs w),
                       w_queue := complete (jr_finished jr) j (w_queue w) \<rparr>)
          | (run, None) \<Rightarrow>
              (run, w\<lparr> w_runs := write_pipeline_run jr org source ''failed'' (Some (summarize_error (jr_error jr))) run (w_runs w),
                       w_queue := snd (fail (jr_finished jr) j (wc_backoff_base_secs cfg) (w_queue w)) \<rparr>))
     | None \<Rightarrow>
         (run_stats_default,
          w\<lparr> w_queue := snd (fail (jr_finished jr) j (wc_backoff_base_secs cfg) (w_queue w)) \<rparr>))"

section \<open>The tick\<close>

record tick_stats =
  tk_jobs :: nat
  tk_memories :: nat
  tk_auto_promoted :: nat
  tk_needs_review :: nat
  tk_contradictions_opened :: nat
  tk_chunks :: nat
  tk_parse_failures :: nat
  tk_repairs :: nat
  tk_deduped :: nat

definition tick_stats_default :: tick_stats where
  "tick_stats_default =
    \<lparr> tk_jobs = 0, tk_memories = 0, tk_auto_promoted = 0, tk_needs_review = 0, tk_contradictions_opened = 0, tk_chunks = 0,
       tk_parse_failures = 0, tk_repairs = 0, tk_deduped = 0 \<rparr>"

definition add_run :: "run_stats \<Rightarrow> tick_stats \<Rightarrow> tick_stats" where
  "add_run run s =
    s\<lparr> tk_memories := tk_memories s + rs_memories run, tk_auto_promoted := tk_auto_promoted s + rs_auto_promoted run,
       tk_needs_review := tk_needs_review s + rs_needs_review run,
       tk_contradictions_opened := tk_contradictions_opened s + rs_contradictions_opened run,
       tk_chunks := tk_chunks s + rs_chunks run, tk_parse_failures := tk_parse_failures s + rs_parse_failures run,
       tk_repairs := tk_repairs s + rs_repairs run, tk_deduped := tk_deduped s + rs_deduped run, tk_jobs := tk_jobs s + 1 \<rparr>"

definition run_claimed ::
  "(nat \<Rightarrow> job_run) \<Rightarrow> worker_users \<Rightarrow> worker_config \<Rightarrow> job \<Rightarrow> tick_stats \<times> worker_db \<Rightarrow> tick_stats \<times> worker_db" where
  "run_claimed runs us cfg j acc =
    (case acc of (s, w) \<Rightarrow> (case process_claimed_job (runs (j_id j)) us cfg j w of (run, w') \<Rightarrow> (add_run run s, w')))"

text \<open>\<open>finish\<close> is the order in which the claimed jobs finish.\<close>

definition tick ::
  "(nat \<Rightarrow> job_run) \<Rightarrow> worker_users \<Rightarrow> worker_config \<Rightarrow> instant \<Rightarrow> nat list \<Rightarrow> (job list \<Rightarrow> job list) \<Rightarrow> worker_db
    \<Rightarrow> tick_stats \<times> worker_db" where
  "tick runs us cfg now locked finish w =
    (case read now INGEST_QUEUE (nat (wc_batch cfg)) (wc_visibility_secs cfg) locked (w_queue w) of
       (claimed, q) \<Rightarrow> fold (run_claimed runs us cfg) (finish claimed) (tick_stats_default, w\<lparr> w_queue := q \<rparr>))"

section \<open>Fresh ids\<close>

text \<open>The memories a run has written carry ids drawn in increasing order.\<close>

definition drawn :: "extract_job \<Rightarrow> extract_state \<Rightarrow> bool" where
  "drawn job st \<longleftrightarrow> (\<exists>ks. xs_memory_ids (xt_stats st) = map (xj_fresh job) ks \<and> sorted_wrt (<) ks \<and> (\<forall>i\<in>set ks. i < xt_used st))"

lemma drawn_later:
  "drawn job st \<Longrightarrow> xs_memory_ids (xt_stats st') = xs_memory_ids (xt_stats st) \<Longrightarrow> xt_used st \<le> xt_used st' \<Longrightarrow> drawn job st'"
  unfolding drawn_def by (metis order.strict_trans2)

lemma write_entity_used: "xt_used st \<le> xt_used (snd (write_entity job p k e (names, st)))"
  by (simp add: write_entity_def Let_def split: option.splits)

lemma write_entities_used: "xt_used (snd acc) \<le> xt_used (snd (fold (write_entity job p k) es acc))"
proof (induction es arbitrary: acc)
  case (Cons e es)
  have "xt_used (snd acc) \<le> xt_used (snd (write_entity job p k e acc))"
    using write_entity_used [of "snd acc" job p k e "fst acc"] by (simp only: prod.collapse)
  then show ?case using Cons.IH [of "write_entity job p k e acc"] unfolding fold_simps by (rule le_trans)
qed simp

lemma write_relation_used: "xt_used st \<le> xt_used (write_relation job k names r st)"
  by (simp add: write_relation_def drop_one_def Let_def split: option.splits)

lemma write_relations_used: "xt_used st \<le> xt_used (fold (write_relation job k names) rs st)"
proof (induction rs arbitrary: st)
  case (Cons r rs)
  then show ?case using write_relation_used le_trans unfolding fold_simps by blast
qed simp

lemma store_memory_drawn:
  assumes "store_memory env job p kind content detail m st = Some st'" "drawn job st"
  shows "drawn job st'"
proof -
  define k where "k = xj_fresh job (xt_used st)"
  define n where "n = new_row env job k p kind content detail m"
  define st1 where "st1 = st\<lparr> xt_db := (xt_db st)\<lparr> s_corpus := insert_memory (xj_now job) n (s_corpus (xt_db st)) \<rparr>, xt_used := xt_used st + 1 \<rparr>"
  obtain names st2 where st2: "fold (write_entity job p k) (em_entities m) (Map.empty, st1) = (names, st2)" by (metis surj_pair)
  define st3 where "st3 = fold (write_relation job k names) (em_relations m) st2"
  obtain v where st': "st' = st3\<lparr> xt_db := (xt_db st3)\<lparr> s_embeddings := upsert_embedding k (xe_version env) v (s_embeddings (xt_db st3)) \<rparr>,
      xt_stats := (xt_stats st3)\<lparr> xs_memory_ids := xs_memory_ids (xt_stats st3) @ [k],
        xs_memories_written := xs_memories_written (xt_stats st3) + 1 \<rparr> \<rparr>"
    using assms(1) st2 unfolding store_memory_def Let_def k_def [symmetric] n_def [symmetric] st1_def [symmetric]
    by (auto simp: st3_def split: option.splits)
  have "xt_used st1 \<le> xt_used st2" using write_entities_used [of "(Map.empty, st1)" job p k "em_entities m"] st2 by simp
  then have used: "xt_used st < xt_used st3"
    using write_relations_used [of st2 job k names "em_relations m"] by (simp add: st3_def st1_def)
  have "graph_only st1 st2" using write_entities_frame [of "(Map.empty, st1)" job p k "em_entities m"] st2 by simp
  then have "graph_only st1 st3" using write_relations_frame graph_only_trans unfolding st3_def by blast
  then have ids: "xs_memory_ids (xt_stats st') = xs_memory_ids (xt_stats st) @ [k]" by (simp add: st' graph_only_def st1_def)
  obtain ks where i: "xs_memory_ids (xt_stats st) = map (xj_fresh job) ks" "sorted_wrt (<) ks" "\<forall>i\<in>set ks. i < xt_used st"
    using assms(2) unfolding drawn_def by blast
  have "xs_memory_ids (xt_stats st') = map (xj_fresh job) (ks @ [xt_used st])" by (simp add: ids i(1) k_def)
  moreover have "sorted_wrt (<) (ks @ [xt_used st])" using i(2,3) by (simp add: sorted_wrt_append)
  moreover have "\<forall>j\<in>set (ks @ [xt_used st]). j < xt_used st'" using i(3) used by (auto simp: st')
  ultimately show ?thesis unfolding drawn_def by blast
qed

lemma write_memory_drawn:
  assumes "write_memory env job p m st = Some st'" "drawn job st"
  shows "drawn job st'"
proof (cases "\<exists>kind content detail. store_memory env job p kind content detail m st = Some st'")
  case True
  then show ?thesis using store_memory_drawn assms(2) by blast
next
  case False
  then have "xs_memory_ids (xt_stats st') = xs_memory_ids (xt_stats st) \<and> xt_used st' = xt_used st"
    using assms(1) by (auto simp: write_memory_def drop_one_def split: option.splits if_splits)
  then show ?thesis using drawn_later assms(2) by simp
qed

lemma write_memories_drawn: "write_memories env job p ms st = Some st' \<Longrightarrow> drawn job st \<Longrightarrow> drawn job st'"
  by (induction ms arbitrary: st) (auto simp: bind_eq_Some_conv intro: write_memory_drawn)

lemma model_extract_used: "model_extract env job chunk st = Some (call, st') \<Longrightarrow> xt_used st' = xt_used st"
proof -
  have "xt_used s2 = xt_used s1" if "live_extract env job chunk key s1 = Some (c, s2)" for key s1 s2 c
    using that by (auto simp: live_extract_def count_calls_def Let_def split: prod.splits option.splits if_splits)
  then show "model_extract env job chunk st = Some (call, st') \<Longrightarrow> xt_used st' = xt_used st"
    by (fastforce simp: model_extract_def Let_def split: prod.splits option.splits)
qed

lemma extract_one_drawn:
  assumes "extract_one env job verbatim chunk st = Some st'" "drawn job st"
  shows "drawn job st'"
proof -
  obtain call st1 where c: "(if verbatim then Some (extract_verbatim chunk, st) else model_extract env job chunk st) = Some (call, st1)"
    using assms(1) by (auto simp: extract_one_def split: option.splits)
  obtain p st2 where p: "ensure_provenance job call st1 = (p, st2)" by (metis surj_pair)
  have w: "write_memories env job p (le_memories call) st2 = Some st'"
    using assms(1) c p by (auto simp: extract_one_def)
  have "xs_memory_ids (xt_stats st1) = xs_memory_ids (xt_stats st) \<and> xt_used st1 = xt_used st"
    using c model_extract_frame(3) model_extract_used by (cases verbatim) auto
  moreover have "xs_memory_ids (xt_stats st2) = xs_memory_ids (xt_stats st1) \<and> xt_used st1 \<le> xt_used st2"
    using p by (auto simp: ensure_provenance_def Let_def split: option.splits)
  ultimately have "drawn job st2" using drawn_later [OF assms(2), of st2] by simp
  then show ?thesis by (rule write_memories_drawn [OF w])
qed

lemma extract_all_drawn: "extract_all env job verbatim cs st = Some st' \<Longrightarrow> drawn job st \<Longrightarrow> drawn job st'"
  by (induction cs arbitrary: st) (auto simp: bind_eq_Some_conv intro: extract_one_drawn)

lemma run_extract_drawn: "run_extract env job db = Some st \<Longrightarrow> drawn job st"
  unfolding run_extract_def Let_def by (erule extract_all_drawn) (simp add: drawn_def stats_default_def)

section \<open>Only the earned is promoted\<close>

definition promoted_row :: "instant \<Rightarrow> promotion_row list \<Rightarrow> contradiction_row set \<Rightarrow> uuid set \<Rightarrow> mem_row \<Rightarrow> mem_row \<Rightarrow> bool" where
  "promoted_row now ps disputes S r r' \<longleftrightarrow>
    r' = r \<or>
    (m_id r \<in> S \<and> earned r \<and> r' = r\<lparr> m_status := MS_Candidate, mr_updated_at := now \<rparr> \<and>
     (\<exists>p\<in>set ps. pr_memory_id p = m_id r \<and> pr_policy_decision p = ''auto_approved'' \<and> pr_to_status p = ''candidate'' \<and>
        pr_reviewer_id p = None) \<and>
     (\<forall>c\<in>disputes. c_memory_b c \<noteq> m_id r))"

definition new_disputes :: "corpus \<Rightarrow> corpus \<Rightarrow> contradiction_row set" where
  "new_disputes base cp = set (contradictions cp) - set (contradictions base)"

text \<open>Where the loop stands when it has handled the memories with ids in \<open>S\<close>.\<close>

definition promotion_inv :: "instant \<Rightarrow> corpus \<Rightarrow> uuid set \<Rightarrow> corpus \<Rightarrow> bool" where
  "promotion_inv now base S cp \<longleftrightarrow>
    list_all2 (promoted_row now (promotions cp) (new_disputes base cp) S) (memories base) (memories cp) \<and>
    (\<forall>c\<in>new_disputes base cp. c_memory_b c \<in> S)"

lemma list_all2_update_where:
  assumes "list_all2 P xs ys" "\<And>x y. x \<in> set xs \<Longrightarrow> P x y \<Longrightarrow> Q x (if p y then f y else y)"
  shows "list_all2 Q xs (update_where p f ys)"
  using assms by (induction rule: list_all2_induct) (auto simp: update_where_def)

lemma run_contradict_opens:
  assumes "run_contradict env ses org m new_id db = Some (c, cp)"
  shows "\<exists>others rows. opens org m others rows (s_corpus db) cp \<and> ct_opened c = length rows"
proof -
  obtain query where "compare_all env org m new_id (contradict_queue env ses query m db)
      (\<lparr> ct_compared = 0, ct_opened = 0, ct_anchorless_compared = 0 \<rparr>, s_corpus db) = Some (c, cp)"
    using assms by (auto simp: run_contradict_def split: option.splits)
  from compare_all_spec [OF this] show ?thesis by auto
qed

lemma promote_one_cases:
  assumes "promote_one jr ses org m (run, db) = (run', Some db')"
  obtains c cp cp1 p where "run_contradict (jr_env jr) ses org m (jr_dispute jr (m_id m)) db = Some (c, cp)"
    "cp1 = cp\<lparr> promotions := promotions cp @ [p] \<rparr>" "pr_memory_id p = m_id m" "pr_to_status p = ''candidate''" "pr_reviewer_id p = None"
    "earned m \<Longrightarrow> ct_opened c = 0 \<Longrightarrow> pr_policy_decision p = ''auto_approved'' \<and>
      db' = db\<lparr> s_corpus := snd (set_memory_status (jr_started jr) ses (m_id m) MS_Candidate cp1) \<rparr>"
    "\<not> (earned m \<and> ct_opened c = 0) \<Longrightarrow> db' = db\<lparr> s_corpus := cp1 \<rparr>"
proof -
  obtain c cp where rc: "run_contradict (jr_env jr) ses org m (jr_dispute jr (m_id m)) db = Some (c, cp)"
    using assms by (auto simp: promote_one_def split: option.splits)
  obtain decision rl where ev: "evaluate m MS_Candidate \<lparr> open_contradictions = ct_opened c \<rparr> = (decision, rl)" by (metis surj_pair)
  have auto: "decision = PD_AutoApproved \<longleftrightarrow> earned m \<and> ct_opened c = 0"
    using auto_approved_iff [of m MS_Candidate "\<lparr> open_contradictions = ct_opened c \<rparr>"] ev by auto
  define p where "p = \<lparr> pr_id = jr_promotion jr (m_id m), pr_org_id = org, pr_memory_id = m_id m,
      pr_from_status = memory_status_as_str (m_status m), pr_to_status = memory_status_as_str MS_Candidate,
      pr_policy_decision = policy_decision_as_str decision, pr_policy_rule = rl, pr_reviewer_id = None, pr_reviewed_at = None \<rparr>"
  define cp1 where "cp1 = cp\<lparr> promotions := promotions cp @ [p] \<rparr>"
  have ip: "insert_promotion (jr_promotion jr (m_id m)) org (m_id m) (m_status m) MS_Candidate decision rl cp = cp1"
    by (simp add: insert_promotion_def cp1_def p_def)
  have db': "db' = (if decision = PD_AutoApproved
      then db\<lparr> s_corpus := snd (set_memory_status (jr_started jr) ses (m_id m) MS_Candidate cp1) \<rparr> else db\<lparr> s_corpus := cp1 \<rparr>)"
    using assms unfolding promote_one_def prod.case rc option.case Let_def ev ip by (simp split: if_splits)
  show ?thesis
    by (rule that [OF rc cp1_def]) (use db' auto in \<open>auto simp: p_def\<close>)
qed

lemma promote_one_inv:
  assumes step: "promote_one jr ses org m (run, db) = (run', Some db')"
    and inv: "promotion_inv (jr_started jr) base S (s_corpus db)"
    and d: "distinct (map m_id (memories base))" and m: "m \<in> set (memories base)" "m_id m \<notin> S"
  shows "promotion_inv (jr_started jr) base (insert (m_id m) S) (s_corpus db')"
  using step
proof (cases rule: promote_one_cases)
  case (1 c cp cp1 p)
  let ?now = "jr_started jr" and ?new = "new_disputes base (s_corpus db)"
  obtain others rows where o: "opens org m others rows (s_corpus db) cp" "ct_opened c = length rows"
    using run_contradict_opens [OF 1(1)] by blast
  have same: "memories cp1 = memories (s_corpus db)" "promotions cp1 = promotions (s_corpus db) @ [p]"
    "contradictions cp1 = contradictions (s_corpus db) @ rows"
    using o(1) by (simp_all add: 1(2) opens_def)
  have rows: "c_memory_b r = m_id m" if "r \<in> set rows" for r using o(1) that by (auto simp: opens_def opened_for_def)
  have new: "new_disputes base cp1 \<subseteq> ?new \<union> set rows" "?new \<subseteq> new_disputes base cp1"
    by (auto simp: new_disputes_def same(3))
  have all: "list_all2 (promoted_row ?now (promotions (s_corpus db)) ?new S) (memories base) (memories (s_corpus db))"
    and b: "\<forall>c\<in>?new. c_memory_b c \<in> S" using inv by (simp_all add: promotion_inv_def)
  have grow: "promoted_row ?now (promotions cp1) (new_disputes base cp1) (insert (m_id m) S) r r'"
    if "promoted_row ?now (promotions (s_corpus db)) ?new S r r'" for r r'
  proof -
    have "\<forall>c\<in>new_disputes base cp1. c_memory_b c \<noteq> m_id r" if "\<forall>c\<in>?new. c_memory_b c \<noteq> m_id r" "m_id r \<in> S"
      using that new(1) rows m(2) by fastforce
    then show ?thesis using that unfolding promoted_row_def same(2) by auto
  qed
  have b': "\<forall>c\<in>new_disputes base cp1. c_memory_b c \<in> insert (m_id m) S" using new(1) b rows by auto
  show ?thesis
  proof (cases "earned m \<and> ct_opened c = 0")
    case False
    have "list_all2 (promoted_row ?now (promotions cp1) (new_disputes base cp1) (insert (m_id m) S)) (memories base) (memories cp1)"
      unfolding same(1) by (rule list_all2_mono [OF all grow])
    then show ?thesis using 1(7) [OF False] b' by (simp add: promotion_inv_def)
  next
    case True
    let ?cp2 = "snd (set_memory_status ?now ses (m_id m) MS_Candidate cp1)"
    have frame: "memories ?cp2 = update_where (\<lambda>r. sees_memory cp1 ses r \<and> m_id r = m_id m)
          (\<lambda>r. r\<lparr> m_status := MS_Candidate, mr_updated_at := ?now \<rparr>) (memories cp1)"
      "promotions ?cp2 = promotions cp1" "contradictions ?cp2 = contradictions cp1"
      by (simp_all add: set_memory_status_def update_memory_def Let_def)
    have nd: "new_disputes base ?cp2 = new_disputes base cp1" by (simp add: new_disputes_def frame(3))
    have p: "p \<in> set (promotions cp1)" "pr_policy_decision p = ''auto_approved''" using 1(6) True by (simp_all add: same(2))
    have "rows = []" using True o(2) by simp
    then have none: "\<forall>c\<in>new_disputes base cp1. c_memory_b c \<noteq> m_id m" using new(1) b m(2) by fastforce
    have "list_all2 (promoted_row ?now (promotions cp1) (new_disputes base cp1) (insert (m_id m) S)) (memories base) (memories ?cp2)"
      unfolding frame(1) same(1)
    proof (rule list_all2_update_where [OF all])
      fix r r' assume r: "r \<in> set (memories base)" and pr: "promoted_row ?now (promotions (s_corpus db)) ?new S r r'"
      have ids: "m_id r' = m_id r" using pr by (auto simp: promoted_row_def)
      show "promoted_row ?now (promotions cp1) (new_disputes base cp1) (insert (m_id m) S) r
          (if sees_memory cp1 ses r' \<and> m_id r' = m_id m then r'\<lparr> m_status := MS_Candidate, mr_updated_at := ?now \<rparr> else r')"
      proof (cases "sees_memory cp1 ses r' \<and> m_id r' = m_id m")
        case False
        then show ?thesis using grow [OF pr] by (simp only: if_False)
      next
        case hit: True
        then have "r = m" using d r m(1) ids by (simp add: distinct_map inj_on_def)
        moreover have "r' = r" using pr m(2) \<open>r = m\<close> by (simp add: promoted_row_def)
        ultimately show ?thesis using hit True p none 1(3-5) unfolding promoted_row_def by auto
      qed
    qed
    then show ?thesis using 1(6) True b' by (simp add: promotion_inv_def frame(2) nd)
  qed
qed

lemma promote_all_inv:
  "promote_all jr ses org ms (run, db) = (run', Some db') \<Longrightarrow> promotion_inv (jr_started jr) base S (s_corpus db) \<Longrightarrow>
    distinct (map m_id (memories base)) \<Longrightarrow> set ms \<subseteq> set (memories base) \<Longrightarrow> distinct (map m_id ms) \<Longrightarrow>
    m_id ` set ms \<inter> S = {} \<Longrightarrow> promotion_inv (jr_started jr) base (S \<union> m_id ` set ms) (s_corpus db')"
proof (induction ms arbitrary: run db S)
  case (Cons m ms)
  obtain run1 db1 where one: "promote_one jr ses org m (run, db) = (run1, Some db1)"
      "promote_all jr ses org ms (run1, db1) = (run', Some db')"
    using Cons.prems(1) by (auto split: prod.splits option.splits)
  have "promotion_inv (jr_started jr) base (insert (m_id m) S) (s_corpus db1)"
    by (rule promote_one_inv [OF one(1) Cons.prems(2,3)]) (use Cons.prems(4,6) in auto)
  from Cons.IH [OF one(2) this Cons.prems(3)] Cons.prems(4-6) show ?case by auto
qed simp

text \<open>The ids a job may draw are new to the memory table and never repeat.\<close>

definition fresh_for :: "job_run \<Rightarrow> corpus \<Rightarrow> bool" where
  "fresh_for jr db \<longleftrightarrow> inj (jr_fresh jr) \<and> range (jr_fresh jr) \<inter> m_id ` set (memories db) = {}"

lemma process_job_corpus:
  assumes "process_job jr us org source (run, db) = (run', Some db')" and "fresh_for jr (s_corpus db)"
    and "distinct (map m_id (memories (s_corpus db)))"
  obtains rows rows' where "\<forall>r\<in>set rows. m_status r = MS_Raw" "memories (s_corpus db') = memories (s_corpus db) @ rows'"
    "list_all2 (promoted_row (jr_started jr) (promotions (s_corpus db')) (new_disputes (s_corpus db) (s_corpus db')) (m_id ` set rows)) rows rows'"
    "\<forall>c\<in>new_disputes (s_corpus db) (s_corpus db'). c_memory_b c \<in> m_id ` set rows" "distinct (map m_id (memories (s_corpus db) @ rows))"
proof -
  define ses where "ses = worker_session us org"
  obtain row st where st: "run_extract (extract_env.truncate (jr_env jr)) (job_of jr ses org source row) db = Some st"
    and rest: "(case resolve_all jr ses org (xs_entities_created (xt_stats st)) (count_extracted (xt_stats st) run, s_graph (xt_db st)) of
        (run2, None) \<Rightarrow> (run2, None)
      | (run2, Some g) \<Rightarrow> promote_all jr ses org (get_by_ids ses (xs_memory_ids (xt_stats st)) (s_corpus (xt_db st)))
            (run2, (xt_db st)\<lparr> s_graph := g \<rparr>)) = (run', Some db')"
    using assms(1) unfolding process_job_def prod.case Let_def ses_def by (auto split: option.splits)
  define job where "job = job_of jr ses org source row"
  define mid where "mid = s_corpus (xt_db st)"
  obtain run2 g where promo: "promote_all jr ses org (get_by_ids ses (xs_memory_ids (xt_stats st)) mid)
      (run2, (xt_db st)\<lparr> s_graph := g \<rparr>) = (run', Some db')"
    using rest unfolding mid_def by (auto split: prod.splits option.splits)
  obtain rows p where inv: "run_inv (extract_env.truncate (jr_env jr)) job (s_corpus db) st rows" "xt_prov st = Some p"
    using run_extract_inv [OF st] unfolding job_def by blast
  then obtain ref where w: "mid = written_corpus job (s_corpus db) p ref rows"
    and raw: "\<forall>r\<in>set rows. raw_row (extract_env.truncate (jr_env jr)) job p r" and ids: "xs_memory_ids (xt_stats st) = map m_id rows"
    unfolding run_inv_def mid_def by auto
  have fresh: "xj_fresh job = jr_fresh jr" by (simp add: job_def job_of_def split: prod.splits)
  obtain ks where ks: "map m_id rows = map (jr_fresh jr) ks" "sorted_wrt (<) ks"
    using run_extract_drawn [OF st] ids fresh unfolding drawn_def job_def by auto
  have mem: "memories mid = memories (s_corpus db) @ rows" by (simp add: w written_corpus_def)
  have "m_id ` set rows \<subseteq> range (jr_fresh jr)" using arg_cong [OF ks(1), of set] by auto
  then have disj: "m_id ` set (memories (s_corpus db)) \<inter> m_id ` set rows = {}"
    using assms(2) unfolding fresh_for_def by blast
  have "inj_on (jr_fresh jr) (set ks)" using assms(2) unfolding fresh_for_def by (metis inj_on_subset subset_UNIV)
  moreover have "distinct ks" using ks(2) strict_sorted_iff by blast
  ultimately have "distinct (map m_id rows)" using ks(1) by (simp add: distinct_map)
  then have dist: "distinct (map m_id (memories mid))" using assms(3) disj by (simp add: mem)
  have same: "new_disputes (s_corpus db) = new_disputes mid"
    by (simp add: fun_eq_iff new_disputes_def w written_corpus_def)
  have got: "set (get_by_ids ses (xs_memory_ids (xt_stats st)) mid) \<subseteq> set rows"
    using disj by (auto simp: get_by_ids_def ids mem)
  have "promotion_inv (jr_started jr) mid {} mid"
    by (simp add: promotion_inv_def new_disputes_def promoted_row_def list_all2_refl)
  then have "promotion_inv (jr_started jr) mid ({} \<union> m_id ` set (get_by_ids ses (xs_memory_ids (xt_stats st)) mid)) (s_corpus db')"
    by (intro promote_all_inv [OF promo]) (use got dist in \<open>auto simp: mid_def [symmetric] mem get_by_ids_def distinct_map_filter\<close>)
  then have pr: "list_all2 (promoted_row (jr_started jr) (promotions (s_corpus db')) (new_disputes mid (s_corpus db'))
        (m_id ` set (get_by_ids ses (xs_memory_ids (xt_stats st)) mid))) (memories mid) (memories (s_corpus db'))"
    "\<forall>c\<in>new_disputes mid (s_corpus db'). c_memory_b c \<in> m_id ` set (get_by_ids ses (xs_memory_ids (xt_stats st)) mid)"
    by (simp_all add: promotion_inv_def)
  let ?P = "promoted_row (jr_started jr) (promotions (s_corpus db')) (new_disputes (s_corpus db) (s_corpus db')) (m_id ` set rows)"
  have wider: "?P r r'" if "promoted_row (jr_started jr) (promotions (s_corpus db')) (new_disputes mid (s_corpus db'))
        (m_id ` set (get_by_ids ses (xs_memory_ids (xt_stats st)) mid)) r r'" for r r'
    using that image_mono [OF got, of m_id] unfolding promoted_row_def same by blast
  have "list_all2 ?P (memories (s_corpus db) @ rows) (memories (s_corpus db'))"
    using list_all2_mono [OF pr(1) wider] unfolding mem .
  then obtain us rows' where split: "memories (s_corpus db') = us @ rows'" "list_all2 ?P (memories (s_corpus db)) us" "list_all2 ?P rows rows'"
    unfolding list_all2_append1 by blast
  have "list_all2 (=) (memories (s_corpus db)) us"
    by (rule list.rel_mono_strong [OF split(2)]) (use disj in \<open>auto simp: promoted_row_def\<close>)
  then have "memories (s_corpus db') = memories (s_corpus db) @ rows'" using split(1) by (simp add: list.rel_eq)
  moreover have "\<forall>r\<in>set rows. m_status r = MS_Raw" using raw by (simp add: raw_row_def)
  moreover have "\<forall>c\<in>new_disputes (s_corpus db) (s_corpus db'). c_memory_b c \<in> m_id ` set rows"
    using pr(2) image_mono [OF got, of m_id] unfolding same by blast
  ultimately show ?thesis using that split(3) dist unfolding mem by blast
qed

text \<open>C5: Processing a source promotes only what the policy lets pass, and touches nobody else's knowledge: every
  memory that was there stays exactly as it was; the source adds raw memories, and one of them may become a
  candidate only as a team pitfall with confidence 0.9 or a decision with 0.95, recorded by an automatic
  promotion row, and only if its own comparisons opened no dispute; nothing becomes canonical; and every
  dispute opened is about a memory of this source.\<close>

theorem pipeline_promotes_only_the_earned:
  assumes "process_job jr us org source (run, db) = (run', Some db')" and "fresh_for jr (s_corpus db)"
    and "distinct (map m_id (memories (s_corpus db)))"
  shows "\<exists>rows rows'. memories (s_corpus db') = memories (s_corpus db) @ rows' \<and> (\<forall>r\<in>set rows. m_status r = MS_Raw) \<and>
    list_all2 (promoted_row (jr_started jr) (promotions (s_corpus db')) (new_disputes (s_corpus db) (s_corpus db')) (m_id ` set rows)) rows rows' \<and>
    (\<forall>r'\<in>set rows'. m_status r' = MS_Raw \<or> m_status r' = MS_Candidate) \<and>
    (\<forall>c\<in>new_disputes (s_corpus db) (s_corpus db'). \<exists>r'\<in>set rows'. c_memory_b c = m_id r')"
proof -
  obtain rows rows' where r: "\<forall>r\<in>set rows. m_status r = MS_Raw" "memories (s_corpus db') = memories (s_corpus db) @ rows'"
    "list_all2 (promoted_row (jr_started jr) (promotions (s_corpus db')) (new_disputes (s_corpus db) (s_corpus db')) (m_id ` set rows)) rows rows'"
    "\<forall>c\<in>new_disputes (s_corpus db) (s_corpus db'). c_memory_b c \<in> m_id ` set rows"
    by (rule process_job_corpus [OF assms])
  have "list_all2 (\<lambda>r r'. m_id r' = m_id r \<and> (m_status r' = m_status r \<or> m_status r' = MS_Candidate)) rows rows'"
    by (rule list_all2_mono [OF r(3)]) (auto simp: promoted_row_def)
  then have "map m_id rows' = map m_id rows" "\<forall>r'\<in>set rows'. \<exists>r\<in>set rows. m_status r' = m_status r \<or> m_status r' = MS_Candidate"
    by (induction rule: list_all2_induct) auto
  moreover from arg_cong [OF this(1), of set] have "m_id ` set rows' = m_id ` set rows" by simp
  ultimately have "(\<forall>r'\<in>set rows'. m_status r' = MS_Raw \<or> m_status r' = MS_Candidate) \<and>
      (\<forall>c\<in>new_disputes (s_corpus db) (s_corpus db'). \<exists>r'\<in>set rows'. c_memory_b c = m_id r')"
    using r(1,4) by (metis imageE)
  then show ?thesis using r(1-3) by blast
qed

text \<open>With stages that answer, a source without entities goes through.\<close>

lemma compare_all_total: "(\<And>m i u. pe_judge env m i u \<noteq> None) \<Longrightarrow> compare_all env org m new_id q acc \<noteq> None"
proof (induction q arbitrary: acc)
  case (Cons p q)
  obtain sim x st db where eq: "p = (sim, x)" "acc = (st, db)" by (metis surj_pair)
  obtain answer ref where a: "pe_judge env (m_id m) (ct_compared st) (''A: '' @ m_content x @ [newline] @ ''B: '' @ m_content m) = Some (answer, ref)"
    using Cons.prems by (metis not_Some_eq surj_pair)
  show ?case
    unfolding eq compare_all.simps prod.case Let_def a option.case using Cons.IH [OF Cons.prems] by (auto split: option.split)
qed simp

lemma promote_all_total:
  assumes "\<And>s. xe_embed (jr_env jr) s \<noteq> None" "\<And>m i u. pe_judge (jr_env jr) m i u \<noteq> None"
  shows "snd (promote_all jr ses org ms acc) \<noteq> None"
proof (induction ms arbitrary: acc)
  case (Cons m ms)
  have "run_contradict (jr_env jr) ses org m f db \<noteq> None" for f db
    using assms(1) compare_all_total [OF assms(2)] unfolding run_contradict_def by (auto split: option.split)
  then have "snd (promote_one jr ses org m acc) \<noteq> None"
    by (cases acc) (auto simp: promote_one_def Let_def split: option.split prod.split)
  then show ?case using Cons.IH by (auto split: prod.split option.split)
next
  case Nil
  then show ?case by (cases acc) simp
qed

lemma process_job_total:
  assumes "get_source_text (worker_session us org) source (s_corpus db) = Some row"
    and "run_extract (extract_env.truncate (jr_env jr)) (job_of jr (worker_session us org) org source row) db = Some st"
    and "xs_entities_created (xt_stats st) = []"
    and "\<And>s. xe_embed (jr_env jr) s \<noteq> None" "\<And>m i u. pe_judge (jr_env jr) m i u \<noteq> None"
  shows "snd (process_job jr us org source (run, db)) \<noteq> None"
  using assms(1-3) promote_all_total [OF assms(4,5)] by (simp add: process_job_def Let_def)

lemma write_memory_no_entities:
  "write_memory env job p m st = Some st' \<Longrightarrow> em_entities m = [] \<Longrightarrow> em_relations m = [] \<Longrightarrow>
    xs_entities_created (xt_stats st') = xs_entities_created (xt_stats st)"
  by (auto simp: write_memory_def store_memory_def drop_one_def Let_def split: option.splits if_splits)

lemma manual_no_entities:
  assumes "run_extract env job db = Some st" "xj_kind job = ''manual''" "em_entities (hd (le_memories (extract_verbatim (xj_text job)))) = []"
  shows "xs_entities_created (xt_stats st) = []"
proof -
  obtain m where m: "le_memories (extract_verbatim (xj_text job)) = [m]" "em_relations m = []"
    by (simp add: extract_verbatim_def Let_def)
  obtain p st2 where p: "ensure_provenance job (extract_verbatim (xj_text job))
      \<lparr> xt_db = db, xt_stats = stats_default\<lparr> xs_chunks := 1 \<rparr>, xt_prov = None, xt_used = 0 \<rparr> = (p, st2)" by (metis surj_pair)
  have "write_memory env job p m st2 = Some st"
    using assms(1,2) m p by (simp add: run_extract_def extract_one_def bind_eq_Some_conv)
  from write_memory_no_entities [OF this] show ?thesis
    using assms(3) m p by (auto simp: ensure_provenance_def stats_default_def Let_def)
qed

definition example_sources :: pipeline_db where
  "example_sources = example_disputed\<lparr> s_corpus := (s_corpus example_disputed)\<lparr> sources :=
    [\<lparr> so_id = 80, so_org_id = 1, so_team_id = Some 7, so_kind = ''manual'', so_raw_text = ''Retry twice.'',
       so_created_by = None, so_idempotency_key = None, so_project_id = None \<rparr>] \<rparr> \<rparr>"

definition example_run :: job_run where
  "example_run = \<lparr> jr_env = example_pipeline_env, jr_started = 40, jr_finished = 41, jr_run_id = 81, jr_fresh = (\<lambda>i. 1000 + i),
     jr_canonical = (\<lambda>e. 3000 + e), jr_dispute = (\<lambda>m i. 5000 + i), jr_promotion = (\<lambda>m. 7000 + m), jr_error = ''unreachable'',
     jr_row_written = True \<rparr>"

definition example_users :: worker_users where
  "example_users = \<lparr> wu_compose = 8, wu_worker = 9 \<rparr>"

lemma example_processed:
  "\<exists>run db. process_job example_run example_users 1 80 (run_stats_default, example_sources) = (run, Some db)"
proof -
  have row: "get_source_text (worker_session example_users 1) 80 (s_corpus example_sources) = Some (Some 7, ''manual'', ''Retry twice.'', None)"
    by code_simp
  have env: "extract_env.truncate (jr_env example_run) = example_env" "xe_embed (jr_env example_run) s \<noteq> None"
    "pe_judge (jr_env example_run) m i u \<noteq> None" for s m i u
    by (simp_all add: example_run_def example_pipeline_env_def example_env_def extract_env.defs pipeline_env.defs)
  let ?job = "job_of example_run (worker_session example_users 1) 1 80 (Some 7, ''manual'', ''Retry twice.'', None)"
  have job: "xj_kind ?job = ''manual''" "xj_text ?job = ''Retry twice.''" by (simp_all add: job_of_def)
  obtain st where st: "run_extract example_env ?job example_sources = Some st" using example_runs [OF job(1)] by blast
  have "em_entities (hd (le_memories (extract_verbatim ''Retry twice.''))) = []" by code_simp
  then have "xs_entities_created (xt_stats st) = []" using manual_no_entities [OF st job(1)] job(2) by simp
  from process_job_total [OF row _ this env(2,3)] st env(1)
  have "snd (process_job example_run example_users 1 80 (run_stats_default, example_sources)) \<noteq> None" by simp
  then show ?thesis by (metis not_Some_eq prod.collapse)
qed

lemma example_fresh: "fresh_for example_run (s_corpus example_sources)" "distinct (map m_id (memories (s_corpus example_sources)))"
proof -
  have ids: "map m_id (memories (s_corpus example_sources)) = [1, 2, 3, 4]" by code_simp
  have "m_id ` set (memories (s_corpus example_sources)) = set [1, 2, 3, 4]" using arg_cong [OF ids, of set] by simp
  then show "fresh_for example_run (s_corpus example_sources)" by (auto simp: fresh_for_def example_run_def inj_def)
  show "distinct (map m_id (memories (s_corpus example_sources)))" unfolding ids by simp
qed

lemma pipeline_promotes_only_the_earned_witness:
  "take 4 (memories (s_corpus (the (snd (process_job example_run example_users 1 80 (run_stats_default, example_sources))))))
    = memories (s_corpus example_sources)"
proof -
  obtain run' db' where p: "process_job example_run example_users 1 80 (run_stats_default, example_sources) = (run', Some db')"
    using example_processed by blast
  have "length (memories (s_corpus example_sources)) = 4" by code_simp
  then show ?thesis using pipeline_promotes_only_the_earned [OF p example_fresh] unfolding p by auto
qed

section \<open>Every claimed job is settled\<close>

text \<open>
  Steps that each settle an item of their own: what a batch of independent jobs, run in any order, achieves.
\<close>

locale settling =
  fixes step :: "'a \<Rightarrow> 's \<Rightarrow> 's" and key :: "'a \<Rightarrow> 'k" and pending :: "'a \<Rightarrow> 's \<Rightarrow> bool" and done_with :: "'a \<Rightarrow> 's \<Rightarrow> bool"
  assumes settles: "pending x s \<Longrightarrow> done_with x (step x s)"
    and keeps_pending: "key x \<noteq> key y \<Longrightarrow> pending x s \<Longrightarrow> pending y s \<Longrightarrow> pending y (step x s)"
    and keeps_done: "key x \<noteq> key y \<Longrightarrow> pending x s \<Longrightarrow> done_with y s \<Longrightarrow> done_with y (step x s)"
begin

lemma fold_keeps_done:
  "distinct (map key xs) \<Longrightarrow> \<forall>x\<in>set xs. pending x s \<Longrightarrow> key y \<notin> key ` set xs \<Longrightarrow> done_with y s \<Longrightarrow> done_with y (fold step xs s)"
proof (induction xs arbitrary: s)
  case (Cons x xs)
  then have "\<forall>z\<in>set xs. pending z (step x s)" by (auto intro!: keeps_pending)
  moreover have "done_with y (step x s)" using Cons.prems by (auto intro!: keeps_done)
  ultimately show ?case using Cons by simp
qed simp

lemma fold_settles:
  "distinct (map key xs) \<Longrightarrow> \<forall>x\<in>set xs. pending x s \<Longrightarrow> y \<in> set xs \<Longrightarrow> done_with y (fold step xs s)"
proof (induction xs arbitrary: s)
  case (Cons x xs)
  then have p: "\<forall>z\<in>set xs. pending z (step x s)" by (auto intro!: keeps_pending)
  show ?case
  proof (cases "y = x")
    case True
    then have "done_with y (step x s)" using Cons.prems by (auto intro: settles)
    then show ?thesis using fold_keeps_done [of xs "step x s" y] p Cons.prems True by simp
  next
    case False
    then show ?thesis using Cons p by simp
  qed
qed simp

end

definition has_run_row :: "job_run \<Rightarrow> string \<Rightarrow> pipeline_run list \<Rightarrow> bool" where
  "has_run_row jr status rows \<longleftrightarrow> (\<exists>r\<in>set rows. ru_id r = jr_run_id jr \<and> ru_status r = status)"

text \<open>
  A claimed job with its ids is archived as done, with its run row, or failed, with its run row: archived when its
  attempts are used up, and otherwise queued again, unchanged, for after its back-off.
\<close>

definition acked :: "job_run \<Rightarrow> worker_config \<Rightarrow> job \<Rightarrow> worker_db \<Rightarrow> bool" where
  "acked jr cfg j w \<longleftrightarrow>
    (archived (jr_finished jr) ''ok'' j \<in> set (archive (w_queue w)) \<and> parse_job_ids j \<noteq> None \<and>
       (jr_row_written jr \<longrightarrow> has_run_row jr ''ok'' (w_runs w))) \<or>
    ((if MAX_ATTEMPTS \<le> j_attempts j then archived (jr_finished jr) ''failed'' j \<in> set (archive (w_queue w))
      else j\<lparr> j_visible_at := jr_finished jr + backoff_secs (wc_backoff_base_secs cfg) (j_attempts j) \<rparr> \<in> set (jobs (w_queue w))) \<and>
     (jr_row_written jr \<and> parse_job_ids j \<noteq> None \<longrightarrow> has_run_row jr ''failed'' (w_runs w)))"

definition in_hand :: "job \<Rightarrow> worker_db \<Rightarrow> bool" where
  "in_hand j w \<longleftrightarrow> queue_inv (w_queue w) \<and> j \<in> set (jobs (w_queue w))"

text \<open>What one acknowledgement does to the queue: to its own job, and to the others.\<close>

lemma archive_job_acks:
  assumes "queue_inv q" "j \<in> set (jobs q)"
  shows "archived now out j \<in> set (archive (archive_job now j out q))"
    "jobs (archive_job now j out q) = filter (\<lambda>i. j_id i \<noteq> j_id j) (jobs q)"
    "set (archive q) \<subseteq> set (archive (archive_job now j out q))"
proof -
  have a: "archive (archive_job now j out q) = archive q @ map (archived now out) (filter (\<lambda>i. j_id i = j_id j) (jobs q))"
    by (rule move_to_archive(2) [OF assms(1) archive_job_eq])
  then show "archived now out j \<in> set (archive (archive_job now j out q))" using assms(2) by simp
  show "set (archive q) \<subseteq> set (archive (archive_job now j out q))" by (simp add: a)
  show "jobs (archive_job now j out q) = filter (\<lambda>i. j_id i \<noteq> j_id j) (jobs q)"
    by (simp add: archive_job_def delete_where_def)
qed

lemma fail_acks:
  assumes "queue_inv q" "j \<in> set (jobs q)"
  shows "if MAX_ATTEMPTS \<le> j_attempts j then archived now ''failed'' j \<in> set (archive (snd (fail now j b q)))
      else j\<lparr> j_visible_at := now + backoff_secs b (j_attempts j) \<rparr> \<in> set (jobs (snd (fail now j b q)))"
    "set (archive q) \<subseteq> set (archive (snd (fail now j b q)))"
    "i \<in> set (jobs q) \<Longrightarrow> j_id i \<noteq> j_id j \<Longrightarrow> i \<in> set (jobs (snd (fail now j b q)))"
  using archive_job_acks [OF assms, where now = now and out = "''failed''"] assms(2)
  by (auto simp: fail_def Let_def set_update_where image_iff)

text \<open>One job, seen from the queue: whatever its run does, its job is acknowledged and the others stay.\<close>

lemma process_claimed_job_acks:
  assumes "in_hand j w" "process_claimed_job jr us cfg j w = (run, w')"
  shows "queue_inv (w_queue w')" "acked jr cfg j w'" "set (archive (w_queue w)) \<subseteq> set (archive (w_queue w'))"
    "set (w_runs w) \<subseteq> set (w_runs w')"
    "i \<in> set (jobs (w_queue w)) \<Longrightarrow> j_id i \<noteq> j_id j \<Longrightarrow> i \<in> set (jobs (w_queue w'))"
proof -
  let ?failed = "snd (fail (jr_finished jr) j (wc_backoff_base_secs cfg) (w_queue w))"
  have inv: "queue_inv (w_queue w)" and j: "j \<in> set (jobs (w_queue w))" using assms(1) by (simp_all add: in_hand_def)
  note f = fail_acks [OF inv j, where now = "jr_finished jr" and b = "wc_backoff_base_secs cfg"]
  consider (bad) "parse_job_ids j = None" "w' = w\<lparr> w_queue := ?failed \<rparr>"
    | (ok) org source db where "parse_job_ids j = Some (org, source)"
        "w' = w\<lparr> w_store := db, w_runs := write_pipeline_run jr org source ''ok'' None run (w_runs w),
                       w_queue := complete (jr_finished jr) j (w_queue w) \<rparr>"
    | (failed) org source where "parse_job_ids j = Some (org, source)"
        "w' = w\<lparr> w_runs := write_pipeline_run jr org source ''failed'' (Some (summarize_error (jr_error jr))) run (w_runs w), w_queue := ?failed \<rparr>"
    using assms(2) by (auto simp: process_claimed_job_def split: option.splits prod.splits)
  then have "queue_inv (w_queue w') \<and> acked jr cfg j w' \<and> set (archive (w_queue w)) \<subseteq> set (archive (w_queue w')) \<and>
      set (w_runs w) \<subseteq> set (w_runs w') \<and> (j_id i \<noteq> j_id j \<and> i \<in> set (jobs (w_queue w)) \<longrightarrow> i \<in> set (jobs (w_queue w')))" for i
  proof cases
    case bad
    then show ?thesis using f inv by (simp add: fail_inv acked_def)
  next
    case ok
    then show ?thesis using archive_job_acks [OF inv j, where now = "jr_finished jr" and out = "''ok''"] complete_inv [OF inv]
      by (auto simp: acked_def complete_def write_pipeline_run_def has_run_row_def)
  next
    case failed
    then show ?thesis using f inv by (auto simp: fail_inv acked_def write_pipeline_run_def has_run_row_def)
  qed
  then show "queue_inv (w_queue w')" "acked jr cfg j w'" "set (archive (w_queue w)) \<subseteq> set (archive (w_queue w'))"
    "set (w_runs w) \<subseteq> set (w_runs w')"
    "i \<in> set (jobs (w_queue w)) \<Longrightarrow> j_id i \<noteq> j_id j \<Longrightarrow> i \<in> set (jobs (w_queue w'))" by auto
qed

lemma run_claimed_snd:
  "snd (run_claimed runs us cfg j sw) = snd (process_claimed_job (runs (j_id j)) us cfg j (snd sw))"
  by (simp add: run_claimed_def split: prod.splits)

lemma acked_later:
  assumes "in_hand x w" "process_claimed_job jr us cfg x w = (run, w')" "j_id x \<noteq> j_id y" "acked jy cfg y w"
  shows "acked jy cfg y w'"
proof -
  note later = process_claimed_job_acks [OF assms(1,2)]
  let ?retry = "y\<lparr> j_visible_at := jr_finished jy + backoff_secs (wc_backoff_base_secs cfg) (j_attempts y) \<rparr>"
  have runs: "has_run_row jy st (w_runs w')" if "has_run_row jy st (w_runs w)" for st
    using that later(4) by (auto simp: has_run_row_def)
  have again: "?retry \<in> set (jobs (w_queue w'))" if "?retry \<in> set (jobs (w_queue w))"
    using later(5) [OF that] assms(3) by simp
  show ?thesis using assms(4) runs again later(3) unfolding acked_def by (auto split: if_splits)
qed

interpretation claimed: settling "run_claimed runs us cfg" j_id "\<lambda>j sw. in_hand j (snd sw)" "\<lambda>j sw. acked (runs (j_id j)) cfg j (snd sw)"
  for runs us cfg
proof
  fix x y :: job and s :: "tick_stats \<times> worker_db"
  obtain run w' where p: "process_claimed_job (runs (j_id x)) us cfg x (snd s) = (run, w')" by (metis surj_pair)
  show "acked (runs (j_id x)) cfg x (snd (run_claimed runs us cfg x s))" if "in_hand x (snd s)"
    using process_claimed_job_acks(2) [OF that p] by (simp add: run_claimed_snd p)
  show "in_hand y (snd (run_claimed runs us cfg x s))" if "j_id x \<noteq> j_id y" "in_hand x (snd s)" "in_hand y (snd s)"
    using process_claimed_job_acks(1,5) [OF that(2) p] that(1,3) by (simp add: run_claimed_snd p in_hand_def)
  show "acked (runs (j_id y)) cfg y (snd (run_claimed runs us cfg x s))"
    if "j_id x \<noteq> j_id y" "in_hand x (snd s)" "acked (runs (j_id y)) cfg y (snd s)"
    using acked_later [OF that(2) p that(1,3)] by (simp add: run_claimed_snd p)
qed

text \<open>What the batch leaves alone.\<close>

lemma fold_run_claimed:
  "queue_inv (w_queue (snd sw)) \<Longrightarrow> distinct (map j_id js) \<Longrightarrow> set js \<subseteq> set (jobs (w_queue (snd sw))) \<Longrightarrow>
    fold (run_claimed runs us cfg) js sw = (s, w') \<Longrightarrow>
    queue_inv (w_queue w') \<and> tk_jobs s = tk_jobs (fst sw) + length js \<and>
    (\<forall>i\<in>set (jobs (w_queue (snd sw))). j_id i \<notin> j_id ` set js \<longrightarrow> i \<in> set (jobs (w_queue w'))) \<and>
    set (archive (w_queue (snd sw))) \<subseteq> set (archive (w_queue w')) \<and> set (w_runs (snd sw)) \<subseteq> set (w_runs w')"
proof (induction js arbitrary: sw)
  case Nil
  then have "sw = (s, w')" by simp
  then show ?case using Nil.prems(1) by simp
next
  case (Cons j js)
  obtain run w1 where p: "process_claimed_job (runs (j_id j)) us cfg j (snd sw) = (run, w1)" by (metis surj_pair)
  have step: "run_claimed runs us cfg j sw = (add_run run (fst sw), w1)" using p by (cases sw) (simp add: run_claimed_def)
  have h: "in_hand j (snd sw)" using Cons.prems by (simp add: in_hand_def)
  note acks = process_claimed_job_acks [OF h p]
  have rest: "fold (run_claimed runs us cfg) js (add_run run (fst sw), w1) = (s, w')" using Cons.prems(4) by (simp add: step)
  have "set js \<subseteq> set (jobs (w_queue w1))"
  proof
    fix i assume "i \<in> set js"
    then have "i \<in> set (jobs (w_queue (snd sw)))" "j_id i \<noteq> j_id j" using Cons.prems(2,3) by (auto, metis imageI)
    then show "i \<in> set (jobs (w_queue w1))" by (rule acks(5))
  qed
  from Cons.IH [OF _ _ _ rest] this acks(1) Cons.prems(2) have IH: "queue_inv (w_queue w') \<and> tk_jobs s = tk_jobs (add_run run (fst sw)) + length js \<and>
      (\<forall>i\<in>set (jobs (w_queue w1)). j_id i \<notin> j_id ` set js \<longrightarrow> i \<in> set (jobs (w_queue w'))) \<and>
      set (archive (w_queue w1)) \<subseteq> set (archive (w_queue w')) \<and> set (w_runs w1) \<subseteq> set (w_runs w')" by simp
  have "i \<in> set (jobs (w_queue w'))" if "i \<in> set (jobs (w_queue (snd sw)))" "j_id i \<notin> j_id ` set (j # js)" for i
    using IH acks(5) [OF that(1)] that(2) by simp
  then show ?case using IH acks(3,4) by (auto simp: add_run_def)
qed

text \<open>C6: A tick settles every job it claims, in whatever order they finish and whatever their runs do: each is
  archived as done with its run row, or failed with its run row - back in the queue after its back-off while it
  has attempts left, archived as failed otherwise; it touches no job it did not claim, forgets no archived one,
  counts each claimed job once, and keeps the queue's invariant.\<close>

theorem tick_settles_every_claim:
  assumes "queue_inv (w_queue w)" and "\<forall>js. mset (finish js) = mset js"
    and "read now INGEST_QUEUE (nat (wc_batch cfg)) (wc_visibility_secs cfg) locked (w_queue w) = (got, q)"
    and "tick runs us cfg now locked finish w = (s, w')"
  shows "queue_inv (w_queue w') \<and> tk_jobs s = length got \<and> (\<forall>j\<in>set got. acked (runs (j_id j)) cfg j w') \<and>
    (\<forall>j\<in>set (jobs q). j_id j \<notin> j_id ` set got \<longrightarrow> j \<in> set (jobs (w_queue w'))) \<and>
    set (archive q) \<subseteq> set (archive (w_queue w')) \<and> set (w_runs w) \<subseteq> set (w_runs w')"
proof -
  let ?w = "w\<lparr> w_queue := q \<rparr>" and ?js = "finish got"
  have run: "fold (run_claimed runs us cfg) ?js (tick_stats_default, ?w) = (s, w')"
    using assms(3,4) by (simp add: tick_def)
  have inv: "queue_inv q" using read_inv [OF assms(1)] assms(3) by (metis snd_conv)
  have m: "mset ?js = mset got" using assms(2) by blast
  then have sets: "set ?js = set got" and len: "length ?js = length got" by (metis set_mset_mset, metis size_mset)
  have d: "distinct (map j_id ?js)"
    using read_got(3) [OF assms(1,3)] m by (metis mset_eq_imp_distinct_iff mset_map)
  have sub: "set ?js \<subseteq> set (jobs q)" using read_jobs(1) [OF assms(3)] sets by auto
  have "\<forall>j\<in>set ?js. in_hand j (snd (tick_stats_default, ?w))" using sub inv by (auto simp: in_hand_def)
  from claimed.fold_settles [OF d this, where runs = runs and us = us and cfg = cfg] run sets
  have "\<forall>j\<in>set got. acked (runs (j_id j)) cfg j w'" by simp
  moreover have "queue_inv (w_queue w') \<and> tk_jobs s = length got \<and>
      (\<forall>j\<in>set (jobs q). j_id j \<notin> j_id ` set got \<longrightarrow> j \<in> set (jobs (w_queue w'))) \<and>
      set (archive q) \<subseteq> set (archive (w_queue w')) \<and> set (w_runs w) \<subseteq> set (w_runs w')"
    using fold_run_claimed [OF _ d _ run] inv sub sets len by (simp add: tick_stats_default_def)
  ultimately show ?thesis by blast
qed

text \<open>A queue holding the example source and an unreadable payload, drained in reverse order.\<close>

definition example_worker :: worker_db where
  "example_worker =
    \<lparr> w_store = example_sources,
       w_queue = snd (send 5 INGEST_QUEUE \<lparr> jp_org_id = None, jp_source_id = None, jp_body = ''?'' \<rparr>
         (snd (enqueue_source 5 1 80 ''{}'' empty_queue))),
       w_runs = [] \<rparr>"

lemma example_claimed:
  "map j_id (fst (read 30 INGEST_QUEUE (nat (wc_batch worker_config_default)) (wc_visibility_secs worker_config_default) []
     (w_queue example_worker))) = [1, 2]"
  by code_simp

lemma tick_settles_every_claim_witness:
  "tk_jobs (fst (tick (\<lambda>_. example_run) example_users worker_config_default 30 [] rev example_worker)) = 2"
proof -
  let ?read = "read 30 INGEST_QUEUE (nat (wc_batch worker_config_default)) (wc_visibility_secs worker_config_default) [] (w_queue example_worker)"
  have "queue_inv (w_queue example_worker)" by (simp add: example_worker_def enqueue_source_def send_inv)
  moreover have "\<forall>js :: job list. mset (rev js) = mset js" by simp
  ultimately have "tk_jobs (fst (tick (\<lambda>_. example_run) example_users worker_config_default 30 [] rev example_worker)) = length (fst ?read)"
    using tick_settles_every_claim [of example_worker rev 30 worker_config_default "[]" "fst ?read" "snd ?read"
        "\<lambda>_. example_run" example_users "fst (tick (\<lambda>_. example_run) example_users worker_config_default 30 [] rev example_worker)"
        "snd (tick (\<lambda>_. example_run) example_users worker_config_default 30 [] rev example_worker)"] by simp
  also have "\<dots> = 2" using arg_cong [OF example_claimed, of length] by simp
  finally show ?thesis .
qed

end
