(* ===== verification/Mining.thy ===== *)
theory Mining
  imports Compose
begin

text \<open>
  \<open>brainiac-pipeline/src/library_sweep.rs\<close>: candidate rules mined from what the organisation already
  decided - divergences nobody bridged, practices the readers keep confirming, and settled
  contradictions.  The weekly sweep runs on the pool that bypasses row-level security, the
  event-triggered twin inside the transaction that settles a dispute: which rows the statements reach is
  an argument.  \<open>short_id\<close> prints the first eight digits of an id, \<open>note_text\<close> a dispute's note,
  \<open>draw\<close> is the fresh id of the candidate of a signal.  \<open>None\<close> is a statement the schema refuses; it
  rolls the transaction back.
\<close>

definition REINFORCED_MIN_HELPFUL :: nat where "REINFORCED_MIN_HELPFUL = 2"
definition DEFAULT_DEDUP_WINDOW_DAYS :: int where "DEFAULT_DEDUP_WINDOW_DAYS = 90"

text \<open>\<open>parse_i64\<close> is \<open>str::parse::<i64>\<close>; \<open>env\<close> the value of \<open>BRAINIAC_LIBRARY_DEDUP_DAYS\<close>.\<close>

definition dedup_window_days :: "(string \<Rightarrow> int option) \<Rightarrow> string option \<Rightarrow> int" where
  "dedup_window_days parse_i64 env =
    (case Option.bind env (\<lambda>v. parse_i64 (trim v)) of
       Some d \<Rightarrow> (if d > 0 then d else DEFAULT_DEDUP_WINDOW_DAYS)
     | None \<Rightarrow> DEFAULT_DEDUP_WINDOW_DAYS)"

record mining_stats =
  mi_orgs :: nat
  mi_from_divergence :: nat
  mi_from_feedback :: nat
  mi_from_contradiction :: nat
  mi_deduped :: nat

definition mining_stats_default :: mining_stats where
  "mining_stats_default =
    \<lparr> mi_orgs = 0, mi_from_divergence = 0, mi_from_feedback = 0, mi_from_contradiction = 0, mi_deduped = 0 \<rparr>"

definition mined_candidates :: "mining_stats \<Rightarrow> nat" where
  "mined_candidates s = mi_from_divergence s + mi_from_feedback s + mi_from_contradiction s"

section \<open>What the statements reach\<close>

record reach =
  rc_memory :: "mem_row \<Rightarrow> bool"
  rc_standard :: "std_row \<Rightarrow> bool"

definition admin_reach :: reach where
  "admin_reach = \<lparr> rc_memory = (\<lambda>_. True), rc_standard = (\<lambda>_. True) \<rparr>"

definition session_reach :: "session \<Rightarrow> corpus \<Rightarrow> reach" where
  "session_reach ses db = \<lparr> rc_memory = sees_memory db ses, rc_standard = sees_std ses \<rparr>"

section \<open>The dedup rule and the slug\<close>

definition spoken_for :: "instant \<Rightarrow> int \<Rightarrow> std_row \<Rightarrow> bool" where
  "spoken_for now window s = (st_lifecycle s \<noteq> SL_Rejected \<or> st_updated_at s > now - days window)"

definition blocked :: "reach \<Rightarrow> instant \<Rightarrow> int \<Rightarrow> uuid \<Rightarrow> library_db \<Rightarrow> bool" where
  "blocked rc now window ref_id db =
    list_ex (\<lambda>p. sp_ref_id p = ref_id \<and>
      list_ex (\<lambda>s. rc_standard rc s \<and> st_id s = sp_standard_id p \<and> spoken_for now window s) (standards db))
      (std_provenance db)"

definition short_slug :: "string \<Rightarrow> string" where
  "short_slug base = join ''-'' (take 6 (split_by (\<lambda>c. c = CHR ''-'') (slugify base)))"

definition unique_slug :: "(uuid \<Rightarrow> string) \<Rightarrow> reach \<Rightarrow> uuid \<Rightarrow> string \<Rightarrow> uuid \<Rightarrow> library_db \<Rightarrow> string" where
  "unique_slug short_id rc org base ref_id db =
    (if list_ex (\<lambda>s. rc_standard rc s \<and> st_org_id s = org \<and> st_slug s = short_slug base) (standards db)
     then short_slug base @ ''-'' @ short_id ref_id else short_slug base)"

section \<open>The miners\<close>

text \<open>
  The bridge of the store runs here without policies.  A session of the organisation reads the same
  rows: the slug check names the organisation, ids are unique, and a signal no standard at all speaks for
  has no live bridge in any organisation.
\<close>

definition org_session :: "uuid \<Rightarrow> session" where
  "org_session org =
    \<lparr> s_principal = \<lparr> p_org_id = org, p_user_id = 0, p_team_ids = [], p_project_id = None \<rparr>, s_worker = True \<rparr>"

definition deduped :: "mining_stats \<Rightarrow> mining_stats" where
  "deduped s = s\<lparr> mi_deduped := mi_deduped s + 1 \<rparr>"

fun mine_divergence_ids ::
  "(uuid \<Rightarrow> string) \<Rightarrow> (uuid \<Rightarrow> uuid) \<Rightarrow> instant \<Rightarrow> uuid \<Rightarrow> int \<Rightarrow> uuid list \<Rightarrow> mining_stats \<times> library_db
    \<Rightarrow> (mining_stats \<times> library_db) option" where
  "mine_divergence_ids short_id draw now org window [] acc = Some acc"
| "mine_divergence_ids short_id draw now org window (k # ks) (st, db) =
    (if blocked admin_reach now window k db
     then mine_divergence_ids short_id draw now org window ks (deduped st, db)
     else case propose_from_divergence short_id now (org_session org) (draw k) k None db of
       Inl _ \<Rightarrow> None
     | Inr (out, db') \<Rightarrow>
         mine_divergence_ids short_id draw now org window ks
           ((if out \<noteq> None then st\<lparr> mi_from_divergence := mi_from_divergence st + 1 \<rparr> else st), db'))"

definition mine_divergences ::
  "(uuid \<Rightarrow> string) \<Rightarrow> (uuid \<Rightarrow> uuid) \<Rightarrow> instant \<Rightarrow> uuid \<Rightarrow> int \<Rightarrow> mining_stats \<times> library_db
    \<Rightarrow> (mining_stats \<times> library_db) option" where
  "mine_divergences short_id draw now org window acc =
    mine_divergence_ids short_id draw now org window
      (map dv_id (filter (\<lambda>d. dv_org_id d = org) (divergences (snd acc)))) acc"

definition helpful_count :: "feedback_tab \<Rightarrow> uuid \<Rightarrow> nat" where
  "helpful_count fb m = length (filter (\<lambda>f. fb_memory_id f = m \<and> fb_verdict f = ''helpful'') fb)"

definition reinforced_rows :: "uuid \<Rightarrow> feedback_tab \<Rightarrow> corpus \<Rightarrow> mem_row list" where
  "reinforced_rows org fb cp =
    filter (\<lambda>m. m_org_id m = org \<and> m_status m = MS_Canonical \<and> mr_deleted_at m = None
      \<and> (m_kind m = MK_Pattern \<or> m_kind m = MK_Pitfall)
      \<and> helpful_count fb (m_id m) \<ge> REINFORCED_MIN_HELPFUL) (memories cp)"

definition title_or_content :: "mem_row \<Rightarrow> string" where
  "title_or_content m = (case mr_title m of Some t \<Rightarrow> t | None \<Rightarrow> m_content m)"

definition reinforced_candidate ::
  "(uuid \<Rightarrow> string) \<Rightarrow> uuid \<Rightarrow> uuid \<Rightarrow> nat \<Rightarrow> mem_row \<Rightarrow> library_db \<Rightarrow> new_standard" where
  "reinforced_candidate short_id new_id org confirmations m db =
    \<lparr> ns_id = new_id, ns_org_id = org, ns_origin = SO_Sweep, ns_stack = ''general'',
       ns_category = memory_kind_as_str (m_kind m),
       ns_slug = unique_slug short_id admin_reach org (title_or_content m) (m_id m) db,
       ns_statement = m_content m,
       ns_rationale = Some (''Reinforced practice: confirmed helpful '' @ show_nat confirmations
         @ '' times by readers '' @ em_dash @ '' the org already treats this as a rule.''),
       ns_detail_md = m_detail_md m, ns_enforcement = Enf_Recommended,
       ns_provenance = [(SPK_Memory, m_id m)], ns_author = None \<rparr>"

fun mine_reinforced_rows ::
  "(uuid \<Rightarrow> string) \<Rightarrow> (uuid \<Rightarrow> uuid) \<Rightarrow> instant \<Rightarrow> uuid \<Rightarrow> int \<Rightarrow> feedback_tab \<Rightarrow> mem_row list \<Rightarrow> mining_stats \<times> library_db
    \<Rightarrow> (mining_stats \<times> library_db) option" where
  "mine_reinforced_rows short_id draw now org window fb [] acc = Some acc"
| "mine_reinforced_rows short_id draw now org window fb (m # ms) (st, db) =
    (if blocked admin_reach now window (m_id m) db
     then mine_reinforced_rows short_id draw now org window fb ms (deduped st, db)
     else case insert_standard now
         (reinforced_candidate short_id (draw (m_id m)) org (helpful_count fb (m_id m)) m db) db of
       None \<Rightarrow> None
     | Some db' \<Rightarrow>
         mine_reinforced_rows short_id draw now org window fb ms
           (st\<lparr> mi_from_feedback := mi_from_feedback st + 1 \<rparr>, db'))"

definition mine_reinforced ::
  "(uuid \<Rightarrow> string) \<Rightarrow> (uuid \<Rightarrow> uuid) \<Rightarrow> instant \<Rightarrow> uuid \<Rightarrow> int \<Rightarrow> feedback_tab \<Rightarrow> corpus \<Rightarrow> mining_stats \<times> library_db
    \<Rightarrow> (mining_stats \<times> library_db) option" where
  "mine_reinforced short_id draw now org window fb cp acc =
    mine_reinforced_rows short_id draw now org window fb (reinforced_rows org fb cp) acc"

definition winner_candidate ::
  "(uuid \<Rightarrow> string) \<Rightarrow> reach \<Rightarrow> uuid \<Rightarrow> uuid \<Rightarrow> mem_row \<Rightarrow> string option \<Rightarrow> library_db \<Rightarrow> new_standard" where
  "winner_candidate short_id rc new_id org m msg db =
    \<lparr> ns_id = new_id, ns_org_id = org, ns_origin = SO_Sweep, ns_stack = ''general'', ns_category = ''convention'',
       ns_slug = unique_slug short_id rc org (title_or_content m) (m_id m) db,
       ns_statement = m_content m,
       ns_rationale = Some (case msg of Some n \<Rightarrow> ''Settled a contradiction: '' @ n
         | None \<Rightarrow> ''Settled a contradiction '' @ em_dash @ '' the org already chose this side.''),
       ns_detail_md = m_detail_md m, ns_enforcement = Enf_Recommended,
       ns_provenance = [(SPK_Memory, m_id m)], ns_author = None \<rparr>"

text \<open>The id of the candidate, if one was made, and the tables.\<close>

definition propose_contradiction_winner ::
  "(uuid \<Rightarrow> string) \<Rightarrow> (uuid \<Rightarrow> uuid) \<Rightarrow> reach \<Rightarrow> instant \<Rightarrow> uuid \<Rightarrow> mem_row \<Rightarrow> string option \<Rightarrow> int \<Rightarrow> library_db
    \<Rightarrow> (uuid option \<times> library_db) option" where
  "propose_contradiction_winner short_id draw rc now org m msg window db =
    (if blocked rc now window (m_id m) db then Some (None, db)
     else map_option (Pair (Some (draw (m_id m))))
       (insert_standard now (winner_candidate short_id rc (draw (m_id m)) org m msg db) db))"

definition states_a_convention :: "mem_row \<Rightarrow> bool" where
  "states_a_convention m =
    (m_status m = MS_Canonical \<and> m_superseded_by m = None \<and> mr_deleted_at m = None
     \<and> (m_kind m = MK_Decision \<or> m_kind m = MK_Pattern))"

definition winner_rows :: "(dispute_note \<Rightarrow> string) \<Rightarrow> uuid \<Rightarrow> corpus \<Rightarrow> (mem_row \<times> string option) list" where
  "winner_rows note_text org cp =
    concat (map (\<lambda>c. map (\<lambda>w. (w, map_option note_text (c_note c)))
        (filter (\<lambda>w. (m_id w = c_memory_a c \<or> m_id w = c_memory_b c) \<and> states_a_convention w) (memories cp)))
      (filter (\<lambda>c. c_org_id c = org \<and> c_status c = ''resolved_supersede'') (contradictions cp)))"

fun mine_winner_rows ::
  "(uuid \<Rightarrow> string) \<Rightarrow> (uuid \<Rightarrow> uuid) \<Rightarrow> instant \<Rightarrow> uuid \<Rightarrow> int \<Rightarrow> (mem_row \<times> string option) list
    \<Rightarrow> mining_stats \<times> library_db \<Rightarrow> (mining_stats \<times> library_db) option" where
  "mine_winner_rows short_id draw now org window [] acc = Some acc"
| "mine_winner_rows short_id draw now org window ((w, msg) # ws) (st, db) =
    (case propose_contradiction_winner short_id draw admin_reach now org w msg window db of
       None \<Rightarrow> None
     | Some (Some _, db') \<Rightarrow> mine_winner_rows short_id draw now org window ws
         (st\<lparr> mi_from_contradiction := mi_from_contradiction st + 1 \<rparr>, db')
     | Some (None, db') \<Rightarrow> mine_winner_rows short_id draw now org window ws (deduped st, db'))"

definition mine_contradictions ::
  "(uuid \<Rightarrow> string) \<Rightarrow> (dispute_note \<Rightarrow> string) \<Rightarrow> (uuid \<Rightarrow> uuid) \<Rightarrow> instant \<Rightarrow> uuid \<Rightarrow> int \<Rightarrow> corpus
    \<Rightarrow> mining_stats \<times> library_db \<Rightarrow> (mining_stats \<times> library_db) option" where
  "mine_contradictions short_id note_text draw now org window cp acc =
    mine_winner_rows short_id draw now org window (winner_rows note_text org cp) acc"

definition mine_contradiction_winner ::
  "(uuid \<Rightarrow> string) \<Rightarrow> (uuid \<Rightarrow> uuid) \<Rightarrow> reach \<Rightarrow> instant \<Rightarrow> uuid \<Rightarrow> uuid \<Rightarrow> string option \<Rightarrow> int \<Rightarrow> corpus \<Rightarrow> library_db
    \<Rightarrow> (uuid option \<times> library_db) option" where
  "mine_contradiction_winner short_id draw rc now org winner msg window cp db =
    (case find (\<lambda>m. rc_memory rc m \<and> m_id m = winner \<and> m_org_id m = org \<and> states_a_convention m) (memories cp) of
       None \<Rightarrow> Some (None, db)
     | Some m \<Rightarrow> propose_contradiction_winner short_id draw rc now org m msg window db)"

section \<open>One organisation, all organisations\<close>

definition mine_org ::
  "(uuid \<Rightarrow> string) \<Rightarrow> (dispute_note \<Rightarrow> string) \<Rightarrow> (uuid \<Rightarrow> uuid) \<Rightarrow> instant \<Rightarrow> uuid \<Rightarrow> int \<Rightarrow> 'a knowledge_scheme
    \<Rightarrow> (mining_stats \<times> library_db) option" where
  "mine_org short_id note_text draw now org window kn =
    Option.bind (mine_divergences short_id draw now org window (mining_stats_default, k_library kn)) (\<lambda>acc1.
    Option.bind (mine_reinforced short_id draw now org window (s_feedback kn) (s_corpus kn) acc1) (\<lambda>acc2.
      mine_contradictions short_id note_text draw now org window (s_corpus kn) acc2))"

definition add_mined :: "mining_stats \<Rightarrow> mining_stats \<Rightarrow> mining_stats" where
  "add_mined s acc =
    \<lparr> mi_orgs = mi_orgs acc + 1, mi_from_divergence = mi_from_divergence acc + mi_from_divergence s,
       mi_from_feedback = mi_from_feedback acc + mi_from_feedback s,
       mi_from_contradiction = mi_from_contradiction acc + mi_from_contradiction s,
       mi_deduped = mi_deduped acc + mi_deduped s \<rparr>"

text \<open>
  One transaction per organisation, at its own time with its own fresh ids.  An error ends the loop: the
  organisations before it are committed, those after it are not visited (\<open>None\<close> as the statistics).
\<close>

fun mine_all ::
  "(uuid \<Rightarrow> string) \<Rightarrow> (dispute_note \<Rightarrow> string) \<Rightarrow> (uuid \<Rightarrow> uuid \<Rightarrow> uuid) \<Rightarrow> (uuid \<Rightarrow> instant) \<Rightarrow> int \<Rightarrow> uuid list \<Rightarrow> mining_stats
    \<Rightarrow> 'a knowledge_scheme \<Rightarrow> mining_stats option \<times> 'a knowledge_scheme" where
  "mine_all short_id note_text draw clock window [] acc kn = (Some acc, kn)"
| "mine_all short_id note_text draw clock window (org # orgs) acc kn =
    (case mine_org short_id note_text (draw org) (clock org) org window kn of
       None \<Rightarrow> (None, kn)
     | Some (s, lib) \<Rightarrow> mine_all short_id note_text draw clock window orgs (add_mined s acc) (kn\<lparr> k_library := lib \<rparr>))"

section \<open>A run of the miners\<close>

text \<open>\<open>rs\<close> are the signals a candidate was made of, in order.\<close>

inductive mined_from ::
  "(uuid \<Rightarrow> uuid) \<Rightarrow> instant \<Rightarrow> int \<Rightarrow> uuid \<Rightarrow> library_db \<Rightarrow> uuid list \<Rightarrow> library_db \<Rightarrow> bool"
  for draw now window org db where
  M_nothing: "mined_from draw now window org db [] db"
| M_candidate: "mined_from draw now window org db rs db1 \<Longrightarrow> \<not> blocked admin_reach now window r db1 \<Longrightarrow>
    insert_standard now s db1 = Some db2 \<Longrightarrow> ns_id s = draw r \<Longrightarrow> ns_org_id s = org \<Longrightarrow> ns_origin s = SO_Sweep \<Longrightarrow>
    ns_provenance s = [(k, r)] \<Longrightarrow> mined_from draw now window org db (rs @ [r]) db2"

lemma blocked_iff:
  "blocked rc now window r db \<longleftrightarrow> (\<exists>p\<in>set (std_provenance db). sp_ref_id p = r \<and>
    (\<exists>s\<in>set (standards db). rc_standard rc s \<and> st_id s = sp_standard_id p \<and> spoken_for now window s))"
  by (simp add: blocked_def list_ex_iff)

lemma blocked_mono:
  assumes "blocked rc now window r db" "set (standards db) \<subseteq> set (standards db')"
    "set (std_provenance db) \<subseteq> set (std_provenance db')"
  shows "blocked rc now window r db'"
  using assms unfolding blocked_iff by blast

lemma set_add_provenance:
  "set (std_provenance (add_provenance s k r db)) = insert \<lparr> sp_standard_id = s, sp_kind = k, sp_ref_id = r \<rparr> (set (std_provenance db))"
proof -
  let ?p = "\<lparr> sp_standard_id = s, sp_kind = k, sp_ref_id = r \<rparr>"
  let ?key = "\<lambda>p :: standard_provenance. (sp_standard_id p, sp_kind p, sp_ref_id p)"
  have "?p \<in> set (std_provenance db)" if h: "?key ?p \<in> ?key ` set (std_provenance db)"
  proof -
    obtain x where x: "?key ?p = ?key x" "x \<in> set (std_provenance db)" using h by (rule imageE)
    then have "x = ?p" by (intro standard_provenance.equality) simp_all
    then show ?thesis using x by simp
  qed
  then show ?thesis by (simp add: add_provenance_def insert_or_ignore_def insert_absorb)
qed

lemma insert_standard_single:
  assumes "insert_standard now s db = Some db'" "ns_provenance s = [(k, r)]"
  obtains x where "standards db' = standards db @ [x]" "st_id x = ns_id s" "st_org_id x = ns_org_id s"
    "st_origin x = ns_origin s" "st_lifecycle x = SL_Proposed" "st_adopted_by x = None" "st_decreed_by x = None"
    "set (std_provenance db') = insert \<lparr> sp_standard_id = ns_id s, sp_kind = k, sp_ref_id = r \<rparr> (set (std_provenance db))"
    "divergences db' = divergences db"
proof -
  have "standards db' = standards db @ [last (standards db')]" "st_id (last (standards db')) = ns_id s"
    "st_org_id (last (standards db')) = ns_org_id s" "st_origin (last (standards db')) = ns_origin s"
    "st_lifecycle (last (standards db')) = SL_Proposed" "st_adopted_by (last (standards db')) = None"
    "st_decreed_by (last (standards db')) = None" "divergences db' = divergences db"
    using assms by (auto simp: insert_standard_def add_provenance_def split: if_splits)
  moreover have "set (std_provenance db') = insert \<lparr> sp_standard_id = ns_id s, sp_kind = k, sp_ref_id = r \<rparr> (set (std_provenance db))"
    using assms by (auto simp: insert_standard_def set_add_provenance split: if_splits)
  ultimately show ?thesis using that by blast
qed

lemma mined_signal_is_blocked:
  assumes "insert_standard now s db = Some db'" "ns_provenance s = [(k, r)]"
  shows "blocked admin_reach now window r db'"
proof -
  obtain x where x: "standards db' = standards db @ [x]" "st_id x = ns_id s" "st_lifecycle x = SL_Proposed"
    "set (std_provenance db') = insert \<lparr> sp_standard_id = ns_id s, sp_kind = k, sp_ref_id = r \<rparr> (set (std_provenance db))"
    using insert_standard_single [OF assms] by metis
  have "x \<in> set (standards db')" "spoken_for now window x" by (simp_all add: x(1,3) spoken_for_def)
  moreover have "\<lparr> sp_standard_id = ns_id s, sp_kind = k, sp_ref_id = r \<rparr> \<in> set (std_provenance db')" by (simp add: x(4))
  ultimately show ?thesis unfolding blocked_iff
    by (intro bexI [of _ "\<lparr> sp_standard_id = ns_id s, sp_kind = k, sp_ref_id = r \<rparr>"] conjI bexI [of _ x])
      (simp_all add: x(2) admin_reach_def)
qed

definition fresh_candidate :: "uuid \<Rightarrow> std_row \<Rightarrow> bool" where
  "fresh_candidate org s = (st_org_id s = org \<and> st_lifecycle s = SL_Proposed \<and> st_origin s = SO_Sweep
    \<and> st_adopted_by s = None \<and> st_decreed_by s = None)"

lemma mined_from_grows:
  assumes "mined_from draw now window org db rs db'"
  shows "\<exists>new. standards db' = standards db @ new \<and> map st_id new = map draw rs \<and> (\<forall>s\<in>set new. fresh_candidate org s)"
    and "set (std_provenance db) \<subseteq> set (std_provenance db')" and "divergences db' = divergences db"
    and "\<And>r. r \<in> set rs \<Longrightarrow> blocked admin_reach now window r db'"
    and "\<And>r. blocked admin_reach now window r db \<Longrightarrow> blocked admin_reach now window r db'"
proof -
  have "(\<exists>new. standards db' = standards db @ new \<and> map st_id new = map draw rs \<and> (\<forall>s\<in>set new. fresh_candidate org s)) \<and>
    set (std_provenance db) \<subseteq> set (std_provenance db') \<and> divergences db' = divergences db \<and>
    (\<forall>r\<in>set rs. blocked admin_reach now window r db')"
    using assms
  proof (induction rule: mined_from.induct)
    case (M_candidate rs db1 r s db2 k)
    obtain x where x: "standards db2 = standards db1 @ [x]" "st_id x = draw r" "fresh_candidate org x"
      "set (std_provenance db2) = insert \<lparr> sp_standard_id = ns_id s, sp_kind = k, sp_ref_id = r \<rparr> (set (std_provenance db1))"
      "divergences db2 = divergences db1"
      using insert_standard_single [OF M_candidate(3,7)] M_candidate(4-6) unfolding fresh_candidate_def by metis
    obtain new where new: "standards db1 = standards db @ new" "map st_id new = map draw rs" "\<forall>s\<in>set new. fresh_candidate org s"
      using M_candidate.IH by blast
    have "standards db2 = standards db @ (new @ [x])" "map st_id (new @ [x]) = map draw (rs @ [r])"
      "\<forall>s\<in>set (new @ [x]). fresh_candidate org s" using new x by simp_all
    moreover have "blocked admin_reach now window q db2" if "q \<in> set (rs @ [r])" for q
    proof (cases "q = r")
      case True
      then show ?thesis using mined_signal_is_blocked [OF M_candidate(3,7)] by simp
    next
      case False
      then have "blocked admin_reach now window q db1" using that M_candidate.IH by auto
      then show ?thesis by (rule blocked_mono) (auto simp: x)
    qed
    moreover have "set (std_provenance db) \<subseteq> set (std_provenance db2)" "divergences db2 = divergences db"
      using M_candidate.IH x by auto
    ultimately show ?case by blast
  qed simp
  then show grown: "\<exists>new. standards db' = standards db @ new \<and> map st_id new = map draw rs \<and> (\<forall>s\<in>set new. fresh_candidate org s)"
    and prov: "set (std_provenance db) \<subseteq> set (std_provenance db')" and "divergences db' = divergences db"
    and "\<And>r. r \<in> set rs \<Longrightarrow> blocked admin_reach now window r db'" by blast+
  show "blocked admin_reach now window r db'" if "blocked admin_reach now window r db" for r
    using that by (rule blocked_mono) (use grown prov in auto)
qed

lemma mined_from_distinct: "mined_from draw now window org db rs db' \<Longrightarrow> distinct rs"
proof (induction rule: mined_from.induct)
  case (M_candidate rs db1 r s db2 k)
  then have "r \<notin> set rs" using mined_from_grows(4) by blast
  then show ?case using M_candidate by simp
qed simp

lemma mined_from_unblocked: "mined_from draw now window org db rs db' \<Longrightarrow> r \<in> set rs \<Longrightarrow> \<not> blocked admin_reach now window r db"
proof (induction rule: mined_from.induct)
  case (M_candidate rs db1 q s db2 k)
  then show ?case using mined_from_grows(5) [OF M_candidate.hyps(1)] by auto
qed simp

section \<open>Each miner is such a run\<close>

lemma mined_candidates_bump [simp]:
  "mined_candidates (deduped st) = mined_candidates st"
  "mined_candidates (st\<lparr> mi_from_divergence := mi_from_divergence st + 1 \<rparr>) = mined_candidates st + 1"
  "mined_candidates (st\<lparr> mi_from_feedback := mi_from_feedback st + 1 \<rparr>) = mined_candidates st + 1"
  "mined_candidates (st\<lparr> mi_from_contradiction := mi_from_contradiction st + 1 \<rparr>) = mined_candidates st + 1"
  by (simp_all add: mined_candidates_def deduped_def)

text \<open>What a loop over the signals \<open>ks\<close> does to the counters and the tables.\<close>

definition grown :: "library_db \<Rightarrow> library_db \<Rightarrow> bool" where
  "grown db db' = (set (standards db) \<subseteq> set (standards db') \<and> set (std_provenance db) \<subseteq> set (std_provenance db')
    \<and> divergences db' = divergences db)"

definition mines ::
  "(uuid \<Rightarrow> uuid) \<Rightarrow> instant \<Rightarrow> int \<Rightarrow> uuid \<Rightarrow> uuid set \<Rightarrow> mining_stats \<times> library_db \<Rightarrow> mining_stats \<times> library_db \<Rightarrow> bool" where
  "mines draw now window org ks a b \<longleftrightarrow>
    (\<forall>db0 rs. mined_from draw now window org db0 rs (snd a) \<longrightarrow>
      (\<exists>new. mined_from draw now window org db0 (rs @ new) (snd b) \<and> set new \<subseteq> ks \<and>
        mined_candidates (fst b) = mined_candidates (fst a) + length new)) \<and>
    grown (snd a) (snd b) \<and> (\<forall>k\<in>ks. blocked admin_reach now window k (snd b))"

lemma mines_nothing: "mines draw now window org {} a a"
  unfolding mines_def grown_def by (auto intro: exI [of _ "[]"])

lemma mines_trans:
  assumes ab: "mines draw now window org ks a b" and bc: "mines draw now window org ls b c"
  shows "mines draw now window org (ks \<union> ls) a c"
  unfolding mines_def
proof (intro conjI allI impI)
  fix db0 rs assume "mined_from draw now window org db0 rs (snd a)"
  then obtain n1 where n1: "mined_from draw now window org db0 (rs @ n1) (snd b)" "set n1 \<subseteq> ks"
    "mined_candidates (fst b) = mined_candidates (fst a) + length n1" using ab unfolding mines_def by blast
  then obtain n2 where n2: "mined_from draw now window org db0 ((rs @ n1) @ n2) (snd c)" "set n2 \<subseteq> ls"
    "mined_candidates (fst c) = mined_candidates (fst b) + length n2" using bc unfolding mines_def by blast
  then show "\<exists>new. mined_from draw now window org db0 (rs @ new) (snd c) \<and> set new \<subseteq> ks \<union> ls \<and>
      mined_candidates (fst c) = mined_candidates (fst a) + length new"
    using n1 by (intro exI [of _ "n1 @ n2"]) auto
next
  have g: "grown (snd a) (snd b)" "grown (snd b) (snd c)" using ab bc unfolding mines_def by blast+
  then show "grown (snd a) (snd c)" unfolding grown_def by auto
  have "blocked admin_reach now window k (snd c)" if "blocked admin_reach now window k (snd b)" for k
    using that g(2) unfolding grown_def by (blast intro: blocked_mono)
  then show "\<forall>k\<in>ks \<union> ls. blocked admin_reach now window k (snd c)" using ab bc unfolding mines_def by blast
qed

lemma mines_skip: "blocked admin_reach now window k db \<Longrightarrow> mines draw now window org {k} (st, db) (deduped st, db)"
  unfolding mines_def grown_def by (auto intro: exI [of _ "[]"])

lemma mines_candidate:
  assumes "\<not> blocked admin_reach now window r db" "insert_standard now s db = Some db'" "ns_id s = draw r"
    "ns_org_id s = org" "ns_origin s = SO_Sweep" "ns_provenance s = [(k, r)]"
    and "mined_candidates st' = mined_candidates st + 1"
  shows "mines draw now window org {r} (st, db) (st', db')"
  unfolding mines_def
proof (intro conjI allI impI)
  fix db0 rs assume "mined_from draw now window org db0 rs (snd (st, db))"
  then have "mined_from draw now window org db0 (rs @ [r]) db'" using M_candidate assms by simp
  then show "\<exists>new. mined_from draw now window org db0 (rs @ new) (snd (st', db')) \<and> set new \<subseteq> {r} \<and>
      mined_candidates (fst (st', db')) = mined_candidates (fst (st, db)) + length new"
    using assms(7) by (intro exI [of _ "[r]"]) simp
next
  obtain x where x: "standards db' = standards db @ [x]" "divergences db' = divergences db"
    "set (std_provenance db') = insert \<lparr> sp_standard_id = ns_id s, sp_kind = k, sp_ref_id = r \<rparr> (set (std_provenance db))"
    using insert_standard_single [OF assms(2,6)] by metis
  then show "grown (snd (st, db)) (snd (st', db'))" unfolding grown_def by auto
  show "\<forall>k\<in>{r}. blocked admin_reach now window k (snd (st', db'))"
    using mined_signal_is_blocked [OF assms(2,6)] by simp
qed

lemma bridged_is_blocked:
  assumes "bridged ses k db \<noteq> None"
  shows "blocked admin_reach now window k db"
proof -
  obtain p where "find (\<lambda>p. sp_kind p = SPK_Divergence \<and> sp_ref_id p = k \<and>
      list_ex (\<lambda>s. sees_std ses s \<and> st_id s = sp_standard_id p \<and> st_lifecycle s \<noteq> SL_Rejected) (standards db))
      (std_provenance db) = Some p"
    using assms by (auto simp: bridged_def)
  then have p: "p \<in> set (std_provenance db)" "sp_ref_id p = k"
      "list_ex (\<lambda>s. sees_std ses s \<and> st_id s = sp_standard_id p \<and> st_lifecycle s \<noteq> SL_Rejected) (standards db)"
    by (auto simp: find_Some_iff)
  then show ?thesis unfolding blocked_iff admin_reach_def spoken_for_def by (auto simp: list_ex_iff)
qed

lemma mine_divergence_ids_mines:
  assumes "mine_divergence_ids short_id draw now org window ks acc = Some acc'"
    and "set ks \<subseteq> dv_id ` {d \<in> set (divergences (snd acc)). dv_org_id d = org}"
  shows "mines draw now window org (set ks) acc acc'"
  using assms
proof (induction short_id draw now org window ks acc rule: mine_divergence_ids.induct)
  case (1 short_id draw now org window acc)
  then show ?case using mines_nothing by simp
next
  case (2 short_id draw now org window k ks st db)
  show ?case
  proof (cases "blocked admin_reach now window k db")
    case True
    then have "mines draw now window org (set ks) (deduped st, db) acc'" using "2.IH"(1) "2.prems" by simp
    then show ?thesis using mines_trans [OF mines_skip [OF True]] by simp
  next
    case False
    then have nb: "bridged (org_session org) k db = None" using bridged_is_blocked by blast
    obtain d where d: "d \<in> set (divergences db)" "dv_id d = k" "dv_org_id d = org" using "2.prems"(2) by auto
    then obtain d' where d': "find (\<lambda>d. dv_id d = k \<and> dv_org_id d = p_org_id (s_principal (org_session org))) (divergences db) = Some d'"
      by (cases "find (\<lambda>d. dv_id d = k \<and> dv_org_id d = p_org_id (s_principal (org_session org))) (divergences db)")
        (auto simp: find_None_iff org_session_def)
    then have dd: "dv_id d' = k" "dv_org_id d' = org" by (auto simp: find_Some_iff org_session_def)
    define s where "s = divergence_candidate short_id (draw k) None d' (org_session org) db"
    have s: "ns_id s = draw k" "ns_org_id s = org" "ns_origin s = SO_Sweep" "ns_provenance s = [(SPK_Divergence, k)]"
      by (simp_all add: s_def divergence_candidate_def Let_def dd)
    have eq: "propose_from_divergence short_id now (org_session org) (draw k) k None db =
        (case insert_standard now s db of None \<Rightarrow> Inl () | Some db' \<Rightarrow> Inr (Some (draw k), db'))"
      by (simp add: propose_from_divergence_def nb d' s_def)
    obtain db' where ins: "insert_standard now s db = Some db'"
      using "2.prems"(1) False by (auto simp: eq split: option.splits)
    have m: "mines draw now window org {k} (st, db) (st\<lparr> mi_from_divergence := mi_from_divergence st + 1 \<rparr>, db')"
      by (rule mines_candidate [where draw = draw and r = k, OF False ins s]) (simp add: mined_candidates_def)
    have "divergences db' = divergences db" using m unfolding mines_def grown_def by simp
    then have "mines draw now window org (set ks) (st\<lparr> mi_from_divergence := mi_from_divergence st + 1 \<rparr>, db') acc'"
      using "2.IH"(2) [OF False, of "(Some (draw k), db')" "Some (draw k)" db'] "2.prems" False ins
      by (simp add: eq)
    then show ?thesis using mines_trans [OF m] by simp
  qed
qed

lemma mine_reinforced_rows_mines:
  assumes "mine_reinforced_rows short_id draw now org window fb ms acc = Some acc'"
  shows "mines draw now window org (m_id ` set ms) acc acc'"
  using assms
proof (induction short_id draw now org window fb ms acc rule: mine_reinforced_rows.induct)
  case (1 short_id draw now org window fb acc)
  then show ?case using mines_nothing by simp
next
  case (2 short_id draw now org window fb m ms st db)
  show ?case
  proof (cases "blocked admin_reach now window (m_id m) db")
    case True
    then show ?thesis using mines_trans [OF mines_skip [OF True]] "2.IH"(1) "2.prems" by simp
  next
    case False
    define s where "s = reinforced_candidate short_id (draw (m_id m)) org (helpful_count fb (m_id m)) m db"
    have s: "ns_id s = draw (m_id m)" "ns_org_id s = org" "ns_origin s = SO_Sweep" "ns_provenance s = [(SPK_Memory, m_id m)]"
      by (simp_all add: s_def reinforced_candidate_def)
    obtain db' where ins: "insert_standard now s db = Some db'"
      using "2.prems" False by (auto simp: s_def split: option.splits)
    have "mines draw now window org {m_id m} (st, db) (st\<lparr> mi_from_feedback := mi_from_feedback st + 1 \<rparr>, db')"
      by (rule mines_candidate [where draw = draw and r = "m_id m", OF False ins s]) (simp add: mined_candidates_def)
    moreover have "mines draw now window org (m_id ` set ms) (st\<lparr> mi_from_feedback := mi_from_feedback st + 1 \<rparr>, db') acc'"
      using "2.IH"(2) [OF False] "2.prems" False ins by (simp add: s_def)
    ultimately show ?thesis using mines_trans by fastforce
  qed
qed

lemma mine_winner_rows_mines:
  assumes "mine_winner_rows short_id draw now org window ws acc = Some acc'"
  shows "mines draw now window org ((\<lambda>w. m_id (fst w)) ` set ws) acc acc'"
  using assms
proof (induction short_id draw now org window ws acc rule: mine_winner_rows.induct)
  case (1 short_id draw now org window acc)
  then show ?case using mines_nothing by simp
next
  case (2 short_id draw now org window w msg ws st db)
  show ?case
  proof (cases "blocked admin_reach now window (m_id w) db")
    case True
    then have "propose_contradiction_winner short_id draw admin_reach now org w msg window db = Some (None, db)"
      by (simp add: propose_contradiction_winner_def)
    then have "mines draw now window org ((\<lambda>w. m_id (fst w)) ` set ws) (deduped st, db) acc'"
      using "2.IH"(1) [of "(None, db)" None db] "2.prems" by simp
    then show ?thesis using mines_trans [OF mines_skip [OF True]] by simp
  next
    case False
    define s where "s = winner_candidate short_id admin_reach (draw (m_id w)) org w msg db"
    have s: "ns_id s = draw (m_id w)" "ns_org_id s = org" "ns_origin s = SO_Sweep" "ns_provenance s = [(SPK_Memory, m_id w)]"
      by (simp_all add: s_def winner_candidate_def)
    have eq: "propose_contradiction_winner short_id draw admin_reach now org w msg window db =
        map_option (Pair (Some (draw (m_id w)))) (insert_standard now s db)"
      by (simp add: propose_contradiction_winner_def False s_def)
    obtain db' where ins: "insert_standard now s db = Some db'"
      using "2.prems" by (auto simp: eq split: option.splits)
    have "mines draw now window org {m_id w} (st, db) (st\<lparr> mi_from_contradiction := mi_from_contradiction st + 1 \<rparr>, db')"
      by (rule mines_candidate [where draw = draw and r = "m_id w", OF False ins s]) (simp add: mined_candidates_def)
    moreover have "mines draw now window org ((\<lambda>w. m_id (fst w)) ` set ws) (st\<lparr> mi_from_contradiction := mi_from_contradiction st + 1 \<rparr>, db') acc'"
      using "2.IH"(2) [of "(Some (draw (m_id w)), db')" "Some (draw (m_id w))" db' "draw (m_id w)"] "2.prems" ins by (simp add: eq)
    ultimately show ?thesis using mines_trans by fastforce
  qed
qed

section \<open>What a run of one organisation is\<close>

definition mining_signals :: "(dispute_note \<Rightarrow> string) \<Rightarrow> uuid \<Rightarrow> 'a knowledge_scheme \<Rightarrow> uuid set" where
  "mining_signals note_text org kn =
    dv_id ` {d \<in> set (divergences (k_library kn)). dv_org_id d = org}
    \<union> m_id ` set (reinforced_rows org (s_feedback kn) (s_corpus kn))
    \<union> (\<lambda>w. m_id (fst w)) ` set (winner_rows note_text org (s_corpus kn))"

lemma mine_org_mines:
  assumes "mine_org short_id note_text draw now org window kn = Some acc"
  shows "mines draw now window org (mining_signals note_text org kn) (mining_stats_default, k_library kn) acc"
proof -
  obtain a1 a2 where a: "mine_divergences short_id draw now org window (mining_stats_default, k_library kn) = Some a1"
    "mine_reinforced short_id draw now org window (s_feedback kn) (s_corpus kn) a1 = Some a2"
    "mine_contradictions short_id note_text draw now org window (s_corpus kn) a2 = Some acc"
    using assms unfolding mine_org_def by (auto simp: bind_eq_Some_conv)
  let ?ds = "map dv_id (filter (\<lambda>d. dv_org_id d = org) (divergences (k_library kn)))"
  have ds: "set ?ds = dv_id ` {d \<in> set (divergences (k_library kn)). dv_org_id d = org}" by simp
  have "mines draw now window org (set ?ds) (mining_stats_default, k_library kn) a1"
    using mine_divergence_ids_mines [of short_id draw now org window ?ds "(mining_stats_default, k_library kn)" a1] a(1) ds
    by (simp add: mine_divergences_def)
  then show ?thesis unfolding mining_signals_def ds [symmetric]
    by (intro mines_trans [OF mines_trans])
      (use a(2,3) in \<open>auto simp: mine_reinforced_def mine_contradictions_def
         intro: mine_reinforced_rows_mines mine_winner_rows_mines\<close>)
qed

text \<open>Signals that are spoken for are counted and nothing is written.\<close>

lemma mine_divergence_ids_blocked:
  "\<forall>k\<in>set ks. blocked admin_reach now window k (snd acc) \<Longrightarrow> mined_candidates (fst acc) = n \<Longrightarrow>
    \<exists>st. mine_divergence_ids short_id draw now org window ks acc = Some (st, snd acc) \<and> mined_candidates st = n"
  by (induction short_id draw now org window ks acc rule: mine_divergence_ids.induct) auto

lemma mine_reinforced_rows_blocked:
  "\<forall>k\<in>m_id ` set ms. blocked admin_reach now window k (snd acc) \<Longrightarrow> mined_candidates (fst acc) = n \<Longrightarrow>
    \<exists>st. mine_reinforced_rows short_id draw now org window fb ms acc = Some (st, snd acc) \<and> mined_candidates st = n"
  by (induction short_id draw now org window fb ms acc rule: mine_reinforced_rows.induct) auto

lemma mine_winner_rows_blocked:
  "\<forall>k\<in>(\<lambda>w. m_id (fst w)) ` set ws. blocked admin_reach now window k (snd acc) \<Longrightarrow> mined_candidates (fst acc) = n \<Longrightarrow>
    \<exists>st. mine_winner_rows short_id draw now org window ws acc = Some (st, snd acc) \<and> mined_candidates st = n"
  by (induction short_id draw now org window ws acc rule: mine_winner_rows.induct)
    (auto simp: propose_contradiction_winner_def)

lemma mine_org_blocked:
  assumes "\<forall>k\<in>mining_signals note_text org kn. blocked admin_reach now window k (k_library kn)"
  shows "\<exists>st. mine_org short_id note_text draw now org window kn = Some (st, k_library kn) \<and> mined_candidates st = 0"
proof -
  let ?ds = "map dv_id (filter (\<lambda>d. dv_org_id d = org) (divergences (k_library kn)))"
  have "\<forall>k\<in>set ?ds. blocked admin_reach now window k (snd (mining_stats_default, k_library kn))"
    using assms by (auto simp: mining_signals_def)
  then obtain s1 where s1: "mine_divergences short_id draw now org window (mining_stats_default, k_library kn) = Some (s1, k_library kn)"
    "mined_candidates s1 = 0"
    using mine_divergence_ids_blocked [of ?ds now window "(mining_stats_default, k_library kn)" 0 short_id draw org]
    by (auto simp: mine_divergences_def mined_candidates_def mining_stats_default_def)
  obtain s2 where s2: "mine_reinforced short_id draw now org window (s_feedback kn) (s_corpus kn) (s1, k_library kn) = Some (s2, k_library kn)"
    "mined_candidates s2 = 0"
    using mine_reinforced_rows_blocked [of "reinforced_rows org (s_feedback kn) (s_corpus kn)" now window "(s1, k_library kn)" 0 short_id draw org
        "s_feedback kn"] assms s1(2)
    by (auto simp: mine_reinforced_def mining_signals_def)
  obtain s3 where "mine_contradictions short_id note_text draw now org window (s_corpus kn) (s2, k_library kn) = Some (s3, k_library kn)"
    "mined_candidates s3 = 0"
    using mine_winner_rows_blocked [of "winner_rows note_text org (s_corpus kn)" now window "(s2, k_library kn)" 0 short_id draw org] assms s2(2)
    by (auto simp: mine_contradictions_def mining_signals_def)
  then show ?thesis using s1 s2 by (simp add: mine_org_def)
qed

lemma mining_run:
  assumes "mine_org short_id note_text draw now org window kn = Some (st, lib)"
  obtains signals new where "standards lib = standards (k_library kn) @ new" "map st_id new = map draw signals"
    "\<forall>s\<in>set new. fresh_candidate org s" "distinct signals" "length signals = mined_candidates st"
    "set signals \<subseteq> mining_signals note_text org kn"
    "\<forall>k\<in>set signals. \<not> blocked admin_reach now window k (k_library kn)"
proof -
  have m: "mines draw now window org (mining_signals note_text org kn) (mining_stats_default, k_library kn) (st, lib)"
    by (rule mine_org_mines [OF assms])
  obtain signals where r: "mined_from draw now window org (k_library kn) ([] @ signals) lib"
    "set signals \<subseteq> mining_signals note_text org kn" "mined_candidates st = mined_candidates mining_stats_default + length signals"
    using m M_nothing unfolding mines_def fst_conv snd_conv by blast
  have run: "mined_from draw now window org (k_library kn) signals lib" using r(1) by simp
  obtain new where "standards lib = standards (k_library kn) @ new" "map st_id new = map draw signals"
    "\<forall>s\<in>set new. fresh_candidate org s" using mined_from_grows(1) [OF run] by blast
  moreover have "length signals = mined_candidates st" using r(3) by (simp add: mined_candidates_def mining_stats_default_def)
  ultimately show ?thesis
    using that mined_from_distinct [OF run] r(2) mined_from_unblocked [OF run] by blast
qed

lemma mining_again:
  assumes "mine_org short_id note_text draw now org window kn = Some (st, lib)"
  shows "\<exists>st2. mine_org short_id note_text draw' now org window (kn\<lparr> k_library := lib \<rparr>) = Some (st2, lib) \<and> mined_candidates st2 = 0"
proof -
  have m: "mines draw now window org (mining_signals note_text org kn) (mining_stats_default, k_library kn) (st, lib)"
    by (rule mine_org_mines [OF assms])
  then have "divergences lib = divergences (k_library kn)" by (simp add: mines_def grown_def)
  then have "mining_signals note_text org (kn\<lparr> k_library := lib \<rparr>) = mining_signals note_text org kn"
    by (simp add: mining_signals_def)
  then show ?thesis using mine_org_blocked [of note_text org "kn\<lparr> k_library := lib \<rparr>" now window short_id draw'] m
    by (simp add: mines_def)
qed

text \<open>
  C12: A mining run respects what was decided.  It only appends: every rule of before is untouched, and
  what is new are unsigned proposals of the organisation, one per signal, from signals that exist and that
  no live rule and no rejection inside the window speaks for; the counters are right, and a second run
  proposes nothing.
\<close>

theorem mining_respects_decisions:
  assumes "mine_org short_id note_text draw now org window kn = Some (st, lib)"
  shows "(\<exists>signals new. standards lib = standards (k_library kn) @ new \<and> map st_id new = map draw signals \<and>
      (\<forall>s\<in>set new. fresh_candidate org s) \<and> distinct signals \<and> length signals = mined_candidates st \<and>
      set signals \<subseteq> mining_signals note_text org kn \<and>
      (\<forall>k\<in>set signals. \<not> blocked admin_reach now window k (k_library kn))) \<and>
    (\<exists>st2. mine_org short_id note_text draw' now org window (kn\<lparr> k_library := lib \<rparr>) = Some (st2, lib)
      \<and> mined_candidates st2 = 0)"
  using mining_run [OF assms] mining_again [OF assms] by metis

section \<open>A concrete sweep\<close>

definition example_helpful :: "uuid \<Rightarrow> uuid \<Rightarrow> uuid \<Rightarrow> feedback_row" where
  "example_helpful k org m =
    \<lparr> fb_id = k, fb_org_id = org, fb_memory_id = m, fb_user_id = 9, fb_verdict = ''helpful'', fb_note = None,
       fb_created_at = 0, fb_retrieval_event_id = None, fb_resolution = None, fb_resolved_by = None,
       fb_resolved_at = None, fb_resolution_note = None \<rparr>"

text \<open>
  Memory 4 of organisation 1 is a confirmed practice and the winner of a settled dispute; memory 9 of
  organisation 2 is a practice nobody confirmed yet.
\<close>

definition example_practice :: "uuid \<Rightarrow> uuid \<Rightarrow> mem_row" where
  "example_practice k org = (example_row k Vis_Org MS_Canonical)\<lparr> m_kind := MK_Pattern, m_org_id := org, m_content := ''A b'' \<rparr>"

definition example_practices :: knowledge where
  "example_practices = example_knowledge\<lparr>
     s_corpus := (s_corpus example_knowledge)\<lparr>
       memories := [example_practice 4 1, example_practice 9 2],
       contradictions := [(example_dispute 60 4 3)\<lparr> c_status := ''resolved_supersede'' \<rparr>] \<rparr>,
     s_feedback := [example_helpful 1 1 4, example_helpful 2 1 4],
     k_library := empty_library \<rparr>"

definition example_sweep :: "nat \<Rightarrow> instant \<Rightarrow> uuid list \<Rightarrow> knowledge \<Rightarrow> mining_stats option \<times> knowledge" where
  "example_sweep n now orgs kn =
    mine_all show_nat (\<lambda>_. ''settled'') (\<lambda>_ r. 20 * n + r) (\<lambda>_. now) 90 orgs mining_stats_default kn"

definition reject_proposals :: "instant \<Rightarrow> knowledge \<Rightarrow> knowledge" where
  "reject_proposals now kn = kn\<lparr> k_library :=
     fold (\<lambda>k lib. snd (the (reject_standard now example_session k 9 lib)))
       (map st_id (filter (\<lambda>s. st_org_id s = 1 \<and> st_lifecycle s = SL_Proposed) (standards (k_library kn)))) (k_library kn) \<rparr>"

definition example_history :: knowledge where
  "example_history =
    (let kn1 = reject_proposals 0 (snd (example_sweep 1 0 [1, 2] example_practices));
         kn2 = reject_proposals (days 91) (snd (example_sweep 2 (days 91) [1, 2] kn1))
     in kn2\<lparr> s_feedback := s_feedback kn2 @ [example_helpful 3 2 9, example_helpful 4 2 9] \<rparr>)"


definition example_mined :: "(mining_stats \<times> library_db) option" where
  "example_mined = mine_org show_nat (\<lambda>_. ''settled'') (\<lambda>r. 20 + r) 0 1 90 example_practices"

lemma example_mined_stats:
  "map_option (\<lambda>(st, _). (mi_from_feedback st, mi_from_contradiction st, mi_deduped st)) example_mined = Some (1, 0, 1)"
  by code_simp

lemma mining_respects_decisions_witness:
  "\<exists>st lib. example_mined = Some (st, lib) \<and> mined_candidates st = length (standards lib) \<and>
     (\<exists>st2. mine_org show_nat (\<lambda>_. ''settled'') (\<lambda>r. 40 + r) 0 1 90 (example_practices\<lparr> k_library := lib \<rparr>) = Some (st2, lib)
       \<and> mined_candidates st2 = 0)"
proof -
  obtain st lib where ex: "example_mined = Some (st, lib)" using example_mined_stats by (cases example_mined) auto
  note mined = mining_respects_decisions [OF ex [unfolded example_mined_def], where draw' = "\<lambda>r. 40 + r"]
  obtain signals new where new: "standards lib = standards (k_library example_practices) @ new"
    "map st_id new = map (\<lambda>r. 20 + r) signals" "length signals = mined_candidates st"
    using conjunct1 [OF mined] by blast
  have "standards (k_library example_practices) = []" by (simp add: example_practices_def empty_library_def)
  moreover have "length new = length signals" using arg_cong [OF new(2), of length] by simp
  ultimately have "mined_candidates st = length (standards lib)" using new by simp
  then show ?thesis using ex conjunct2 [OF mined] by blast
qed

end
