(* ===== verification/Reviews.thy ===== *)
theory Reviews
  imports Mining Tenancy
begin

text \<open>
  The human gates of \<open>brainiac-server/src/console.rs\<close>: promotions, contradictions, feedback claims and
  re-verification, with the error type of \<open>http.rs\<close> they answer with.  A handler is one transaction under
  the caller's policies, after the bearer has become a session (\<open>Tenancy\<close>): a refusal rolls it back, so a refused request returns the state it was given.
  \<open>None\<close> as the answer is a panic: the task dies, its transaction with it, and the client gets no
  response.  The messages that only format their arguments are shortened.
\<close>

section \<open>Errors on the wire\<close>

fun status_of :: "http_error \<Rightarrow> nat" where
  "status_of (BadRequest _) = 400"
| "status_of (Unauthorized _) = 401"
| "status_of (Forbidden _) = 403"
| "status_of (NotFoundError _) = 404"
| "status_of (Conflict _) = 409"
| "status_of (TooManyRequests _) = 429"
| "status_of Internal = 500"

definition code_for :: "nat \<Rightarrow> string" where
  "code_for status =
    (if status = 400 then ''bad_request'' else if status = 401 then ''unauthorized''
     else if status = 403 then ''forbidden'' else if status = 404 then ''not_found''
     else if status = 413 then ''payload_too_large'' else ''internal_error'')"

fun message_of :: "http_error \<Rightarrow> string" where
  "message_of (BadRequest m) = m"
| "message_of (Unauthorized m) = m"
| "message_of (Forbidden m) = m"
| "message_of (NotFoundError m) = m"
| "message_of (Conflict m) = m"
| "message_of (TooManyRequests m) = m"
| "message_of Internal = ''internal error''"

type_synonym 'a handled = "(http_error + 'a) option"

section \<open>Who may decide\<close>

definition sees_member :: "session \<Rightarrow> tenancy \<Rightarrow> member_row \<Rightarrow> bool" where
  "sees_member ses tn m =
    list_ex (\<lambda>t. tm_id t = mb_team_id m \<and> tm_org_id t = p_org_id (s_principal ses)) (team_rows tn)"

definition is_maintainer :: "session \<Rightarrow> tenancy \<Rightarrow> uuid \<Rightarrow> bool" where
  "is_maintainer ses tn team =
    list_ex (\<lambda>m. sees_member ses tn m \<and> mb_team_id m = team \<and> mb_user_id m = p_user_id (s_principal ses)
      \<and> mb_role m = ''maintainer'') (member_rows tn)"

definition is_any_maintainer :: "session \<Rightarrow> tenancy \<Rightarrow> bool" where
  "is_any_maintainer ses tn =
    list_ex (\<lambda>m. sees_member ses tn m \<and> mb_user_id m = p_user_id (s_principal ses) \<and> mb_role m = ''maintainer'')
      (member_rows tn)"

section \<open>Promotions\<close>

record pending_promotion =
  pp_memory_id :: uuid
  pp_to_status :: string
  pp_team_id :: uuid

record review_decision =
  rv_promotion_id :: uuid
  rv_memory_id :: uuid
  rv_decision :: string
  rv_memory_status :: string

definition sees_promotion :: "session \<Rightarrow> promotion_row \<Rightarrow> bool" where
  "sees_promotion ses p = (pr_org_id p = p_org_id (s_principal ses))"

definition is_pending :: "promotion_row \<Rightarrow> bool" where
  "is_pending p = (pr_policy_decision p = ''needs_review'' \<and> pr_reviewed_at p = None)"

text \<open>The join gives a row when the memory is visible; its team is read as a value that is not null.\<close>

definition actionable_promotion :: "session \<Rightarrow> uuid \<Rightarrow> corpus \<Rightarrow> pending_promotion handled" where
  "actionable_promotion ses k db =
    (case find (\<lambda>p. sees_promotion ses p \<and> pr_id p = k \<and> is_pending p \<and> visible_id db ses (pr_memory_id p)) (promotions db) of
       None \<Rightarrow> Some (Inl (NotFoundError ''promotion not found or not pending''))
     | Some p \<Rightarrow>
         map_option (\<lambda>t. Inr \<lparr> pp_memory_id = pr_memory_id p, pp_to_status = pr_to_status p, pp_team_id = t \<rparr>)
           (Option.bind (find (\<lambda>m. sees_memory db ses m \<and> m_id m = pr_memory_id p) (memories db)) m_team_id))"

definition stamp_promotion :: "instant \<Rightarrow> session \<Rightarrow> uuid \<Rightarrow> string \<Rightarrow> corpus \<Rightarrow> nat \<times> corpus" where
  "stamp_promotion now ses k decision db =
    (let hit = (\<lambda>p. sees_promotion ses p \<and> pr_id p = k \<and> pr_reviewed_at p = None) in
     (rows_affected hit (promotions db),
      db\<lparr> promotions := update_where hit
        (\<lambda>p. p\<lparr> pr_policy_decision := decision, pr_reviewer_id := Some (p_user_id (s_principal ses)), pr_reviewed_at := Some now \<rparr>)
        (promotions db) \<rparr>))"

definition review_one ::
  "instant \<Rightarrow> session \<Rightarrow> tenancy \<Rightarrow> uuid \<Rightarrow> bool \<Rightarrow> corpus \<Rightarrow> review_decision handled \<times> corpus" where
  "review_one now ses tn k approve db =
    (case actionable_promotion ses k db of
       None \<Rightarrow> (None, db)
     | Some (Inl e) \<Rightarrow> (Some (Inl e), db)
     | Some (Inr pending) \<Rightarrow>
         (if \<not> is_maintainer ses tn (pp_team_id pending)
          then (Some (Inl (Forbidden ''only a maintainer of the owning team can review promotions'')), db)
          else case (if approve then map_option (Pair ''approved'') (memory_status_parse (pp_to_status pending))
                     else Some (''denied'', MS_Rejected)) of
            None \<Rightarrow> (Some (Inl Internal), db)
          | Some (decision, new_status) \<Rightarrow>
              (case stamp_promotion now ses k decision db of (updated, db1) \<Rightarrow>
                 if updated = 0 then (Some (Inl (Conflict ''promotion was already reviewed'')), db)
                 else case set_memory_status now ses (pp_memory_id pending) new_status db1 of
                   (False, _) \<Rightarrow> (Some (Inl (Conflict ''the memory no longer exists or is out of scope'')), db)
                 | (True, db2) \<Rightarrow>
                     (Some (Inr \<lparr> rv_promotion_id = k, rv_memory_id = pp_memory_id pending, rv_decision = decision,
                        rv_memory_status = memory_status_as_str new_status \<rparr>), db2))))"

text \<open>A handler behind a bearer token: the lookup of the token, its scope, then the request as that user.\<close>

definition as_caller ::
  "(string \<Rightarrow> string) \<Rightarrow> instant \<Rightarrow> token_map \<Rightarrow> string option \<Rightarrow> string
    \<Rightarrow> (session \<Rightarrow> tenancy \<Rightarrow> 's \<Rightarrow> 'a handled \<times> 's) \<Rightarrow> tenancy \<times> 's \<Rightarrow> 'a handled \<times> tenancy \<times> 's" where
  "as_caller hash_token now env header scope request st =
    (case auth_of hash_token now env header scope (fst st) of
       (Inl e, tn) \<Rightarrow> (Some (Inl e), tn, snd st)
     | (Inr ctx, tn) \<Rightarrow>
         (case request \<lparr> s_principal = ac_principal ctx, s_worker = False \<rparr> tn (snd st) of (r, s) \<Rightarrow> (r, tn, s)))"

definition review_promotion ::
  "(string \<Rightarrow> string) \<Rightarrow> instant \<Rightarrow> token_map \<Rightarrow> string option \<Rightarrow> uuid \<Rightarrow> bool \<Rightarrow> tenancy \<times> corpus
    \<Rightarrow> review_decision handled \<times> tenancy \<times> corpus" where
  "review_promotion hash_token now env header k approve =
    as_caller hash_token now env header ''write'' (\<lambda>ses tn. review_one now ses tn k approve)"

definition approve ::
  "(string \<Rightarrow> string) \<Rightarrow> instant \<Rightarrow> token_map \<Rightarrow> string option \<Rightarrow> uuid \<Rightarrow> tenancy \<times> corpus
    \<Rightarrow> review_decision handled \<times> tenancy \<times> corpus" where
  "approve hash_token now env header k = review_promotion hash_token now env header k True"

definition reject ::
  "(string \<Rightarrow> string) \<Rightarrow> instant \<Rightarrow> token_map \<Rightarrow> string option \<Rightarrow> uuid \<Rightarrow> tenancy \<times> corpus
    \<Rightarrow> review_decision handled \<times> tenancy \<times> corpus" where
  "reject hash_token now env header k = review_promotion hash_token now env header k False"

section \<open>Bulk review\<close>

definition BULK_MAX :: nat where "BULK_MAX = 200"

record bulk_row =
  br_promotion_id :: uuid
  br_ok :: bool
  br_status :: nat
  br_memory_id :: "uuid option"
  br_memory_status :: "string option"
  br_error :: "string option"

record bulk_response =
  bk_decided :: nat
  bk_failed :: nat
  bk_results :: "bulk_row list"

definition bulk_row_of :: "uuid \<Rightarrow> http_error + review_decision \<Rightarrow> bulk_row" where
  "bulk_row_of k r =
    (case r of
       Inr d \<Rightarrow> \<lparr> br_promotion_id = k, br_ok = True, br_status = 200, br_memory_id = Some (rv_memory_id d),
                 br_memory_status = Some (rv_memory_status d), br_error = None \<rparr>
     | Inl e \<Rightarrow> \<lparr> br_promotion_id = k, br_ok = False, br_status = status_of e, br_memory_id = None,
                 br_memory_status = None, br_error = Some (message_of e) \<rparr>)"

text \<open>One transaction per id, each at its own time.  A panic ends the request with what is committed.\<close>

fun review_each ::
  "(uuid \<Rightarrow> instant) \<Rightarrow> session \<Rightarrow> tenancy \<Rightarrow> bool \<Rightarrow> uuid list \<Rightarrow> corpus \<Rightarrow> bulk_row list option \<times> corpus" where
  "review_each clock ses tn accept [] db = (Some [], db)"
| "review_each clock ses tn accept (k # ks) db =
    (case review_one (clock k) ses tn k accept db of
       (None, db1) \<Rightarrow> (None, db1)
     | (Some r, db1) \<Rightarrow>
         (case review_each clock ses tn accept ks db1 of
            (rows, db2) \<Rightarrow> (map_option ((#) (bulk_row_of k r)) rows, db2)))"

definition first_occurrences :: "'a list \<Rightarrow> 'a list" where
  "first_occurrences xs = fold (insert_or_ignore (\<lambda>x. x)) xs []"

definition bulk_batch ::
  "(uuid \<Rightarrow> instant) \<Rightarrow> bool \<Rightarrow> uuid list \<Rightarrow> session \<Rightarrow> tenancy \<Rightarrow> corpus \<Rightarrow> bulk_response handled \<times> corpus" where
  "bulk_batch clock accept ids ses tn db =
    (case review_each clock ses tn accept (first_occurrences ids) db of
       (None, db') \<Rightarrow> (None, db')
     | (Some rows, db') \<Rightarrow>
         (let decided = length (filter br_ok rows) in
          (Some (Inr \<lparr> bk_decided = decided, bk_failed = length rows - decided, bk_results = rows \<rparr>), db')))"

definition bulk_review ::
  "(string \<Rightarrow> string) \<Rightarrow> instant \<Rightarrow> (uuid \<Rightarrow> instant) \<Rightarrow> token_map \<Rightarrow> string option \<Rightarrow> string \<Rightarrow> uuid list \<Rightarrow> tenancy \<times> corpus
    \<Rightarrow> bulk_response handled \<times> tenancy \<times> corpus" where
  "bulk_review hash_token now clock env header action ids st =
    (case (if action = ''approve'' then Some True else if action = ''reject'' then Some False else None) of
       None \<Rightarrow> (Some (Inl (BadRequest ''unknown action'')), st)
     | Some accept \<Rightarrow>
         (if ids = [] then (Some (Inl (BadRequest ''no promotions given'')), st)
          else if length ids > BULK_MAX then (Some (Inl (BadRequest ''too many promotions in one batch'')), st)
          else as_caller hash_token now env header ''write'' (bulk_batch clock accept ids) st))"

section \<open>Contradictions\<close>

record resolve_body =
  rb_resolution :: string
  rb_winner_memory_id :: "uuid option"
  rb_note :: "string option"

record resolve_response =
  rs_contradiction_id :: uuid
  rs_status :: string
  rs_siblings_settled :: "uuid list"
  rs_siblings_carried_forward :: "uuid list"

text \<open>
  What a request draws from outside: the clock, fresh ids (of the audit row, of a dispute carried forward,
  of a mined candidate), the dedup window of the environment, and the two printers of the miner.
\<close>

record desk =
  dk_now :: instant
  dk_audit_id :: uuid
  dk_sibling_id :: "uuid \<Rightarrow> uuid"
  dk_draw :: "uuid \<Rightarrow> uuid"
  dk_window :: int
  dk_short_id :: "uuid \<Rightarrow> string"
  dk_note_text :: "dispute_note \<Rightarrow> string"

text \<open>The \<open>supersede\<close> branch up to the status: the corpus with the loser retired, and the pair.\<close>

definition supersede_decision ::
  "desk \<Rightarrow> session \<Rightarrow> tenancy \<Rightarrow> uuid \<Rightarrow> uuid \<Rightarrow> uuid option \<Rightarrow> corpus \<Rightarrow> ((uuid \<times> uuid) \<times> corpus) handled" where
  "supersede_decision dk ses tn a b winner_id db =
    (case winner_id of
       None \<Rightarrow> Some (Inl (BadRequest ''supersede requires winner_memory_id''))
     | Some winner \<Rightarrow>
         (if winner \<noteq> a \<and> winner \<noteq> b
          then Some (Inl (BadRequest ''winner_memory_id must be one of the contradiction's memories''))
          else let loser = (if winner = a then b else a) in
            case find (\<lambda>m. sees_memory db ses m \<and> m_id m = loser) (memories db) of
              None \<Rightarrow> Some (Inl (NotFoundError ''losing memory is not visible to you''))
            | Some loser_row \<Rightarrow>
                (case m_team_id loser_row of
                   None \<Rightarrow> None
                 | Some team \<Rightarrow>
                     (if \<not> is_maintainer ses tn team
                      then Some (Inl (Forbidden ''supersede requires a maintainer of the losing memory's team''))
                      else if m_superseded_by loser_row = Some winner then Some (Inr ((loser, winner), db))
                      else case apply_supersession (dk_now dk) ses (dk_audit_id dk) (p_org_id (s_principal ses)) loser winner
                          (Some (p_user_id (s_principal ses))) ''contradiction_supersede'' db of
                        (False, _) \<Rightarrow> Some (Inl (Conflict ''supersession could not be applied''))
                      | (True, db1) \<Rightarrow> Some (Inr ((loser, winner), db1))))))"

definition resolve_decision ::
  "desk \<Rightarrow> session \<Rightarrow> tenancy \<Rightarrow> contradiction_row \<Rightarrow> resolve_body \<Rightarrow> corpus
    \<Rightarrow> (string \<times> (uuid \<times> uuid) option \<times> corpus) handled" where
  "resolve_decision dk ses tn c body db =
    (if rb_resolution body = ''supersede''
     then map_option (map_sum (\<lambda>e. e) (\<lambda>(settled, db1). (''resolved_supersede'', Some settled, db1)))
       (supersede_decision dk ses tn (c_memory_a c) (c_memory_b c) (rb_winner_memory_id body) db)
     else if rb_resolution body = ''coexist'' then Some (Inr (''resolved_coexist'', None, db))
     else if rb_resolution body = ''dismiss'' then Some (Inr (''dismissed'', None, db))
     else Some (Inl (BadRequest ''unknown resolution'')))"

definition close_dispute :: "instant \<Rightarrow> session \<Rightarrow> uuid \<Rightarrow> string \<Rightarrow> string option \<Rightarrow> corpus \<Rightarrow> nat \<times> corpus" where
  "close_dispute now ses k status msg db =
    (let hit = (\<lambda>c. sees_contradiction ses c \<and> c_id c = k \<and> c_status c = ''open'') in
     (rows_affected hit (contradictions db),
      db\<lparr> contradictions := update_where hit
        (\<lambda>c. c\<lparr> c_status := status, c_note := (case msg of Some n \<Rightarrow> Some (NText n) | None \<Rightarrow> c_note c),
               c_resolved_by := Some (p_user_id (s_principal ses)), c_resolved_at := Some now \<rparr>) (contradictions db) \<rparr>))"

text \<open>After the dispute is closed: its siblings, and the one candidate its winner is mined for.\<close>

definition settle_others ::
  "desk \<Rightarrow> session \<Rightarrow> uuid \<Rightarrow> (uuid \<times> uuid) option \<Rightarrow> corpus \<Rightarrow> settled_sibling list \<times> corpus" where
  "settle_others dk ses k settled db =
    (case settled of
       None \<Rightarrow> ([], db)
     | Some (loser, winner) \<Rightarrow>
         settle_siblings_of_superseded (dk_now dk) ses (dk_sibling_id dk) (p_org_id (s_principal ses)) loser winner k
           (Some (p_user_id (s_principal ses))) db)"

definition mine_settled ::
  "desk \<Rightarrow> session \<Rightarrow> (uuid \<times> uuid) option \<Rightarrow> string option \<Rightarrow> corpus \<Rightarrow> library_db \<Rightarrow> library_db option" where
  "mine_settled dk ses settled msg db lib =
    (case settled of
       None \<Rightarrow> Some lib
     | Some (loser, winner) \<Rightarrow>
         map_option snd (mine_contradiction_winner (dk_short_id dk) (dk_draw dk) (session_reach ses db) (dk_now dk)
           (p_org_id (s_principal ses)) winner msg (dk_window dk) db lib))"

definition resolve_contradiction ::
  "desk \<Rightarrow> session \<Rightarrow> tenancy \<Rightarrow> uuid \<Rightarrow> resolve_body \<Rightarrow> 'a knowledge_scheme \<Rightarrow> resolve_response handled \<times> 'a knowledge_scheme" where
  "resolve_contradiction dk ses tn k body kn =
    (case find (\<lambda>c. sees_contradiction ses c \<and> c_id c = k \<and> c_status c = ''open'') (contradictions (s_corpus kn)) of
       None \<Rightarrow> (Some (Inl (NotFoundError ''contradiction not found or not open'')), kn)
     | Some c \<Rightarrow>
         (case resolve_decision dk ses tn c body (s_corpus kn) of
            None \<Rightarrow> (None, kn)
          | Some (Inl e) \<Rightarrow> (Some (Inl e), kn)
          | Some (Inr (status, settled, db1)) \<Rightarrow>
              (case close_dispute (dk_now dk) ses k status (rb_note body) db1 of (updated, db2) \<Rightarrow>
                 if updated = 0 then (Some (Inl (Conflict ''contradiction was already resolved'')), kn)
                 else case settle_others dk ses k settled db2 of (siblings, db3) \<Rightarrow>
                   let msg = (case rb_note body of Some n \<Rightarrow> Some n | None \<Rightarrow> map_option (dk_note_text dk) (c_note c)) in
                   case mine_settled dk ses settled msg db3 (k_library kn) of
                     None \<Rightarrow> (Some (Inl Internal), kn)
                   | Some lib \<Rightarrow>
                       (Some (Inr \<lparr> rs_contradiction_id = k, rs_status = status,
                           rs_siblings_settled = map ss_contradiction_id siblings,
                           rs_siblings_carried_forward = List.map_filter ss_carried_forward siblings \<rparr>),
                        kn\<lparr> s_corpus := db3, k_library := lib \<rparr>))))"

section \<open>Feedback claims\<close>

record claims_body =
  cb_resolution :: string
  cb_days :: "int option"
  cb_note :: "string option"

record claims_response =
  cs_memory_id :: uuid
  cs_resolution :: string
  cs_claims_closed :: nat
  cs_valid_to :: "instant option"

definition budget_days :: "int option \<Rightarrow> memory_kind \<Rightarrow> int" where
  "budget_days n kind = max 1 (min 3650 (case n of Some d \<Rightarrow> d | None \<Rightarrow> int (default_ttl_days kind)))"

definition may_answer :: "session \<Rightarrow> tenancy \<Rightarrow> mem_row \<Rightarrow> bool" where
  "may_answer ses tn m = (case m_team_id m of Some team \<Rightarrow> is_maintainer ses tn team | None \<Rightarrow> is_any_maintainer ses tn)"

text \<open>The match on the resolution: the new boundary, if it moved, and the corpus.\<close>

definition answer_claims ::
  "instant \<Rightarrow> uuid \<Rightarrow> session \<Rightarrow> mem_row \<Rightarrow> claims_body \<Rightarrow> corpus \<Rightarrow> http_error + (instant option \<times> corpus)" where
  "answer_claims now audit_id ses row body db =
    (let shut = (m_status row = MS_Deprecated \<or> m_superseded_by row \<noteq> None) in
     if cb_resolution body = ''reverified'' then
       (if shut then Inl (Conflict ''cannot re-verify a memory whose window is closed'')
        else case extend_validity now ses (m_id row) (budget_days (cb_days body) (m_kind row)) db of
          (Extended until, db1) \<Rightarrow> Inr (Some until, db1)
        | (Superseded, _) \<Rightarrow> Inl (Conflict ''memory was superseded concurrently'')
        | (NotFound, _) \<Rightarrow> Inl (NotFoundError ''memory not found''))
     else if cb_resolution body = ''deprecated'' then
       (if shut then Inl (Conflict ''memory is already deprecated'')
        else case apply_deprecation now ses audit_id (p_org_id (s_principal ses)) (m_id row)
            (Some (p_user_id (s_principal ses))) ''feedback_deprecate'' db of
          (False, _) \<Rightarrow> Inl (Conflict ''memory could not be deprecated under your scope'')
        | (True, db1) \<Rightarrow> Inr (None, db1))
     else Inr (None, db))"

definition resolve_feedback_claims ::
  "instant \<Rightarrow> uuid \<Rightarrow> session \<Rightarrow> tenancy \<Rightarrow> uuid \<Rightarrow> claims_body \<Rightarrow> 'a store_scheme \<Rightarrow> claims_response handled \<times> 'a store_scheme" where
  "resolve_feedback_claims now audit_id ses tn k body st =
    (if cb_resolution body \<notin> set RESOLUTIONS then (Some (Inl (BadRequest ''unknown resolution'')), st)
     else case find (\<lambda>m. sees_memory (s_corpus st) ses m \<and> m_id m = k) (memories (s_corpus st)) of
       None \<Rightarrow> (Some (Inl (NotFoundError ''memory not found'')), st)
     | Some row \<Rightarrow>
         (if \<not> may_answer ses tn row
          then (Some (Inl (Forbidden ''answering feedback claims requires a maintainer'')), st)
          else if open_claim_count ses k (s_feedback st) = 0
          then (Some (Inl (Conflict ''no open claims against this memory'')), st)
          else case answer_claims now audit_id ses row body (s_corpus st) of
            Inl e \<Rightarrow> (Some (Inl e), st)
          | Inr (valid_to, db1) \<Rightarrow>
              (case resolve_claims now ses k (p_user_id (s_principal ses)) (cb_resolution body) (cb_note body) (s_feedback st) of
                 (n_closed, fb) \<Rightarrow>
                   if n_closed = 0 then (Some (Inl (Conflict ''claims were closed concurrently'')), st)
                   else (Some (Inr \<lparr> cs_memory_id = k, cs_resolution = cb_resolution body, cs_claims_closed = n_closed,
                              cs_valid_to = valid_to \<rparr>), st\<lparr> s_corpus := db1, s_feedback := fb \<rparr>))))"

section \<open>Freshness\<close>

record reverify_response =
  vr_memory_id :: uuid
  vr_reverified :: bool
  vr_valid_to :: instant
  vr_days :: int
  vr_claims_closed :: nat

definition memory_reverify ::
  "instant \<Rightarrow> session \<Rightarrow> tenancy \<Rightarrow> uuid \<Rightarrow> int option \<Rightarrow> 'a store_scheme \<Rightarrow> reverify_response handled \<times> 'a store_scheme" where
  "memory_reverify now ses tn k body_days st =
    (case find (\<lambda>m. sees_memory (s_corpus st) ses m \<and> m_id m = k \<and> m_superseded_by m = None) (memories (s_corpus st)) of
       None \<Rightarrow> (Some (Inl (NotFoundError ''memory not found (or superseded)'')), st)
     | Some row \<Rightarrow>
         (if (case m_team_id row of Some team \<Rightarrow> \<not> is_maintainer ses tn team | None \<Rightarrow> False)
          then (Some (Inl (Forbidden ''re-verification requires a maintainer of the owning team'')), st)
          else let n = budget_days body_days (m_kind row) in
            case extend_validity now ses k n (s_corpus st) of
              (Superseded, _) \<Rightarrow> (Some (Inl (Conflict ''memory was superseded concurrently'')), st)
            | (NotFound, _) \<Rightarrow> (Some (Inl (NotFoundError ''memory not found'')), st)
            | (Extended until, db1) \<Rightarrow>
                (case resolve_claims now ses k (p_user_id (s_principal ses)) ''reverified'' None (s_feedback st) of
                   (n_closed, fb) \<Rightarrow>
                     (Some (Inr \<lparr> vr_memory_id = k, vr_reverified = True, vr_valid_to = until, vr_days = n,
                        vr_claims_closed = n_closed \<rparr>), st\<lparr> s_corpus := db1, s_feedback := fb \<rparr>))))"

record expiring_view =
  ex_id :: uuid
  ex_kind :: string
  ex_status :: string
  ex_content :: string
  ex_team_id :: "uuid option"
  ex_confidence :: "rat option"
  ex_valid_to :: "instant option"
  ex_days_left :: "int option"

text \<open>\<open>num_days\<close> rounds towards zero; \<open>clock\<close> is the handler's own \<open>Utc::now()\<close>.\<close>

definition num_days :: "int \<Rightarrow> int" where
  "num_days secs = (if secs < 0 then - ((- secs) div 86400) else secs div 86400)"

definition memories_expiring ::
  "instant \<Rightarrow> instant \<Rightarrow> session \<Rightarrow> int option \<Rightarrow> int option \<Rightarrow> corpus \<Rightarrow> int \<times> expiring_view list" where
  "memories_expiring now clock ses n limit db =
    (let window = max 0 (min 3650 (case n of Some d \<Rightarrow> d | None \<Rightarrow> 30)) in
     (window, map (\<lambda>m. \<lparr> ex_id = m_id m, ex_kind = memory_kind_as_str (m_kind m), ex_status = memory_status_as_str (m_status m),
          ex_content = m_content m, ex_team_id = m_team_id m, ex_confidence = m_confidence m, ex_valid_to = m_valid_to m,
          ex_days_left = map_option (\<lambda>t. num_days (t - clock)) (m_valid_to m) \<rparr>)
        (expiring now ses window (case limit of Some l \<Rightarrow> l | None \<Rightarrow> 50) db)))"

section \<open>The audit feed\<close>

definition AUDIT_KINDS :: "string list" where
  "AUDIT_KINDS = [''promotion_review'', ''contradiction_resolution'', ''feedback_resolution'']"

datatype audit_detail = Rationale "string option" | DisputeNote "dispute_note option"

record audit_event =
  ae_kind :: string
  ae_id :: uuid
  ae_memory_id :: uuid
  ae_memory_b :: "uuid option"
  ae_outcome :: string
  ae_detail :: audit_detail
  ae_actor_id :: "uuid option"
  ae_at :: instant

text \<open>\<open>created\<close> is the column \<open>promotions.created_at\<close>, which the model's rows do not carry.\<close>

definition promotion_events :: "(uuid \<Rightarrow> instant) \<Rightarrow> session \<Rightarrow> corpus \<Rightarrow> audit_event list" where
  "promotion_events created ses db =
    map (\<lambda>p. \<lparr> ae_kind = ''promotion_review'', ae_id = pr_id p, ae_memory_id = pr_memory_id p, ae_memory_b = None,
        ae_outcome = pr_policy_decision p, ae_detail = Rationale (Some (pr_policy_rule p)), ae_actor_id = pr_reviewer_id p,
        ae_at = (case pr_reviewed_at p of Some t \<Rightarrow> t | None \<Rightarrow> created (pr_id p)) \<rparr>)
      (filter (\<lambda>p. sees_promotion ses p \<and> (pr_reviewed_at p \<noteq> None \<or> pr_policy_decision p = ''auto_approved'')) (promotions db))"

definition dispute_events :: "session \<Rightarrow> corpus \<Rightarrow> audit_event list" where
  "dispute_events ses db =
    List.map_filter (\<lambda>c. map_option (\<lambda>t. \<lparr> ae_kind = ''contradiction_resolution'', ae_id = c_id c, ae_memory_id = c_memory_a c,
        ae_memory_b = Some (c_memory_b c), ae_outcome = c_status c, ae_detail = DisputeNote (c_note c),
        ae_actor_id = c_resolved_by c, ae_at = t \<rparr>) (c_resolved_at c))
      (filter (sees_contradiction ses) (contradictions db))"

text \<open>One event for the claims that one decision closed; \<open>resolution\<close> and \<open>resolved_at\<close> are written together.\<close>

definition claim_key :: "feedback_row \<Rightarrow> uuid \<times> string option \<times> uuid option \<times> instant option" where
  "claim_key f = (fb_memory_id f, fb_resolution f, fb_resolved_by f, fb_resolved_at f)"

definition least_of :: "('a \<Rightarrow> 'a \<Rightarrow> bool) \<Rightarrow> 'a list \<Rightarrow> 'a option" where
  "least_of le xs = (case sort_by le xs of [] \<Rightarrow> None | x # _ \<Rightarrow> Some x)"

definition answered_claims :: "session \<Rightarrow> corpus \<Rightarrow> feedback_tab \<Rightarrow> feedback_tab" where
  "answered_claims ses db fb =
    filter (\<lambda>f. sees_feedback ses f \<and> fb_resolved_at f \<noteq> None \<and> visible_id db ses (fb_memory_id f)) fb"

definition claim_event :: "feedback_tab \<Rightarrow> uuid \<times> string option \<times> uuid option \<times> instant option \<Rightarrow> audit_event" where
  "claim_event fs key =
    (let grp = filter (\<lambda>f. claim_key f = key) fs in
     \<lparr> ae_kind = ''feedback_resolution'', ae_id = the (least_of (\<lambda>a b. a \<le> b) (map fb_id grp)), ae_memory_id = fst key,
        ae_memory_b = None, ae_outcome = the (fst (snd key)),
        ae_detail = Rationale (least_of string_le (List.map_filter fb_resolution_note grp)),
        ae_actor_id = fst (snd (snd key)), ae_at = the (snd (snd (snd key))) \<rparr>)"

definition claim_events :: "session \<Rightarrow> corpus \<Rightarrow> feedback_tab \<Rightarrow> audit_event list" where
  "claim_events ses db fb =
    (let fs = answered_claims ses db fb in map (claim_event fs) (remdups (map claim_key fs)))"

definition audit_events :: "(uuid \<Rightarrow> instant) \<Rightarrow> session \<Rightarrow> 'a store_scheme \<Rightarrow> audit_event list" where
  "audit_events created ses st =
    promotion_events created ses (s_corpus st) @ dispute_events ses (s_corpus st) @ claim_events ses (s_corpus st) (s_feedback st)"

definition audit ::
  "(uuid \<Rightarrow> instant) \<Rightarrow> session \<Rightarrow> string option \<Rightarrow> int option \<Rightarrow> int option \<Rightarrow> 'a store_scheme
    \<Rightarrow> http_error + nat \<times> audit_event list" where
  "audit created ses kind limit offset st =
    (if (case kind of Some k \<Rightarrow> k \<notin> set AUDIT_KINDS | None \<Rightarrow> False) then Inl (BadRequest ''unknown kind'')
     else let evs = filter (\<lambda>e. case kind of Some k \<Rightarrow> ae_kind e = k | None \<Rightarrow> True) (audit_events created ses st) in
       Inr (length evs,
         page (nat (max 0 (case offset of Some n \<Rightarrow> n | None \<Rightarrow> 0))) (clamp_limit 1 200 (case limit of Some n \<Rightarrow> n | None \<Rightarrow> 50))
           (sort_by (\<lambda>a b. ae_at b \<le> ae_at a) evs)))"

end
