(* ===== verification/Gates.thy ===== *)
theory Gates
  imports Reviews
begin

text \<open>
  What the human gates of \<open>Reviews\<close> guarantee, stated over every request that changes state: who may move
  which memory, what a settlement leaves behind, that the audit feed names every decision, and that a batch is
  its single reviews; and two ways in which the gates fall short.
\<close>

section \<open>What a gate may touch\<close>

text \<open>The requests of the module that change state, and the state each leaves.\<close>

datatype gate_request =
  ReviewPromotion uuid bool
| ResolveDispute uuid resolve_body
| AnswerClaims uuid claims_body
| Reverify uuid "int option"

definition accepted :: "'a handled \<Rightarrow> bool" where
  "accepted r = (case r of Some (Inr _) \<Rightarrow> True | _ \<Rightarrow> False)"

fun gate_step :: "desk \<Rightarrow> session \<Rightarrow> tenancy \<Rightarrow> gate_request \<Rightarrow> 'a knowledge_scheme \<Rightarrow> bool \<times> 'a knowledge_scheme" where
  "gate_step dk ses tn (ReviewPromotion k accept) kn =
    (case review_one (dk_now dk) ses tn k accept (s_corpus kn) of (r, db) \<Rightarrow> (accepted r, kn\<lparr> s_corpus := db \<rparr>))"
| "gate_step dk ses tn (ResolveDispute k body) kn =
    (case resolve_contradiction dk ses tn k body kn of (r, kn') \<Rightarrow> (accepted r, kn'))"
| "gate_step dk ses tn (AnswerClaims k body) kn =
    (case resolve_feedback_claims (dk_now dk) (dk_audit_id dk) ses tn k body kn of (r, kn') \<Rightarrow> (accepted r, kn'))"
| "gate_step dk ses tn (Reverify k n) kn =
    (case memory_reverify (dk_now dk) ses tn k n kn of (r, kn') \<Rightarrow> (accepted r, kn'))"

lemma accepted_simps [simp]:
  "\<not> accepted None" "\<not> accepted (Some (Inl e))" "accepted (Some (Inr x))"
  by (simp_all add: accepted_def)

text \<open>Row by row, a memory is the one before or one that the caller could decide on.\<close>

definition moved_by :: "(mem_row \<Rightarrow> bool) \<Rightarrow> corpus \<Rightarrow> corpus \<Rightarrow> bool" where
  "moved_by may db db' = list_all2 (\<lambda>m m'. m' = m \<or> (m_id m' = m_id m \<and> may m)) (memories db) (memories db')"

lemma moved_by_same: "memories db' = memories db \<Longrightarrow> moved_by may db db'"
  by (simp add: moved_by_def list.rel_refl)

lemma moved_by_update:
  assumes "memories db' = update_where hit f (memories db)" "\<And>m. m_id (f m) = m_id m"
    and "\<And>m. m \<in> set (memories db) \<Longrightarrow> hit m \<Longrightarrow> may m"
  shows "moved_by may db db'"
  using assms by (auto simp: moved_by_def update_where_def list_all2_map2 intro!: list.rel_refl_strong)

lemma found_row:
  assumes "keys_ok db" "find (\<lambda>m. P m \<and> m_id m = k) (memories db) = Some m" "x \<in> set (memories db)" "m_id x = k"
  shows "x = m"
proof -
  have "m \<in> set (memories db)" "m_id m = k" using assms(2) by (auto simp: find_Some_iff)
  then show ?thesis using assms(3,4) keys_okD(1) [OF assms(1)] by (auto simp: distinct_map inj_on_def)
qed

lemma set_memory_status_memories:
  "memories (snd (set_memory_status now ses k status db)) =
    update_where (\<lambda>m. sees_memory db ses m \<and> m_id m = k) (\<lambda>m. m\<lparr> m_status := status, mr_updated_at := now \<rparr>) (memories db)"
  by (simp add: set_memory_status_def update_memory_def Let_def)

lemma stamp_promotion_frame [simp]:
  "memories (snd (stamp_promotion now ses k d db)) = memories db"
  "sees_memory (snd (stamp_promotion now ses k d db)) ses' m = sees_memory db ses' m"
  by (simp_all add: stamp_promotion_def Let_def sees_memory_def)

lemma actionable_promotion_Inr:
  assumes "actionable_promotion ses k db = Some (Inr pd)"
  obtains p m where "p \<in> set (promotions db)" "sees_promotion ses p" "pr_id p = k" "is_pending p"
    "pp_memory_id pd = pr_memory_id p" "pp_to_status pd = pr_to_status p"
    "find (\<lambda>m. sees_memory db ses m \<and> m_id m = pr_memory_id p) (memories db) = Some m" "m_team_id m = Some (pp_team_id pd)"
proof -
  obtain p where p: "find (\<lambda>p. sees_promotion ses p \<and> pr_id p = k \<and> is_pending p \<and> visible_id db ses (pr_memory_id p)) (promotions db) = Some p"
    using assms by (auto simp: actionable_promotion_def split: option.splits)
  then have "p \<in> set (promotions db)" "sees_promotion ses p" "pr_id p = k" "is_pending p" by (auto simp: find_Some_iff)
  moreover from p obtain m t where "find (\<lambda>m. sees_memory db ses m \<and> m_id m = pr_memory_id p) (memories db) = Some m" "m_team_id m = Some t"
    "pd = \<lparr> pp_memory_id = pr_memory_id p, pp_to_status = pr_to_status p, pp_team_id = t \<rparr>"
    using assms by (auto simp: actionable_promotion_def bind_eq_Some_conv)
  ultimately show ?thesis using that by simp
qed

lemma review_one_accepted:
  assumes "review_one now ses tn k accept db = (r, db')" "accepted r"
  obtains pd decision status where "actionable_promotion ses k db = Some (Inr pd)" "is_maintainer ses tn (pp_team_id pd)"
    "accept \<Longrightarrow> decision = ''approved'' \<and> memory_status_parse (pp_to_status pd) = Some status"
    "\<not> accept \<Longrightarrow> decision = ''denied'' \<and> status = MS_Rejected"
    "fst (set_memory_status now ses (pp_memory_id pd) status (snd (stamp_promotion now ses k decision db)))"
    "db' = snd (set_memory_status now ses (pp_memory_id pd) status (snd (stamp_promotion now ses k decision db)))"
    "r = Some (Inr \<lparr> rv_promotion_id = k, rv_memory_id = pp_memory_id pd, rv_decision = decision,
      rv_memory_status = memory_status_as_str status \<rparr>)"
proof -
  obtain pd where pd: "actionable_promotion ses k db = Some (Inr pd)" "is_maintainer ses tn (pp_team_id pd)"
    using assms by (auto simp: review_one_def split: option.splits sum.splits if_splits)
  obtain decision status where d: "(if accept then map_option (Pair ''approved'') (memory_status_parse (pp_to_status pd))
      else Some (''denied'', MS_Rejected)) = Some (decision, status)"
    using assms pd by (auto simp: review_one_def simp del: if_split split: option.splits)
  obtain n db1 where st: "stamp_promotion now ses k decision db = (n, db1)" by fastforce
  obtain ok db2 where sm: "set_memory_status now ses (pp_memory_id pd) status db1 = (ok, db2)" by fastforce
  have "ok" "db' = db2" "r = Some (Inr \<lparr> rv_promotion_id = k, rv_memory_id = pp_memory_id pd, rv_decision = decision,
      rv_memory_status = memory_status_as_str status \<rparr>)"
    using assms pd d st sm unfolding review_one_def by (cases ok; auto split: if_splits)+
  then show ?thesis using that [of pd decision status] pd d st sm by (auto split: if_splits)
qed

lemma review_one_refused: "review_one now ses tn k accept db = (r, db') \<Longrightarrow> \<not> accepted r \<Longrightarrow> db' = db"
  by (auto simp: review_one_def split: option.splits sum.splits if_splits prod.splits bool.splits)

lemma review_one_moves:
  assumes "keys_ok db" "review_one now ses tn k accept db = (r, db')"
  shows "moved_by (\<lambda>m. sees_memory db ses m \<and> may_answer ses tn m) db db'"
proof (cases "accepted r")
  case False
  then show ?thesis using review_one_refused [OF assms(2)] moved_by_same by blast
next
  case True
  obtain pd decision status where pd: "actionable_promotion ses k db = Some (Inr pd)" "is_maintainer ses tn (pp_team_id pd)"
    "db' = snd (set_memory_status now ses (pp_memory_id pd) status (snd (stamp_promotion now ses k decision db)))"
    by (rule review_one_accepted [OF assms(2) True]) (rule that, assumption+)
  obtain p :: promotion_row and m where m: "pp_memory_id pd = pr_memory_id p"
    "find (\<lambda>m. sees_memory db ses m \<and> m_id m = pr_memory_id p) (memories db) = Some m" "m_team_id m = Some (pp_team_id pd)"
    by (rule actionable_promotion_Inr [OF pd(1)]) (rule that, assumption+)
  have "may_answer ses tn x" if "x \<in> set (memories db)" "m_id x = pp_memory_id pd" for x
    using found_row [OF assms(1) m(2) that(1)] that(2) m pd(2) by (simp add: may_answer_def)
  note may = this
  have mem: "memories db' = update_where (\<lambda>m. sees_memory db ses m \<and> m_id m = pp_memory_id pd)
      (\<lambda>m. m\<lparr> m_status := status, mr_updated_at := now \<rparr>) (memories db)"
    by (simp add: pd(3) set_memory_status_memories)
  show ?thesis by (rule moved_by_update [OF mem]) (simp_all add: may)
qed

lemma supersede_decision_Inr:
  assumes "supersede_decision dk ses tn a b w db = Some (Inr (settled, db1))"
  obtains loser winner m team where "w = Some winner" "settled = (loser, winner)" "winner = a \<and> loser = b \<or> winner = b \<and> loser = a \<and> winner \<noteq> a"
    "find (\<lambda>m. sees_memory db ses m \<and> m_id m = loser) (memories db) = Some m" "m_team_id m = Some team" "is_maintainer ses tn team"
    "m_superseded_by m = Some winner \<and> db1 = db \<or>
      apply_supersession (dk_now dk) ses (dk_audit_id dk) (p_org_id (s_principal ses)) loser winner
        (Some (p_user_id (s_principal ses))) ''contradiction_supersede'' db = (True, db1)"
  using assms
  by (auto simp: supersede_decision_def Let_def split: option.splits if_splits prod.splits bool.splits)

lemma apply_supersession_moves:
  assumes "keys_ok db" "apply_supersession now ses i org loser winner by' rl db = (True, db')"
    and "find (\<lambda>m. sees_memory db ses m \<and> m_id m = loser) (memories db) = Some m" "may m" "sees_memory db ses m"
  shows "moved_by (\<lambda>m. sees_memory db ses m \<and> may m) db db'"
proof -
  obtain l w where g: "supersession_guard ses loser winner db l w"
    and db': "db' = write_supersession now ses i org loser winner (m_status l) by' rl db"
    using apply_supersession_True [OF assms(1), of now ses i org loser winner by' rl] assms(2) by auto
  have "sees_memory db ses x \<and> may x" if "x \<in> set (memories db)" "m_id x = loser" for x
    using found_row [OF assms(1,3) that] assms(4,5) by simp
  then show ?thesis unfolding db'
    by (intro moved_by_update [OF write_supersession_memories [OF assms(1) g]]) simp_all
qed

lemma resolve_contradiction_accepted:
  assumes "resolve_contradiction dk ses tn k body kn = (r, kn')" "accepted r"
  obtains c status settled db1 n db2 siblings db3 lib where
    "find (\<lambda>c. sees_contradiction ses c \<and> c_id c = k \<and> c_status c = ''open'') (contradictions (s_corpus kn)) = Some c"
    "resolve_decision dk ses tn c body (s_corpus kn) = Some (Inr (status, settled, db1))"
    "close_dispute (dk_now dk) ses k status (rb_note body) db1 = (n, db2)" "n \<noteq> 0"
    "settle_others dk ses k settled db2 = (siblings, db3)"
    "mine_settled dk ses settled (case rb_note body of Some n \<Rightarrow> Some n | None \<Rightarrow> map_option (dk_note_text dk) (c_note c)) db3
      (k_library kn) = Some lib"
    "r = Some (Inr \<lparr> rs_contradiction_id = k, rs_status = status, rs_siblings_settled = map ss_contradiction_id siblings,
      rs_siblings_carried_forward = List.map_filter ss_carried_forward siblings \<rparr>)"
    "kn' = kn\<lparr> s_corpus := db3, k_library := lib \<rparr>"
proof -
  have "find (\<lambda>c. sees_contradiction ses c \<and> c_id c = k \<and> c_status c = ''open'') (contradictions (s_corpus kn)) \<noteq> None"
  proof
    assume "find (\<lambda>c. sees_contradiction ses c \<and> c_id c = k \<and> c_status c = ''open'') (contradictions (s_corpus kn)) = None"
    then have "r = Some (Inl (NotFoundError ''contradiction not found or not open''))"
      using assms(1) by (simp add: resolve_contradiction_def)
    then show False using assms(2) by simp
  qed
  then obtain c where c: "find (\<lambda>c. sees_contradiction ses c \<and> c_id c = k \<and> c_status c = ''open'') (contradictions (s_corpus kn)) = Some c" by (auto simp only: not_None_eq)
  note run = assms(1) [unfolded resolve_contradiction_def c option.case]
  obtain z where z: "resolve_decision dk ses tn c body (s_corpus kn) = Some (Inr z)"
  proof (cases "resolve_decision dk ses tn c body (s_corpus kn)")
    case None
    then show ?thesis using run assms(2) by auto
  next
    case (Some y)
    then show ?thesis using run assms(2) that by (cases y) auto
  qed
  obtain status settled db1 where d: "resolve_decision dk ses tn c body (s_corpus kn) = Some (Inr (status, settled, db1))"
    using z by (cases z) auto
  obtain n db2 where n: "close_dispute (dk_now dk) ses k status (rb_note body) db1 = (n, db2)" by fastforce
  obtain siblings db3 where sb: "settle_others dk ses k settled db2 = (siblings, db3)" by fastforce
  let ?msg = "case rb_note body of Some n \<Rightarrow> Some n | None \<Rightarrow> map_option (dk_note_text dk) (c_note c)"
  have n0: "n \<noteq> 0"
  proof
    assume "n = 0"
    then have "r = Some (Inl (Conflict ''contradiction was already resolved''))"
      using assms(1) by (simp add: resolve_contradiction_def c d n)
    then show False using assms(2) by simp
  qed
  have run: "(case mine_settled dk ses settled ?msg db3 (k_library kn) of
      None \<Rightarrow> (Some (Inl Internal), kn)
    | Some lib \<Rightarrow> (Some (Inr \<lparr> rs_contradiction_id = k, rs_status = status, rs_siblings_settled = map ss_contradiction_id siblings,
        rs_siblings_carried_forward = List.map_filter ss_carried_forward siblings \<rparr>), kn\<lparr> s_corpus := db3, k_library := lib \<rparr>)) = (r, kn')"
    using assms(1) by (simp add: resolve_contradiction_def c d n n0 sb Let_def)
  then obtain lib where "mine_settled dk ses settled ?msg db3 (k_library kn) = Some lib"
    using assms(2) by (cases "mine_settled dk ses settled ?msg db3 (k_library kn)") auto
  then show ?thesis using run by (intro that [OF c d n n0 sb]) auto
qed

lemma resolve_contradiction_refused:
  "resolve_contradiction dk ses tn k body kn = (r, kn') \<Longrightarrow> \<not> accepted r \<Longrightarrow> kn' = kn"
  unfolding resolve_contradiction_def Let_def by (auto split: option.splits sum.splits prod.splits if_splits)

lemma close_dispute_frame [simp]:
  "memories (snd (close_dispute now ses k status msg db)) = memories db"
  "promotions (snd (close_dispute now ses k status msg db)) = promotions db"
  "isolated_projects (snd (close_dispute now ses k status msg db)) = isolated_projects db"
  by (simp_all add: close_dispute_def Let_def)

lemma close_dispute_keys: "keys_ok db \<Longrightarrow> keys_ok (snd (close_dispute now ses k status msg db))"
  by (simp add: close_dispute_def Let_def keys_ok_def)

lemma settle_others_memories:
  assumes "keys_ok db" "settle_others dk ses k settled db = (out, db')"
  shows "memories db' = memories db"
  using assms settle_siblings_result(1) [OF assms(1)]
  by (cases settled) (fastforce simp: settle_others_def)+

lemma resolve_decision_Inr:
  assumes "resolve_decision dk ses tn c body db = Some (Inr (status, settled, db1))"
  shows "settled = None \<and> db1 = db \<and> (rb_resolution body, status) \<in> {(''coexist'', ''resolved_coexist''), (''dismiss'', ''dismissed'')} \<or>
    (\<exists>pair. settled = Some pair \<and> rb_resolution body = ''supersede'' \<and> status = ''resolved_supersede'' \<and>
      supersede_decision dk ses tn (c_memory_a c) (c_memory_b c) (rb_winner_memory_id body) db = Some (Inr (pair, db1)))"
proof (cases "rb_resolution body = ''supersede''")
  case True
  then obtain z where z: "supersede_decision dk ses tn (c_memory_a c) (c_memory_b c) (rb_winner_memory_id body) db = Some z"
    "map_sum (\<lambda>e. e) (\<lambda>(settled, db1). (''resolved_supersede'', Some settled, db1)) z = Inr (status, settled, db1)"
    using assms by (auto simp: resolve_decision_def)
  then obtain pair where "z = Inr (pair, db1)" "status = ''resolved_supersede''" "settled = Some pair"
    by (cases z) auto
  then show ?thesis using True z(1) by blast
next
  case False
  then show ?thesis using assms by (auto simp: resolve_decision_def split: if_splits)
qed

lemma resolve_decision_moves:
  assumes "keys_ok db" "resolve_decision dk ses tn c body db = Some (Inr (status, settled, db1))"
  shows "moved_by (\<lambda>m. sees_memory db ses m \<and> may_answer ses tn m) db db1" and "keys_ok db1"
proof -
  have "moved_by (\<lambda>m. sees_memory db ses m \<and> may_answer ses tn m) db db1 \<and> keys_ok db1"
    using resolve_decision_Inr [OF assms(2)]
  proof (elim disjE exE conjE)
    fix pair assume "supersede_decision dk ses tn (c_memory_a c) (c_memory_b c) (rb_winner_memory_id body) db = Some (Inr (pair, db1))"
    then obtain loser winner m team where p: "find (\<lambda>m. sees_memory db ses m \<and> m_id m = loser) (memories db) = Some m"
      "m_team_id m = Some team" "is_maintainer ses tn team"
      "m_superseded_by m = Some winner \<and> db1 = db \<or>
        apply_supersession (dk_now dk) ses (dk_audit_id dk) (p_org_id (s_principal ses)) loser winner
          (Some (p_user_id (s_principal ses))) ''contradiction_supersede'' db = (True, db1)"
      by (rule supersede_decision_Inr) (rule that, assumption+)
    have "sees_memory db ses m" using p(1) by (auto simp: find_Some_iff)
    moreover have "may_answer ses tn m" using p(2,3) by (simp add: may_answer_def)
    ultimately show ?thesis using p(4)
    proof (elim disjE conjE)
      assume a: "apply_supersession (dk_now dk) ses (dk_audit_id dk) (p_org_id (s_principal ses)) loser winner
          (Some (p_user_id (s_principal ses))) ''contradiction_supersede'' db = (True, db1)"
      show ?thesis
      proof
        show "moved_by (\<lambda>m. sees_memory db ses m \<and> may_answer ses tn m) db db1"
          by (rule apply_supersession_moves [OF assms(1) a p(1)]) fact+
        show "keys_ok db1"
          using apply_supersession_keys [OF assms(1), of "dk_now dk" ses "dk_audit_id dk" "p_org_id (s_principal ses)" loser winner
              "Some (p_user_id (s_principal ses))" "''contradiction_supersede''"] by (simp add: a)
      qed
    qed (use assms(1) moved_by_same in auto)
  qed (use assms(1) moved_by_same in auto)
  then show "moved_by (\<lambda>m. sees_memory db ses m \<and> may_answer ses tn m) db db1" and "keys_ok db1" by blast+
qed

lemma resolve_contradiction_moves:
  assumes "keys_ok (s_corpus kn)" "resolve_contradiction dk ses tn k body kn = (r, kn')"
  shows "moved_by (\<lambda>m. sees_memory (s_corpus kn) ses m \<and> may_answer ses tn m) (s_corpus kn) (s_corpus kn')"
proof (cases "accepted r")
  case False
  then show ?thesis using resolve_contradiction_refused [OF assms(2)] moved_by_same by blast
next
  case True
  obtain c status settled db1 n db2 siblings db3 lib where
    d: "resolve_decision dk ses tn c body (s_corpus kn) = Some (Inr (status, settled, db1))"
    "close_dispute (dk_now dk) ses k status (rb_note body) db1 = (n, db2)"
    "settle_others dk ses k settled db2 = (siblings, db3)" "kn' = kn\<lparr> s_corpus := db3, k_library := lib \<rparr>"
    by (rule resolve_contradiction_accepted [OF assms(2) True]) (rule that, assumption+)
  note m = resolve_decision_moves [OF assms(1) d(1)]
  have "keys_ok db2" "memories db2 = memories db1"
    using close_dispute_keys [OF m(2)] close_dispute_frame(1) d(2) by (metis snd_conv)+
  then have "memories db3 = memories db1" using settle_others_memories d(3) by simp
  then show ?thesis using m(1) by (simp add: moved_by_def d(4))
qed

lemma resolve_feedback_claims_refused:
  "resolve_feedback_claims now i ses tn k body st = (r, st') \<Longrightarrow> \<not> accepted r \<Longrightarrow> st' = st"
  unfolding resolve_feedback_claims_def by (auto split: option.splits sum.splits prod.splits if_splits)

lemma resolve_feedback_claims_accepted:
  assumes "resolve_feedback_claims now i ses tn k body st = (r, st')" "accepted r"
  obtains row valid_to db1 n fb where
    "find (\<lambda>m. sees_memory (s_corpus st) ses m \<and> m_id m = k) (memories (s_corpus st)) = Some row" "may_answer ses tn row"
    "answer_claims now i ses row body (s_corpus st) = Inr (valid_to, db1)"
    "resolve_claims now ses k (p_user_id (s_principal ses)) (cb_resolution body) (cb_note body) (s_feedback st) = (n, fb)" "n \<noteq> 0"
    "st' = st\<lparr> s_corpus := db1, s_feedback := fb \<rparr>"
proof -
  have res: "cb_resolution body \<in> set RESOLUTIONS" using assms by (auto simp: resolve_feedback_claims_def split: if_splits)
  have "find (\<lambda>m. sees_memory (s_corpus st) ses m \<and> m_id m = k) (memories (s_corpus st)) \<noteq> None"
  proof
    assume "find (\<lambda>m. sees_memory (s_corpus st) ses m \<and> m_id m = k) (memories (s_corpus st)) = None"
    then have "r = Some (Inl (NotFoundError ''memory not found''))"
      using assms(1) res by (simp add: resolve_feedback_claims_def)
    then show False using assms(2) by simp
  qed
  then obtain row where row: "find (\<lambda>m. sees_memory (s_corpus st) ses m \<and> m_id m = k) (memories (s_corpus st)) = Some row" by (auto simp only: not_None_eq)
  have may: "may_answer ses tn row" using assms res row by (auto simp: resolve_feedback_claims_def split: if_splits)
  obtain valid_to db1 where a: "answer_claims now i ses row body (s_corpus st) = Inr (valid_to, db1)"
    using assms res row by (auto simp: resolve_feedback_claims_def split: if_splits sum.splits)
  obtain n fb where n: "resolve_claims now ses k (p_user_id (s_principal ses)) (cb_resolution body) (cb_note body) (s_feedback st) = (n, fb)"
    by fastforce
  have "n \<noteq> 0 \<and> st' = st\<lparr> s_corpus := db1, s_feedback := fb \<rparr>"
    using assms res row may a n by (auto simp: resolve_feedback_claims_def split: if_splits)
  then show ?thesis using that [OF row may a n] by blast
qed

lemma memory_reverify_refused:
  "memory_reverify now ses tn k n st = (r, st') \<Longrightarrow> \<not> accepted r \<Longrightarrow> st' = st"
  unfolding memory_reverify_def Let_def
  by (auto split: option.splits prod.splits if_splits extend_outcome.splits)

lemma memory_reverify_accepted:
  assumes "memory_reverify now ses tn k n st = (r, st')" "accepted r"
  obtains row until db1 c fb where
    "find (\<lambda>m. sees_memory (s_corpus st) ses m \<and> m_id m = k \<and> m_superseded_by m = None) (memories (s_corpus st)) = Some row"
    "\<And>team. m_team_id row = Some team \<Longrightarrow> is_maintainer ses tn team"
    "extend_validity now ses k (budget_days n (m_kind row)) (s_corpus st) = (Extended until, db1)"
    "resolve_claims now ses k (p_user_id (s_principal ses)) ''reverified'' None (s_feedback st) = (c, fb)"
    "st' = st\<lparr> s_corpus := db1, s_feedback := fb \<rparr>"
proof -
  have "find (\<lambda>m. sees_memory (s_corpus st) ses m \<and> m_id m = k \<and> m_superseded_by m = None) (memories (s_corpus st)) \<noteq> None"
  proof
    assume "find (\<lambda>m. sees_memory (s_corpus st) ses m \<and> m_id m = k \<and> m_superseded_by m = None) (memories (s_corpus st)) = None"
    then have "r = Some (Inl (NotFoundError ''memory not found (or superseded)''))"
      using assms(1) by (simp add: memory_reverify_def)
    then show False using assms(2) by simp
  qed
  then obtain row where row: "find (\<lambda>m. sees_memory (s_corpus st) ses m \<and> m_id m = k \<and> m_superseded_by m = None) (memories (s_corpus st)) = Some row" by (auto simp only: not_None_eq)
  note run = assms(1) [unfolded memory_reverify_def Let_def row option.case]
  have may: "is_maintainer ses tn team" if "m_team_id row = Some team" for team
    using run assms(2) that by (auto split: if_splits)
  obtain out db1 where e: "extend_validity now ses k (budget_days n (m_kind row)) (s_corpus st) = (out, db1)" by fastforce
  obtain until where u: "out = Extended until" using run assms(2) e by (cases out) (auto split: if_splits option.splits)
  obtain c fb where c: "resolve_claims now ses k (p_user_id (s_principal ses)) ''reverified'' None (s_feedback st) = (c, fb)" by fastforce
  have "st' = st\<lparr> s_corpus := db1, s_feedback := fb \<rparr>"
    using run assms(2) e u c by (auto split: if_splits option.splits)
  then show ?thesis using that [OF row may e [unfolded u] c] by blast
qed

lemma extend_validity_moves:
  assumes "keys_ok db" "extend_validity now ses k n db = (Extended until, db')"
    and "find (\<lambda>m. (sees_memory db ses m \<and> P m) \<and> m_id m = k) (memories db) = Some row" "may row"
  shows "moved_by (\<lambda>m. sees_memory db ses m \<and> may m) db db'"
proof -
  have mem: "memories db' = update_where (\<lambda>m. sees_memory db ses m \<and> m_id m = k \<and> m_superseded_by m = None)
      (\<lambda>m. m\<lparr> m_valid_to := Some (now + days n), mr_updated_at := now \<rparr>) (memories db)"
    using assms(2) by (auto simp: extend_validity_def Let_def split: option.splits if_splits)
  show ?thesis
    by (rule moved_by_update [OF mem]) (use found_row [OF assms(1,3)] assms(4) in auto)
qed

lemma answer_claims_moves:
  assumes "keys_ok db" "answer_claims now i ses row body db = Inr (v, db')"
    and row: "find (\<lambda>m. sees_memory db ses m \<and> m_id m = k) (memories db) = Some row" "may row"
  shows "moved_by (\<lambda>m. sees_memory db ses m \<and> may m) db db'"
proof -
  have k: "m_id row = k" using row(1) by (auto simp: find_Some_iff)
  consider (ext) until where "extend_validity now ses k (budget_days (cb_days body) (m_kind row)) db = (Extended until, db')"
    | (dep) "apply_deprecation now ses i (p_org_id (s_principal ses)) k (Some (p_user_id (s_principal ses))) ''feedback_deprecate'' db = (True, db')"
    | (same) "db' = db"
    using assms(2) k unfolding answer_claims_def Let_def
    by (auto split: if_splits prod.splits extend_outcome.splits bool.splits)
  then show ?thesis
  proof cases
    case ext
    then show ?thesis using extend_validity_moves [OF assms(1) ext, where P = "\<lambda>_. True" and may = may] row by simp
  next
    case dep
    have mem: "memories db' = update_where (\<lambda>m. sees_memory db ses m \<and> m_id m = k \<and> m_status m \<noteq> MS_Deprecated)
        (\<lambda>m. m\<lparr> m_status := MS_Deprecated, m_valid_to := Some now, mr_updated_at := now \<rparr>) (memories db)"
      using dep by (auto simp: apply_deprecation_def Let_def split: option.splits if_splits)
    show ?thesis
      by (rule moved_by_update [OF mem]) (use found_row [OF assms(1) row(1)] row(2) in auto)
  qed (simp add: moved_by_same)
qed

definition may_touch :: "session \<Rightarrow> tenancy \<Rightarrow> gate_request \<Rightarrow> mem_row \<Rightarrow> bool" where
  "may_touch ses tn rq m \<longleftrightarrow> may_answer ses tn m \<or> (m_team_id m = None \<and> (\<exists>k n. rq = Reverify k n))"

lemma moved_by_weaken: "moved_by may db db' \<Longrightarrow> (\<And>m. may m \<Longrightarrow> may' m) \<Longrightarrow> moved_by may' db db'"
  by (auto simp: moved_by_def elim!: list_all2_mono)

lemma gate_step_moves:
  assumes "keys_ok (s_corpus kn)" "gate_step dk ses tn rq kn = (ok, kn')"
  shows "moved_by (\<lambda>m. sees_memory (s_corpus kn) ses m \<and> may_touch ses tn rq m) (s_corpus kn) (s_corpus kn')"
proof (cases rq)
  case (ReviewPromotion k accept)
  obtain r db' where r: "review_one (dk_now dk) ses tn k accept (s_corpus kn) = (r, db')" by fastforce
  then have "s_corpus kn' = db'" using assms(2) ReviewPromotion by auto
  then show ?thesis using moved_by_weaken [OF review_one_moves [OF assms(1) r]] by (simp add: may_touch_def)
next
  case (ResolveDispute k body)
  obtain r where r: "resolve_contradiction dk ses tn k body kn = (r, kn')"
    using assms(2) ResolveDispute by (auto split: prod.splits)
  show ?thesis using moved_by_weaken [OF resolve_contradiction_moves [OF assms(1) r]] by (simp add: may_touch_def)
next
  case (AnswerClaims k body)
  obtain r where r: "resolve_feedback_claims (dk_now dk) (dk_audit_id dk) ses tn k body kn = (r, kn')"
    using assms(2) AnswerClaims by (auto split: prod.splits)
  show ?thesis
  proof (cases "accepted r")
    case True
    obtain row v db1 fb where a: "find (\<lambda>m. sees_memory (s_corpus kn) ses m \<and> m_id m = k) (memories (s_corpus kn)) = Some row"
      "may_answer ses tn row" "answer_claims (dk_now dk) (dk_audit_id dk) ses row body (s_corpus kn) = Inr (v, db1)"
      "kn' = kn\<lparr> s_corpus := db1, s_feedback := fb \<rparr>"
      by (rule resolve_feedback_claims_accepted [OF r True]) (rule that, assumption+)
    show ?thesis
      using answer_claims_moves [OF assms(1) a(3,1), where may = "may_touch ses tn rq"] a(2,4) by (simp add: may_touch_def)
  next
    case False
    then show ?thesis using resolve_feedback_claims_refused [OF r] moved_by_same by blast
  qed
next
  case (Reverify k n)
  obtain r where r: "memory_reverify (dk_now dk) ses tn k n kn = (r, kn')"
    using assms(2) Reverify by (auto split: prod.splits)
  show ?thesis
  proof (cases "accepted r")
    case True
    obtain row until db1 fb where a: "find (\<lambda>m. sees_memory (s_corpus kn) ses m \<and> m_id m = k \<and> m_superseded_by m = None) (memories (s_corpus kn)) = Some row"
      "\<And>team. m_team_id row = Some team \<Longrightarrow> is_maintainer ses tn team"
      "extend_validity (dk_now dk) ses k (budget_days n (m_kind row)) (s_corpus kn) = (Extended until, db1)"
      "kn' = kn\<lparr> s_corpus := db1, s_feedback := fb \<rparr>"
      by (rule memory_reverify_accepted [OF r True]) (rule that, assumption+)
    have "may_touch ses tn rq row" using a(2) Reverify by (cases "m_team_id row") (auto simp: may_touch_def may_answer_def)
    moreover have "find (\<lambda>m. (sees_memory (s_corpus kn) ses m \<and> m_superseded_by m = None) \<and> m_id m = k) (memories (s_corpus kn)) = Some row"
      using a(1) by (simp add: conj_ac)
    ultimately show ?thesis
      using extend_validity_moves [OF assms(1) a(3), where P = "\<lambda>m. m_superseded_by m = None" and may = "may_touch ses tn rq"] a(4) by simp
  next
    case False
    then show ?thesis using memory_reverify_refused [OF r] moved_by_same by blast
  qed
qed

lemma gate_step_refused: "gate_step dk ses tn rq kn = (False, kn') \<Longrightarrow> kn' = kn"
proof (cases rq)
  case (ReviewPromotion k accept)
  assume g: "gate_step dk ses tn rq kn = (False, kn')"
  obtain r db' where r: "review_one (dk_now dk) ses tn k accept (s_corpus kn) = (r, db')" by fastforce
  then have "\<not> accepted r" "kn' = kn\<lparr> s_corpus := db' \<rparr>" using g ReviewPromotion by auto
  then show ?thesis using review_one_refused [OF r] by simp
next
  case (ResolveDispute k body)
  assume g: "gate_step dk ses tn rq kn = (False, kn')"
  then obtain r where "resolve_contradiction dk ses tn k body kn = (r, kn')" "\<not> accepted r"
    using ResolveDispute by (auto split: prod.splits)
  then show ?thesis using resolve_contradiction_refused by blast
next
  case (AnswerClaims k body)
  assume g: "gate_step dk ses tn rq kn = (False, kn')"
  then obtain r where "resolve_feedback_claims (dk_now dk) (dk_audit_id dk) ses tn k body kn = (r, kn')" "\<not> accepted r"
    using AnswerClaims by (auto split: prod.splits)
  then show ?thesis using resolve_feedback_claims_refused by blast
next
  case (Reverify k n)
  assume g: "gate_step dk ses tn rq kn = (False, kn')"
  then obtain r where "memory_reverify (dk_now dk) ses tn k n kn = (r, kn')" "\<not> accepted r"
    using Reverify by (auto split: prod.splits)
  then show ?thesis using memory_reverify_refused by blast
qed

section \<open>What a settlement leaves behind\<close>

lemma carry_forward_ids:
  "carry_forward ses i org w cp src dep db = (res, db') \<Longrightarrow>
    \<exists>new. db' = db\<lparr> contradictions := contradictions db @ new \<rparr> \<and> c_id ` set new \<subseteq> {i}"
proof (cases res)
  case None
  assume "carry_forward ses i org w cp src dep db = (res, db')"
  then have "db' = db" using None by (auto simp: carry_forward_def split: if_splits)
  then show ?thesis by (intro exI [of _ "[]"]) simp
qed (auto simp: carry_forward_def split: if_splits)

lemma update_where_other:
  assumes "\<And>x. key (f x) = key x" "\<And>x. hit x \<Longrightarrow> key x \<noteq> k" "key c = k"
  shows "c \<in> set (update_where hit f rows) \<longleftrightarrow> c \<in> set rows"
proof
  assume "c \<in> set (update_where hit f rows)"
  then obtain x where x: "x \<in> set rows" "c = (if hit x then f x else x)" unfolding set_update_where by blast
  then have "key x = k" using assms(1) [of x] assms(3) by (cases "hit x") simp_all
  then have "\<not> hit x" using assms(2) by blast
  then show "c \<in> set rows" using x by simp
next
  assume c: "c \<in> set rows"
  have "\<not> hit c" using assms(2,3) by blast
  then show "c \<in> set (update_where hit f rows)" unfolding set_update_where using c by (intro image_eqI [of _ _ c]) simp_all
qed

lemma carry_all_ids:
  "carry_all ses f org dep winner rows db = (out, db') \<Longrightarrow>
    \<exists>new. db' = db\<lparr> contradictions := contradictions db @ new \<rparr> \<and> c_id ` set new \<subseteq> range f"
proof (induction rows arbitrary: db out)
  case (Cons r rows)
  obtain res db1 where step: "carry_forward ses (f (c_id r)) org winner (if c_memory_a r = dep then c_memory_b r else c_memory_a r)
      (c_id r) dep db = (res, db1)" by fastforce
  obtain out2 where rest: "carry_all ses f org dep winner rows db1 = (out2, db')"
    using Cons.prems step by (auto simp: Let_def split: prod.splits)
  obtain n1 n2 where "db1 = db\<lparr> contradictions := contradictions db @ n1 \<rparr>" "c_id ` set n1 \<subseteq> {f (c_id r)}"
    "db' = db1\<lparr> contradictions := contradictions db1 @ n2 \<rparr>" "c_id ` set n2 \<subseteq> range f"
    using carry_forward_ids [OF step] Cons.IH [OF rest] by blast
  then show ?case by (intro exI [of _ "n1 @ n2"]) auto
next
  case Nil
  then show ?case by (intro exI [of _ "[]"]) simp
qed

lemma settle_others_frame:
  assumes "settle_others dk ses k settled db = (out, db')" "k \<notin> range (dk_sibling_id dk)"
  shows "promotions db' = promotions db" "memories db' = memories db" "isolated_projects db' = isolated_projects db"
    and "\<And>c. c_id c = k \<Longrightarrow> c \<in> set (contradictions db') \<longleftrightarrow> c \<in> set (contradictions db)"
proof -
  have "promotions db' = promotions db \<and> memories db' = memories db \<and> isolated_projects db' = isolated_projects db \<and>
    (\<forall>c. c_id c = k \<longrightarrow> (c \<in> set (contradictions db') \<longleftrightarrow> c \<in> set (contradictions db)))"
  proof (cases settled)
    case None
    then show ?thesis using assms(1) by (simp add: settle_others_def)
  next
    case (Some pair)
    obtain loser winner where pair: "pair = (loser, winner)" by fastforce
    let ?org = "p_org_id (s_principal ses)"
    let ?moot = "update_where (is_sibling ses ?org loser k) (moot_row (dk_now dk) loser winner k (Some (p_user_id (s_principal ses))))
        (contradictions db)"
    have run: "carry_all ses (dk_sibling_id dk) ?org loser winner (filter (is_sibling ses ?org loser k) (contradictions db))
        (db\<lparr> contradictions := ?moot \<rparr>) = (out, db')"
      using assms(1) by (simp add: settle_others_def Some pair settle_siblings_of_superseded_def Let_def)
    obtain new where new: "db' = db\<lparr> contradictions := ?moot @ new \<rparr>" "c_id ` set new \<subseteq> range (dk_sibling_id dk)"
      using carry_all_ids [OF run] by auto
    have "c \<in> set ?moot \<longleftrightarrow> c \<in> set (contradictions db)" if "c_id c = k" for c
      by (rule update_where_other [where key = c_id and k = k]) (simp_all add: is_sibling_def that)
    moreover have "c \<notin> set new" if "c_id c = k" for c using new(2) assms(2) that by blast
    ultimately show ?thesis by (simp add: new(1))
  qed
  then show "promotions db' = promotions db" "memories db' = memories db" "isolated_projects db' = isolated_projects db"
    and "\<And>c. c_id c = k \<Longrightarrow> c \<in> set (contradictions db') \<longleftrightarrow> c \<in> set (contradictions db)" by blast+
qed

definition closed_by :: "desk \<Rightarrow> session \<Rightarrow> string \<Rightarrow> contradiction_row \<Rightarrow> bool" where
  "closed_by dk ses status c = (c_status c = status \<and> c_resolved_by c = Some (p_user_id (s_principal ses)) \<and> c_resolved_at c = Some (dk_now dk))"

lemma close_dispute_rows:
  assumes "close_dispute now ses k status msg db = (n, db')" "n \<noteq> 0" "status \<noteq> ''open''"
  shows "\<exists>c\<in>set (contradictions db'). sees_contradiction ses c \<and> c_id c = k \<and> c_status c = status
      \<and> c_resolved_by c = Some (p_user_id (s_principal ses)) \<and> c_resolved_at c = Some now"
    and "\<And>c. c \<in> set (contradictions db') \<Longrightarrow> sees_contradiction ses c \<Longrightarrow> c_id c = k \<Longrightarrow> c_status c \<noteq> ''open''"
proof -
  let ?hit = "\<lambda>c. sees_contradiction ses c \<and> c_id c = k \<and> c_status c = ''open''"
  let ?f = "\<lambda>c. c\<lparr> c_status := status, c_note := (case msg of Some n \<Rightarrow> Some (NText n) | None \<Rightarrow> c_note c),
      c_resolved_by := Some (p_user_id (s_principal ses)), c_resolved_at := Some now \<rparr>"
  have db': "contradictions db' = update_where ?hit ?f (contradictions db)" and "rows_affected ?hit (contradictions db) \<noteq> 0"
    using assms(1,2) by (auto simp: close_dispute_def Let_def)
  then obtain c where c: "c \<in> set (contradictions db)" "?hit c" by (auto simp: rows_affected_zero)
  then have "?f c \<in> set (contradictions db')" unfolding db' set_update_where by (intro image_eqI [of _ _ c]) auto
  moreover have "sees_contradiction ses (?f c)" "c_id (?f c) = k" using c(2) by (simp_all add: sees_contradiction_def)
  ultimately show "\<exists>c\<in>set (contradictions db'). sees_contradiction ses c \<and> c_id c = k \<and> c_status c = status
      \<and> c_resolved_by c = Some (p_user_id (s_principal ses)) \<and> c_resolved_at c = Some now"
    by (intro bexI [of _ "?f c"]) simp_all
  show "c_status x \<noteq> ''open''" if h: "x \<in> set (contradictions db')" "sees_contradiction ses x" "c_id x = k" for x
  proof -
    obtain y where y: "x = (if ?hit y then ?f y else y)" using h(1) unfolding db' set_update_where by blast
    show ?thesis
    proof (cases "?hit y")
      case True
      then show ?thesis using y assms(3) by simp
    next
      case False
      then have "x = y" using y by (simp only: if_False)
      then show ?thesis using False h(2,3) by blast
    qed
  qed
qed

lemma resolve_decision_status:
  "resolve_decision dk ses tn c body db = Some (Inr (status, settled, db1)) \<Longrightarrow> status \<noteq> ''open''"
  by (drule resolve_decision_Inr) auto

text \<open>An accepted resolution, told by its effects.\<close>

lemma resolve_effects:
  assumes "resolve_contradiction dk ses tn k body kn = (r, kn')" "accepted r" "k \<notin> range (dk_sibling_id dk)"
  obtains resp where "r = Some (Inr resp)" "rs_contradiction_id resp = k"
    "\<exists>c\<in>set (contradictions (s_corpus kn')). sees_contradiction ses c \<and> c_id c = k \<and> closed_by dk ses (rs_status resp) c"
    "\<And>c. c \<in> set (contradictions (s_corpus kn')) \<Longrightarrow> sees_contradiction ses c \<Longrightarrow> c_id c = k \<Longrightarrow> c_status c \<noteq> ''open''"
proof -
  obtain c status settled db1 n db2 siblings db3 lib where
    d: "resolve_decision dk ses tn c body (s_corpus kn) = Some (Inr (status, settled, db1))"
    "close_dispute (dk_now dk) ses k status (rb_note body) db1 = (n, db2)" "n \<noteq> 0"
    "settle_others dk ses k settled db2 = (siblings, db3)"
    "r = Some (Inr \<lparr> rs_contradiction_id = k, rs_status = status, rs_siblings_settled = map ss_contradiction_id siblings,
      rs_siblings_carried_forward = List.map_filter ss_carried_forward siblings \<rparr>)"
    "kn' = kn\<lparr> s_corpus := db3, k_library := lib \<rparr>"
    by (rule resolve_contradiction_accepted [OF assms(1,2)]) (rule that, assumption+)
  note rows = close_dispute_rows [OF d(2,3) resolve_decision_status [OF d(1)]]
    and same = settle_others_frame(4) [OF d(4) assms(3)]
  show ?thesis
  proof (rule that [OF d(5)])
    obtain x where x: "x \<in> set (contradictions db2)" "sees_contradiction ses x" "c_id x = k" "closed_by dk ses status x"
      using rows(1) by (auto simp: closed_by_def)
    then have "x \<in> set (contradictions (s_corpus kn'))" using same by (simp add: d(6))
    then show "\<exists>c\<in>set (contradictions (s_corpus kn')). sees_contradiction ses c \<and> c_id c = k \<and>
        closed_by dk ses (rs_status \<lparr> rs_contradiction_id = k, rs_status = status, rs_siblings_settled = map ss_contradiction_id siblings,
      rs_siblings_carried_forward = List.map_filter ss_carried_forward siblings \<rparr>) c"
      using x(2-4) by (intro bexI [of _ x]) simp_all
    show "c_status y \<noteq> ''open''" if "y \<in> set (contradictions (s_corpus kn'))" "sees_contradiction ses y" "c_id y = k" for y
      using rows(2) [of y] same [of y] that by (simp add: d(6))
  qed simp
qed

section \<open>The audit feed names every decision\<close>

lemma map_filter_Some_iff: "y \<in> set (List.map_filter f xs) \<longleftrightarrow> (\<exists>x\<in>set xs. f x = Some y)"
  by (force simp: List.map_filter_def)

definition decided_event :: "string \<Rightarrow> desk \<Rightarrow> session \<Rightarrow> audit_event \<Rightarrow> bool" where
  "decided_event kind dk ses e = (ae_kind e = kind \<and> ae_actor_id e = Some (p_user_id (s_principal ses)) \<and> ae_at e = dk_now dk)"

lemma review_event:
  assumes "review_one (dk_now dk) ses tn k accept db = (r, db')" "accepted r" "s_corpus st = db'"
  shows "\<exists>e\<in>set (audit_events created ses st). decided_event ''promotion_review'' dk ses e \<and> ae_id e = k
    \<and> ae_outcome e = (if accept then ''approved'' else ''denied'')"
proof -
  obtain pd decision status where pd: "actionable_promotion ses k db = Some (Inr pd)"
    "accept \<Longrightarrow> decision = ''approved'' \<and> memory_status_parse (pp_to_status pd) = Some status"
    "\<not> accept \<Longrightarrow> decision = ''denied'' \<and> status = MS_Rejected"
    "db' = snd (set_memory_status (dk_now dk) ses (pp_memory_id pd) status (snd (stamp_promotion (dk_now dk) ses k decision db)))"
    by (rule review_one_accepted [OF assms(1,2)]) (rule that, assumption+)
  obtain p where p: "p \<in> set (promotions db)" "sees_promotion ses p" "pr_id p = k" "is_pending p"
    by (rule actionable_promotion_Inr [OF pd(1)]) (rule that, assumption+)
  let ?f = "\<lambda>p. p\<lparr> pr_policy_decision := decision, pr_reviewer_id := Some (p_user_id (s_principal ses)), pr_reviewed_at := Some (dk_now dk) \<rparr>"
  let ?hit = "\<lambda>p. sees_promotion ses p \<and> pr_id p = k \<and> pr_reviewed_at p = None"
  have "promotions db' = update_where ?hit ?f (promotions db)"
    by (simp add: pd(4) set_memory_status_def stamp_promotion_def update_memory_def Let_def)
  moreover have "?hit p" using p by (simp add: is_pending_def)
  ultimately have q: "?f p \<in> set (promotions (s_corpus st))"
    using p(1) unfolding assms(3) by (auto simp: set_update_where intro!: image_eqI [of _ _ p])
  let ?e = "\<lparr> ae_kind = ''promotion_review'', ae_id = pr_id p, ae_memory_id = pr_memory_id p, ae_memory_b = None,
      ae_outcome = decision, ae_detail = Rationale (Some (pr_policy_rule p)),
      ae_actor_id = Some (p_user_id (s_principal ses)), ae_at = dk_now dk \<rparr>"
  have "?e \<in> set (promotion_events created ses (s_corpus st))"
    unfolding promotion_events_def set_map set_filter
    by (rule image_eqI [of _ _ "?f p"]) (use q p(2) in \<open>simp_all add: sees_promotion_def\<close>)
  then have "?e \<in> set (audit_events created ses st)" by (simp add: audit_events_def)
  moreover have "decision = (if accept then ''approved'' else ''denied'')" using pd(2,3) by simp
  ultimately show ?thesis using p(3) by (intro bexI [of _ ?e]) (simp_all add: decided_event_def)
qed

lemma dispute_event:
  assumes "c \<in> set (contradictions (s_corpus st))" "sees_contradiction ses c" "closed_by dk ses status c"
  shows "\<exists>e\<in>set (audit_events created ses st). decided_event ''contradiction_resolution'' dk ses e \<and> ae_id e = c_id c
    \<and> ae_outcome e = status"
proof -
  let ?e = "\<lparr> ae_kind = ''contradiction_resolution'', ae_id = c_id c, ae_memory_id = c_memory_a c, ae_memory_b = Some (c_memory_b c),
      ae_outcome = status, ae_detail = DisputeNote (c_note c), ae_actor_id = Some (p_user_id (s_principal ses)), ae_at = dk_now dk \<rparr>"
  have "?e \<in> set (dispute_events ses (s_corpus st))"
    unfolding dispute_events_def map_filter_Some_iff
    by (rule bexI [of _ c]) (use assms in \<open>simp_all add: closed_by_def\<close>)
  then have "?e \<in> set (audit_events created ses st)" by (simp add: audit_events_def)
  then show ?thesis by (rule bexI [rotated]) (simp add: decided_event_def)
qed

lemma claim_event_in_feed:
  assumes "f \<in> set (s_feedback st)" "sees_feedback ses f" "visible_id (s_corpus st) ses (fb_memory_id f)"
    and "fb_resolution f = Some res" "fb_resolved_by f = Some (p_user_id (s_principal ses))" "fb_resolved_at f = Some (dk_now dk)"
  shows "\<exists>e\<in>set (audit_events created ses st). decided_event ''feedback_resolution'' dk ses e \<and> ae_memory_id e = fb_memory_id f
    \<and> ae_outcome e = res"
proof -
  let ?fs = "answered_claims ses (s_corpus st) (s_feedback st)"
  have "f \<in> set ?fs" using assms by (simp add: answered_claims_def)
  then have "claim_event ?fs (claim_key f) \<in> set (audit_events created ses st)"
    by (simp add: audit_events_def claim_events_def Let_def)
  then show ?thesis
    by (rule bexI [rotated]) (simp add: decided_event_def claim_event_def claim_key_def Let_def assms)
qed

lemma resolve_claims_row:
  assumes "resolve_claims now ses k user res msg t = (n, t')" "n \<noteq> 0"
  shows "\<exists>f\<in>set t'. sees_feedback ses f \<and> fb_memory_id f = k \<and> fb_resolution f = Some res \<and> fb_resolved_by f = Some user
    \<and> fb_resolved_at f = Some now"
proof -
  let ?hit = "\<lambda>f. sees_feedback ses f \<and> fb_memory_id f = k \<and> open_claim f"
  let ?f = "\<lambda>f. f\<lparr> fb_resolution := Some res, fb_resolved_by := Some user, fb_resolved_at := Some now, fb_resolution_note := msg \<rparr>"
  have t': "t' = update_where ?hit ?f t" and "rows_affected ?hit t \<noteq> 0"
    using assms by (auto simp: resolve_claims_def Let_def)
  then obtain f where f: "f \<in> set t" "?hit f" by (auto simp: rows_affected_zero)
  then have "?f f \<in> set t'" unfolding t' set_update_where by (intro image_eqI [of _ _ f]) simp_all
  then show ?thesis using f(2) by (intro bexI [of _ "?f f"]) (simp_all add: sees_feedback_def)
qed

text \<open>An update of status and window hides nothing.\<close>

lemma visible_after_update:
  assumes "visible_id db ses k" "memories db' = update_where hit f (memories db)" "isolated_projects db' = isolated_projects db"
    and "\<And>m. m_id (f m) = m_id m" "\<And>m. sees_memory db ses (f m) = sees_memory db ses m"
  shows "visible_id db' ses k"
proof -
  obtain m where m: "m \<in> set (memories db)" "m_id m = k" "sees_memory db ses m"
    using assms(1) by (auto simp: visible_id_def list_ex_iff)
  let ?m = "if hit m then f m else m"
  have "?m \<in> set (memories db')" using m(1) by (simp add: assms(2) set_update_where)
  moreover have "m_id ?m = k" "sees_memory db ses ?m" using m assms(4,5) by simp_all
  moreover have "sees_memory db' ses x = sees_memory db ses x" for x using assms(3) by (simp add: sees_memory_def)
  ultimately show ?thesis by (auto simp: visible_id_def list_ex_iff)
qed

lemma extend_validity_visible:
  assumes "extend_validity now ses k n db = (Extended until, db')" "visible_id db ses j"
  shows "visible_id db' ses j"
proof -
  have db': "db' = db\<lparr> memories := update_where (\<lambda>m. sees_memory db ses m \<and> m_id m = k \<and> m_superseded_by m = None)
      (\<lambda>m. m\<lparr> m_valid_to := Some (now + days n), mr_updated_at := now \<rparr>) (memories db) \<rparr>"
    using assms(1) by (auto simp: extend_validity_def Let_def split: option.splits if_splits)
  show ?thesis
    by (rule visible_after_update [OF assms(2), where f = "\<lambda>m. m\<lparr> m_valid_to := Some (now + days n), mr_updated_at := now \<rparr>"])
      (simp_all add: db' sees_memory_def memories_read_def project_isolation_def Let_def cong: option.case_cong)
qed

lemma apply_deprecation_visible:
  assumes "apply_deprecation now ses i org k u rl db = (True, db')" "visible_id db ses j"
  shows "visible_id db' ses j"
proof -
  have mem: "memories db' = update_where (\<lambda>m. sees_memory db ses m \<and> m_id m = k \<and> m_status m \<noteq> MS_Deprecated)
      (\<lambda>m. m\<lparr> m_status := MS_Deprecated, m_valid_to := Some now, mr_updated_at := now \<rparr>) (memories db)"
    and iso: "isolated_projects db' = isolated_projects db"
    using assms(1) by (auto simp: apply_deprecation_def Let_def split: option.splits if_splits)
  show ?thesis
    by (rule visible_after_update [OF assms(2) mem iso])
      (simp_all add: sees_memory_def memories_read_def project_isolation_def Let_def cong: option.case_cong)
qed

lemma answer_claims_visible:
  assumes "answer_claims now i ses row body db = Inr (v, db')" "visible_id db ses j"
  shows "visible_id db' ses j"
  using assms extend_validity_visible apply_deprecation_visible unfolding answer_claims_def Let_def
  by (auto split: if_splits prod.splits extend_outcome.splits bool.splits)

lemma supersede_retires:
  assumes "keys_ok db" "supersede_decision dk ses tn a b w db = Some (Inr ((loser, winner), db1))"
  shows "w = Some winner" "{loser, winner} = {a, b}"
    and "\<exists>m\<in>set (memories db1). m_id m = loser \<and> m_superseded_by m = Some winner"
    and "\<And>m. m \<in> set (memories db1) \<Longrightarrow> m_id m = loser \<Longrightarrow> m_superseded_by m = Some winner"
proof -
  obtain l' w' m where "w = Some w'" "(loser, winner) = (l', w')" "w' = a \<and> l' = b \<or> w' = b \<and> l' = a \<and> w' \<noteq> a"
    "find (\<lambda>m. sees_memory db ses m \<and> m_id m = l') (memories db) = Some m"
    "m_superseded_by m = Some w' \<and> db1 = db \<or>
      apply_supersession (dk_now dk) ses (dk_audit_id dk) (p_org_id (s_principal ses)) l' w'
        (Some (p_user_id (s_principal ses))) ''contradiction_supersede'' db = (True, db1)"
    by (rule supersede_decision_Inr [OF assms(2)]) (rule that, assumption+)
  then have p: "w = Some winner" "winner = a \<and> loser = b \<or> winner = b \<and> loser = a"
    "find (\<lambda>m. sees_memory db ses m \<and> m_id m = loser) (memories db) = Some m"
    and d: "m_superseded_by m = Some winner \<and> db1 = db \<or>
      apply_supersession (dk_now dk) ses (dk_audit_id dk) (p_org_id (s_principal ses)) loser winner
        (Some (p_user_id (s_principal ses))) ''contradiction_supersede'' db = (True, db1)" by auto
  show "w = Some winner" "{loser, winner} = {a, b}" using p by auto
  have m: "m \<in> set (memories db)" "m_id m = loser" using p(3) by (auto simp: find_Some_iff)
  have "(\<exists>m\<in>set (memories db1). m_id m = loser \<and> m_superseded_by m = Some winner) \<and>
    (\<forall>m\<in>set (memories db1). m_id m = loser \<longrightarrow> m_superseded_by m = Some winner)"
    using d
  proof (elim disjE conjE)
    assume "m_superseded_by m = Some winner" "db1 = db"
    then show ?thesis using m found_row [OF assms(1) p(3)] by blast
  next
    assume a: "apply_supersession (dk_now dk) ses (dk_audit_id dk) (p_org_id (s_principal ses)) loser winner
        (Some (p_user_id (s_principal ses))) ''contradiction_supersede'' db = (True, db1)"
    then obtain l w where g: "supersession_guard ses loser winner db l w"
      and db1: "db1 = write_supersession (dk_now dk) ses (dk_audit_id dk) (p_org_id (s_principal ses)) loser winner (m_status l)
        (Some (p_user_id (s_principal ses))) ''contradiction_supersede'' db"
      using apply_supersession_True [OF assms(1), of "dk_now dk" ses "dk_audit_id dk" "p_org_id (s_principal ses)" loser winner
        "Some (p_user_id (s_principal ses))" "''contradiction_supersede''"] by auto
    let ?f = "\<lambda>x. if m_id x = loser then retire (dk_now dk) winner x else x"
    have st: "set (memories db1) = ?f ` set (memories db)"
      unfolding db1 write_supersession_memories [OF assms(1) g] set_update_where ..
    have "?f m \<in> set (memories db1)" unfolding st using m(1) by (rule imageI)
    moreover have "m_id (?f m) = loser" "m_superseded_by (?f m) = Some winner" using m(2) by simp_all
    moreover have "m_superseded_by x = Some winner" if h: "x \<in> set (memories db1)" "m_id x = loser" for x
    proof -
      obtain y where y: "x = ?f y" using h(1) unfolding st by (rule imageE)
      then show ?thesis using h(2) by (cases "m_id y = loser") simp_all
    qed
    ultimately show ?thesis by blast
  qed
  then show "\<exists>m\<in>set (memories db1). m_id m = loser \<and> m_superseded_by m = Some winner"
    and "\<And>m. m \<in> set (memories db1) \<Longrightarrow> m_id m = loser \<Longrightarrow> m_superseded_by m = Some winner" by blast+
qed

text \<open>After a supersession no open dispute of the organisation names the loser.\<close>

lemma supersession_leaves_no_dispute:
  assumes keys: "keys_ok (s_corpus kn)" and res: "resolve_contradiction dk ses tn k body kn = (r, kn')" "accepted r"
    and fresh: "k \<notin> range (dk_sibling_id dk)" and sup: "rb_resolution body = ''supersede''"
  shows "\<exists>loser winner. rb_winner_memory_id body = Some winner \<and>
    (\<exists>m\<in>set (memories (s_corpus kn')). m_id m = loser \<and> m_superseded_by m = Some winner) \<and>
    (\<forall>c\<in>set (contradictions (s_corpus kn')). sees_contradiction ses c \<and> c_status c = ''open'' \<longrightarrow>
      c_memory_a c \<noteq> loser \<and> c_memory_b c \<noteq> loser)"
proof -
  obtain c status settled db1 n db2 siblings db3 lib where
    d: "resolve_decision dk ses tn c body (s_corpus kn) = Some (Inr (status, settled, db1))"
    "close_dispute (dk_now dk) ses k status (rb_note body) db1 = (n, db2)"
    "settle_others dk ses k settled db2 = (siblings, db3)" "kn' = kn\<lparr> s_corpus := db3, k_library := lib \<rparr>"
    by (rule resolve_contradiction_accepted [OF res]) (rule that, assumption+)
  have "\<exists>pair. settled = Some pair \<and> supersede_decision dk ses tn (c_memory_a c) (c_memory_b c) (rb_winner_memory_id body) (s_corpus kn)
      = Some (Inr (pair, db1))"
    using resolve_decision_Inr [OF d(1)] sup by auto
  then obtain loser winner where s: "settled = Some (loser, winner)"
    "supersede_decision dk ses tn (c_memory_a c) (c_memory_b c) (rb_winner_memory_id body) (s_corpus kn) = Some (Inr ((loser, winner), db1))"
    by (metis surj_pair)
  note ret = supersede_retires [OF keys s(2)]
  have mem2: "memories db2 = memories db1" and keys2: "keys_ok db2"
    using close_dispute_frame(1) close_dispute_keys [OF resolve_decision_moves(2) [OF keys d(1)]] d(2) by (metis snd_conv)+
  have run: "settle_siblings_of_superseded (dk_now dk) ses (dk_sibling_id dk) (p_org_id (s_principal ses)) loser winner k
      (Some (p_user_id (s_principal ses))) db2 = (siblings, db3)"
    using d(3) by (simp add: settle_others_def s(1))
  have gone: "\<forall>m\<in>set (memories db2). m_id m = loser \<longrightarrow> \<not> standing db2 ses m"
    using ret(4) by (auto simp: mem2 standing_def)
  have mem3: "memories db3 = memories db1" using settle_others_frame(2) [OF d(3) fresh] mem2 by simp
  obtain resp where closed: "\<And>c. c \<in> set (contradictions (s_corpus kn')) \<Longrightarrow> sees_contradiction ses c \<Longrightarrow> c_id c = k \<Longrightarrow> c_status c \<noteq> ''open''"
    by (rule resolve_effects [OF res fresh]) (rule that, assumption+)
  have "c_memory_a x \<noteq> loser \<and> c_memory_b x \<noteq> loser"
    if x: "x \<in> set (contradictions (s_corpus kn'))" "sees_contradiction ses x" "c_status x = ''open''" for x
  proof -
    have "c_id x \<noteq> k" using closed x by blast
    moreover have "x \<in> set (contradictions db3)" using x(1) by (simp add: d(4))
    then have "\<not> is_sibling ses (p_org_id (s_principal ses)) loser k x"
      by (rule settle_siblings_none_left [OF keys2 run gone])
    ultimately show ?thesis using x(2,3) by (auto simp: is_sibling_def sees_contradiction_def)
  qed
  then show ?thesis using ret(1,3) mem3 by (auto simp: d(4))
qed

lemma resolved_is_not_found:
  assumes "\<And>c. c \<in> set (contradictions (s_corpus kn)) \<Longrightarrow> sees_contradiction ses c \<Longrightarrow> c_id c = k \<Longrightarrow> c_status c \<noteq> ''open''"
  shows "resolve_contradiction dk ses tn k body kn = (Some (Inl (NotFoundError ''contradiction not found or not open'')), kn)"
proof -
  have "find (\<lambda>c. sees_contradiction ses c \<and> c_id c = k \<and> c_status c = ''open'') (contradictions (s_corpus kn)) = None"
    using assms by (auto simp: find_None_iff)
  then show ?thesis by (simp add: resolve_contradiction_def)
qed

lemma other_resolutions_touch_nothing:
  assumes res: "resolve_contradiction dk ses tn k body kn = (r, kn')" "accepted r" and other: "rb_resolution body \<noteq> ''supersede''"
  shows "memories (s_corpus kn') = memories (s_corpus kn)" "promotions (s_corpus kn') = promotions (s_corpus kn)" "k_library kn' = k_library kn"
proof -
  obtain c status settled db1 n db2 siblings db3 lib where
    d: "resolve_decision dk ses tn c body (s_corpus kn) = Some (Inr (status, settled, db1))"
    "close_dispute (dk_now dk) ses k status (rb_note body) db1 = (n, db2)"
    "settle_others dk ses k settled db2 = (siblings, db3)"
    "mine_settled dk ses settled (case rb_note body of Some n \<Rightarrow> Some n | None \<Rightarrow> map_option (dk_note_text dk) (c_note c)) db3
      (k_library kn) = Some lib" "kn' = kn\<lparr> s_corpus := db3, k_library := lib \<rparr>"
    by (rule resolve_contradiction_accepted [OF res]) (rule that, assumption+)
  have s: "settled = None" "db1 = s_corpus kn" using resolve_decision_Inr [OF d(1)] other by auto
  then have "db3 = db2" "lib = k_library kn" using d(3,4) by (simp_all add: settle_others_def mine_settled_def)
  moreover have "memories db2 = memories db1" "promotions db2 = promotions db1"
    using close_dispute_frame(1,2) d(2) by (metis snd_conv)+
  ultimately show "memories (s_corpus kn') = memories (s_corpus kn)" "promotions (s_corpus kn') = promotions (s_corpus kn)"
    "k_library kn' = k_library kn" using s(2) by (simp_all add: d(5))
qed

section \<open>Bulk review is single reviews\<close>

text \<open>The answers of the single requests, in order.\<close>

fun one_by_one :: "(uuid \<Rightarrow> instant) \<Rightarrow> session \<Rightarrow> tenancy \<Rightarrow> bool \<Rightarrow> uuid list \<Rightarrow> corpus \<Rightarrow> review_decision handled list" where
  "one_by_one clock ses tn accept [] db = []"
| "one_by_one clock ses tn accept (k # ks) db =
    fst (review_one (clock k) ses tn k accept db) #
      one_by_one clock ses tn accept ks (snd (review_one (clock k) ses tn k accept db))"

lemma review_each_single:
  "review_each clock ses tn accept ks db = (Some rows, db') \<Longrightarrow>
    db' = fold (\<lambda>k db. snd (review_one (clock k) ses tn k accept db)) ks db \<and>
    map Some rows = map2 (\<lambda>k r. map_option (bulk_row_of k) r) ks (one_by_one clock ses tn accept ks db)"
proof (induction ks arbitrary: db rows)
  case (Cons k ks)
  obtain r db1 where r: "review_one (clock k) ses tn k accept db = (Some r, db1)"
    using Cons.prems by (auto split: prod.splits option.splits)
  obtain rest where rest: "review_each clock ses tn accept ks db1 = (Some rest, db')" "rows = bulk_row_of k r # rest"
    using Cons.prems r by (auto split: prod.splits)
  show ?case using Cons.IH [OF rest(1)] by (simp add: r rest(2))
qed simp

lemma first_occurrences_set: "set (first_occurrences xs) = set xs" "distinct (first_occurrences xs)"
  using fold_insert_or_ignore_keys [of "\<lambda>x. x" xs "[]"] fold_insert_or_ignore_distinct [of "\<lambda>x. x" "[]" xs]
  by (simp_all add: first_occurrences_def)

lemma bulk_row_ok: "br_ok (bulk_row_of k r) \<longleftrightarrow> accepted (Some r)"
  by (cases r) (simp_all add: bulk_row_of_def)

lemma length_one_by_one [simp]: "length (one_by_one clock ses tn accept ks db) = length ks"
  by (induction ks arbitrary: db) simp_all

lemma decided_rows:
  "map Some rows = map2 (\<lambda>k r. map_option (bulk_row_of k) r) ks rs \<Longrightarrow> length rs = length ks \<Longrightarrow>
    length (filter br_ok rows) = length (filter accepted rs)"
proof (induction rows arbitrary: ks rs)
  case (Cons row rows)
  then obtain k ks' r rs' where "ks = k # ks'" "rs = Some r # rs'" "row = bulk_row_of k r"
    by (cases ks; cases rs; cases "hd rs") auto
  then show ?case using Cons by (simp add: bulk_row_ok)
qed auto

lemma resolved_status:
  assumes "resolve_contradiction dk ses tn k body kn = (Some (Inr resp), kn')" "accepted (Some (Inr resp) :: resolve_response handled)"
  shows "rs_status resp \<in> {''resolved_supersede'', ''resolved_coexist'', ''dismissed''}"
proof -
  obtain c status settled db1 and siblings :: "settled_sibling list" where d: "resolve_decision dk ses tn c body (s_corpus kn) = Some (Inr (status, settled, db1))"
    "(Some (Inr resp) :: resolve_response handled) = Some (Inr \<lparr> rs_contradiction_id = k, rs_status = status, rs_siblings_settled = map ss_contradiction_id siblings,
      rs_siblings_carried_forward = List.map_filter ss_carried_forward siblings \<rparr>)"
    by (rule resolve_contradiction_accepted [OF assms]) (rule that, assumption+)
  then show ?thesis using resolve_decision_Inr [OF d(1)] by auto
qed

lemma found_is_visible:
  "find (\<lambda>m. sees_memory db ses m \<and> m_id m = k) (memories db) = Some m \<Longrightarrow> visible_id db ses k"
  by (auto simp: visible_id_def list_ex_iff find_Some_iff)

lemma answered_event:
  assumes "resolve_claims (dk_now dk) ses k (p_user_id (s_principal ses)) res msg t = (n, fb)" "n \<noteq> 0"
    and "s_feedback st = fb" "visible_id (s_corpus st) ses k"
  shows "\<exists>e\<in>set (audit_events created ses st). decided_event ''feedback_resolution'' dk ses e \<and> ae_memory_id e = k \<and> ae_outcome e = res"
proof -
  obtain f where "f \<in> set (s_feedback st)" "sees_feedback ses f" "fb_memory_id f = k" "fb_resolution f = Some res"
    "fb_resolved_by f = Some (p_user_id (s_principal ses))" "fb_resolved_at f = Some (dk_now dk)"
    using resolve_claims_row [OF assms(1,2)] assms(3) by blast
  then show ?thesis using claim_event_in_feed [of f st ses res dk created] assms(4) by simp
qed

section \<open>Examples\<close>

text \<open>
  User 5 maintains team 7 of organisation 1.  Memory 1 waits for its promotion (11), memory 3 is disputed
  with it, memory 4 belongs to no team and waits for its own (12).
\<close>

definition example_pending :: "uuid \<Rightarrow> uuid \<Rightarrow> promotion_row" where
  "example_pending k m =
    \<lparr> pr_id = k, pr_org_id = 1, pr_memory_id = m, pr_from_status = ''candidate'', pr_to_status = ''canonical'',
       pr_policy_decision = ''needs_review'', pr_policy_rule = ''manual'', pr_reviewer_id = None, pr_reviewed_at = None \<rparr>"

definition example_gate :: knowledge where
  "example_gate = example_knowledge\<lparr>
     s_corpus := example_corpus\<lparr> memories :=
         [example_row 1 Vis_Org MS_Candidate, example_row 3 Vis_Org MS_Canonical,
          (example_row 4 Vis_Org MS_Candidate)\<lparr> m_team_id := None \<rparr>],
       contradictions := [example_dispute 10 1 3],
       promotions := [example_pending 11 1, example_pending 12 4] \<rparr>,
     s_feedback := [(example_helpful 1 1 1)\<lparr> fb_verdict := ''wrong'' \<rparr>], k_library := empty_library \<rparr>"

definition example_team :: tenancy where
  "example_team = \<lparr> org_rows = [(1, ''o'')], user_rows = [], team_rows = [\<lparr> tm_id = 7, tm_org_id = 1, tm_name = ''t'' \<rparr>],
     member_rows = [\<lparr> mb_team_id = 7, mb_user_id = 5, mb_role = ''maintainer'' \<rparr>], identity_rows = [], token_rows = [] \<rparr>"

definition example_desk :: desk where
  "example_desk = \<lparr> dk_now = 100, dk_audit_id = 13, dk_sibling_id = (\<lambda>k. 20 + k), dk_draw = (\<lambda>k. 30 + k), dk_window = 90,
     dk_short_id = show_nat, dk_note_text = (\<lambda>_. ''n'') \<rparr>"

definition supersede_with :: "uuid \<Rightarrow> resolve_body" where
  "supersede_with w = \<lparr> rb_resolution = ''supersede'', rb_winner_memory_id = Some w, rb_note = None \<rparr>"

lemma example_gate_keys: "keys_ok (s_corpus example_gate)"
  by code_simp

lemma example_desk_fresh: "10 \<notin> range (dk_sibling_id example_desk)"
  by (auto simp: example_desk_def)

lemma example_resolved: "accepted (fst (resolve_contradiction example_desk example_session example_team 10 (supersede_with 3) example_gate))"
  by code_simp

section \<open>Properties\<close>

text \<open>
  C3: The gates move only what the caller may move.  A request that is refused, or that panics, leaves every
  table as it was; an accepted one changes no memory except rows the caller sees and may decide on - as a
  maintainer of the owning team, or of any team for a memory without one.  Re-verification is the exception: it
  lets every caller with write scope through for a memory without a team.
\<close>

theorem gates_move_only_what_the_caller_may:
  assumes "keys_ok (s_corpus kn)" "gate_step dk ses tn rq kn = (ok, kn')"
  shows "(\<not> ok \<longrightarrow> kn' = kn) \<and>
    list_all2 (\<lambda>m m'. m' = m \<or> (m_id m' = m_id m \<and> sees_memory (s_corpus kn) ses m \<and>
        (may_answer ses tn m \<or> (m_team_id m = None \<and> (\<exists>k n. rq = Reverify k n)))))
      (memories (s_corpus kn)) (memories (s_corpus kn'))"
  using gate_step_moves [OF assms] gate_step_refused [of dk ses tn rq kn kn'] assms(2)
  unfolding moved_by_def may_touch_def by (cases ok) simp_all

lemma gates_move_only_what_the_caller_may_witness:
  "fst (gate_step example_desk example_session example_team (ReviewPromotion 11 True) example_gate) \<and>
   list_all2 (\<lambda>m m'. m' = m \<or> (m_id m' = m_id m \<and> sees_memory (s_corpus example_gate) example_session m \<and>
        (may_answer example_session example_team m \<or> (m_team_id m = None \<and> (\<exists>k n. ReviewPromotion 11 True = Reverify k n)))))
      (memories (s_corpus example_gate))
      (memories (s_corpus (snd (gate_step example_desk example_session example_team (ReviewPromotion 11 True) example_gate))))"
proof
  show "fst (gate_step example_desk example_session example_team (ReviewPromotion 11 True) example_gate)" by code_simp
qed (rule conjunct2 [OF gates_move_only_what_the_caller_may [OF example_gate_keys surjective_pairing]])





text \<open>
  C17: A batch is exactly its single reviews.  The ids are the distinct ones of the request, each is decided in
  the state the one before left, every row carries the answer its own request would have got, and the two
  counters count them.
\<close>

theorem bulk_is_single_reviews:
  assumes "bulk_batch clock accept ids ses tn db = (Some (Inr resp), db')"
  shows "\<exists>ks. distinct ks \<and> set ks = set ids \<and>
    db' = fold (\<lambda>k db. snd (review_one (clock k) ses tn k accept db)) ks db \<and>
    map Some (bk_results resp) = map2 (\<lambda>k r. map_option (bulk_row_of k) r) ks (one_by_one clock ses tn accept ks db) \<and>
    bk_decided resp = length (filter accepted (one_by_one clock ses tn accept ks db)) \<and>
    bk_decided resp + bk_failed resp = length ks"
proof -
  let ?ks = "first_occurrences ids"
  obtain rows where rows: "review_each clock ses tn accept ?ks db = (Some rows, db')"
    "resp = \<lparr> bk_decided = length (filter br_ok rows), bk_failed = length rows - length (filter br_ok rows), bk_results = rows \<rparr>"
    using assms by (auto simp: bulk_batch_def Let_def split: prod.splits option.splits)
  note each = review_each_single [OF rows(1)]
  have len: "length rows = length ?ks" using arg_cong [OF conjunct2 [OF each], of length] by simp
  have "length (filter br_ok rows) = length (filter accepted (one_by_one clock ses tn accept ?ks db))"
    by (rule decided_rows [OF conjunct2 [OF each]]) simp
  moreover have "length (filter br_ok rows) \<le> length rows" by (rule length_filter_le)
  ultimately have "bk_decided resp = length (filter accepted (one_by_one clock ses tn accept ?ks db))"
    "bk_decided resp + bk_failed resp = length ?ks" using len by (simp_all add: rows(2))
  moreover have "map Some (bk_results resp) = map2 (\<lambda>k r. map_option (bulk_row_of k) r) ?ks (one_by_one clock ses tn accept ?ks db)"
    using each by (simp add: rows(2))
  ultimately show ?thesis using conjunct1 [OF each] first_occurrences_set [of ids] by blast
qed

lemma bulk_is_single_reviews_witness:
  "\<exists>resp db'. bulk_batch (\<lambda>_. 100) True [11, 14, 11] example_session example_team (s_corpus example_gate) = (Some (Inr resp), db') \<and>
    bk_decided resp + bk_failed resp = 2"
proof -
  let ?b = "bulk_batch (\<lambda>_. 100) True [11, 14, 11] example_session example_team (s_corpus example_gate)"
  have "map_option (\<lambda>r. case r of Inl _ \<Rightarrow> False | Inr _ \<Rightarrow> True) (fst ?b) = Some True" by code_simp
  then obtain z where z: "fst ?b = Some z" "case z of Inl _ \<Rightarrow> False | Inr _ \<Rightarrow> True" by (cases "fst ?b") auto
  then obtain resp where "fst ?b = Some (Inr resp)" by (cases z) auto
  then have b: "?b = (Some (Inr resp), snd ?b)" by (metis prod.collapse)
  then obtain ks :: "uuid list" where "distinct ks" "set ks = set [11, 14, 11]" "bk_decided resp + bk_failed resp = length ks"
    using bulk_is_single_reviews [OF b] by blast
  moreover from this have "length ks = card (set [11, 14, 11 :: uuid])" using distinct_card [of ks] by simp
  moreover have "card (set [11, 14, 11 :: uuid]) = 2" by (simp add: card_insert_if)
  ultimately show ?thesis using b by (intro exI [of _ resp] exI [of _ "snd ?b"]) simp
qed




end
