(* ===== verification/Spec2Isabelle.thy ===== *)
theory Spec2Isabelle
  imports Temporal Fusion Scoring Health Lexical Metrics Redact Queue Governance Retrieval Standards Skills Onboarding Breaker Graph Worker Mining Gates
begin

text \<open>
  Brainiac keeps what an organisation knows.  Agents and people send it text; a pipeline of model calls
  turns the text into small statements (memories) with entities and relations; memories move through a
  governance lifecycle (raw, candidate, canonical, deprecated, rejected); a hybrid search serves them under
  row-level security; pages are composed from the canonical ones; a Library of ratified rules and skills
  sits on top.  This development models the decision-making code of the Rust workspace under
  \<^verbatim>\<open>src/crates\<close> and states what makes it correct.

  \<^bold>\<open>How the parts interact.\<close>  A bearer token (\<open>Tenancy\<close>, issued by the pairing of \<open>Onboarding\<close>) becomes a
  session, the \<open>session\<close> record every statement runs under (\<open>Corpus\<close>).  A source is queued (\<open>Queue\<close>); the
  tick of \<open>Worker\<close> claims it and runs \<open>Extract\<close> (after \<open>Redact\<close>), then the stages of \<open>Pipeline\<close> (entity
  resolution, contradiction detection, promotion policy) over \<open>Memories\<close>, \<open>Entities\<close> and \<open>Governance\<close>;
  the model calls go through \<open>Breaker\<close>.  \<open>Retrieval\<close> fuses (\<open>Fusion\<close>), reranks (\<open>Lexical\<close>), collapses
  supersession chains (\<open>Temporal\<close>) and scores (\<open>Scoring\<close>) what a session may see, with the readers'
  \<open>Feedback\<close>.  \<open>Compose\<close> binds the sections of a page to such memories, checks the citations
  (\<open>Citations\<close>) and hands a revision to \<open>Documents\<close>.  \<open>Standards\<close> and \<open>Skills\<close> are the Library; \<open>Mining\<close>
  proposes rules to it.  Where the policies ask for a human, the maintainers decide through \<open>Reviews\<close>, whose
  handlers call \<open>Governance\<close>, \<open>Feedback\<close>, \<open>Memories\<close> and \<open>Mining\<close>.

  \<^bold>\<open>Theories and sources.\<close>  Crates: \<open>core\<close>, \<open>store\<close>, \<open>pipeline\<close>, \<open>gateway\<close>, \<open>server\<close> stand for
  \<^verbatim>\<open>src/crates/brainiac-<name>/src\<close>.
  \<^item> \<open>Prelude\<close>, \<open>Text\<close>, \<open>Tables\<close>, \<open>Numbers\<close>: names of the basic types, the locale \<open>vocabulary\<close> of typed
    enumerations, stable sorting, the string and number operations of the Rust library, the SQL statements
    over a table kept as a list of rows.
  \<^item> \<open>Types\<close>: \<^verbatim>\<open>core/types.rs\<close>, \<^verbatim>\<open>core/library.rs\<close>; every enumeration interprets \<open>vocabulary\<close>.
  \<^item> \<open>Temporal\<close>, \<open>Fusion\<close>, \<open>Scoring\<close>, \<open>Health\<close>, \<open>Lexical\<close>, \<open>Metrics\<close>, \<open>Redact\<close>: the modules of \<open>core\<close> of
    the same names (\<open>Lexical\<close>: \<^verbatim>\<open>rerank.rs\<close> and \<^verbatim>\<open>embed.rs\<close>).
  \<^item> \<open>Queue\<close>: \<^verbatim>\<open>store/queue.rs\<close>; \<open>queue_db\<close> holds \<open>queue.jobs\<close> and \<open>queue.archive\<close>, \<open>queue_step\<close> its runs.
  \<^item> \<open>Corpus\<close>: the rows of memories, sources, provenance, promotions, contradictions and documents and the
    policies of the migrations; \<open>Documents\<close>, \<open>Governance\<close>, \<open>Entities\<close>, \<open>Memories\<close>, \<open>Feedback\<close>,
    \<open>Retrieval\<close>: the modules of \<open>store\<close> of the same names over the record \<open>corpus\<close>, \<open>graph_db\<close>,
    \<open>embedding_db\<close> and \<open>feedback_tab\<close>, together \<open>store\<close>.
  \<^item> \<open>Standards\<close>, \<open>Skills\<close>: \<^verbatim>\<open>store/library\<close> over \<open>library_db\<close> and \<open>skill_db\<close>.
  \<^item> \<open>Projects\<close>, \<open>Tenancy\<close>, \<open>Onboarding\<close>: registry, organisations, identities, keys and device pairing, the
    modules of \<open>store\<close> and the handlers of \<open>server\<close> that drive them, over \<open>registry\<close>, \<open>tenancy\<close>, \<open>deployment\<close>.
  \<^item> \<open>Breaker\<close>: \<^verbatim>\<open>gateway/resilience.rs\<close>, the breaker and the retry loop.
  \<^item> \<open>Citations\<close>, \<open>Compose\<close>: \<^verbatim>\<open>pipeline/compose.rs\<close>, \<^verbatim>\<open>standards_page.rs\<close> and the compose loop of
    \<^verbatim>\<open>worker.rs\<close>, over \<open>knowledge\<close>, the store with the Library.
  \<^item> \<open>Manual\<close>, \<open>Extract\<close>, \<open>Pipeline\<close>, \<open>Graph\<close>, \<open>Worker\<close>: \<^verbatim>\<open>pipeline/manual.rs\<close>, \<^verbatim>\<open>extract.rs\<close>,
    \<^verbatim>\<open>policy.rs\<close>, \<^verbatim>\<open>resolve.rs\<close>, \<^verbatim>\<open>contradict.rs\<close>, \<^verbatim>\<open>worker.rs\<close>; \<open>Graph\<close> is the typing of what is written.
  \<^item> \<open>Mining\<close>: \<^verbatim>\<open>pipeline/library_sweep.rs\<close>.
  \<^item> \<open>Reviews\<close>, \<open>Gates\<close>: the human gates of \<^verbatim>\<open>server/console.rs\<close> (promotion reviews, bulk reviews, dispute
    resolution, feedback claims, re-verification, the expiry queue, the audit feed); \<open>Reviews\<close> holds the
    handlers, over the corpus, \<open>tenancy\<close> and the Library, \<open>Gates\<close> what they guarantee.

  \<^bold>\<open>What the lemmas show.\<close>  State machines are step relations with invariants by rule induction (the queue
  never loses or duplicates a job, pairing mints one key, rules and skills only move forward and stay
  attributed, a breaker admits one probe per cooldown and refines an abstract circuit).  Operations have their
  effect on every branch (supersession, revision, settlement of sibling disputes, extraction, resolution,
  promotion, mining, the
  review gates).  Search, pages and skills have their firewall: nothing a session may not see, nothing
  ungoverned, nothing unsigned.  Optimised routines equal a reference (chunking, fusion, deduplication),
  formats have round trips, loops have bounds and end.  Errors are values: \<open>None\<close> or \<open>Inl\<close> where the code
  fails, panics or rolls back.

  \<^bold>\<open>Interfaces.\<close>  The locale \<open>vocabulary\<close> (a typed enumeration stored as a string) is interpreted on every
  enumeration of \<open>Types\<close>; \<open>comparator\<close> and \<open>order_comparator\<close> (what \<open>sort_by\<close> needs) on the orders the
  code sorts by; \<open>reranker\<close> on the lexical reranker; \<open>settling\<close> (a claimed job ends acknowledged) on the
  worker's own run of a job.

  \<^bold>\<open>Parameters.\<close>  What is not in the repository is an argument: the embedder and the chat provider (partial
  functions), the cross-encoder, the vector distance and the text rank of PostgreSQL, serde's readers, the
  regular expression engine, SHA-256, the uuid and float printers, fresh ids and clock values.  What the code
  relies on of them is a named hypothesis of the theorem that needs it, with a witness at a concrete instance.

  \<^bold>\<open>Conventions and bounds.\<close>  A uuid is a natural number, an instant an integer number of seconds, a text a list
  of ASCII characters (other characters are their UTF-8 bytes).  \<open>f32\<close> and \<open>f64\<close> are exact rationals or reals:
  literals are read as decimals, rounding is not modelled.  Integers with a width keep it where it matters
  (breaker exponents, run counts, attempts).  There is no fuel: recursion is structural or has a
  measure (the retry loop counts its attempts, the chunker what is left of the text).  \<open>FOR UPDATE\<close>
  and \<open>SKIP LOCKED\<close> make a store function one atomic step, and the jobs of a tick are taken one after another,
  in any order; interleavings inside one transaction are not modelled.

  \<^bold>\<open>Not modelled.\<close>  The HTTP and MCP routers, the console's lists and dashboards, OpenAPI, the command line and the daemon
  loops (input and output around the store functions modelled here); the publishers and the OKF importer
  (rendering and network); provider clients; the evaluation and fixture crates (test harness); archive listings,
  retrieval-event analytics, re-embedding, divergence detection and the faithfulness judge (mostly SQL
  aggregation or model prompts).  PROJECT.json lists each with its reason.
\<close>

end
